(* ===== verification/Prelude.thy ===== *)
theory Prelude
  imports Main "HOL-Library.Word"
begin

text \<open>
  Shared ground of the development: the integer and time types of the compositor, the
  arithmetic of the Rust standard library that the components use (saturating, checked and
  clamping operations), ordered containers, and the generic lemmas on lists, options and sums
  that the component proofs rest on.

  \<^item> \<open>u8\<close>, \<open>u32\<close>, \<open>u64\<close> are machine words: \<open>+\<close> and \<open>-\<close> wrap as \<open>wrapping_add\<close> and
    \<open>wrapping_sub\<close> do, and \<open><\<close> is the unsigned order.
  \<^item> \<open>i32\<close> and \<open>i64\<close> values are mathematical integers; where the code saturates or casts,
    \<open>sat_i32\<close> and its kin write the bounds out.
  \<^item> \<open>Instant\<close> is a point in time in nanoseconds (an integer, the origin is the clock's),
    \<open>Duration\<close> a natural number of nanoseconds.
  \<^item> \<open>BTreeSet\<close> and \<open>BTreeMap\<close> are sets and maps with a finite domain; iteration goes through
    \<open>set_iter\<close> and \<open>map_iter\<close>, which list the elements in ascending order as Rust does.
\<close>

named_theorems result_simps \<open>unfolding rules for result and option pipelines\<close>
named_theorems arith_defs \<open>definitions of the saturating and clamping operations\<close>

section \<open>Types\<close>

type_synonym u8 = "8 word"
type_synonym u32 = "32 word"
type_synonym u64 = "64 word"
type_synonym output_id = "64 word"
type_synonym instant = int
type_synonym duration = nat

section \<open>Integer operations of the standard library\<close>

abbreviation i32_min :: int where "i32_min \<equiv> - 2147483648"
abbreviation i32_max :: int where "i32_max \<equiv> 2147483647"
abbreviation i64_max :: int where "i64_max \<equiv> 9223372036854775807"
abbreviation u32_max :: int where "u32_max \<equiv> 4294967295"
abbreviation usize_max :: nat where "usize_max \<equiv> 18446744073709551615"

definition clamp :: "'a::linorder \<Rightarrow> 'a \<Rightarrow> 'a \<Rightarrow> 'a" where
  "clamp x lo hi = (if x < lo then lo else if hi < x then hi else x)"

definition sat_i32 :: "int \<Rightarrow> int" where
  "sat_i32 x = max i32_min (min i32_max x)"

definition is_i32 :: "int \<Rightarrow> bool" where
  "is_i32 x \<longleftrightarrow> i32_min \<le> x \<and> x \<le> i32_max"

definition i32_saturating_add :: "int \<Rightarrow> int \<Rightarrow> int" where
  "i32_saturating_add a b = sat_i32 (a + b)"

definition i32_saturating_sub :: "int \<Rightarrow> int \<Rightarrow> int" where
  "i32_saturating_sub a b = sat_i32 (a - b)"

definition usize_saturating_add :: "nat \<Rightarrow> nat \<Rightarrow> nat" where
  "usize_saturating_add a b = min usize_max (a + b)"

definition u64_saturating_add :: "u64 \<Rightarrow> u64 \<Rightarrow> u64" where
  "u64_saturating_add a b = (if unat a + unat b < 2 ^ 64 then a + b else - 1)"

declare clamp_def [arith_defs] sat_i32_def [arith_defs] is_i32_def [arith_defs]
  i32_saturating_add_def [arith_defs] i32_saturating_sub_def [arith_defs]
  usize_saturating_add_def [arith_defs]

lemma clamp_bounds: "lo \<le> hi \<Longrightarrow> lo \<le> clamp x lo hi \<and> clamp x lo hi \<le> hi"
  by (auto simp: clamp_def)

lemma clamp_id [simp]: "lo \<le> x \<Longrightarrow> x \<le> hi \<Longrightarrow> clamp x lo hi = x"
  by (auto simp: clamp_def)

lemma clamp_mono: "x \<le> y \<Longrightarrow> lo \<le> hi \<Longrightarrow> clamp x lo hi \<le> clamp y lo hi"
  by (auto simp: clamp_def)

lemma sat_i32_id [simp]: "is_i32 x \<Longrightarrow> sat_i32 x = x"
  by (auto simp: arith_defs)

lemma is_i32_sat [simp, intro]: "is_i32 (sat_i32 x)"
  by (auto simp: arith_defs)

text \<open>\<open>wrapping_add(1).max(1)\<close>: a counter that skips zero when it wraps.\<close>

lemma max_one_word: "x \<noteq> 0 \<Longrightarrow> max x 1 = (x :: u64)"
proof -
  assume "x \<noteq> 0"
  then have "unat x \<noteq> 0"
    by (simp add: unat_eq_zero)
  then have "1 \<le> x"
    by (simp add: word_le_nat_alt)
  then show ?thesis
    by (rule max_absorb1)
qed

lemma next_counter: "max (e + 1) 1 \<noteq> (e :: u64)" "max (e + 1) 1 \<noteq> (0 :: u64)"
proof -
  show "max (e + 1) 1 \<noteq> (0 :: u64)"
    by (cases "e + 1 = 0") (simp_all add: max_one_word)
  show "max (e + 1) 1 \<noteq> e"
  proof (cases "e + 1 = 0")
    case True
    then have "e = - 1"
      by (simp add: eq_neg_iff_add_eq_0)
    then show ?thesis
      by simp
  qed (simp add: max_one_word)
qed

section \<open>Time\<close>

text \<open>\<open>Instant::saturating_duration_since\<close>: zero when the other instant is later.\<close>

definition saturating_duration_since :: "instant \<Rightarrow> instant \<Rightarrow> duration" where
  "saturating_duration_since later earlier = nat (later - earlier)"

lemma saturating_duration_since_zero [simp]:
  "later \<le> earlier \<Longrightarrow> saturating_duration_since later earlier = 0"
  by (simp add: saturating_duration_since_def)

lemma saturating_duration_since_ge:
  "d \<le> saturating_duration_since later earlier \<longleftrightarrow> d = 0 \<or> earlier + int d \<le> later"
  by (auto simp: saturating_duration_since_def)

lemma int_saturating_duration_since:
  "earlier \<le> later \<Longrightarrow> int (saturating_duration_since later earlier) = later - earlier"
  by (simp add: saturating_duration_since_def)

section \<open>Ordered containers\<close>

definition set_iter :: "'a::linorder set \<Rightarrow> 'a list" where
  "set_iter A = sorted_list_of_set A"

definition map_iter :: "('k::linorder \<rightharpoonup> 'v) \<Rightarrow> ('k \<times> 'v) list" where
  "map_iter m = map (\<lambda>k. (k, the (m k))) (sorted_list_of_set (dom m))"

definition map_retain :: "('k \<Rightarrow> bool) \<Rightarrow> ('k \<rightharpoonup> 'v) \<Rightarrow> ('k \<rightharpoonup> 'v)" where
  "map_retain P m = (\<lambda>k. if P k then m k else None)"

lemma set_set_iter [simp]: "finite A \<Longrightarrow> set (set_iter A) = A"
  by (simp add: set_iter_def)

lemma distinct_set_iter [simp]: "distinct (set_iter A)"
  by (simp add: set_iter_def)

lemma sorted_set_iter [simp]: "sorted (set_iter A)"
  by (simp add: set_iter_def)

lemma set_map_filter: "y \<in> set (List.map_filter f xs) \<longleftrightarrow> (\<exists>x\<in>set xs. f x = Some y)"
  by (induction xs) (auto simp: List.map_filter_simps split: option.splits)

lemma set_iter_empty [simp]: "set_iter {} = []"
  by (simp add: set_iter_def)

lemma fst_map_iter [simp]: "map fst (map_iter m) = sorted_list_of_set (dom m)"
  by (simp add: map_iter_def comp_def)

lemma set_map_iter: "finite (dom m) \<Longrightarrow> (k, v) \<in> set (map_iter m) \<longleftrightarrow> m k = Some v"
  by (force simp: map_iter_def image_iff)

lemma map_retain_Some [simp]: "map_retain P m k = Some v \<longleftrightarrow> P k \<and> m k = Some v"
  by (simp add: map_retain_def)

lemma dom_map_retain [simp]: "dom (map_retain P m) = {k \<in> dom m. P k}"
  by (auto simp: map_retain_def dom_def)

section \<open>Lists\<close>

text \<open>\<open>Iterator::position\<close> and \<open>slice::get\<close>.\<close>

fun position :: "('a \<Rightarrow> bool) \<Rightarrow> 'a list \<Rightarrow> nat option" where
  "position P [] = None"
| "position P (x # xs) = (if P x then Some 0 else map_option Suc (position P xs))"

definition get_at :: "'a list \<Rightarrow> nat \<Rightarrow> 'a option" where
  "get_at xs i = (if i < length xs then Some (xs ! i) else None)"

lemma position_None: "position P xs = None \<longleftrightarrow> (\<forall>x\<in>set xs. \<not> P x)"
  by (induction xs) auto

lemma position_Some:
  "position P xs = Some i \<Longrightarrow> i < length xs \<and> P (xs ! i) \<and> (\<forall>j<i. \<not> P (xs ! j))"
proof (induction xs arbitrary: i)
  case (Cons x xs)
  then show ?case
    by (cases i) (auto split: if_splits simp: nth_Cons split: nat.splits)
qed simp

lemma get_at_Some [simp]: "get_at xs i = Some x \<longleftrightarrow> i < length xs \<and> xs ! i = x"
  by (auto simp: get_at_def)

lemma get_at_None [simp]: "get_at xs i = None \<longleftrightarrow> length xs \<le> i"
  by (auto simp: get_at_def)

lemma map_list_update_same: "f y = f (xs ! i) \<Longrightarrow> map f (xs[i := y]) = map f xs"
proof (cases "i < length xs")
  case True
  assume "f y = f (xs ! i)"
  then have "map f (xs[i := y]) = (map f xs)[i := map f xs ! i]"
    using True by (simp add: map_update)
  then show ?thesis
    by simp
qed (simp add: list_update_beyond)

section \<open>Results\<close>

text \<open>The \<open>?\<close> operator: the error is returned at once, the value goes on.\<close>

definition and_then :: "'e + 'a \<Rightarrow> ('a \<Rightarrow> 'e + 'b) \<Rightarrow> 'e + 'b" where
  "and_then r f = (case r of Inl e \<Rightarrow> Inl e | Inr a \<Rightarrow> f a)"

definition ok_or :: "'a option \<Rightarrow> 'e \<Rightarrow> 'e + 'a" where
  "ok_or x e = (case x of None \<Rightarrow> Inl e | Some a \<Rightarrow> Inr a)"

lemma and_then_Inl [simp]: "and_then (Inl e) f = Inl e"
  by (simp add: and_then_def)

lemma and_then_Inr [simp]: "and_then (Inr a) f = f a"
  by (simp add: and_then_def)

lemma and_then_eq_Inr [result_simps]:
  "and_then r f = Inr b \<longleftrightarrow> (\<exists>a. r = Inr a \<and> f a = Inr b)"
  by (cases r) auto

lemma and_then_eq_Inl [result_simps]:
  "and_then r f = Inl e \<longleftrightarrow> r = Inl e \<or> (\<exists>a. r = Inr a \<and> f a = Inl e)"
  by (cases r) auto

lemma ok_or_eq_Inr [result_simps]: "ok_or x e = Inr a \<longleftrightarrow> x = Some a"
  by (cases x) (auto simp: ok_or_def)

lemma ok_or_eq_Inl [result_simps]: "ok_or x e = Inl e' \<longleftrightarrow> x = None \<and> e' = e"
  by (cases x) (auto simp: ok_or_def)

lemma ok_or_simps [simp]: "ok_or None e = Inl e" "ok_or (Some a) e = Inr a"
  by (simp_all add: ok_or_def)

end
