(* ===== verification/F64.thy ===== *)
theory F64
  imports Prelude "HOL-Library.Log_Nat"
begin

text \<open>
  IEEE 754 binary64 arithmetic, as far as the compositor's geometry uses it. A finite value is
  the rational number it stands for; every operation is the exact operation followed by \<open>fl\<close>,
  rounding to the nearest value with 53 significant bits, ties to even, gradual underflow below
  \<open>2 ^ (-1022)\<close> and overflow to infinity. The sign of zero is not represented: the modelled code
  never divides by a zero it computed and never inspects a sign bit.
\<close>

section \<open>Powers of two and the binary exponent\<close>

definition pow2 :: "int \<Rightarrow> rat" where
  "pow2 k = (if 0 \<le> k then 2 ^ nat k else 1 / 2 ^ nat (- k))"

lemma pow2_pos [simp]: "0 < pow2 k"
  by (simp add: pow2_def)

lemma pow2_nonzero [simp]: "pow2 k \<noteq> 0"
  by (rule less_imp_neq [OF pow2_pos, symmetric])

lemma abs_pow2 [simp]: "\<bar>pow2 k\<bar> = pow2 k"
  using pow2_pos [of k] by linarith

lemma pow2_Suc: "pow2 (k + 1) = 2 * pow2 k"
proof (cases "0 \<le> k")
  case True
  then show ?thesis
    by (simp add: pow2_def nat_add_distrib)
next
  case False
  then obtain n where k: "k = - int (Suc n)"
    by (metis linorder_not_less zero_less_imp_eq_int neg_0_less_iff_less minus_minus
        gr0_implies_Suc of_nat_0_less_iff)
  then have "k + 1 = - int n"
    by simp
  then show ?thesis
    by (cases n) (simp_all add: k pow2_def nat_add_distrib)
qed

lemma pow2_add_nat: "pow2 (k + int n) = 2 ^ n * pow2 k"
proof (induction n)
  case (Suc n)
  have "pow2 (k + int (Suc n)) = pow2 ((k + int n) + 1)"
    by (simp add: algebra_simps)
  also have "\<dots> = 2 * (2 ^ n * pow2 k)"
    by (simp only: pow2_Suc Suc.IH)
  finally show ?case
    by simp
qed simp

lemma pow2_diff: "j \<le> k \<Longrightarrow> pow2 k = 2 ^ nat (k - j) * pow2 j"
  using pow2_add_nat [of j "nat (k - j)"] by simp

lemma pow2_mono: "j \<le> k \<Longrightarrow> pow2 j \<le> pow2 k"
  by (simp add: pow2_diff [of j k] mult_le_cancel_right2)

lemma pow2_less_iff: "pow2 j < pow2 k \<longleftrightarrow> j < k"
proof
  show "pow2 j < pow2 k \<Longrightarrow> j < k"
    using pow2_mono [of k j] by (meson not_le)
  assume "j < k"
  then have "pow2 (j + 1) \<le> pow2 k"
    by (intro pow2_mono) simp
  then show "pow2 j < pow2 k"
    using pow2_pos [of j] pow2_Suc [of j] by linarith
qed

text \<open>
  The exponent of a positive value: the \<open>e\<close> with \<open>2 ^ e \<le> x < 2 ^ (e + 1)\<close>.
\<close>

definition expo :: "rat \<Rightarrow> int" where
  "expo x = (if 1 \<le> x then bitlen \<lfloor>x\<rfloor> - 1 else - bitlen (\<lceil>1 / x\<rceil> - 1))"

lemma bitlen_rat_bounds:
  assumes "0 < n"
  shows "pow2 (bitlen n - 1) \<le> of_int n \<and> of_int (n + 1) \<le> pow2 (bitlen n)"
proof -
  have pos: "1 \<le> bitlen n"
    using assms bitlen_nonneg [of n] bitlen_eq_zero_iff [of n] by linarith
  have b: "2 ^ nat (bitlen n - 1) \<le> n" "n + 1 \<le> 2 ^ nat (bitlen n)"
    using bitlen_bounds [OF assms] by auto
  have "(of_int (2 ^ nat (bitlen n - 1)) :: rat) \<le> of_int n"
    using b(1) by (simp only: of_int_le_iff)
  moreover have "(of_int (n + 1) :: rat) \<le> of_int (2 ^ nat (bitlen n))"
    using b(2) by (simp only: of_int_le_iff)
  ultimately show ?thesis
    using pos by (simp add: pow2_def)
qed

lemma pow2_uminus: "pow2 (- k) = 1 / pow2 k"
  by (auto simp: pow2_def)

lemma expo_bounds:
  assumes "0 < x"
  shows "pow2 (expo x) \<le> x \<and> x < pow2 (expo x + 1)"
proof (cases "1 \<le> x")
  case True
  have n: "0 < \<lfloor>x\<rfloor>"
    using True by (simp add: zero_less_floor)
  show ?thesis
    using True bitlen_rat_bounds [OF n] floor_correct [of x]
    unfolding expo_def by (auto intro: order_trans less_le_trans)
next
  case False
  let ?m = "\<lceil>1 / x\<rceil> - 1"
  have "1 < 1 / x"
    using assms False by simp
  then have m: "0 < ?m"
    by (simp add: less_ceiling_iff)
  have "1 / x \<le> pow2 (bitlen ?m)" and "pow2 (bitlen ?m - 1) < 1 / x"
    using bitlen_rat_bounds [OF m] ceiling_correct [of "1 / x"]
    by (auto intro: order_trans [OF le_of_int_ceiling])
  then have "1 / pow2 (bitlen ?m) \<le> x" and "x < 1 / pow2 (bitlen ?m - 1)"
    using assms by (simp_all add: field_simps)
  then have "pow2 (- bitlen ?m) \<le> x" and "x < pow2 (- (bitlen ?m - 1))"
    by (simp_all only: pow2_uminus)
  then show ?thesis
    using False by (simp add: expo_def)
qed

section \<open>Rounding to nearest, ties to even\<close>

definition round_even :: "rat \<Rightarrow> int" where
  "round_even q =
     (let f = \<lfloor>q\<rfloor>; r = q - of_int f
      in if r < 1 / 2 then f else if 1 / 2 < r then f + 1 else if even f then f else f + 1)"

lemma round_even_of_int [simp]: "round_even (of_int n) = n"
  by (simp add: round_even_def)

lemma round_even_floor: "\<lfloor>q\<rfloor> \<le> round_even q \<and> round_even q \<le> \<lfloor>q\<rfloor> + 1"
  by (simp add: round_even_def Let_def)

lemma round_even_mono:
  assumes "q \<le> r"
  shows "round_even q \<le> round_even r"
proof (cases "\<lfloor>q\<rfloor> = \<lfloor>r\<rfloor>")
  case True
  then show ?thesis
    using assms by (auto simp: round_even_def Let_def)
next
  case False
  then have "\<lfloor>q\<rfloor> + 1 \<le> \<lfloor>r\<rfloor>"
    using floor_mono [OF assms] by linarith
  then show ?thesis
    using round_even_floor [of q] round_even_floor [of r] by linarith
qed

lemma round_even_uminus: "round_even (- q) = - round_even q"
proof (cases "q = of_int \<lfloor>q\<rfloor>")
  case True
  then show ?thesis
    by (metis round_even_of_int of_int_minus)
next
  case False
  then have "of_int \<lfloor>q\<rfloor> < q" and "q < of_int \<lfloor>q\<rfloor> + 1"
    using floor_correct [of q] by (auto simp: order_less_le)
  then have "\<lfloor>- q\<rfloor> = - \<lfloor>q\<rfloor> - 1"
    by (intro floor_unique) auto
  then show ?thesis
    by (auto simp: round_even_def Let_def)
qed

text \<open>The weight of the last significant bit of a value, and the rounding function.\<close>

definition ulp_expo :: "rat \<Rightarrow> int" where
  "ulp_expo x = max (expo \<bar>x\<bar> - 52) (- 1074)"

definition fl :: "rat \<Rightarrow> rat" where
  "fl x = (if x = 0 then 0
     else of_int (round_even (x / pow2 (ulp_expo x))) * pow2 (ulp_expo x))"

lemma fl_0 [simp]: "fl 0 = 0"
  by (simp add: fl_def)

lemma fl_uminus: "fl (- x) = - fl x"
  by (simp add: fl_def ulp_expo_def round_even_uminus flip: minus_divide_left)

lemma ulp_grid:
  assumes "x \<noteq> 0" and "ulp_expo x \<le> k" and "x \<le> of_int m * pow2 k"
  shows "fl x \<le> of_int m * pow2 k"
proof -
  let ?u = "ulp_expo x"
  have k: "of_int m * pow2 k = of_int (m * 2 ^ nat (k - ?u)) * pow2 ?u"
    using pow2_diff [OF assms(2)] by simp
  have "x / pow2 ?u \<le> of_int (m * 2 ^ nat (k - ?u))"
    using assms(3) unfolding k by (simp add: pos_divide_le_eq)
  then have "round_even (x / pow2 ?u) \<le> m * 2 ^ nat (k - ?u)"
    using round_even_mono [of "x / pow2 ?u" "of_int (m * 2 ^ nat (k - ?u))"]
    by (simp only: round_even_of_int)
  then have "(of_int (round_even (x / pow2 ?u)) :: rat) \<le> of_int (m * 2 ^ nat (k - ?u))"
    by (simp only: of_int_le_iff)
  then show ?thesis
    using assms(1) unfolding k fl_def by simp
qed

lemma ulp_grid_lower:
  assumes "x \<noteq> 0" and "ulp_expo x \<le> k" and "of_int m * pow2 k \<le> x"
  shows "of_int m * pow2 k \<le> fl x"
proof -
  have "ulp_expo (- x) = ulp_expo x"
    by (simp add: ulp_expo_def)
  then have "fl (- x) \<le> of_int (- m) * pow2 k"
    using assms by (intro ulp_grid) auto
  then show ?thesis
    by (simp add: fl_uminus)
qed

lemma fl_pos_mono:
  assumes "0 < x" and "x \<le> y"
  shows "fl x \<le> fl y"
proof -
  have y: "0 < y"
    using assms by linarith
  have bx: "pow2 (expo x) \<le> x" "x < pow2 (expo x + 1)"
    and by': "pow2 (expo y) \<le> y" "y < pow2 (expo y + 1)"
    using expo_bounds assms(1) y by auto
  have "pow2 (expo x) < pow2 (expo y + 1)"
    using bx(1) by'(2) assms(2) by linarith
  then have e: "expo x \<le> expo y"
    by (simp add: pow2_less_iff)
  show ?thesis
  proof (cases "ulp_expo x = ulp_expo y")
    case True
    have "x / pow2 (ulp_expo x) \<le> y / pow2 (ulp_expo x)"
      using assms(2) by (simp add: divide_right_mono less_imp_le)
    then have "round_even (x / pow2 (ulp_expo x)) \<le> round_even (y / pow2 (ulp_expo y))"
      unfolding True by (rule round_even_mono)
    then show ?thesis
      using assms(1) y by (simp add: fl_def True mult_right_mono less_imp_le)
  next
    case False
    then have lt: "expo x < expo y" and uy: "ulp_expo y = expo y - 52" "ulp_expo x \<le> expo y"
      using e assms(1) y by (auto simp: ulp_expo_def max_def split: if_splits)
    have "pow2 (expo x + 1) \<le> pow2 (expo y)"
      using lt by (intro pow2_mono) simp
    then have "x \<le> of_int 1 * pow2 (expo y)"
      using bx(2) by simp
    then have "fl x \<le> of_int 1 * pow2 (expo y)"
      using assms(1) uy(2) by (intro ulp_grid) auto
    moreover have "of_int 1 * pow2 (expo y) \<le> fl y"
      using y uy(1) by'(1) by (intro ulp_grid_lower) auto
    ultimately show ?thesis
      by linarith
  qed
qed

lemma fl_nonneg: "0 \<le> x \<Longrightarrow> 0 \<le> fl x"
  using ulp_grid_lower [of x "ulp_expo x" 0] by (cases "x = 0") auto

lemma fl_mono:
  assumes "x \<le> y"
  shows "fl x \<le> fl y"
proof -
  consider "0 < x" | "x \<le> 0" "0 \<le> y" | "y < 0"
    by linarith
  then show ?thesis
  proof cases
    case 1
    then show ?thesis
      using assms by (rule fl_pos_mono)
  next
    case 2
    then show ?thesis
      using fl_nonneg [of y] fl_nonneg [of "- x"] by (simp add: fl_uminus)
  next
    case 3
    then show ?thesis
      using fl_pos_mono [of "- y" "- x"] assms by (simp add: fl_uminus)
  qed
qed

text \<open>Values with at most 53 significant bits are exact; in particular the 32-bit integers are.\<close>

lemma fl_exact_pos:
  assumes "0 < m" and "m \<le> 2 ^ 53" and "- 1074 \<le> k"
  shows "fl (of_int m * pow2 k) = of_int m * pow2 k"
proof -
  let ?x = "of_int m * pow2 k :: rat"
  have pos: "0 < ?x"
    using assms(1) by simp
  have "(of_int m :: rat) \<le> of_int (2 ^ 53)"
    using assms(2) by (simp only: of_int_le_iff)
  then have "?x \<le> of_int (2 ^ 53) * pow2 k"
    by (intro mult_right_mono) (simp_all add: less_imp_le)
  also have "\<dots> = pow2 (k + 53)"
    using pow2_add_nat [of k 53] by simp
  finally have le: "?x \<le> pow2 (k + 53)" .
  show ?thesis
  proof (cases "ulp_expo ?x \<le> k")
    case True
    then show ?thesis
      using pos ulp_grid [of ?x k m] ulp_grid_lower [of ?x k m] by force
  next
    case False
    then have u: "k < expo ?x - 52"
      using pos assms(3) by (simp add: ulp_expo_def)
    have "pow2 (k + 53) \<le> pow2 (expo ?x)"
      using u by (intro pow2_mono) simp
    then have eq: "?x = pow2 (k + 53)"
      using le expo_bounds [OF pos] by linarith
    have "pow2 (expo ?x) < pow2 (k + 53 + 1)"
      using expo_bounds [OF pos] eq pow2_less_iff [of "k + 53" "k + 53 + 1"] by simp
    then have "expo ?x \<le> k + 53"
      by (simp add: pow2_less_iff)
    then have "ulp_expo ?x \<le> k + 53"
      using pos assms(3) by (simp add: ulp_expo_def)
    then show ?thesis
      using pos eq ulp_grid [of ?x "k + 53" 1] ulp_grid_lower [of ?x "k + 53" 1] by force
  qed
qed

lemma fl_exact:
  assumes "\<bar>m\<bar> \<le> 2 ^ 53" and "- 1074 \<le> k"
  shows "fl (of_int m * pow2 k) = of_int m * pow2 k"
proof -
  consider "0 < m" | "m = 0" | "0 < - m"
    by linarith
  then show ?thesis
  proof cases
    case 1
    then show ?thesis
      using assms by (intro fl_exact_pos) auto
  next
    case 3
    then show ?thesis
      using assms fl_exact_pos [of "- m" k] by (simp add: fl_uminus)
  qed simp
qed

lemma fl_of_int: "\<bar>m\<bar> \<le> 2 ^ 53 \<Longrightarrow> fl (of_int m) = of_int m"
  using fl_exact [of m 0] by (simp add: pow2_def)

section \<open>The type and its operations\<close>

text \<open>\<open>Infinite True\<close> is the negative infinity.\<close>

datatype f64 = NaN | Infinite bool | Finite rat

definition rnd :: "rat \<Rightarrow> f64" where
  "rnd x = (let y = fl x in if pow2 1024 \<le> \<bar>y\<bar> then Infinite (y < 0) else Finite y)"

definition f64_of_int :: "int \<Rightarrow> f64" where
  "f64_of_int n = rnd (of_int n)"

fun f64_is_finite :: "f64 \<Rightarrow> bool" where
  "f64_is_finite (Finite x) = True"
| "f64_is_finite a = False"

fun f64_neg :: "f64 \<Rightarrow> f64" where
  "f64_neg NaN = NaN"
| "f64_neg (Infinite s) = Infinite (\<not> s)"
| "f64_neg (Finite x) = Finite (- x)"

fun f64_add :: "f64 \<Rightarrow> f64 \<Rightarrow> f64" where
  "f64_add (Finite x) (Finite y) = rnd (x + y)"
| "f64_add (Finite x) (Infinite s) = Infinite s"
| "f64_add (Infinite s) (Finite y) = Infinite s"
| "f64_add (Infinite s) (Infinite t) = (if s = t then Infinite s else NaN)"
| "f64_add a b = NaN"

definition f64_sub :: "f64 \<Rightarrow> f64 \<Rightarrow> f64" where
  "f64_sub a b = f64_add a (f64_neg b)"

fun f64_mul :: "f64 \<Rightarrow> f64 \<Rightarrow> f64" where
  "f64_mul (Finite x) (Finite y) = rnd (x * y)"
| "f64_mul (Finite x) (Infinite s) = (if x = 0 then NaN else Infinite (s \<noteq> (x < 0)))"
| "f64_mul (Infinite s) (Finite y) = (if y = 0 then NaN else Infinite (s \<noteq> (y < 0)))"
| "f64_mul (Infinite s) (Infinite t) = Infinite (s \<noteq> t)"
| "f64_mul a b = NaN"

fun f64_div :: "f64 \<Rightarrow> f64 \<Rightarrow> f64" where
  "f64_div (Finite x) (Finite y) =
     (if y = 0 then if x = 0 then NaN else Infinite (x < 0) else rnd (x / y))"
| "f64_div (Finite x) (Infinite s) = Finite 0"
| "f64_div (Infinite s) (Finite y) = Infinite (s \<noteq> (y < 0))"
| "f64_div a b = NaN"

fun f64_abs :: "f64 \<Rightarrow> f64" where
  "f64_abs NaN = NaN"
| "f64_abs (Infinite s) = Infinite False"
| "f64_abs (Finite x) = Finite \<bar>x\<bar>"

text \<open>Comparisons: false as soon as one side is not a number.\<close>

fun f64_le :: "f64 \<Rightarrow> f64 \<Rightarrow> bool" where
  "f64_le NaN b = False"
| "f64_le a NaN = False"
| "f64_le (Infinite True) b = True"
| "f64_le a (Infinite False) = True"
| "f64_le (Finite x) (Finite y) = (x \<le> y)"
| "f64_le a b = False"

definition f64_eq :: "f64 \<Rightarrow> f64 \<Rightarrow> bool" where
  "f64_eq a b = (a \<noteq> NaN \<and> a = b)"

definition f64_lt :: "f64 \<Rightarrow> f64 \<Rightarrow> bool" where
  "f64_lt a b = (f64_le a b \<and> \<not> f64_eq a b)"

definition f64_min :: "f64 \<Rightarrow> f64 \<Rightarrow> f64" where
  "f64_min a b = (if a = NaN then b else if b = NaN then a else if f64_le a b then a else b)"

definition f64_max :: "f64 \<Rightarrow> f64 \<Rightarrow> f64" where
  "f64_max a b = (if a = NaN then b else if b = NaN then a else if f64_le a b then b else a)"

definition f64_clamp :: "f64 \<Rightarrow> f64 \<Rightarrow> f64 \<Rightarrow> f64" where
  "f64_clamp x lo hi = (if f64_lt x lo then lo else if f64_lt hi x then hi else x)"

text \<open>\<open>round\<close> (half away from zero), \<open>floor\<close>, \<open>ceil\<close>, and the saturating casts.\<close>

definition rat_round :: "rat \<Rightarrow> int" where
  "rat_round x = (if 0 \<le> x then \<lfloor>x + 1 / 2\<rfloor> else - \<lfloor>- x + 1 / 2\<rfloor>)"

definition rat_trunc :: "rat \<Rightarrow> int" where
  "rat_trunc x = (if 0 \<le> x then \<lfloor>x\<rfloor> else \<lceil>x\<rceil>)"

fun f64_round :: "f64 \<Rightarrow> f64" where
  "f64_round (Finite x) = Finite (of_int (rat_round x))"
| "f64_round a = a"

fun f64_floor :: "f64 \<Rightarrow> f64" where
  "f64_floor (Finite x) = Finite (of_int \<lfloor>x\<rfloor>)"
| "f64_floor a = a"

fun f64_ceil :: "f64 \<Rightarrow> f64" where
  "f64_ceil (Finite x) = Finite (of_int \<lceil>x\<rceil>)"
| "f64_ceil a = a"

fun f64_as_int :: "int \<Rightarrow> int \<Rightarrow> f64 \<Rightarrow> int" where
  "f64_as_int lo hi NaN = 0"
| "f64_as_int lo hi (Infinite s) = (if s then lo else hi)"
| "f64_as_int lo hi (Finite x) = clamp (rat_trunc x) lo hi"

abbreviation f64_as_i32 :: "f64 \<Rightarrow> int" where "f64_as_i32 \<equiv> f64_as_int i32_min i32_max"
abbreviation f64_as_u32 :: "f64 \<Rightarrow> int" where "f64_as_u32 \<equiv> f64_as_int 0 u32_max"

section \<open>Lemmas on the operations\<close>

lemma pow2_1024: "pow2 1024 = 2 ^ 1024"
  by (simp add: pow2_def)

lemma rnd_exact:
  assumes "\<bar>m\<bar> \<le> 2 ^ 53" and "- 1074 \<le> k" and "k \<le> 0"
  shows "rnd (of_int m * pow2 k) = Finite (of_int m * pow2 k)"
proof -
  let ?x = "of_int m * pow2 k :: rat"
  have "pow2 k \<le> pow2 0"
    using assms(3) by (rule pow2_mono)
  then have "\<bar>?x\<bar> \<le> of_int \<bar>m\<bar>"
    by (simp add: abs_mult pow2_def [of 0] mult_left_le)
  also have "\<dots> \<le> of_int (2 ^ 53)"
    using assms(1) by (simp only: of_int_le_iff)
  also have "\<dots> < pow2 1024"
    using pow2_less_iff [of 53 1024] by (simp add: pow2_def [of 53])
  finally show ?thesis
    using fl_exact [OF assms(1,2)] by (simp add: rnd_def)
qed

lemma f64_of_int_exact [simp]:
  "\<bar>n\<bar> \<le> 9007199254740992 \<Longrightarrow> f64_of_int n = Finite (of_int n)"
  using rnd_exact [of n 0] by (simp add: f64_of_int_def pow2_def)

lemma rnd_of_int: "\<bar>n\<bar> \<le> 9007199254740992 \<Longrightarrow> rnd (of_int n) = Finite (of_int n)"
  using rnd_exact [of n 0] by (simp add: pow2_def)

lemma rnd_literal [simp]:
  "rnd 0 = Finite 0" "rnd 1 = Finite 1" "rnd (- 1) = Finite (- 1)"
  "(numeral n :: int) \<le> 9007199254740992 \<Longrightarrow> rnd (numeral n) = Finite (numeral n)"
  "(numeral n :: int) \<le> 9007199254740992 \<Longrightarrow> rnd (- numeral n) = Finite (- numeral n)"
  using rnd_of_int [of 0] rnd_of_int [of 1] rnd_of_int [of "- 1"] rnd_of_int [of "numeral n"]
    rnd_of_int [of "- numeral n"] by simp_all

lemma f64_le_Infinite:
  "f64_le (Infinite s) b \<longleftrightarrow> b \<noteq> NaN \<and> (s \<or> b = Infinite False)"
  "f64_le a (Infinite s) \<longleftrightarrow> a \<noteq> NaN \<and> (\<not> s \<or> a = Infinite True)"
proof -
  show "f64_le (Infinite s) b \<longleftrightarrow> b \<noteq> NaN \<and> (s \<or> b = Infinite False)"
    by (cases b; cases s) auto
  show "f64_le a (Infinite s) \<longleftrightarrow> a \<noteq> NaN \<and> (\<not> s \<or> a = Infinite True)"
  proof (cases a)
    case (Infinite t)
    then show ?thesis
      by (cases t; cases s) simp_all
  qed (cases s; simp)+
qed

lemma f64_le_refl [simp]: "f64_le a a \<longleftrightarrow> a \<noteq> NaN"
  by (cases a) (auto simp: f64_le_Infinite)

lemma f64_le_Finite [simp]:
  "f64_le (Finite x) b \<longleftrightarrow> b = Infinite False \<or> (\<exists>y. b = Finite y \<and> x \<le> y)"
  "f64_le a (Finite y) \<longleftrightarrow> a = Infinite True \<or> (\<exists>x. a = Finite x \<and> x \<le> y)"
  by (cases b; simp add: f64_le_Infinite) (cases a; simp add: f64_le_Infinite)

lemma f64_lt_Finite [simp]: "f64_lt (Finite x) (Finite y) \<longleftrightarrow> x < y"
  by (auto simp: f64_lt_def f64_eq_def)

lemma f64_min_Finite [simp]: "f64_min (Finite x) (Finite y) = Finite (min x y)"
  by (simp add: f64_min_def min_def)

lemma f64_max_Finite [simp]: "f64_max (Finite x) (Finite y) = Finite (max x y)"
  by (simp add: f64_max_def max_def)

lemma f64_clamp_Finite [simp]: "f64_clamp (Finite x) (Finite lo) (Finite hi) = Finite (clamp x lo hi)"
  by (simp add: f64_clamp_def clamp_def)

lemma f64_sub_Finite [simp]: "f64_sub (Finite x) (Finite y) = rnd (x - y)"
  by (simp add: f64_sub_def)

lemma floor_half: "\<lfloor>of_int n + 1 / 2 :: rat\<rfloor> = n"
  by (rule floor_unique) auto

lemma rat_round_of_int [simp]: "rat_round (of_int n) = n"
  using floor_half [of n] floor_half [of "- n"] by (auto simp: rat_round_def)

lemma rat_round_mono:
  assumes "x \<le> y"
  shows "rat_round x \<le> rat_round y"
proof -
  consider "0 \<le> x" | "x < 0" "0 \<le> y" | "y < 0"
    by linarith
  then show ?thesis
  proof cases
    case 1
    then show ?thesis
      using assms by (simp add: rat_round_def floor_mono)
  next
    case 2
    have "0 \<le> \<lfloor>- x + 1 / 2\<rfloor>" and "0 \<le> \<lfloor>y + 1 / 2\<rfloor>"
      using 2 by simp_all
    then have "- \<lfloor>- x + 1 / 2\<rfloor> \<le> \<lfloor>y + 1 / 2\<rfloor>"
      by linarith
    then show ?thesis
      using 2 by (simp only: rat_round_def not_le [symmetric] if_True if_False)
  next
    case 3
    then show ?thesis
      using assms by (simp add: rat_round_def floor_mono)
  qed
qed

lemma f64_as_int_bounds: "lo \<le> 0 \<Longrightarrow> 0 \<le> hi \<Longrightarrow> lo \<le> f64_as_int lo hi a \<and> f64_as_int lo hi a \<le> hi"
  using clamp_bounds [of lo hi] by (cases a) auto

lemma rat_trunc_of_int [simp]: "rat_trunc (of_int n) = n"
  by (simp add: rat_trunc_def)

lemma f64_as_int_of_int [simp]:
  "lo \<le> n \<Longrightarrow> n \<le> hi \<Longrightarrow> f64_as_int lo hi (Finite (of_int n)) = n"
  by simp

section \<open>The total order\<close>

text \<open>
  \<open>total_cmp\<close> makes the values a linear order: the infinities at the ends of the finite values,
  the positive not-a-number above them.
\<close>

lemma f64_lt_simps [simp]:
  "\<not> f64_lt NaN b" "\<not> f64_lt a NaN"
  "f64_lt (Infinite s) (Infinite t) \<longleftrightarrow> s \<and> \<not> t"
  "f64_lt (Infinite s) (Finite y) \<longleftrightarrow> s" "f64_lt (Finite x) (Infinite t) \<longleftrightarrow> \<not> t"
  by (cases a; auto simp: f64_lt_def f64_eq_def f64_le_Infinite)+

definition total_lt :: "f64 \<Rightarrow> f64 \<Rightarrow> bool" where
  "total_lt a b = (if a = NaN then False else if b = NaN then True else f64_lt a b)"

instantiation f64 :: linorder
begin

definition less_f64 :: "f64 \<Rightarrow> f64 \<Rightarrow> bool" where
  "less_f64 a b = total_lt a b"

definition less_eq_f64 :: "f64 \<Rightarrow> f64 \<Rightarrow> bool" where
  "less_eq_f64 a b = (a = b \<or> total_lt a b)"

instance
proof
  fix a b c :: f64
  show "(a < b) = (a \<le> b \<and> \<not> b \<le> a)"
    by (cases a; cases b) (auto simp: less_f64_def less_eq_f64_def total_lt_def)
  show "a \<le> a"
    by (simp add: less_eq_f64_def)
  show "a \<le> b \<Longrightarrow> b \<le> c \<Longrightarrow> a \<le> c"
    by (cases a; cases b; cases c) (auto simp: less_eq_f64_def total_lt_def)
  show "a \<le> b \<Longrightarrow> b \<le> a \<Longrightarrow> a = b"
    by (cases a; cases b) (auto simp: less_eq_f64_def total_lt_def)
  show "a \<le> b \<or> b \<le> a"
    by (cases a; cases b) (auto simp: less_eq_f64_def total_lt_def)
qed

end

end
