(* ===== verification/Damage.thy ===== *)
theory Damage
  imports F64 "HOL-Library.Multiset"
begin

text \<open>
  The damage region of the Flutter atlas
  (\<open>compositor/src/bin/deniald/flutter_runtime/damage.rs\<close>): a fixed array of at most 32 rectangles
  inside the atlas bounds, exact until the array is full and conservative from then on.
\<close>

section \<open>Rectangles\<close>

definition MAX_DAMAGE_RECTS :: nat where "MAX_DAMAGE_RECTS = 32"

record damage_rect =
  rect_left :: f64
  rect_top :: f64
  rect_right :: f64
  rect_bottom :: f64

definition EMPTY :: damage_rect where
  "EMPTY = \<lparr>rect_left = Finite 0, rect_top = Finite 0, rect_right = Finite 0, rect_bottom = Finite 0\<rparr>"

definition damage_rect_eq :: "damage_rect \<Rightarrow> damage_rect \<Rightarrow> bool" where
  "damage_rect_eq a b \<longleftrightarrow> f64_eq (rect_left a) (rect_left b) \<and> f64_eq (rect_top a) (rect_top b) \<and>
     f64_eq (rect_right a) (rect_right b) \<and> f64_eq (rect_bottom a) (rect_bottom b)"

definition bounding :: "damage_rect \<Rightarrow> damage_rect \<Rightarrow> damage_rect" where
  "bounding a b =
     \<lparr>rect_left = f64_min (rect_left a) (rect_left b),
      rect_top = f64_min (rect_top a) (rect_top b),
      rect_right = f64_max (rect_right a) (rect_right b),
      rect_bottom = f64_max (rect_bottom a) (rect_bottom b)\<rparr>"

definition damage_rect_contains :: "damage_rect \<Rightarrow> damage_rect \<Rightarrow> bool" where
  "damage_rect_contains a b \<longleftrightarrow>
     f64_le (rect_left a) (rect_left b) \<and> f64_le (rect_top a) (rect_top b) \<and>
     f64_le (rect_right b) (rect_right a) \<and> f64_le (rect_bottom b) (rect_bottom a)"

definition damage_rect_area :: "damage_rect \<Rightarrow> f64" where
  "damage_rect_area r =
     f64_mul (f64_sub (rect_right r) (rect_left r)) (f64_sub (rect_bottom r) (rect_top r))"

definition intersection_area :: "damage_rect \<Rightarrow> damage_rect \<Rightarrow> f64" where
  "intersection_area a b =
     (let width = f64_sub (f64_min (rect_right a) (rect_right b)) (f64_max (rect_left a) (rect_left b));
          height = f64_sub (f64_min (rect_bottom a) (rect_bottom b)) (f64_max (rect_top a) (rect_top b))
      in f64_mul (f64_max width (Finite 0)) (f64_max height (Finite 0)))"

definition merge_without_overdraw :: "damage_rect \<Rightarrow> damage_rect \<Rightarrow> damage_rect option" where
  "merge_without_overdraw a b =
     (if damage_rect_contains a b then Some a
      else if damage_rect_contains b a then Some b
      else
        let same_vertical_span =
              f64_eq (rect_top a) (rect_top b) \<and> f64_eq (rect_bottom a) (rect_bottom b);
            horizontal_intervals_touch =
              f64_le (rect_left a) (rect_right b) \<and> f64_le (rect_left b) (rect_right a)
        in if same_vertical_span \<and> horizontal_intervals_touch then Some (bounding a b)
           else
             let same_horizontal_span =
                   f64_eq (rect_left a) (rect_left b) \<and> f64_eq (rect_right a) (rect_right b);
                 vertical_intervals_touch =
                   f64_le (rect_top a) (rect_bottom b) \<and> f64_le (rect_top b) (rect_bottom a)
             in if same_horizontal_span \<and> vertical_intervals_touch then Some (bounding a b) else None)"

definition merge_overdraw :: "damage_rect \<Rightarrow> damage_rect \<Rightarrow> f64" where
  "merge_overdraw a b =
     f64_sub (damage_rect_area (bounding a b))
       (f64_sub (f64_add (damage_rect_area a) (damage_rect_area b)) (intersection_area a b))"

text \<open>The engine's rectangle (\<open>sys::FlutterRect\<close>) has the same four doubles.\<close>

record flutter_rect =
  fl_left :: f64
  fl_top :: f64
  fl_right :: f64
  fl_bottom :: f64

definition as_flutter :: "damage_rect \<Rightarrow> flutter_rect" where
  "as_flutter r =
     \<lparr>fl_left = rect_left r, fl_top = rect_top r, fl_right = rect_right r, fl_bottom = rect_bottom r\<rparr>"

datatype clipped_rect = ClipEmpty | ClipInvalid | ClipRect damage_rect

section \<open>The region\<close>

text \<open>\<open>rects\<close> is the fixed array; slots from \<open>len\<close> on hold whatever was left there.\<close>

record damage_region =
  bounds :: damage_rect
  rects :: "damage_rect list"
  len :: nat

definition damage_empty :: "int \<Rightarrow> int \<Rightarrow> damage_region" where
  "damage_empty width height =
     \<lparr>bounds = \<lparr>rect_left = Finite 0, rect_top = Finite 0,
        rect_right = f64_of_int width, rect_bottom = f64_of_int height\<rparr>,
      rects = replicate MAX_DAMAGE_RECTS EMPTY, len = 0\<rparr>"

definition as_slice :: "damage_region \<Rightarrow> damage_rect list" where
  "as_slice d = take (len d) (rects d)"

definition is_empty :: "damage_region \<Rightarrow> bool" where
  "is_empty d \<longleftrightarrow> len d = 0"

definition is_full :: "damage_region \<Rightarrow> bool" where
  "is_full d \<longleftrightarrow> list_all2 damage_rect_eq (as_slice d) [bounds d]"

definition set_full :: "damage_region \<Rightarrow> damage_region" where
  "set_full d =
     (if f64_lt (rect_left (bounds d)) (rect_right (bounds d)) \<and>
         f64_lt (rect_top (bounds d)) (rect_bottom (bounds d))
      then d\<lparr>rects := (rects d)[0 := bounds d], len := 1\<rparr>
      else d\<lparr>len := 0\<rparr>)"

definition damage_full :: "int \<Rightarrow> int \<Rightarrow> damage_region" where
  "damage_full width height = set_full (damage_empty width height)"

definition damage_clear :: "damage_region \<Rightarrow> damage_region" where
  "damage_clear d = d\<lparr>len := 0\<rparr>"

definition damage_invalidate :: "damage_region \<Rightarrow> damage_region" where
  "damage_invalidate d = set_full d"

definition clip :: "damage_region \<Rightarrow> flutter_rect \<Rightarrow> clipped_rect" where
  "clip d r =
     (if \<not> f64_is_finite (fl_left r) \<or> \<not> f64_is_finite (fl_top r) \<or>
         \<not> f64_is_finite (fl_right r) \<or> \<not> f64_is_finite (fl_bottom r) \<or>
         f64_lt (fl_right r) (fl_left r) \<or> f64_lt (fl_bottom r) (fl_top r)
      then ClipInvalid
      else
        let rect = \<lparr>rect_left = f64_max (fl_left r) (rect_left (bounds d)),
              rect_top = f64_max (fl_top r) (rect_top (bounds d)),
              rect_right = f64_min (fl_right r) (rect_right (bounds d)),
              rect_bottom = f64_min (fl_bottom r) (rect_bottom (bounds d))\<rparr>
        in if f64_le (rect_right rect) (rect_left rect) \<or> f64_le (rect_bottom rect) (rect_top rect)
           then ClipEmpty else ClipRect rect)"

definition damage_remove :: "damage_region \<Rightarrow> nat \<Rightarrow> damage_region" where
  "damage_remove d index =
     (let n = len d - 1 in d\<lparr>len := n, rects := (rects d)[index := rects d ! n]\<rparr>)"

text \<open>The first stored rectangle the incoming one merges with exactly.\<close>

fun find_merge :: "damage_rect \<Rightarrow> damage_rect list \<Rightarrow> (nat \<times> damage_rect) option" where
  "find_merge incoming [] = None"
| "find_merge incoming (r # rs) =
     (case merge_without_overdraw incoming r of
        Some merged \<Rightarrow> Some (0, merged)
      | None \<Rightarrow> map_option (\<lambda>(index, merged). (Suc index, merged)) (find_merge incoming rs))"

lemma find_merge_Some:
  "find_merge incoming rs = Some (index, merged) \<Longrightarrow>
     index < length rs \<and> merge_without_overdraw incoming (rs ! index) = Some merged"
  by (induction rs arbitrary: index) (auto split: option.splits)

function merge_loop :: "damage_rect \<Rightarrow> damage_region \<Rightarrow> damage_rect \<times> damage_region" where
  "merge_loop incoming d =
     (case find_merge incoming (as_slice d) of
        None \<Rightarrow> (incoming, d)
      | Some (index, merged) \<Rightarrow> merge_loop merged (damage_remove d index))"
  by pat_completeness auto

termination
proof (relation "measure (len \<circ> snd)")
  fix incoming d p index merged
  assume "find_merge incoming (as_slice d) = Some p" "(index, merged) = p"
  then have "index < length (as_slice d)"
    using find_merge_Some by blast
  then have "0 < len d"
    by (auto simp: as_slice_def)
  then show "((merged, damage_remove d index), incoming, d) \<in> measure (len \<circ> snd)"
    by (simp add: damage_remove_def Let_def)
qed simp

declare merge_loop.simps [simp del]

text \<open>The tuple order of the compaction's candidates (\<open>PartialOrd\<close> on a tuple).\<close>

definition choice_lt :: "f64 \<times> f64 \<times> nat \<times> nat \<Rightarrow> f64 \<times> f64 \<times> nat \<times> nat \<Rightarrow> bool" where
  "choice_lt p q =
     (case p of (o1, a1, f1, s1) \<Rightarrow> case q of (o2, a2, f2, s2) \<Rightarrow>
        if \<not> f64_eq o1 o2 then f64_lt o1 o2
        else if \<not> f64_eq a1 a2 then f64_lt a1 a2
        else f1 < f2 \<or> f1 = f2 \<and> s1 < s2)"

definition compaction_candidate :: "damage_region \<Rightarrow> damage_rect \<Rightarrow> nat \<Rightarrow> damage_rect" where
  "compaction_candidate d incoming index = (if index = len d then incoming else rects d ! index)"

definition best_pair :: "damage_region \<Rightarrow> damage_rect \<Rightarrow> nat \<times> nat" where
  "best_pair d incoming =
     (case fold (\<lambda>first best. fold (\<lambda>second best.
         let a = compaction_candidate d incoming first; b = compaction_candidate d incoming second;
             choice = (merge_overdraw a b, damage_rect_area (bounding a b), first, second)
         in if choice_lt choice best then choice else best)
           [Suc first..<Suc (len d)] best) [0..<len d] (Infinite False, Infinite False, 0, len d)
      of (_, _, first, second) \<Rightarrow> (first, second))"

definition damage_compact :: "damage_region \<Rightarrow> damage_rect \<Rightarrow> damage_region" where
  "damage_compact d incoming =
     (case best_pair d incoming of (first, second) \<Rightarrow>
        let merged = bounding (compaction_candidate d incoming first) (compaction_candidate d incoming second)
        in if damage_rect_eq merged (bounds d) then set_full d
           else if second = len d then d\<lparr>rects := (rects d)[first := merged]\<rparr>
           else let d' = damage_remove (d\<lparr>rects := (rects d)[first := merged]\<rparr>) second
                in d'\<lparr>rects := (rects d')[len d' := incoming], len := len d' + 1\<rparr>)"

definition damage_insert :: "damage_region \<Rightarrow> damage_rect \<Rightarrow> damage_region" where
  "damage_insert d incoming0 =
     (if is_full d then d
      else if damage_rect_eq incoming0 (bounds d) then set_full d
      else case merge_loop incoming0 d of (incoming, d') \<Rightarrow>
        if damage_rect_eq incoming (bounds d') then set_full d'
        else if len d' < MAX_DAMAGE_RECTS
        then d'\<lparr>rects := (rects d')[len d' := incoming], len := len d' + 1\<rparr>
        else damage_compact d' incoming)"

fun insert_clipped :: "damage_region \<Rightarrow> flutter_rect list \<Rightarrow> damage_region" where
  "insert_clipped d [] = d"
| "insert_clipped d (r # rs) =
     (case clip d r of
        ClipEmpty \<Rightarrow> insert_clipped d rs
      | ClipInvalid \<Rightarrow> set_full d
      | ClipRect rect \<Rightarrow> insert_clipped (damage_insert d rect) rs)"

definition replace_from_flutter :: "damage_region \<Rightarrow> flutter_rect list \<Rightarrow> damage_region" where
  "replace_from_flutter d rs = insert_clipped (damage_clear d) rs"

definition damage_union :: "damage_region \<Rightarrow> damage_region \<Rightarrow> damage_region" where
  "damage_union d other =
     (if \<not> damage_rect_eq (bounds d) (bounds other) then set_full d
      else if is_full d \<or> is_empty other then d
      else if is_full other then set_full d
      else foldl damage_insert d (as_slice other))"

definition write_flutter :: "damage_region \<Rightarrow> flutter_rect list \<Rightarrow> flutter_rect list" where
  "write_flutter d out = out @ map as_flutter (as_slice d)"

definition kms_clips :: "damage_region \<Rightarrow> (int \<times> int \<times> int \<times> int) list" where
  "kms_clips d = map (\<lambda>r.
     (f64_as_i32 (f64_floor (rect_left r)), f64_as_i32 (f64_floor (rect_top r)),
      f64_as_i32 (f64_ceil (rect_right r)), f64_as_i32 (f64_ceil (rect_bottom r)))) (as_slice d)"

definition rect_count :: "damage_region \<Rightarrow> nat" where
  "rect_count d = len d"

definition matches_size :: "damage_region \<Rightarrow> int \<Rightarrow> int \<Rightarrow> bool" where
  "matches_size d width height \<longleftrightarrow>
     f64_eq (rect_left (bounds d)) (Finite 0) \<and> f64_eq (rect_top (bounds d)) (Finite 0) \<and>
     f64_eq (rect_right (bounds d)) (f64_of_int width) \<and>
     f64_eq (rect_bottom (bounds d)) (f64_of_int height)"

definition damaged_area :: "damage_region \<Rightarrow> f64" where
  "damaged_area d =
     f64_min (foldl f64_add (Finite 0) (map damage_rect_area (as_slice d))) (damage_rect_area (bounds d))"

section \<open>Coverage and the region invariant\<close>

definition covers :: "damage_rect \<Rightarrow> rat \<Rightarrow> rat \<Rightarrow> bool" where
  "covers r x y \<longleftrightarrow> f64_le (rect_left r) (Finite x) \<and> f64_lt (Finite x) (rect_right r) \<and>
     f64_le (rect_top r) (Finite y) \<and> f64_lt (Finite y) (rect_bottom r)"

definition region_covers :: "damage_region \<Rightarrow> rat \<Rightarrow> rat \<Rightarrow> bool" where
  "region_covers d x y \<longleftrightarrow> (\<exists>r\<in>set (as_slice d). covers r x y)"

definition finite_rect :: "damage_rect \<Rightarrow> bool" where
  "finite_rect r \<longleftrightarrow> f64_is_finite (rect_left r) \<and> f64_is_finite (rect_top r) \<and>
     f64_is_finite (rect_right r) \<and> f64_is_finite (rect_bottom r)"

definition proper_rect :: "damage_rect \<Rightarrow> bool" where
  "proper_rect r \<longleftrightarrow> finite_rect r \<and> f64_lt (rect_left r) (rect_right r) \<and>
     f64_lt (rect_top r) (rect_bottom r)"

definition region_inv :: "damage_region \<Rightarrow> bool" where
  "region_inv d \<longleftrightarrow> length (rects d) = MAX_DAMAGE_RECTS \<and> len d \<le> MAX_DAMAGE_RECTS \<and>
     finite_rect (bounds d) \<and>
     (\<forall>r\<in>set (as_slice d). proper_rect r \<and> damage_rect_contains (bounds d) r)"

lemma is_finite_cases: "f64_is_finite a \<longleftrightarrow> (\<exists>x. a = Finite x)"
  by (cases a) auto

lemma finite_rectE:
  assumes "finite_rect r"
  obtains l t r' b where
    "r = \<lparr>rect_left = Finite l, rect_top = Finite t, rect_right = Finite r', rect_bottom = Finite b\<rparr>"
  using assms by (cases r) (auto simp: finite_rect_def is_finite_cases)

lemmas rect_defs = covers_def damage_rect_contains_def bounding_def proper_rect_def
  damage_rect_eq_def finite_rect_def f64_eq_def

lemma covers_within:
  assumes "damage_rect_contains b r" "finite_rect b" "finite_rect r" "covers r x y"
  shows "covers b x y"
proof -
  obtain l t r' n where b: "b = \<lparr>rect_left = Finite l, rect_top = Finite t, rect_right = Finite r', rect_bottom = Finite n\<rparr>"
    using finite_rectE [OF assms(2)] by metis
  obtain l' t' s n' where r: "r = \<lparr>rect_left = Finite l', rect_top = Finite t', rect_right = Finite s, rect_bottom = Finite n'\<rparr>"
    using finite_rectE [OF assms(3)] by metis
  show ?thesis
    using assms(1,4) by (simp add: b r damage_rect_contains_def covers_def)
qed

lemma bounding_correct:
  assumes "proper_rect a" "proper_rect b"
  shows "proper_rect (bounding a b)"
    and "covers a x y \<or> covers b x y \<Longrightarrow> covers (bounding a b) x y"
    and "damage_rect_contains c a \<Longrightarrow> damage_rect_contains c b \<Longrightarrow> damage_rect_contains c (bounding a b)"
proof -
  obtain l t r m where a: "a = \<lparr>rect_left = Finite l, rect_top = Finite t, rect_right = Finite r, rect_bottom = Finite m\<rparr>"
    using assms(1) finite_rectE unfolding proper_rect_def by metis
  obtain l' t' r' m' where b: "b = \<lparr>rect_left = Finite l', rect_top = Finite t', rect_right = Finite r', rect_bottom = Finite m'\<rparr>"
    using assms(2) finite_rectE unfolding proper_rect_def by metis
  show "proper_rect (bounding a b)"
    using assms unfolding a b by (auto simp: rect_defs)
  show "covers a x y \<or> covers b x y \<Longrightarrow> covers (bounding a b) x y"
    unfolding a b by (auto simp: rect_defs min_le_iff_disj less_max_iff_disj)
  show "damage_rect_contains c a \<Longrightarrow> damage_rect_contains c b \<Longrightarrow> damage_rect_contains c (bounding a b)"
    unfolding a b by (cases "rect_left c"; cases "rect_top c"; cases "rect_right c"; cases "rect_bottom c")
      (auto simp: rect_defs min_def max_def)
qed

lemma interval_union:
  fixes l r :: rat
  assumes "l \<le> r'" "l' \<le> r"
  shows "min l l' \<le> x \<and> x < max r r' \<longleftrightarrow> l \<le> x \<and> x < r \<or> l' \<le> x \<and> x < r'"
  using assms by (auto simp: min_le_iff_disj less_max_iff_disj)

lemma merge_correct:
  assumes "proper_rect a" "proper_rect b" and m: "merge_without_overdraw a b = Some m"
  shows "proper_rect m" and "covers m x y \<longleftrightarrow> covers a x y \<or> covers b x y"
    and "damage_rect_contains c a \<Longrightarrow> damage_rect_contains c b \<Longrightarrow> damage_rect_contains c m"
proof -
  show "proper_rect m"
    using assms bounding_correct(1) [OF assms(1,2)]
    by (auto simp: merge_without_overdraw_def Let_def split: if_splits)
  show "damage_rect_contains c a \<Longrightarrow> damage_rect_contains c b \<Longrightarrow> damage_rect_contains c m"
    using assms bounding_correct(3) [OF assms(1,2)]
    by (auto simp: merge_without_overdraw_def Let_def split: if_splits)
  obtain l t r n where a: "a = \<lparr>rect_left = Finite l, rect_top = Finite t, rect_right = Finite r, rect_bottom = Finite n\<rparr>"
    using assms(1) finite_rectE unfolding proper_rect_def by metis
  obtain l' t' r' n' where b: "b = \<lparr>rect_left = Finite l', rect_top = Finite t', rect_right = Finite r', rect_bottom = Finite n'\<rparr>"
    using assms(2) finite_rectE unfolding proper_rect_def by metis
  consider "damage_rect_contains a b" "m = a" | "damage_rect_contains b a" "m = b"
    | "t = t'" "n = n'" "l \<le> r'" "l' \<le> r" "m = bounding a b"
    | "l = l'" "r = r'" "t \<le> n'" "t' \<le> n" "m = bounding a b"
    using m unfolding merge_without_overdraw_def Let_def
    by (simp add: a b f64_eq_def split: if_splits)
  then show "covers m x y \<longleftrightarrow> covers a x y \<or> covers b x y"
  proof cases
    case 3
    then show ?thesis
      using interval_union [OF 3(3,4), of x] by (simp add: a b rect_defs) blast
  next
    case 4
    then show ?thesis
      using interval_union [OF 4(3,4), of y] by (simp add: a b rect_defs) blast
  qed (auto simp: a b rect_defs)
qed

text \<open>Filling the whole bounds.\<close>

lemma set_full_correct:
  assumes "region_inv d"
  shows "region_inv (set_full d)" and "bounds (set_full d) = bounds d"
    and "region_covers (set_full d) x y \<longleftrightarrow> covers (bounds d) x y"
proof -
  have slice: "as_slice (set_full d) =
      (if f64_lt (rect_left (bounds d)) (rect_right (bounds d)) \<and>
          f64_lt (rect_top (bounds d)) (rect_bottom (bounds d)) then [bounds d] else [])"
    using assms by (cases "rects d") (auto simp: set_full_def as_slice_def region_inv_def MAX_DAMAGE_RECTS_def)
  have fin: "finite_rect (bounds d)"
    using assms by (simp add: region_inv_def)
  obtain l t r n where b: "bounds d = \<lparr>rect_left = Finite l, rect_top = Finite t, rect_right = Finite r, rect_bottom = Finite n\<rparr>"
    using finite_rectE [OF fin] by metis
  show "bounds (set_full d) = bounds d"
    by (simp add: set_full_def)
  then show "region_inv (set_full d)"
    using assms slice fin by (auto simp: region_inv_def set_full_def MAX_DAMAGE_RECTS_def rect_defs is_finite_cases)
  show "region_covers (set_full d) x y \<longleftrightarrow> covers (bounds d) x y"
    unfolding region_covers_def slice by (auto simp: b rect_defs)
qed

lemma region_covers_bounds:
  assumes "region_inv d" "region_covers d x y"
  shows "covers (bounds d) x y"
proof -
  obtain r where r: "proper_rect r" "damage_rect_contains (bounds d) r" "covers r x y"
    using assms by (auto simp: region_inv_def region_covers_def)
  obtain l t r' n where a: "r = \<lparr>rect_left = Finite l, rect_top = Finite t, rect_right = Finite r', rect_bottom = Finite n\<rparr>"
    using r(1) finite_rectE unfolding proper_rect_def by metis
  show ?thesis
    using r assms(1) unfolding a region_inv_def by (auto simp: rect_defs is_finite_cases)
qed

section \<open>The array operations on the stored slice\<close>

lemma slice_remove:
  assumes "index < len d" "len d \<le> length (rects d)"
  shows "mset (as_slice (damage_remove d index)) = mset (as_slice d) - {#as_slice d ! index#}"
    and "len (damage_remove d index) = len d - 1"
    and "bounds (damage_remove d index) = bounds d"
    and "length (rects (damage_remove d index)) = length (rects d)"
proof -
  define n where "n = len d - 1"
  have n: "len d = Suc n" "n < length (rects d)"
    using assms by (auto simp: n_def)
  have split: "as_slice d = take n (rects d) @ [rects d ! n]"
    using n by (simp add: as_slice_def take_Suc_conv_app_nth)
  have new: "as_slice (damage_remove d index) = take n ((rects d)[index := rects d ! n])"
    by (simp add: as_slice_def damage_remove_def Let_def n_def)
  show "mset (as_slice (damage_remove d index)) = mset (as_slice d) - {#as_slice d ! index#}"
  proof (cases "index = n")
    case True
    then show ?thesis
      using n unfolding new split by (simp add: nth_append)
  next
    case False
    then have i: "index < n"
      using assms n by simp
    then have "index < length (take n (rects d))"
      using n by simp
    then have "rects d ! index \<in># mset (take n (rects d))"
      using nth_mem [of index "take n (rects d)"] by simp
    then show ?thesis
      using i n unfolding new split by (simp add: take_update_swap mset_update nth_append)
  qed
qed (simp_all add: damage_remove_def Let_def)

lemma slice_push:
  assumes "len d < length (rects d)"
  shows "as_slice (d\<lparr>rects := (rects d)[len d := r], len := len d + 1\<rparr>) = as_slice d @ [r]"
  using assms by (simp add: as_slice_def take_Suc_conv_app_nth)

lemma region_inv_slice:
  assumes "region_inv d" "set (as_slice d') \<subseteq> set (as_slice d)" "bounds d' = bounds d"
    "length (rects d') = length (rects d)" "len d' \<le> len d"
  shows "region_inv d'"
  using assms by (auto simp: region_inv_def)

definition fits :: "damage_region \<Rightarrow> damage_rect \<Rightarrow> bool" where
  "fits d r \<longleftrightarrow> proper_rect r \<and> damage_rect_contains (bounds d) r"

lemma region_inv_push:
  assumes "region_inv d" "len d < MAX_DAMAGE_RECTS" "fits d r"
  shows "region_inv (d\<lparr>rects := (rects d)[len d := r], len := len d + 1\<rparr>)"
proof -
  let ?d = "d\<lparr>rects := (rects d)[len d := r], len := len d + 1\<rparr>"
  have slice: "as_slice ?d = as_slice d @ [r]"
    using assms by (intro slice_push) (simp add: region_inv_def)
  have "\<forall>q\<in>set (as_slice ?d). proper_rect q \<and> damage_rect_contains (bounds ?d) q"
    unfolding slice using assms by (auto simp: region_inv_def fits_def)
  then show ?thesis
    using assms unfolding region_inv_def by simp
qed

lemma region_inv_update:
  assumes "region_inv d" "first < len d" "fits d r"
  shows "region_inv (d\<lparr>rects := (rects d)[first := r]\<rparr>)"
proof -
  have "set (take (len d) ((rects d)[first := r])) \<subseteq> insert r (set (as_slice d))"
    using assms by (simp add: as_slice_def take_update_swap set_update_subset_insert)
  then show ?thesis
    using assms by (auto simp: region_inv_def fits_def as_slice_def)
qed

section \<open>Insertion\<close>

lemma find_merge_slice:
  assumes "region_inv d" "find_merge incoming (as_slice d) = Some (index, merged)"
  shows "index < len d" "as_slice d ! index \<in> set (as_slice d)"
    "merge_without_overdraw incoming (as_slice d ! index) = Some merged"
proof -
  have i: "index < length (as_slice d) \<and> merge_without_overdraw incoming (as_slice d ! index) = Some merged"
    by (rule find_merge_Some [OF assms(2)])
  then show "index < len d"
    by (simp add: as_slice_def)
  show "as_slice d ! index \<in> set (as_slice d)"
    "merge_without_overdraw incoming (as_slice d ! index) = Some merged"
    using i by (blast intro: nth_mem)+
qed

text \<open>The merging loop keeps the invariant and the covered points exactly.\<close>

lemma merge_loop_correct:
  "region_inv d \<Longrightarrow> fits d incoming \<Longrightarrow> merge_loop incoming d = (m, d') \<Longrightarrow>
     region_inv d' \<and> bounds d' = bounds d \<and> len d' \<le> len d \<and> fits d m \<and>
     (covers m x y \<or> region_covers d' x y \<longleftrightarrow> covers incoming x y \<or> region_covers d x y)"
proof (induction incoming d rule: merge_loop.induct)
  case (1 incoming d)
  show ?case
  proof (cases "find_merge incoming (as_slice d)")
    case None
    then show ?thesis
      using "1.prems" by (simp add: merge_loop.simps [of incoming d])
  next
    case (Some p)
    obtain index merged where p: "p = (index, merged)"
      by (cases p)
    note f = find_merge_slice [OF "1.prems"(1) Some [unfolded p]]
    let ?r = "as_slice d ! index" and ?d = "damage_remove d index"
    have lenr: "len d \<le> length (rects d)"
      using "1.prems"(1) by (simp add: region_inv_def)
    note rem = slice_remove [OF f(1) lenr]
    have r: "proper_rect ?r" "damage_rect_contains (bounds d) ?r"
      using "1.prems"(1) f(2) by (auto simp: region_inv_def)
    have inc: "proper_rect incoming" "damage_rect_contains (bounds d) incoming"
      using "1.prems"(2) by (simp_all add: fits_def)
    note mc = merge_correct [OF inc(1) r(1) f(3)]
    have fits': "fits ?d merged"
      using mc(1) mc(3) [OF inc(2) r(2)] by (simp add: fits_def rem)
    have inv': "region_inv ?d"
      using "1.prems"(1) rem by (intro region_inv_slice [OF "1.prems"(1)])
        (auto simp flip: set_mset_mset dest: in_diffD)
    have loop: "merge_loop merged ?d = (m, d')"
      using "1.prems"(3) Some p by (simp add: merge_loop.simps [of incoming d])
    have "mset (as_slice d) = add_mset ?r (mset (as_slice ?d))"
      using rem(1) f(2) by simp
    then have "set (as_slice d) = insert ?r (set (as_slice ?d))"
      by (metis set_mset_mset set_mset_add_mset_insert)
    then have cov: "region_covers d x y \<longleftrightarrow> covers ?r x y \<or> region_covers ?d x y"
      by (simp add: region_covers_def)
    have IH: "region_inv d' \<and> bounds d' = bounds ?d \<and> len d' \<le> len ?d \<and> fits ?d m \<and>
        (covers m x y \<or> region_covers d' x y \<longleftrightarrow> covers merged x y \<or> region_covers ?d x y)"
      using "1.IH" [OF Some] p inv' fits' loop by simp
    then show ?thesis
      using mc(2) cov rem by (auto simp: fits_def)
  qed
qed

lemma fold_invariant_list:
  assumes "P s" "\<And>x s. x \<in> set xs \<Longrightarrow> P s \<Longrightarrow> P (f x s)"
  shows "P (fold f xs s)"
  using assms by (induction xs arbitrary: s) simp_all

lemma best_pair_bounds:
  assumes "0 < len d" "best_pair d incoming = (first, second)"
  shows "first < second \<and> second \<le> len d"
proof -
  let ?ok = "\<lambda>best. case best of (_ :: f64, _ :: f64, f, s) \<Rightarrow> f < s \<and> s \<le> len d"
  have "?ok (fold (\<lambda>first best. fold (\<lambda>second best.
         let a = compaction_candidate d incoming first; b = compaction_candidate d incoming second;
             choice = (merge_overdraw a b, damage_rect_area (bounding a b), first, second)
         in if choice_lt choice best then choice else best)
           [Suc first..<Suc (len d)] best) [0..<len d] (Infinite False, Infinite False, 0, len d))"
    using assms(1) by (intro fold_invariant_list [where P = ?ok]) (auto simp: Let_def)
  then show ?thesis
    using assms(2) unfolding best_pair_def by (auto split: prod.splits)
qed

lemma mset_two:
  assumes "i < j" "j < length xs"
  obtains N where "mset xs = add_mset (xs ! i) (add_mset (xs ! j) N)"
proof -
  have "mset xs = add_mset (xs ! j) (mset (take j xs) + mset (drop (Suc j) xs))"
    using arg_cong [OF id_take_nth_drop [OF assms(2)], of mset] by simp
  moreover have "xs ! i \<in># mset (take j xs)"
    using assms nth_mem [of i "take j xs"] by simp
  then obtain N where "mset (take j xs) = add_mset (xs ! i) N"
    by (rule mset_add)
  ultimately show thesis
    using that [of "N + mset (drop (Suc j) xs)"] by simp
qed

text \<open>What a compaction that stays below the bounds stores: the pair is replaced by its box.\<close>

lemma slice_compact:
  assumes slice: "length (rects d) = len d" and bp: "best_pair d incoming = (first, second)"
    and fs: "first < second" "second \<le> len d"
    and m: "m = bounding (compaction_candidate d incoming first) (compaction_candidate d incoming second)"
    and neq: "\<not> damage_rect_eq m (bounds d)"
  shows "mset (as_slice (damage_compact d incoming)) =
      add_mset m (mset (rects d @ [incoming]) -
        {#compaction_candidate d incoming first, compaction_candidate d incoming second#})"
    and "len (damage_compact d incoming) = len d"
    and "length (rects (damage_compact d incoming)) = len d"
    and "bounds (damage_compact d incoming) = bounds d"
proof -
  let ?u = "d\<lparr>rects := (rects d)[first := m]\<rparr>"
  have su: "as_slice ?u = (rects d)[first := m]" "first < length (rects d)"
    using slice fs by (simp_all add: as_slice_def)
  have "mset (as_slice (damage_compact d incoming)) =
      add_mset m (mset (rects d @ [incoming]) -
        {#compaction_candidate d incoming first, compaction_candidate d incoming second#}) \<and>
      len (damage_compact d incoming) = len d \<and>
      length (rects (damage_compact d incoming)) = len d \<and> bounds (damage_compact d incoming) = bounds d"
  proof (cases "second = len d")
    case True
    then have "damage_compact d incoming = ?u"
      using neq by (simp add: damage_compact_def bp m)
    moreover have "compaction_candidate d incoming first = rects d ! first"
      "compaction_candidate d incoming second = incoming"
      using fs True by (simp_all add: compaction_candidate_def)
    ultimately show ?thesis
      using su slice by (simp add: mset_update)
  next
    case False
    let ?d = "damage_remove ?u second"
    have lens: "second < len ?u" "len ?u \<le> length (rects ?u)"
      using False fs slice by simp_all
    note rem = slice_remove [OF lens]
    have eq: "damage_compact d incoming = ?d\<lparr>rects := (rects ?d)[len ?d := incoming], len := len ?d + 1\<rparr>"
      using False neq fs by (simp add: damage_compact_def bp Let_def m)
    have "as_slice (damage_compact d incoming) = as_slice ?d @ [incoming]"
      unfolding eq using rem slice lens by (intro slice_push) simp
    moreover obtain N where "mset (rects d) = add_mset (rects d ! first) (add_mset (rects d ! second) N)"
      using mset_two [of first second "rects d"] lens fs slice by auto
    ultimately have "mset (as_slice (damage_compact d incoming)) = add_mset m (add_mset incoming N)"
      "mset (rects d) = add_mset (rects d ! first) (add_mset (rects d ! second) N)"
      using su fs rem(1) slice by (simp_all add: mset_update)
    moreover have "compaction_candidate d incoming first = rects d ! first"
      "compaction_candidate d incoming second = rects d ! second"
      using fs False by (simp_all add: compaction_candidate_def)
    moreover have "len (damage_compact d incoming) = len d"
      "length (rects (damage_compact d incoming)) = len d" "bounds (damage_compact d incoming) = bounds d"
      using rem lens slice unfolding eq by simp_all
    ultimately show ?thesis
      by simp
  qed
  then show "mset (as_slice (damage_compact d incoming)) =
      add_mset m (mset (rects d @ [incoming]) -
        {#compaction_candidate d incoming first, compaction_candidate d incoming second#})"
    "len (damage_compact d incoming) = len d" "length (rects (damage_compact d incoming)) = len d"
    "bounds (damage_compact d incoming) = bounds d"
    by blast+
qed

text \<open>Compaction keeps the invariant and never loses a covered point.\<close>

lemma damage_compact_correct:
  assumes inv: "region_inv d" and full: "len d = MAX_DAMAGE_RECTS" and inc: "fits d incoming"
  shows "region_inv (damage_compact d incoming) \<and> bounds (damage_compact d incoming) = bounds d \<and>
    (covers incoming x y \<or> region_covers d x y \<longrightarrow> region_covers (damage_compact d incoming) x y)"
proof -
  obtain first second where bp: "best_pair d incoming = (first, second)"
    by (cases "best_pair d incoming")
  have fs: "first < second" "second \<le> len d"
    using best_pair_bounds [OF _ bp] full by (auto simp: MAX_DAMAGE_RECTS_def)
  have lenr: "length (rects d) = len d" and slice: "as_slice d = rects d"
    using inv full by (simp_all add: region_inv_def as_slice_def)
  let ?c = "compaction_candidate d incoming"
  let ?m = "bounding (?c first) (?c second)"
  have cands: "fits d r" if "r \<in> set (rects d @ [incoming])" for r
    using that inv inc slice by (auto simp: region_inv_def fits_def)
  have cmem: "?c i \<in> set (rects d @ [incoming])" if "i \<le> len d" for i
    using that lenr by (auto simp: compaction_candidate_def)
  have c12: "fits d (?c first)" "fits d (?c second)"
    using cands cmem fs by simp_all
  note b = bounding_correct [OF c12 [unfolded fits_def, THEN conjunct1]]
  have m: "fits d ?m"
    using b(1) b(3) c12 by (simp add: fits_def)
  show ?thesis
  proof (cases "damage_rect_eq ?m (bounds d)")
    case True
    then have eq: "damage_compact d incoming = set_full d"
      by (simp add: damage_compact_def bp)
    have "covers (bounds d) x y" if "covers incoming x y"
      using covers_within [of "bounds d" incoming x y] that inc inv by (simp add: fits_def region_inv_def proper_rect_def)
    then show ?thesis
      using set_full_correct [OF inv] region_covers_bounds [OF inv] unfolding eq by blast
  next
    case False
    note sc = slice_compact [OF lenr bp fs refl False]
    have mem: "r \<in> set (as_slice (damage_compact d incoming)) \<or> r = ?c first \<or> r = ?c second"
      if "r \<in> set (rects d @ [incoming])" for r
    proof -
      have "r \<in># mset (rects d @ [incoming])"
        using that by simp
      then have "r \<in># mset (rects d @ [incoming]) - {#?c first, ?c second#} \<or> r = ?c first \<or> r = ?c second"
        by (auto simp: in_diff_count)
      then show ?thesis
        using sc(1) by (metis set_mset_mset insert_iff set_mset_add_mset_insert)
    qed
    have stored: "r = ?m \<or> r \<in> set (rects d @ [incoming])" if "r \<in> set (as_slice (damage_compact d incoming))" for r
      using that sc(1) by (metis in_diffD insert_iff set_mset_add_mset_insert set_mset_mset)
    have "?m \<in> set (as_slice (damage_compact d incoming))"
      using sc(1) by (metis set_mset_mset insertI1 set_mset_add_mset_insert)
    then have "covers incoming x y \<or> region_covers d x y \<longrightarrow> region_covers (damage_compact d incoming) x y"
      using mem b(2) unfolding region_covers_def slice by fastforce
    moreover have "region_inv (damage_compact d incoming)"
      using stored cands m sc(2,3,4) inv full lenr unfolding region_inv_def fits_def by metis
    ultimately show ?thesis
      using sc(4) by simp
  qed
qed

text \<open>Insertion keeps the invariant and the coverage; it is exact while a slot is free.\<close>

lemma damage_insert_correct:
  assumes inv: "region_inv d" and inc: "fits d incoming"
  shows "region_inv (damage_insert d incoming) \<and> bounds (damage_insert d incoming) = bounds d \<and>
    (covers incoming x y \<or> region_covers d x y \<longrightarrow> region_covers (damage_insert d incoming) x y) \<and>
    (len d < MAX_DAMAGE_RECTS \<longrightarrow>
      (region_covers (damage_insert d incoming) x y \<longleftrightarrow> covers incoming x y \<or> region_covers d x y))"
proof -
  obtain m d' where loop: "merge_loop incoming d = (m, d')"
    by (cases "merge_loop incoming d")
  note l = merge_loop_correct [OF inv inc loop, of x y]
  have inv': "region_inv d'" and m: "fits d' m"
    using l by (auto simp: fits_def)
  have within: "covers (bounds d) x y" if "covers r x y" "fits d r" for r
    using covers_within [of "bounds d" r x y] that inv by (simp add: fits_def region_inv_def proper_rect_def)
  have eqcov: "covers r x y \<longleftrightarrow> covers (bounds d) x y" if "damage_rect_eq r (bounds d)" for r
    using that by (auto simp: damage_rect_eq_def f64_eq_def covers_def)
  consider (full) "is_full d" | (bounds) "\<not> is_full d" "damage_rect_eq incoming (bounds d)"
    | (merged) "\<not> is_full d" "\<not> damage_rect_eq incoming (bounds d)" "damage_rect_eq m (bounds d')"
    | (push) "\<not> is_full d" "\<not> damage_rect_eq incoming (bounds d)" "\<not> damage_rect_eq m (bounds d')"
        "len d' < MAX_DAMAGE_RECTS"
    | (compact) "\<not> is_full d" "\<not> damage_rect_eq incoming (bounds d)" "\<not> damage_rect_eq m (bounds d')"
        "len d' = MAX_DAMAGE_RECTS"
    using inv' unfolding region_inv_def by linarith
  then show ?thesis
  proof cases
    case full
    then obtain r where "as_slice d = [r]" "damage_rect_eq r (bounds d)"
      by (auto simp: is_full_def list_all2_Cons2)
    then show ?thesis
      using inv full eqcov within [OF _ inc] by (auto simp: damage_insert_def region_covers_def)
  next
    case bounds
    then show ?thesis
      using set_full_correct [OF inv] eqcov region_covers_bounds [OF inv] by (auto simp: damage_insert_def)
  next
    case merged
    then have "damage_insert d incoming = set_full d'"
      by (simp add: damage_insert_def loop)
    moreover have "covers (bounds d) x y \<longleftrightarrow> covers m x y"
      using eqcov merged l by auto
    ultimately show ?thesis
      using l set_full_correct [OF inv'] region_covers_bounds [OF inv'] by auto
  next
    case push
    then have eq: "damage_insert d incoming = d'\<lparr>rects := (rects d')[len d' := m], len := len d' + 1\<rparr>"
      by (simp add: damage_insert_def loop)
    have "as_slice (damage_insert d incoming) = as_slice d' @ [m]"
      unfolding eq using inv' push by (intro slice_push) (simp add: region_inv_def)
    then have "region_covers (damage_insert d incoming) x y \<longleftrightarrow> covers m x y \<or> region_covers d' x y"
      by (auto simp: region_covers_def)
    then show ?thesis
      using l region_inv_push [OF inv' push(4) m] unfolding eq by simp
  next
    case compact
    then have "damage_insert d incoming = damage_compact d' m"
      by (simp add: damage_insert_def loop)
    then show ?thesis
      using l compact damage_compact_correct [OF inv' compact(4) m, of x y] by auto
  qed
qed

section \<open>Whole-region operations\<close>

definition u32_int :: "int \<Rightarrow> bool" where
  "u32_int n \<longleftrightarrow> 0 \<le> n \<and> n \<le> u32_max"

lemma f64_of_u32: "u32_int n \<Longrightarrow> f64_of_int n = Finite (of_int n)"
  by (simp add: u32_int_def)

lemma damage_empty_inv: "u32_int width \<Longrightarrow> u32_int height \<Longrightarrow> region_inv (damage_empty width height)"
  by (simp add: region_inv_def damage_empty_def as_slice_def finite_rect_def f64_of_u32)

lemma damage_clear_inv:
  "region_inv d \<Longrightarrow> region_inv (damage_clear d) \<and> bounds (damage_clear d) = bounds d \<and>
     as_slice (damage_clear d) = []"
  by (simp add: region_inv_def damage_clear_def as_slice_def)

definition flutter_covers :: "flutter_rect \<Rightarrow> rat \<Rightarrow> rat \<Rightarrow> bool" where
  "flutter_covers r x y \<longleftrightarrow> f64_le (fl_left r) (Finite x) \<and> f64_lt (Finite x) (fl_right r) \<and>
     f64_le (fl_top r) (Finite y) \<and> f64_lt (Finite y) (fl_bottom r)"

lemma clip_bounds_cong: "bounds d' = bounds d \<Longrightarrow> clip d' r = clip d r"
  by (simp add: clip_def)

lemma clip_correct:
  assumes "finite_rect (bounds d)"
  shows "case clip d r of
      ClipInvalid \<Rightarrow> True
    | ClipEmpty \<Rightarrow> \<not> (covers (bounds d) x y \<and> flutter_covers r x y)
    | ClipRect c \<Rightarrow> fits d c \<and> (covers c x y \<longleftrightarrow> covers (bounds d) x y \<and> flutter_covers r x y)"
proof (cases "f64_is_finite (fl_left r) \<and> f64_is_finite (fl_top r) \<and> f64_is_finite (fl_right r) \<and>
    f64_is_finite (fl_bottom r)")
  case True
  then obtain l t r' n where r: "fl_left r = Finite l" "fl_top r = Finite t" "fl_right r = Finite r'"
    "fl_bottom r = Finite n"
    by (auto simp: is_finite_cases)
  obtain l2 t2 r2 n2 where b: "bounds d = \<lparr>rect_left = Finite l2, rect_top = Finite t2,
      rect_right = Finite r2, rect_bottom = Finite n2\<rparr>"
    using finite_rectE [OF assms] by metis
  show ?thesis
    by (simp add: clip_def r b fits_def flutter_covers_def rect_defs Let_def not_le not_less) auto
next
  case False
  then have "clip d r = ClipInvalid"
    by (auto simp: clip_def)
  then show ?thesis
    by simp
qed

lemma insert_clipped_correct:
  "region_inv d \<Longrightarrow> region_inv (insert_clipped d rs) \<and> bounds (insert_clipped d rs) = bounds d \<and>
     (region_covers d x y \<or> covers (bounds d) x y \<and>
        ((\<exists>r\<in>set rs. clip d r = ClipInvalid) \<or> (\<exists>r\<in>set rs. flutter_covers r x y)) \<longrightarrow>
      region_covers (insert_clipped d rs) x y)"
proof (induction rs arbitrary: d)
  case (Cons r rs)
  have fin: "finite_rect (bounds d)"
    using Cons.prems by (simp add: region_inv_def)
  note cc = clip_correct [OF fin, where r = r and x = x and y = y]
  show ?case
  proof (cases "clip d r")
    case ClipEmpty
    then show ?thesis
      using Cons.IH [OF Cons.prems] cc by auto
  next
    case ClipInvalid
    then show ?thesis
      using set_full_correct [OF Cons.prems] region_covers_bounds [OF Cons.prems] by auto
  next
    case (ClipRect c)
    then have c: "fits d c" "covers c x y \<longleftrightarrow> covers (bounds d) x y \<and> flutter_covers r x y"
      using cc by simp_all
    note ins = damage_insert_correct [OF Cons.prems c(1), of x y]
    then have b: "bounds (damage_insert d c) = bounds d" and i: "region_inv (damage_insert d c)"
      by blast+
    show ?thesis
      using Cons.IH [OF i] ins c ClipRect by (simp add: b clip_bounds_cong [OF b]) blast
  qed
qed simp

lemma foldl_insert_correct:
  "region_inv d \<Longrightarrow> \<forall>r\<in>set rs. fits d r \<Longrightarrow>
     region_inv (foldl damage_insert d rs) \<and> bounds (foldl damage_insert d rs) = bounds d \<and>
     (region_covers d x y \<or> (\<exists>r\<in>set rs. covers r x y) \<longrightarrow> region_covers (foldl damage_insert d rs) x y)"
proof (induction rs arbitrary: d)
  case (Cons r rs)
  have r: "fits d r"
    using Cons.prems by simp
  note ins = damage_insert_correct [OF Cons.prems(1) r, of x y]
  then have b: "bounds (damage_insert d r) = bounds d" and i: "region_inv (damage_insert d r)"
    by blast+
  have "\<forall>q\<in>set rs. fits (damage_insert d r) q"
    using Cons.prems by (simp add: fits_def b)
  then show ?case
    using Cons.IH [OF i] ins by (auto simp: b)
qed simp

lemma damage_rect_eq_iff: "finite_rect a \<Longrightarrow> damage_rect_eq a b \<longleftrightarrow> a = b"
  by (elim finite_rectE, cases b) (simp add: damage_rect_eq_def f64_eq_def)

lemma full_slice: "is_full d \<Longrightarrow> finite_rect (bounds d) \<Longrightarrow> as_slice d = [bounds d]"
  unfolding is_full_def list_all2_Cons2
  by (auto simp: damage_rect_eq_def f64_eq_def)

section \<open>Properties\<close>

lemma replace_from_flutter_correct:
  assumes "region_inv d"
  shows "region_inv (replace_from_flutter d rs) \<and>
    bounds (replace_from_flutter d rs) = bounds d \<and>
    (\<forall>x y. covers (bounds d) x y \<longrightarrow>
       (\<exists>r\<in>set rs. clip d r = ClipInvalid) \<or> (\<exists>r\<in>set rs. flutter_covers r x y) \<longrightarrow>
       region_covers (replace_from_flutter d rs) x y)"
proof -
  have c: "region_inv (damage_clear d)" "bounds (damage_clear d) = bounds d"
    using damage_clear_inv [OF assms] by auto
  show ?thesis
    using insert_clipped_correct [OF c(1), of rs]
    unfolding replace_from_flutter_def c(2) clip_bounds_cong [OF c(2)] by blast
qed

text \<open>
  C37: whatever the engine reports, the region that replaces the old one stays well formed (at most
  32 rectangles, none empty, all inside the bounds) and covers every point of the atlas that a
  reported rectangle covers; one invalid rectangle makes it cover the whole atlas.
\<close>

theorem replace_never_loses_damage:
  assumes "region_inv d"
  shows "region_inv (replace_from_flutter d rs) \<and>
    bounds (replace_from_flutter d rs) = bounds d \<and>
    (\<forall>x y. covers (bounds d) x y \<longrightarrow>
       (\<exists>r\<in>set rs. clip d r = ClipInvalid) \<or> (\<exists>r\<in>set rs. flutter_covers r x y) \<longrightarrow>
       region_covers (replace_from_flutter d rs) x y)"
  by (rule replace_from_flutter_correct [OF assms])

theorem replace_never_loses_damage_witness:
  "region_inv (replace_from_flutter (damage_empty 100 50)
     [\<lparr>fl_left = NaN, fl_top = Finite 0, fl_right = Finite 1, fl_bottom = Finite 1\<rparr>]) \<and>
   region_covers (replace_from_flutter (damage_empty 100 50)
     [\<lparr>fl_left = NaN, fl_top = Finite 0, fl_right = Finite 1, fl_bottom = Finite 1\<rparr>]) 99 49"
proof -
  have "region_inv (damage_empty 100 50)"
    by (intro damage_empty_inv) (simp_all add: u32_int_def)
  from replace_never_loses_damage [OF this,
      of "[\<lparr>fl_left = NaN, fl_top = Finite 0, fl_right = Finite 1, fl_bottom = Finite 1\<rparr>]"]
  show ?thesis
    by (auto simp: clip_def damage_empty_def covers_def)
qed

lemma damage_union_correct:
  assumes "region_inv d" and "region_inv other"
  shows "region_inv (damage_union d other) \<and> bounds (damage_union d other) = bounds d \<and>
    (\<forall>x y. region_covers d x y \<or> (bounds d = bounds other \<and> region_covers other x y) \<or>
       (bounds d \<noteq> bounds other \<and> covers (bounds d) x y) \<longrightarrow>
       region_covers (damage_union d other) x y)"
proof -
  have fin: "finite_rect (bounds d)"
    using assms(1) by (simp add: region_inv_def)
  have full: "region_covers d x y \<longleftrightarrow> covers (bounds d) x y" if "is_full d" for x y
    using full_slice [OF that fin] by (simp add: region_covers_def)
  note sf = set_full_correct [OF assms(1)] and rb = region_covers_bounds [OF assms(1)]
    and ro = region_covers_bounds [OF assms(2)]
  consider (bounds) "bounds d \<noteq> bounds other"
    | (same) "bounds d = bounds other" "is_full d \<or> is_empty other"
    | (fill) "bounds d = bounds other" "\<not> is_full d" "\<not> is_empty other" "is_full other"
    | (each) "bounds d = bounds other" "\<not> is_full d" "\<not> is_empty other" "\<not> is_full other"
    by blast
  then show ?thesis
  proof cases
    case bounds
    then show ?thesis
      using sf rb by (simp add: damage_union_def damage_rect_eq_iff [OF fin])
  next
    case same
    have "\<not> region_covers other x y" if "is_empty other" for x y
      using that by (simp add: is_empty_def region_covers_def as_slice_def)
    then have "region_covers d x y" if "region_covers other x y" for x y
      using that same full ro by metis
    moreover have "damage_union d other = d"
      unfolding damage_union_def damage_rect_eq_iff [OF fin] using same by simp
    ultimately show ?thesis
      using same assms(1) by simp
  next
    case fill
    then have "damage_union d other = set_full d"
      unfolding damage_union_def damage_rect_eq_iff [OF fin] by simp
    then show ?thesis
      using sf rb ro fill by auto
  next
    case each
    then have "damage_union d other = foldl damage_insert d (as_slice other)"
      unfolding damage_union_def damage_rect_eq_iff [OF fin] by simp
    moreover have "\<forall>r\<in>set (as_slice other). fits d r"
      using assms(2) each by (simp add: region_inv_def fits_def)
    ultimately show ?thesis
      using foldl_insert_correct [OF assms(1)] each by (simp add: region_covers_def [of other])
  qed
qed

text \<open>
  Merging a second region keeps the first well formed and covers whatever either covered;
  regions of different atlas bounds are never mixed, the result is then the whole atlas.
\<close>

theorem union_never_loses_damage:
  assumes "region_inv d" and "region_inv other"
  shows "region_inv (damage_union d other) \<and> bounds (damage_union d other) = bounds d \<and>
    (\<forall>x y. region_covers d x y \<or> (bounds d = bounds other \<and> region_covers other x y) \<or>
       (bounds d \<noteq> bounds other \<and> covers (bounds d) x y) \<longrightarrow>
       region_covers (damage_union d other) x y)"
  by (rule damage_union_correct [OF assms])

theorem union_never_loses_damage_witness:
  "region_covers (damage_union (damage_empty 100 50) (damage_full 200 50)) 99 49"
proof -
  have e: "region_inv (damage_empty 100 50)" "region_inv (damage_empty 200 50)"
    by (auto intro!: damage_empty_inv simp: u32_int_def)
  then have "region_inv (damage_full 200 50)"
    by (simp add: damage_full_def set_full_correct)
  moreover have "bounds (damage_empty 100 50) \<noteq> bounds (damage_full 200 50)"
    unfolding damage_full_def set_full_correct(2) [OF e(2)] by (simp add: damage_empty_def)
  ultimately show ?thesis
    using union_never_loses_damage [OF e(1)] by (auto simp: damage_empty_def covers_def)
qed

text \<open>
  as long as a slot is free, inserting a rectangle covers exactly the old points and the new
  ones: coalescing never repaints a point that no rectangle covers.
\<close>

theorem damage_insert_exact:
  assumes "region_inv d" and "fits d incoming" and "rect_count d < MAX_DAMAGE_RECTS"
  shows "region_covers (damage_insert d incoming) x y \<longleftrightarrow> covers incoming x y \<or> region_covers d x y"
  using damage_insert_correct [OF assms(1,2), of x y] assms(3) by (simp add: rect_count_def)

theorem damage_insert_exact_witness:
  "\<not> region_covers (damage_insert (damage_empty 100 50)
     \<lparr>rect_left = Finite 1, rect_top = Finite 1, rect_right = Finite 3, rect_bottom = Finite 3\<rparr>) 3 1"
proof -
  have "region_inv (damage_empty 100 50)"
    by (intro damage_empty_inv) (simp_all add: u32_int_def)
  then show ?thesis
    using damage_insert_exact [of "damage_empty 100 50"
        "\<lparr>rect_left = Finite 1, rect_top = Finite 1, rect_right = Finite 3, rect_bottom = Finite 3\<rparr>" 3 1]
    by (simp add: fits_def rect_defs damage_empty_def rect_count_def MAX_DAMAGE_RECTS_def
        region_covers_def as_slice_def)
qed

definition clip_covers :: "int \<times> int \<times> int \<times> int \<Rightarrow> rat \<Rightarrow> rat \<Rightarrow> bool" where
  "clip_covers c x y = (case c of (x1, y1, x2, y2) \<Rightarrow>
     of_int x1 \<le> x \<and> x < of_int x2 \<and> of_int y1 \<le> y \<and> y < of_int y2)"

lemma f64_floor_ceil_i32:
  assumes "0 \<le> l" "l \<le> of_int i32_max"
  shows "f64_as_i32 (f64_floor (Finite l)) = \<lfloor>l\<rfloor>" and "f64_as_i32 (f64_ceil (Finite l)) = \<lceil>l\<rceil>"
proof -
  have "0 \<le> \<lfloor>l\<rfloor>" "\<lfloor>l\<rfloor> \<le> i32_max" "0 \<le> \<lceil>l\<rceil>" "\<lceil>l\<rceil> \<le> i32_max"
    using assms by (simp_all add: floor_le_iff ceiling_le_iff)
  then show "f64_as_i32 (f64_floor (Finite l)) = \<lfloor>l\<rfloor>" "f64_as_i32 (f64_ceil (Finite l)) = \<lceil>l\<rceil>"
    by (simp_all add: rat_trunc_of_int del: f64_as_int.simps)
qed

text \<open>
  The KMS clips of a region, integer and with exclusive corners, cover every point it covers and
  stay inside the framebuffer, as long as the framebuffer's size fits \<open>i32\<close>.
\<close>

theorem kms_clips_cover:
  assumes "region_inv d" and "bounds d = bounds (damage_empty width height)"
    and "0 \<le> width" "width \<le> i32_max" "0 \<le> height" "height \<le> i32_max"
  shows "(\<forall>x y. region_covers d x y \<longrightarrow> (\<exists>c\<in>set (kms_clips d). clip_covers c x y)) \<and>
    (\<forall>(x1, y1, x2, y2)\<in>set (kms_clips d). 0 \<le> x1 \<and> x1 < x2 \<and> x2 \<le> width \<and>
       0 \<le> y1 \<and> y1 < y2 \<and> y2 \<le> height)"
proof -
  have b: "bounds d = \<lparr>rect_left = Finite 0, rect_top = Finite 0,
      rect_right = Finite (of_int width), rect_bottom = Finite (of_int height)\<rparr>"
    using assms by (simp add: damage_empty_def)
  let ?clip = "\<lambda>r. (f64_as_i32 (f64_floor (rect_left r)), f64_as_i32 (f64_floor (rect_top r)),
      f64_as_i32 (f64_ceil (rect_right r)), f64_as_i32 (f64_ceil (rect_bottom r)))"
  have "(covers r x y \<longrightarrow> clip_covers (?clip r) x y) \<and> (case ?clip r of (x1, y1, x2, y2) \<Rightarrow>
      0 \<le> x1 \<and> x1 < x2 \<and> x2 \<le> width \<and> 0 \<le> y1 \<and> y1 < y2 \<and> y2 \<le> height)"
    if r: "r \<in> set (as_slice d)" for r x y
  proof -
    have pr: "proper_rect r" "damage_rect_contains (bounds d) r"
      using assms(1) r by (auto simp: region_inv_def)
    obtain l t r' n where e: "r = \<lparr>rect_left = Finite l, rect_top = Finite t, rect_right = Finite r', rect_bottom = Finite n\<rparr>"
      using pr(1) finite_rectE unfolding proper_rect_def by metis
    have o: "0 \<le> l" "l < r'" "r' \<le> of_int width" "0 \<le> t" "t < n" "n \<le> of_int height"
      using pr unfolding e b by (auto simp: rect_defs)
    have w: "of_int width \<le> (of_int i32_max :: rat)" "of_int height \<le> (of_int i32_max :: rat)"
      using assms by (simp_all only: of_int_le_iff)
    have i: "?clip r = (\<lfloor>l\<rfloor>, \<lfloor>t\<rfloor>, \<lceil>r'\<rceil>, \<lceil>n\<rceil>)"
      using o w by (simp only: e damage_rect.select_convs) (simp only: f64_floor_ceil_i32)
    have "\<lfloor>l\<rfloor> < \<lceil>r'\<rceil>" "\<lfloor>t\<rfloor> < \<lceil>n\<rceil>"
      using o by linarith+
    then have box: "case (\<lfloor>l\<rfloor>, \<lfloor>t\<rfloor>, \<lceil>r'\<rceil>, \<lceil>n\<rceil>) of (x1, y1, x2, y2) \<Rightarrow>
        0 \<le> x1 \<and> x1 < x2 \<and> x2 \<le> width \<and> 0 \<le> y1 \<and> y1 < y2 \<and> y2 \<le> height"
      using o by (simp add: ceiling_le_iff)
    have "covers r x y \<longrightarrow> clip_covers (\<lfloor>l\<rfloor>, \<lfloor>t\<rfloor>, \<lceil>r'\<rceil>, \<lceil>n\<rceil>) x y"
      unfolding e by (simp add: rect_defs clip_covers_def) linarith
    then show ?thesis
      unfolding i using box by blast
  qed
  then show ?thesis
    by (auto simp: kms_clips_def region_covers_def simp del: f64_as_int.simps)
qed

theorem kms_clips_cover_witness:
  "\<exists>c\<in>set (kms_clips (damage_full 100 50)). clip_covers c (199 / 2) 0"
proof -
  have e: "region_inv (damage_empty 100 50)"
    by (intro damage_empty_inv) (simp_all add: u32_int_def)
  have "region_covers (damage_full 100 50) (199 / 2) 0"
    using set_full_correct(3) [OF e] by (simp add: damage_full_def damage_empty_def covers_def)
  then show ?thesis
    using kms_clips_cover [of "damage_full 100 50" 100 50] set_full_correct(1,2) [OF e]
    by (auto simp: damage_full_def)
qed

end
