(* ===== verification/Topology.thy ===== *)
theory Topology
  imports F64
begin

text \<open>
  The output topology of the core library (\<open>compositor/src/topology.rs\<close>): output specifications and
  their validation, transactional topology changes with epochs, the logical bounds, the Flutter
  atlas plan derived from a snapshot, and the per-output raster projections.
\<close>

section \<open>Geometry types\<close>

definition SCALE_BASE :: u32 where "SCALE_BASE = 120"

definition i64_checked_add :: "int \<Rightarrow> int \<Rightarrow> int option" where
  "i64_checked_add a b = (if a + b \<le> i64_max \<and> - i64_max - 1 \<le> a + b then Some (a + b) else None)"

definition i64_checked_neg :: "int \<Rightarrow> int option" where
  "i64_checked_neg a = (if - a \<le> i64_max then Some (- a) else None)"

type_synonym render_view_id = int

definition render_view_for_output :: "output_id \<Rightarrow> render_view_id option" where
  "render_view_for_output oid =
     (if i64_max < uint oid then None
      else Option.bind (i64_checked_add (uint oid) 1) i64_checked_neg)"

text \<open>A point's \<open>i32\<close> coordinates are words read by \<open>sint\<close>.\<close>

record logical_point =
  lp_x :: "32 word"
  lp_y :: "32 word"

record logical_rect =
  lr_x :: f64
  lr_y :: f64
  lr_width :: f64
  lr_height :: f64

definition lr_right :: "logical_rect \<Rightarrow> f64" where
  "lr_right r = f64_add (lr_x r) (lr_width r)"

definition lr_bottom :: "logical_rect \<Rightarrow> f64" where
  "lr_bottom r = f64_add (lr_y r) (lr_height r)"

record pixel_size =
  ps_width :: u32
  ps_height :: u32

record pixel_rect =
  pr_x :: u32
  pr_y :: u32
  pr_width :: u32
  pr_height :: u32

definition pixel_rect_size :: "pixel_rect \<Rightarrow> pixel_size" where
  "pixel_rect_size r = \<lparr>ps_width = pr_width r, ps_height = pr_height r\<rparr>"

section \<open>Transforms\<close>

datatype output_transform =
    Normal | Rotate90 | Rotate180 | Rotate270 | Flipped | Flipped90 | Flipped180 | Flipped270

fun swaps_axes :: "output_transform \<Rightarrow> bool" where
  "swaps_axes Rotate90 = True"
| "swaps_axes Rotate270 = True"
| "swaps_axes Flipped90 = True"
| "swaps_axes Flipped270 = True"
| "swaps_axes t = False"

fun native_to_logical :: "output_transform \<Rightarrow> f64 \<Rightarrow> f64 \<Rightarrow> f64 \<times> f64" where
  "native_to_logical Normal x y = (x, y)"
| "native_to_logical Rotate90 x y = (y, f64_sub (Finite 1) x)"
| "native_to_logical Rotate180 x y = (f64_sub (Finite 1) x, f64_sub (Finite 1) y)"
| "native_to_logical Rotate270 x y = (f64_sub (Finite 1) y, x)"
| "native_to_logical Flipped x y = (f64_sub (Finite 1) x, y)"
| "native_to_logical Flipped90 x y = (y, x)"
| "native_to_logical Flipped180 x y = (x, f64_sub (Finite 1) y)"
| "native_to_logical Flipped270 x y = (f64_sub (Finite 1) y, f64_sub (Finite 1) x)"

fun quarter_turns :: "output_transform \<Rightarrow> nat" where
  "quarter_turns Normal = 0"
| "quarter_turns Rotate90 = 1"
| "quarter_turns Rotate180 = 2"
| "quarter_turns Rotate270 = 3"
| "quarter_turns Flipped = 0"
| "quarter_turns Flipped90 = 1"
| "quarter_turns Flipped180 = 2"
| "quarter_turns Flipped270 = 3"

fun is_reflected :: "output_transform \<Rightarrow> bool" where
  "is_reflected Flipped = True"
| "is_reflected Flipped90 = True"
| "is_reflected Flipped180 = True"
| "is_reflected Flipped270 = True"
| "is_reflected t = False"

definition rotated_by :: "output_transform \<Rightarrow> output_transform \<Rightarrow> output_transform" where
  "rotated_by t rotation =
     (let turns = (quarter_turns t + quarter_turns rotation) mod 4
      in if \<not> is_reflected t then
           (if turns = 0 then Normal else if turns = 1 then Rotate90
            else if turns = 2 then Rotate180 else Rotate270)
         else
           (if turns = 0 then Flipped else if turns = 1 then Flipped90
            else if turns = 2 then Flipped180 else Flipped270))"

fun inverse_rotation :: "output_transform \<Rightarrow> output_transform" where
  "inverse_rotation Normal = Normal"
| "inverse_rotation Flipped = Normal"
| "inverse_rotation Rotate90 = Rotate270"
| "inverse_rotation Flipped90 = Rotate270"
| "inverse_rotation Rotate180 = Rotate180"
| "inverse_rotation Flipped180 = Rotate180"
| "inverse_rotation Rotate270 = Rotate90"
| "inverse_rotation Flipped270 = Rotate90"

section \<open>Output specifications\<close>

datatype output_subpixel =
    SubpixelUnknown | HorizontalRgb | HorizontalBgr | VerticalRgb | VerticalBgr | SubpixelNone

record output_size_mm =
  mm_width :: u32
  mm_height :: u32

text \<open>A Rust string is its list of Unicode scalar values.\<close>

type_synonym ustring = "nat list"

definition is_whitespace :: "nat \<Rightarrow> bool" where
  "is_whitespace c \<longleftrightarrow> 9 \<le> c \<and> c \<le> 13 \<or> c = 32 \<or> c = 133 \<or> c = 160 \<or> c = 5760 \<or>
     8192 \<le> c \<and> c \<le> 8202 \<or> c = 8232 \<or> c = 8233 \<or> c = 8239 \<or> c = 8287 \<or> c = 12288"

text \<open>The order of \<open>str\<close> is that of the UTF-8 bytes, which is the order of the scalar values.\<close>

fun str_lt :: "ustring \<Rightarrow> ustring \<Rightarrow> bool" where
  "str_lt xs [] = False"
| "str_lt [] (y # ys) = True"
| "str_lt (x # xs) (y # ys) = (x < y \<or> x = y \<and> str_lt xs ys)"

record output_spec =
  spec_id :: output_id
  spec_name :: ustring
  spec_position :: logical_point
  spec_mode :: pixel_size
  spec_scale_120 :: u32
  spec_refresh_millihz :: u32
  spec_transform :: output_transform
  spec_subpixel :: output_subpixel
  spec_size_mm :: output_size_mm

abbreviation f64_of_u32 :: "u32 \<Rightarrow> f64" where
  "f64_of_u32 w \<equiv> f64_of_int (uint w)"

definition transformed_pixel_size :: "output_spec \<Rightarrow> pixel_size" where
  "transformed_pixel_size s =
     (if swaps_axes (spec_transform s)
      then \<lparr>ps_width = ps_height (spec_mode s), ps_height = ps_width (spec_mode s)\<rparr>
      else spec_mode s)"

definition spec_logical_rect :: "output_spec \<Rightarrow> logical_rect" where
  "spec_logical_rect s =
     (let transformed = transformed_pixel_size s;
          scale = f64_div (f64_of_u32 (spec_scale_120 s)) (f64_of_u32 SCALE_BASE)
      in \<lparr>lr_x = f64_of_int (sint (lp_x (spec_position s))),
          lr_y = f64_of_int (sint (lp_y (spec_position s))),
          lr_width = f64_div (f64_of_u32 (ps_width transformed)) scale,
          lr_height = f64_div (f64_of_u32 (ps_height transformed)) scale\<rparr>)"

section \<open>Topology changes\<close>

datatype topology_change = Upsert output_spec | Remove output_id

record topology_snapshot =
  snap_epoch :: u64
  snap_bounds :: "logical_rect option"
  snap_ticker :: "output_id option"
  snap_outputs :: "output_spec list"

record topology_commit =
  previous_epoch :: u64
  commit_epoch :: u64
  added :: "output_id list"
  removed :: "output_id list"
  changed :: "output_id list"

definition is_noop :: "topology_commit \<Rightarrow> bool" where
  "is_noop c \<longleftrightarrow> previous_epoch c = commit_epoch c"

datatype topology_error =
    DuplicateName ustring
  | EmptyName output_id
  | EmptyMode output_id
  | InvalidScale output_id
  | InvalidRefresh output_id
  | CoordinateOverflow output_id
  | OverlappingOutputs ustring ustring

record topology_manager =
  tm_epoch :: u64
  tm_outputs :: "output_id \<rightharpoonup> output_spec"
  tm_primary :: "ustring option"

definition topology_manager_default :: topology_manager where
  "topology_manager_default = \<lparr>tm_epoch = 0, tm_outputs = Map.empty, tm_primary = None\<rparr>"

definition logical_rects_overlap :: "logical_rect \<Rightarrow> logical_rect \<Rightarrow> bool" where
  "logical_rects_overlap first second \<longleftrightarrow>
     f64_lt (lr_x first) (lr_right second) \<and> f64_lt (lr_x second) (lr_right first) \<and>
     f64_lt (lr_y first) (lr_bottom second) \<and> f64_lt (lr_y second) (lr_bottom first)"

definition coordinate_overflow :: "logical_rect \<Rightarrow> bool" where
  "coordinate_overflow rect \<longleftrightarrow>
     \<not> f64_is_finite (lr_x rect) \<or> \<not> f64_is_finite (lr_y rect) \<or>
     \<not> f64_is_finite (lr_width rect) \<or> \<not> f64_is_finite (lr_height rect) \<or>
     f64_lt (f64_of_int i32_max) (lr_right rect) \<or> f64_lt (f64_of_int i32_max) (lr_bottom rect) \<or>
     f64_lt (lr_x rect) (f64_of_int i32_min) \<or> f64_lt (lr_y rect) (f64_of_int i32_min)"

fun check_overlaps ::
  "ustring \<Rightarrow> logical_rect \<Rightarrow> (ustring \<times> logical_rect) list \<Rightarrow> topology_error + unit" where
  "check_overlaps name rect [] = Inr ()"
| "check_overlaps name rect ((other_name, other_rect) # rest) =
     (if logical_rects_overlap rect other_rect then
        Inl (if str_lt name other_name then OverlappingOutputs name other_name
             else OverlappingOutputs other_name name)
      else check_overlaps name rect rest)"

text \<open>One output of the validation loop, with the names and rectangles accepted so far.\<close>

definition validate_output ::
  "ustring set \<Rightarrow> (ustring \<times> logical_rect) list \<Rightarrow> output_spec \<Rightarrow> topology_error + unit" where
  "validate_output names rects out =
     (if \<forall>c\<in>set (spec_name out). is_whitespace c then Inl (EmptyName (spec_id out))
      else if spec_name out \<in> names then Inl (DuplicateName (spec_name out))
      else if ps_width (spec_mode out) = 0 \<or> ps_height (spec_mode out) = 0
        then Inl (EmptyMode (spec_id out))
      else if spec_scale_120 out = 0 then Inl (InvalidScale (spec_id out))
      else if spec_refresh_millihz out = 0 then Inl (InvalidRefresh (spec_id out))
      else if coordinate_overflow (spec_logical_rect out) then Inl (CoordinateOverflow (spec_id out))
      else check_overlaps (spec_name out) (spec_logical_rect out) rects)"

fun validate_loop ::
  "ustring set \<Rightarrow> (ustring \<times> logical_rect) list \<Rightarrow> output_spec list \<Rightarrow> topology_error + unit" where
  "validate_loop names rects [] = Inr ()"
| "validate_loop names rects (out # outs) =
     and_then (validate_output names rects out) (\<lambda>_.
       validate_loop (insert (spec_name out) names)
         (rects @ [(spec_name out, spec_logical_rect out)]) outs)"

definition validate_outputs :: "output_spec list \<Rightarrow> topology_error + unit" where
  "validate_outputs outs = validate_loop {} [] outs"

fun apply_change :: "(output_id \<rightharpoonup> output_spec) \<Rightarrow> topology_change \<Rightarrow> (output_id \<rightharpoonup> output_spec)" where
  "apply_change staged (Upsert out) = staged(spec_id out \<mapsto> out)"
| "apply_change staged (Remove oid) = staged(oid := None)"

definition map_values :: "('k::linorder \<rightharpoonup> 'v) \<Rightarrow> 'v list" where
  "map_values m = map snd (map_iter m)"

definition topology_diff ::
  "(output_id \<rightharpoonup> output_spec) \<Rightarrow> (output_id \<rightharpoonup> output_spec) \<Rightarrow>
     output_id list \<times> output_id list \<times> output_id list" where
  "topology_diff previous staged =
     (set_iter (dom staged - dom previous),
      set_iter (dom previous - dom staged),
      filter (\<lambda>oid. previous oid \<noteq> staged oid) (set_iter (dom previous \<inter> dom staged)))"

definition apply_with_primary_output ::
  "topology_manager \<Rightarrow> topology_change list \<Rightarrow> ustring option \<Rightarrow>
     topology_manager \<times> (topology_error + topology_commit)" where
  "apply_with_primary_output m changes primary =
     (let previous = tm_outputs m; staged = foldl apply_change previous changes
      in case validate_outputs (map_values staged) of
           Inl e \<Rightarrow> (m, Inl e)
         | Inr _ \<Rightarrow>
             (case topology_diff previous staged of (add, rem, chg) \<Rightarrow>
               let m' = (if add \<noteq> [] \<or> rem \<noteq> [] \<or> chg \<noteq> [] \<or> tm_primary m \<noteq> primary
                     then m\<lparr>tm_epoch := max (tm_epoch m + 1) 1, tm_outputs := staged,
                            tm_primary := primary\<rparr>
                     else m)
               in (m', Inr \<lparr>previous_epoch = tm_epoch m, commit_epoch = tm_epoch m',
                     added = add, removed = rem, changed = chg\<rparr>)))"

definition topology_apply ::
  "topology_manager \<Rightarrow> topology_change list \<Rightarrow> topology_manager \<times> (topology_error + topology_commit)" where
  "topology_apply m changes = apply_with_primary_output m changes (tm_primary m)"

definition new_with_primary_output ::
  "output_spec list \<Rightarrow> ustring option \<Rightarrow> topology_error + topology_manager" where
  "new_with_primary_output outs primary =
     (case apply_with_primary_output topology_manager_default (map Upsert outs) primary of
        (m, Inl e) \<Rightarrow> Inl e
      | (m, Inr _) \<Rightarrow> Inr m)"

section \<open>Snapshots\<close>

definition logical_bounds :: "output_spec list \<Rightarrow> logical_rect option" where
  "logical_bounds outs =
     (case outs of [] \<Rightarrow> None
      | out # rest \<Rightarrow>
          let first = spec_logical_rect out
          in case foldl (\<lambda>(left, upper, right, lower) out.
               let rect = spec_logical_rect out
               in (f64_min left (lr_x rect), f64_min upper (lr_y rect),
                   f64_max right (lr_right rect), f64_max lower (lr_bottom rect)))
             (lr_x first, lr_y first, lr_right first, lr_bottom first) rest
           of (left, upper, right, lower) \<Rightarrow>
             Some \<lparr>lr_x = left, lr_y = upper, lr_width = f64_sub right left,
                   lr_height = f64_sub lower upper\<rparr>)"

text \<open>\<open>max_by_key\<close> on the refresh rate and the reversed id: the last of the greatest elements.\<close>

definition ticker_le :: "output_spec \<Rightarrow> output_spec \<Rightarrow> bool" where
  "ticker_le a b \<longleftrightarrow> spec_refresh_millihz a < spec_refresh_millihz b \<or>
     spec_refresh_millihz a = spec_refresh_millihz b \<and> spec_id b \<le> spec_id a"

fun max_by_ticker :: "output_spec list \<Rightarrow> output_spec option" where
  "max_by_ticker [] = None"
| "max_by_ticker (x # xs) =
     Some (foldl (\<lambda>best y. if ticker_le best y then y else best) x xs)"

definition topology_snapshot_of :: "topology_manager \<Rightarrow> topology_snapshot" where
  "topology_snapshot_of m =
     (let outs = map_values (tm_outputs m);
          named = Option.bind (tm_primary m) (\<lambda>name. find (\<lambda>out. spec_name out = name) outs);
          ticker = (case named of Some out \<Rightarrow> Some out | None \<Rightarrow> max_by_ticker outs)
      in \<lparr>snap_epoch = tm_epoch m, snap_bounds = logical_bounds outs,
          snap_ticker = map_option spec_id ticker, snap_outputs = outs\<rparr>)"

section \<open>The atlas\<close>

datatype sampling = OneToOne | Scaled

record atlas_output =
  ao_id :: output_id
  ao_logical_rect :: logical_rect
  ao_source_rect :: pixel_rect
  ao_pixel_size :: pixel_size
  ao_transform :: output_transform
  ao_sampling :: sampling

record atlas_plan =
  ap_epoch :: u64
  ap_origin :: "f64 \<times> f64"
  ap_logical_size :: "f64 \<times> f64"
  ap_engine_scale_120 :: u32
  ap_pixel_size :: pixel_size
  ap_outputs :: "atlas_output list"

record output_projection =
  op_scale_x :: f64
  op_skew_x :: f64
  op_translate_x :: f64
  op_skew_y :: f64
  op_scale_y :: f64
  op_translate_y :: f64

record render_output_plan =
  ro_output_id :: output_id
  ro_view_id :: render_view_id
  ro_generation :: u64
  ro_source_rect :: pixel_rect
  ro_target_size :: pixel_size
  ro_scale_120 :: u32
  ro_projection :: output_projection

fun transform_coefficients ::
  "output_transform \<Rightarrow> f64 \<Rightarrow> f64 \<Rightarrow> f64 \<times> f64 \<times> f64 \<times> f64 \<times> f64 \<times> f64" where
  "transform_coefficients Normal width height = (Finite 1, Finite 0, Finite 0, Finite 0, Finite 1, Finite 0)"
| "transform_coefficients Rotate90 width height = (Finite 0, Finite (- 1), height, Finite 1, Finite 0, Finite 0)"
| "transform_coefficients Rotate180 width height =
     (Finite (- 1), Finite 0, width, Finite 0, Finite (- 1), height)"
| "transform_coefficients Rotate270 width height = (Finite 0, Finite 1, Finite 0, Finite (- 1), Finite 0, width)"
| "transform_coefficients Flipped width height = (Finite (- 1), Finite 0, width, Finite 0, Finite 1, Finite 0)"
| "transform_coefficients Flipped90 width height = (Finite 0, Finite 1, Finite 0, Finite 1, Finite 0, Finite 0)"
| "transform_coefficients Flipped180 width height = (Finite 1, Finite 0, Finite 0, Finite 0, Finite (- 1), height)"
| "transform_coefficients Flipped270 width height =
     (Finite 0, Finite (- 1), height, Finite (- 1), Finite 0, width)"

definition projection_for_output :: "output_spec \<Rightarrow> pixel_rect \<Rightarrow> output_projection" where
  "projection_for_output out source =
     (let oriented = transformed_pixel_size out;
          width = f64_of_u32 (ps_width oriented);
          height = f64_of_u32 (ps_height oriented);
          source_scale_x = f64_div width (f64_of_u32 (pr_width source));
          source_scale_y = f64_div height (f64_of_u32 (pr_height source));
          source_x = f64_of_u32 (pr_x source);
          source_y = f64_of_u32 (pr_y source)
      in case transform_coefficients (spec_transform out) width height of
           (scale_x, skew_x, translate_x, skew_y, scale_y, translate_y) \<Rightarrow>
             \<lparr>op_scale_x = f64_mul scale_x source_scale_x,
              op_skew_x = f64_mul skew_x source_scale_y,
              op_translate_x =
                f64_sub (f64_sub translate_x (f64_mul (f64_mul scale_x source_scale_x) source_x))
                  (f64_mul (f64_mul skew_x source_scale_y) source_y),
              op_skew_y = f64_mul skew_y source_scale_x,
              op_scale_y = f64_mul scale_y source_scale_y,
              op_translate_y =
                f64_sub (f64_sub translate_y (f64_mul (f64_mul skew_y source_scale_x) source_x))
                  (f64_mul (f64_mul scale_y source_scale_y) source_y)\<rparr>)"

definition scaled_edge :: "f64 \<Rightarrow> f64 \<Rightarrow> u32" where
  "scaled_edge v scale =
     word_of_int (f64_as_u32 (f64_clamp (f64_round (f64_mul v scale)) (Finite 0) (f64_of_int u32_max)))"

definition u32_saturating_sub :: "u32 \<Rightarrow> u32 \<Rightarrow> u32" where
  "u32_saturating_sub a b = (if b \<le> a then a - b else 0)"

definition plan_output :: "logical_rect \<Rightarrow> f64 \<Rightarrow> output_spec \<Rightarrow> atlas_output" where
  "plan_output bounds engine_scale out =
     (let rect = spec_logical_rect out;
          left = scaled_edge (f64_sub (lr_x rect) (lr_x bounds)) engine_scale;
          upper = scaled_edge (f64_sub (lr_y rect) (lr_y bounds)) engine_scale;
          right = scaled_edge (f64_sub (lr_right rect) (lr_x bounds)) engine_scale;
          lower = scaled_edge (f64_sub (lr_bottom rect) (lr_y bounds)) engine_scale;
          source = \<lparr>pr_x = left, pr_y = upper, pr_width = max (u32_saturating_sub right left) 1,
            pr_height = max (u32_saturating_sub lower upper) 1\<rparr>;
          size = transformed_pixel_size out
      in \<lparr>ao_id = spec_id out, ao_logical_rect = rect, ao_source_rect = source,
          ao_pixel_size = size, ao_transform = spec_transform out,
          ao_sampling = (if pixel_rect_size source = size then OneToOne else Scaled)\<rparr>)"

definition engine_scale_of :: "topology_snapshot \<Rightarrow> u32" where
  "engine_scale_of snapshot =
     (case map spec_scale_120 (snap_outputs snapshot) of [] \<Rightarrow> SCALE_BASE
      | s # ss \<Rightarrow> foldl max s ss)"

definition atlas_for_snapshot :: "topology_snapshot \<Rightarrow> atlas_plan option" where
  "atlas_for_snapshot snapshot =
     (case snap_bounds snapshot of None \<Rightarrow> None
      | Some bounds \<Rightarrow>
          let engine_scale_120 = engine_scale_of snapshot;
              engine_scale = f64_div (f64_of_u32 engine_scale_120) (f64_of_u32 SCALE_BASE);
              width = scaled_edge (lr_width bounds) engine_scale;
              height = scaled_edge (lr_height bounds) engine_scale
          in Some \<lparr>ap_epoch = snap_epoch snapshot, ap_origin = (lr_x bounds, lr_y bounds),
               ap_logical_size = (lr_width bounds, lr_height bounds),
               ap_engine_scale_120 = engine_scale_120,
               ap_pixel_size = \<lparr>ps_width = max width 1, ps_height = max height 1\<rparr>,
               ap_outputs = map (plan_output bounds engine_scale) (snap_outputs snapshot)\<rparr>)"

definition render_output :: "atlas_plan \<Rightarrow> topology_snapshot \<Rightarrow> output_spec \<Rightarrow> render_output_plan option" where
  "render_output plan snapshot out =
     Option.bind (find (\<lambda>planned. ao_id planned = spec_id out) (ap_outputs plan)) (\<lambda>planned.
       map_option (\<lambda>view.
         \<lparr>ro_output_id = spec_id out, ro_view_id = view, ro_generation = snap_epoch snapshot,
          ro_source_rect = ao_source_rect planned, ro_target_size = spec_mode out,
          ro_scale_120 = spec_scale_120 out,
          ro_projection = projection_for_output out (ao_source_rect planned)\<rparr>)
         (render_view_for_output (spec_id out)))"

fun collect_options :: "'a option list \<Rightarrow> 'a list option" where
  "collect_options [] = Some []"
| "collect_options (x # xs) =
     (case x of None \<Rightarrow> None | Some a \<Rightarrow> map_option (Cons a) (collect_options xs))"

definition render_outputs :: "atlas_plan \<Rightarrow> topology_snapshot \<Rightarrow> render_output_plan list option" where
  "render_outputs plan snapshot =
     (if ap_epoch plan = 0 \<or> ap_epoch plan \<noteq> snap_epoch snapshot \<or>
         length (ap_outputs plan) \<noteq> length (snap_outputs snapshot)
      then None
      else collect_options (map (render_output plan snapshot) (snap_outputs snapshot)))"

section \<open>Validation\<close>

definition spec_valid :: "output_spec \<Rightarrow> bool" where
  "spec_valid out \<longleftrightarrow> (\<exists>c\<in>set (spec_name out). \<not> is_whitespace c) \<and>
     ps_width (spec_mode out) \<noteq> 0 \<and> ps_height (spec_mode out) \<noteq> 0 \<and> spec_scale_120 out \<noteq> 0 \<and>
     spec_refresh_millihz out \<noteq> 0 \<and> \<not> coordinate_overflow (spec_logical_rect out)"

definition outputs_valid :: "output_spec list \<Rightarrow> bool" where
  "outputs_valid outs \<longleftrightarrow> (\<forall>out\<in>set outs. spec_valid out) \<and> distinct (map spec_name outs) \<and>
     sorted_wrt (\<lambda>a b. \<not> logical_rects_overlap (spec_logical_rect a) (spec_logical_rect b)) outs"

lemma overlap_sym: "logical_rects_overlap a b \<longleftrightarrow> logical_rects_overlap b a"
  by (auto simp: logical_rects_overlap_def)

lemma check_overlaps_Inr:
  "check_overlaps name rect rects = Inr () \<longleftrightarrow>
     (\<forall>(_, other)\<in>set rects. \<not> logical_rects_overlap rect other)"
  by (induction rects) (auto split: if_splits)

lemma validate_output_Inr:
  "validate_output names rects out = Inr () \<longleftrightarrow> spec_valid out \<and> spec_name out \<notin> names \<and>
     (\<forall>(_, other)\<in>set rects. \<not> logical_rects_overlap (spec_logical_rect out) other)"
  by (simp add: validate_output_def spec_valid_def check_overlaps_Inr)

lemma validate_loop_Inr:
  "validate_loop names rects outs = Inr () \<longleftrightarrow> outputs_valid outs \<and>
     spec_name ` set outs \<inter> names = {} \<and>
     (\<forall>out\<in>set outs. \<forall>(_, other)\<in>set rects. \<not> logical_rects_overlap (spec_logical_rect out) other)"
proof (induction outs arbitrary: names rects)
  case (Cons out outs)
  have sym: "logical_rects_overlap (spec_logical_rect x) (spec_logical_rect out) \<longleftrightarrow>
      logical_rects_overlap (spec_logical_rect out) (spec_logical_rect x)" for x
    by (rule overlap_sym)
  show ?case
    by (simp add: and_then_eq_Inr validate_output_Inr Cons.IH outputs_valid_def ball_Un sym ball_conj_distrib)
      (auto simp: image_iff)
qed (simp add: outputs_valid_def)

lemma validate_outputs_Inr: "validate_outputs outs = Inr () \<longleftrightarrow> outputs_valid outs"
  by (simp add: validate_outputs_def validate_loop_Inr)

section \<open>Commits\<close>

definition keyed :: "(output_id \<rightharpoonup> output_spec) \<Rightarrow> bool" where
  "keyed outs \<longleftrightarrow> finite (dom outs) \<and> (\<forall>oid out. outs oid = Some out \<longrightarrow> spec_id out = oid)"

lemma keyed_apply_change: "keyed outs \<Longrightarrow> keyed (apply_change outs change)"
  by (cases change) (auto simp: keyed_def split: if_splits)

lemma keyed_foldl: "keyed outs \<Longrightarrow> keyed (foldl apply_change outs changes)"
  by (induction changes arbitrary: outs) (simp_all add: keyed_apply_change)

lemma topology_diff_correct:
  assumes "finite (dom previous)" "finite (dom staged)" "topology_diff previous staged = (add, rem, chg)"
  shows "set add = dom staged - dom previous" and "set rem = dom previous - dom staged"
    and "set chg = {oid \<in> dom previous \<inter> dom staged. previous oid \<noteq> staged oid}"
    and "sorted add" "sorted rem" "sorted chg" "distinct add" "distinct rem" "distinct chg"
    and "add = [] \<and> rem = [] \<and> chg = [] \<longleftrightarrow> staged = previous"
proof -
  show sets: "set add = dom staged - dom previous" "set rem = dom previous - dom staged"
    "set chg = {oid \<in> dom previous \<inter> dom staged. previous oid \<noteq> staged oid}"
    using assms by (auto simp: topology_diff_def)
  show "sorted add" "sorted rem" "sorted chg" "distinct add" "distinct rem" "distinct chg"
    using assms(3) by (auto simp: topology_diff_def intro: sorted_wrt_filter)
  have "staged = previous" if "set add = {}" "set rem = {}" "set chg = {}"
  proof (rule ext)
    fix oid
    have doms: "dom staged = dom previous"
      using that(1,2) unfolding sets(1,2) by (simp add: Diff_eq_empty_iff subset_antisym del: dom_eq_empty_conv)
    show "staged oid = previous oid"
    proof (cases "oid \<in> dom previous")
      case True
      then have "oid \<in> dom previous \<inter> dom staged"
        using doms by simp
      then show ?thesis
        using that(3) unfolding sets(3) by (metis (mono_tags, lifting) empty_iff mem_Collect_eq)
    next
      case False
      then have "previous oid = None" "staged oid = None"
        using doms by (metis domIff)+
      then show ?thesis
        by simp
    qed
  qed
  moreover have "set add = {} \<and> set rem = {} \<and> set chg = {}" if "staged = previous"
    unfolding sets using that by auto
  ultimately show "add = [] \<and> rem = [] \<and> chg = [] \<longleftrightarrow> staged = previous"
    by (metis set_empty)
qed

lemma apply_cases:
  assumes "keyed (tm_outputs m)" "apply_with_primary_output m changes primary = (m', r)"
  obtains (rejected) e where "r = Inl e" "m' = m"
      "validate_outputs (map_values (foldl apply_change (tm_outputs m) changes)) = Inl e"
  | (accepted) c where "r = Inr c"
      "outputs_valid (map_values (foldl apply_change (tm_outputs m) changes))"
      "tm_outputs m' = foldl apply_change (tm_outputs m) changes" "tm_primary m' = primary"
      "topology_diff (tm_outputs m) (tm_outputs m') = (added c, removed c, changed c)"
      "previous_epoch c = tm_epoch m" "commit_epoch c = tm_epoch m'"
      "tm_epoch m' = (if tm_outputs m' = tm_outputs m \<and> primary = tm_primary m then tm_epoch m
         else max (tm_epoch m + 1) 1)"
proof -
  let ?staged = "foldl apply_change (tm_outputs m) changes"
  obtain add rem chg where d: "topology_diff (tm_outputs m) ?staged = (add, rem, chg)"
    by (cases "topology_diff (tm_outputs m) ?staged")
  have fin: "finite (dom (tm_outputs m))" "finite (dom ?staged)"
    using assms(1) keyed_foldl [OF assms(1)] by (auto simp: keyed_def)
  note same = topology_diff_correct(10) [OF fin d]
  show thesis
  proof (cases "validate_outputs (map_values ?staged)")
    case (Inl e)
    then show thesis
      using assms(2) by (intro rejected [of e]) (simp_all add: apply_with_primary_output_def)
  next
    case (Inr u)
    let ?c = "\<lparr>previous_epoch = tm_epoch m, commit_epoch = tm_epoch m',
      added = add, removed = rem, changed = chg\<rparr>"
    let ?m = "if ?staged \<noteq> tm_outputs m \<or> tm_primary m \<noteq> primary
      then m\<lparr>tm_epoch := max (tm_epoch m + 1) 1, tm_outputs := ?staged, tm_primary := primary\<rparr> else m"
    have same': "add \<noteq> [] \<or> rem \<noteq> [] \<or> chg \<noteq> [] \<longleftrightarrow> ?staged \<noteq> tm_outputs m"
      using same by blast
    have "apply_with_primary_output m changes primary = (?m, Inr \<lparr>previous_epoch = tm_epoch m,
        commit_epoch = tm_epoch ?m, added = add, removed = rem, changed = chg\<rparr>)"
      unfolding apply_with_primary_output_def Let_def Inr d sum.case prod.case
        disj_assoc [symmetric] same' [unfolded disj_assoc [symmetric]] by (rule refl)
    then have m': "m' = ?m" "r = Inr ?c"
      using assms(2) by simp_all
    have out: "tm_outputs m' = ?staged"
      by (simp add: m'(1))
    show thesis
    proof (rule accepted)
      show "r = Inr ?c"
        by (rule m'(2))
      show "outputs_valid (map_values ?staged)"
        using Inr by (simp add: validate_outputs_Inr)
      show "topology_diff (tm_outputs m) (tm_outputs m') = (added ?c, removed ?c, changed ?c)"
        unfolding out using d by simp
      show "tm_epoch m' = (if tm_outputs m' = tm_outputs m \<and> primary = tm_primary m then tm_epoch m
         else max (tm_epoch m + 1) 1)"
        unfolding out by (auto simp: m'(1))
    qed (use out in \<open>auto simp: m'(1)\<close>)
  qed
qed

section \<open>Rounding to atlas pixels\<close>

lemma rnd_finite:
  assumes "\<bar>x\<bar> \<le> 2 ^ 100"
  shows "rnd x = Finite (fl x)"
proof -
  have p: "fl (2 ^ 100) = 2 ^ 100"
    using fl_exact [of 1 100] by (simp add: pow2_def)
  have "fl x \<le> fl (2 ^ 100)" "fl (- (2 ^ 100)) \<le> fl x"
    using assms by (auto intro!: fl_mono)
  then have "\<bar>fl x\<bar> \<le> 2 ^ 100"
    unfolding fl_uminus p by linarith
  moreover have "(2 :: rat) ^ 100 < pow2 1024"
    using pow2_less_iff [of 100 1024] by (simp add: pow2_def)
  ultimately show ?thesis
    by (simp add: rnd_def not_le)
qed

lemma fl_bound:
  assumes "\<bar>x\<bar> \<le> 2 ^ n" "n \<le> 100"
  shows "\<bar>fl x\<bar> \<le> 2 ^ n"
proof -
  have "fl (of_int 1 * pow2 (int n)) = of_int 1 * pow2 (int n)"
    by (rule fl_exact) simp_all
  then have p: "fl (2 ^ n) = 2 ^ n"
    by (simp add: pow2_def)
  have "fl x \<le> fl (2 ^ n)" "fl (- (2 ^ n)) \<le> fl x"
    using assms by (auto intro!: fl_mono)
  then show ?thesis
    unfolding fl_uminus p by linarith
qed

lemma uint_u32_of_int: "0 \<le> n \<Longrightarrow> n \<le> u32_max \<Longrightarrow> uint (word_of_int n :: u32) = n"
  by (simp add: uint_word_of_int take_bit_int_eq_self)

text \<open>The pixel a finite edge of moderate size lands on.\<close>

definition edge_pixel :: "rat \<Rightarrow> rat \<Rightarrow> int" where
  "edge_pixel x s = clamp (rat_round (fl (x * s))) 0 u32_max"

lemma scaled_edge_finite:
  assumes "\<bar>x * s\<bar> \<le> 2 ^ 100"
  shows "uint (scaled_edge (Finite x) (Finite s)) = edge_pixel x s"
proof -
  have b: "0 \<le> edge_pixel x s" "edge_pixel x s \<le> u32_max"
    using clamp_bounds [of 0 u32_max] by (simp_all add: edge_pixel_def)
  have "clamp (of_int n :: rat) 0 4294967295 = of_int (clamp n 0 u32_max)" for n
    by (auto simp: clamp_def)
  then have "scaled_edge (Finite x) (Finite s) = word_of_int (f64_as_u32 (Finite (of_int (edge_pixel x s))))"
    using assms by (simp add: scaled_edge_def rnd_finite edge_pixel_def del: f64_as_int.simps)
  then show ?thesis
    using b by (simp add: f64_as_int_of_int uint_u32_of_int del: f64_as_int.simps)
qed

lemma edge_pixel_mono: "x \<le> y \<Longrightarrow> 0 \<le> s \<Longrightarrow> edge_pixel x s \<le> edge_pixel y s"
  unfolding edge_pixel_def
  by (intro clamp_mono rat_round_mono fl_mono mult_right_mono) simp_all

section \<open>Finite rectangles of valid outputs\<close>

lemma f64_of_u32_exact [simp]: "f64_of_u32 w = Finite (of_int (uint w))"
proof -
  have "uint w < 4294967296"
    using uint_lt2p [of w] by simp
  then show ?thesis
    by simp
qed

lemma f64_of_i32_exact [simp]: "f64_of_int (sint (w :: 32 word)) = Finite (of_int (sint w))"
proof -
  have "\<bar>sint w\<bar> \<le> 9007199254740992"
    using sint_range_size [of w] by (auto simp: word_size)
  then show ?thesis
    by (rule f64_of_int_exact)
qed

lemma i32_sint: "i32_min \<le> sint (w :: 32 word)" "sint (w :: 32 word) \<le> i32_max"
  using sint_range_size [of w] by (auto simp: word_size)

lemma rnd_Finite: "rnd x = Finite y \<Longrightarrow> y = fl x"
  by (simp add: rnd_def Let_def split: if_splits)

lemma rnd_quotient_nonneg: "rnd (x / s) = Finite y \<Longrightarrow> 0 \<le> x \<Longrightarrow> 0 < s \<Longrightarrow> 0 \<le> y"
  using fl_nonneg [of "x / s"] rnd_Finite [of "x / s" y] by simp

lemma scale_positive:
  assumes "w \<noteq> (0 :: u32)"
  shows "\<exists>s. 0 < s \<and> s \<le> 2 ^ 32 \<and> f64_div (f64_of_u32 w) (f64_of_u32 SCALE_BASE) = Finite s"
proof -
  have u: "0 < uint w" "uint w < 2 ^ 32"
    using assms uint_lt2p [of w] by (simp_all add: word_neq_0_conv [symmetric] uint_0_iff order_less_le)
  have "(of_int 1 :: rat) \<le> of_int (uint w)" "of_int (uint w) \<le> (of_int (2 ^ 32) :: rat)"
    unfolding of_int_le_iff using u by simp_all
  then have b: "(1 :: rat) / 128 \<le> of_int (uint w) / 120" "of_int (uint w) / 120 \<le> (2 ^ 32 :: rat)"
    by simp_all
  have "fl (1 / 128) = 1 / 128"
    using fl_exact [of 1 "- 7"] by (simp add: pow2_def)
  then have "1 / 128 \<le> fl (of_int (uint w) / 120)"
    using fl_mono [OF b(1)] by simp
  moreover have "\<bar>of_int (uint w) / 120\<bar> \<le> (2 ^ 32 :: rat)"
    using b by linarith
  moreover from this have "\<bar>of_int (uint w) / 120\<bar> \<le> (2 ^ 100 :: rat)"
    by (rule order_trans) simp
  ultimately have "rnd (of_int (uint w) / 120) = Finite (fl (of_int (uint w) / 120))"
    "\<bar>fl (of_int (uint w) / 120)\<bar> \<le> 2 ^ 32" "1 / 128 \<le> fl (of_int (uint w) / 120)"
    by (simp_all only: rnd_finite) (rule fl_bound, assumption, simp)
  then show ?thesis
    by (intro exI [of _ "fl (of_int (uint w) / 120)"]) (auto simp: SCALE_BASE_def)
qed

lemma far_edge:
  assumes "0 \<le> w" "\<not> f64_lt (Finite (of_int i32_max)) (f64_add (Finite (of_int (sint (p :: 32 word)))) (Finite w))"
  shows "\<exists>r. f64_add (Finite (of_int (sint p))) (Finite w) = Finite r \<and> of_int (sint p) \<le> r \<and> r \<le> of_int i32_max"
proof -
  let ?x = "of_int (sint p) :: rat"
  have "fl ?x \<le> fl (?x + w)"
    using assms(1) by (intro fl_mono) simp
  moreover have "fl ?x = ?x"
    using i32_sint [of p] by (intro fl_of_int) auto
  ultimately have ge: "?x \<le> fl (?x + w)"
    by simp
  have "of_int i32_min \<le> ?x"
    using i32_sint by (simp only: of_int_le_iff)
  moreover have "(2 :: rat) ^ 31 < pow2 1024"
    using pow2_less_iff [of 31 1024] by (simp add: pow2_def)
  ultimately have neg: "\<not> pow2 1024 \<le> - fl (?x + w)"
    using ge by simp
  show ?thesis
  proof (cases "pow2 1024 \<le> \<bar>fl (?x + w)\<bar>")
    case True
    then have "0 \<le> fl (?x + w)"
      using neg by linarith
    then have "f64_add (Finite ?x) (Finite w) = Infinite False"
      using True by (simp add: rnd_def Let_def)
    then show ?thesis
      using assms(2) by simp
  next
    case False
    then have "f64_add (Finite ?x) (Finite w) = Finite (fl (?x + w))"
      by (simp add: rnd_def Let_def)
    then show ?thesis
      using assms(2) ge by simp
  qed
qed

text \<open>The four edges of a valid output, as numbers in the \<open>i32\<close> range.\<close>

lemma spec_valid_edges:
  assumes "spec_valid out"
  obtains x y r b w h where "spec_logical_rect out = \<lparr>lr_x = Finite x, lr_y = Finite y,
      lr_width = Finite w, lr_height = Finite h\<rparr>"
    and "lr_right (spec_logical_rect out) = Finite r" and "lr_bottom (spec_logical_rect out) = Finite b"
    and "of_int i32_min \<le> x" "x \<le> r" "r \<le> of_int i32_max"
    and "of_int i32_min \<le> y" "y \<le> b" "b \<le> of_int i32_max"
proof -
  let ?R = "spec_logical_rect out"
  define x where "x = (of_int (sint (lp_x (spec_position out))) :: rat)"
  define y where "y = (of_int (sint (lp_y (spec_position out))) :: rat)"
  have co: "\<not> coordinate_overflow ?R"
    using assms by (simp add: spec_valid_def)
  have xy: "lr_x ?R = Finite x" "lr_y ?R = Finite y"
    by (simp_all add: spec_logical_rect_def Let_def x_def y_def)
  obtain w h where wh: "lr_width ?R = Finite w" "lr_height ?R = Finite h"
    using co by (cases "lr_width ?R"; cases "lr_height ?R") (auto simp: coordinate_overflow_def)
  obtain s where s: "0 < s" "f64_div (f64_of_u32 (spec_scale_120 out)) (f64_of_u32 SCALE_BASE) = Finite s"
    using scale_positive assms by (metis spec_valid_def)
  have "lr_width ?R = f64_div (f64_of_u32 (ps_width (transformed_pixel_size out))) (Finite s)"
    "lr_height ?R = f64_div (f64_of_u32 (ps_height (transformed_pixel_size out))) (Finite s)"
    by (simp_all only: spec_logical_rect_def Let_def s(2) logical_rect.select_convs)
  then have "rnd (of_int (uint (ps_width (transformed_pixel_size out))) / s) = Finite w"
    "rnd (of_int (uint (ps_height (transformed_pixel_size out))) / s) = Finite h"
    using wh s(1) by simp_all
  moreover have "0 \<le> (of_int (uint v) :: rat)" for v :: u32
    by (rule of_int_nonneg) simp
  ultimately have wh0: "0 \<le> w" "0 \<le> h"
    using s(1) by (metis rnd_quotient_nonneg)+
  have r: "lr_right ?R = f64_add (Finite x) (Finite w)" "lr_bottom ?R = f64_add (Finite y) (Finite h)"
    by (simp_all only: lr_right_def lr_bottom_def xy wh)
  have lt: "\<not> f64_lt (Finite (of_int i32_max)) (f64_add (Finite x) (Finite w))"
    "\<not> f64_lt (Finite (of_int i32_max)) (f64_add (Finite y) (Finite h))"
    using co unfolding coordinate_overflow_def r by simp_all
  obtain r1 b1 where rb: "lr_right ?R = Finite r1" "lr_bottom ?R = Finite b1"
    "x \<le> r1" "r1 \<le> of_int i32_max" "y \<le> b1" "b1 \<le> of_int i32_max"
    using far_edge [OF wh0(1) lt(1) [unfolded x_def]] far_edge [OF wh0(2) lt(2) [unfolded y_def]]
    unfolding r x_def y_def by (elim exE conjE) simp
  have "of_int i32_min \<le> x" "of_int i32_min \<le> y"
    unfolding x_def y_def using i32_sint by (simp_all only: of_int_le_iff)
  then show thesis
    using rb xy wh by (intro that [of x y w h r1 b1]) simp_all
qed

section \<open>Logical bounds\<close>

text \<open>The edges of a valid output as numbers.\<close>

fun number :: "f64 \<Rightarrow> rat" where
  "number (Finite x) = x"
| "number a = 0"

definition x0 :: "output_spec \<Rightarrow> rat" where "x0 out = number (lr_x (spec_logical_rect out))"
definition x1 :: "output_spec \<Rightarrow> rat" where "x1 out = number (lr_right (spec_logical_rect out))"
definition y0 :: "output_spec \<Rightarrow> rat" where "y0 out = number (lr_y (spec_logical_rect out))"
definition y1 :: "output_spec \<Rightarrow> rat" where "y1 out = number (lr_bottom (spec_logical_rect out))"

lemma valid_edges:
  assumes "spec_valid out"
  shows "lr_x (spec_logical_rect out) = Finite (x0 out)"
    and "lr_right (spec_logical_rect out) = Finite (x1 out)"
    and "lr_y (spec_logical_rect out) = Finite (y0 out)"
    and "lr_bottom (spec_logical_rect out) = Finite (y1 out)"
    and "- 2147483648 \<le> x0 out" "x0 out \<le> x1 out" "x1 out \<le> 2147483647"
    and "- 2147483648 \<le> y0 out" "y0 out \<le> y1 out" "y1 out \<le> 2147483647"
proof -
  obtain x y r b w h where e: "spec_logical_rect out = \<lparr>lr_x = Finite x, lr_y = Finite y,
      lr_width = Finite w, lr_height = Finite h\<rparr>"
    "lr_right (spec_logical_rect out) = Finite r" "lr_bottom (spec_logical_rect out) = Finite b"
    and i: "of_int i32_min \<le> x" "x \<le> r" "r \<le> of_int i32_max"
      "of_int i32_min \<le> y" "y \<le> b" "b \<le> of_int i32_max"
    by (rule spec_valid_edges [OF assms])
  have n: "x0 out = x" "x1 out = r" "y0 out = y" "y1 out = b"
    unfolding x0_def x1_def y0_def y1_def e(2,3) by (simp_all add: e(1))
  show "lr_x (spec_logical_rect out) = Finite (x0 out)"
    "lr_right (spec_logical_rect out) = Finite (x1 out)"
    "lr_y (spec_logical_rect out) = Finite (y0 out)"
    "lr_bottom (spec_logical_rect out) = Finite (y1 out)"
    unfolding n e(2,3) by (simp_all add: e(1))
  show "- 2147483648 \<le> x0 out" "x0 out \<le> x1 out" "x1 out \<le> 2147483647"
    "- 2147483648 \<le> y0 out" "y0 out \<le> y1 out" "y1 out \<le> 2147483647"
    unfolding n using i by simp_all
qed

definition bounds_step :: "f64 \<times> f64 \<times> f64 \<times> f64 \<Rightarrow> output_spec \<Rightarrow> f64 \<times> f64 \<times> f64 \<times> f64" where
  "bounds_step = (\<lambda>(left, upper, right, lower) out.
     let rect = spec_logical_rect out
     in (f64_min left (lr_x rect), f64_min upper (lr_y rect),
         f64_max right (lr_right rect), f64_max lower (lr_bottom rect)))"

lemma bounds_fold:
  assumes "\<forall>out\<in>set outs. spec_valid out"
  shows "foldl bounds_step (Finite l, Finite t, Finite r, Finite b) outs =
    (Finite (foldl min l (map x0 outs)), Finite (foldl min t (map y0 outs)),
     Finite (foldl max r (map x1 outs)), Finite (foldl max b (map y1 outs)))"
  using assms
proof (induction outs arbitrary: l t r b)
  case (Cons out outs)
  then have "bounds_step (Finite l, Finite t, Finite r, Finite b) out =
      (Finite (min l (x0 out)), Finite (min t (y0 out)), Finite (max r (x1 out)), Finite (max b (y1 out)))"
    by (simp add: bounds_step_def Let_def valid_edges)
  then show ?case
    using Cons by simp
qed simp

lemma foldl_min_le: "foldl min (a :: rat) xs \<le> a \<and> (\<forall>x\<in>set xs. foldl min a xs \<le> x)"
proof (induction xs arbitrary: a)
  case (Cons x xs)
  show ?case
    using Cons.IH [of "min a x"] by auto
qed simp

lemma foldl_max_ge: "a \<le> foldl max (a :: rat) xs \<and> (\<forall>x\<in>set xs. x \<le> foldl max a xs)"
proof (induction xs arbitrary: a)
  case (Cons x xs)
  show ?case
    using Cons.IH [of "max a x"] by auto
qed simp

lemma foldl_min_lower: "c \<le> a \<Longrightarrow> \<forall>x\<in>set xs. c \<le> x \<Longrightarrow> c \<le> foldl min (a :: rat) xs"
  by (induction xs arbitrary: a) auto

lemma foldl_max_upper: "a \<le> c \<Longrightarrow> \<forall>x\<in>set xs. x \<le> c \<Longrightarrow> foldl max (a :: rat) xs \<le> c"
  by (induction xs arbitrary: a) auto

text \<open>The bounds of valid outputs contain every output.\<close>

lemma logical_bounds_correct:
  assumes valid: "\<forall>out\<in>set outs. spec_valid out" and "logical_bounds outs = Some bounds"
  obtains l t r b where "bounds = \<lparr>lr_x = Finite l, lr_y = Finite t,
      lr_width = f64_sub (Finite r) (Finite l), lr_height = f64_sub (Finite b) (Finite t)\<rparr>"
    and "\<forall>out\<in>set outs. l \<le> x0 out \<and> x1 out \<le> r \<and> t \<le> y0 out \<and> y1 out \<le> b"
    and "- 2147483648 \<le> l" "l \<le> r" "r \<le> 2147483647" "- 2147483648 \<le> t" "t \<le> b" "b \<le> 2147483647"
proof -
  obtain out rest where o: "outs = out # rest"
    using assms(2) by (cases outs) (auto simp: logical_bounds_def)
  have v: "spec_valid out" "\<forall>out\<in>set rest. spec_valid out"
    using valid o by simp_all
  let ?l = "foldl min (x0 out) (map x0 rest)" and ?t = "foldl min (y0 out) (map y0 rest)"
  let ?r = "foldl max (x1 out) (map x1 rest)" and ?b = "foldl max (y1 out) (map y1 rest)"
  have e: "- 2147483648 \<le> x0 o'" "x0 o' \<le> x1 o'" "x1 o' \<le> 2147483647"
    "- 2147483648 \<le> y0 o'" "y0 o' \<le> y1 o'" "y1 o' \<le> 2147483647" if "o' \<in> set outs" for o'
    using valid_edges(5-10) valid that by blast+
  have eq: "bounds = \<lparr>lr_x = Finite ?l, lr_y = Finite ?t,
      lr_width = f64_sub (Finite ?r) (Finite ?l), lr_height = f64_sub (Finite ?b) (Finite ?t)\<rparr>"
    using assms(2) bounds_fold [OF v(2)]
    by (simp add: logical_bounds_def o Let_def valid_edges [OF v(1)] flip: bounds_step_def [unfolded Let_def])
  have cover: "\<forall>o'\<in>set outs. ?l \<le> x0 o' \<and> x1 o' \<le> ?r \<and> ?t \<le> y0 o' \<and> y1 o' \<le> ?b"
    using foldl_min_le [of "x0 out" "map x0 rest"] foldl_min_le [of "y0 out" "map y0 rest"]
      foldl_max_ge [of "x1 out" "map x1 rest"] foldl_max_ge [of "y1 out" "map y1 rest"] by (simp add: o)
  have low: "- 2147483648 \<le> ?l" "- 2147483648 \<le> ?t" "?r \<le> 2147483647" "?b \<le> 2147483647"
    using e by (auto intro!: foldl_min_lower foldl_max_upper simp: o)
  moreover have "?l \<le> ?r" "?t \<le> ?b"
    using cover e [of out] o by (force intro: order_trans)+
  ultimately show thesis
    using that [OF eq cover] by simp
qed

section \<open>Atlas lemmas\<close>

lemma engine_scale_nonzero:
  assumes "\<forall>out\<in>set (snap_outputs snapshot). spec_valid out"
  shows "engine_scale_of snapshot \<noteq> 0"
proof (cases "snap_outputs snapshot")
  case (Cons out outs)
  have "s \<le> foldl max s ss" for s :: u32 and ss
    by (induction ss arbitrary: s) (auto intro: order_trans [OF max.cobounded1])
  then have "spec_scale_120 out \<le> engine_scale_of snapshot"
    by (simp add: engine_scale_of_def Cons)
  moreover have "spec_scale_120 out \<noteq> 0"
    using assms Cons by (simp add: spec_valid_def)
  ultimately show ?thesis
    by (metis word_le_0_iff)
qed (simp add: engine_scale_of_def SCALE_BASE_def)

text \<open>The pixel of an edge relative to the bounds' origin.\<close>

lemma scaled_difference:
  assumes "- 2147483648 \<le> l" "l \<le> x" "x \<le> 2147483647" "0 < s" "s \<le> 2 ^ 32"
  shows "uint (scaled_edge (f64_sub (Finite x) (Finite l)) (Finite s)) = edge_pixel (fl (x - l)) s"
proof -
  have small: "\<bar>x - l\<bar> \<le> 2 ^ 33"
    using assms by simp
  then have "\<bar>x - l\<bar> \<le> 2 ^ 100"
    by (rule order_trans) simp
  then have sub: "f64_sub (Finite x) (Finite l) = Finite (fl (x - l))"
    by (simp add: rnd_finite)
  have "\<bar>fl (x - l)\<bar> \<le> 2 ^ 33"
    using small by (rule fl_bound) simp
  then have "\<bar>fl (x - l)\<bar> * \<bar>s\<bar> \<le> 2 ^ 33 * 2 ^ 32"
    using assms by (intro mult_mono) simp_all
  then have "\<bar>fl (x - l) * s\<bar> \<le> 2 ^ 100"
    unfolding abs_mult by (rule order_trans) simp
  then show ?thesis
    unfolding sub by (rule scaled_edge_finite)
qed

lemma edge_pixel_diff_mono: "x \<le> y \<Longrightarrow> 0 < s \<Longrightarrow> edge_pixel (fl (x - l)) s \<le> edge_pixel (fl (y - l)) s"
  by (intro edge_pixel_mono fl_mono) simp_all

lemma uint_max_1: "uint (max w (1 :: u32)) = max (uint w) 1"
  by (simp add: max_def word_le_def)

lemma uint_saturating_sub: "uint (u32_saturating_sub a b) = max (uint a - uint b) 0"
  by (auto simp: u32_saturating_sub_def word_le_def uint_sub_if')

text \<open>The source rectangle the plan gives an output, in terms of its edges.\<close>

lemma plan_output_source:
  assumes "spec_valid out" and b: "bounds = \<lparr>lr_x = Finite l, lr_y = Finite t, lr_width = w, lr_height = h\<rparr>"
    and "- 2147483648 \<le> l" "l \<le> x0 out" "- 2147483648 \<le> t" "t \<le> y0 out" and s: "0 < s" "s \<le> 2 ^ 32"
  shows "uint (pr_x (ao_source_rect (plan_output bounds (Finite s) out))) = edge_pixel (fl (x0 out - l)) s"
    and "uint (pr_y (ao_source_rect (plan_output bounds (Finite s) out))) = edge_pixel (fl (y0 out - t)) s"
    and "uint (pr_width (ao_source_rect (plan_output bounds (Finite s) out))) =
      max (edge_pixel (fl (x1 out - l)) s - edge_pixel (fl (x0 out - l)) s) 1"
    and "uint (pr_height (ao_source_rect (plan_output bounds (Finite s) out))) =
      max (edge_pixel (fl (y1 out - t)) s - edge_pixel (fl (y0 out - t)) s) 1"
proof -
  note e = valid_edges [OF assms(1)]
  have px: "uint (scaled_edge (f64_sub (Finite (x0 out)) (Finite l)) (Finite s)) = edge_pixel (fl (x0 out - l)) s"
    "uint (scaled_edge (f64_sub (Finite (x1 out)) (Finite l)) (Finite s)) = edge_pixel (fl (x1 out - l)) s"
    "uint (scaled_edge (f64_sub (Finite (y0 out)) (Finite t)) (Finite s)) = edge_pixel (fl (y0 out - t)) s"
    "uint (scaled_edge (f64_sub (Finite (y1 out)) (Finite t)) (Finite s)) = edge_pixel (fl (y1 out - t)) s"
    by (rule scaled_difference; use e(5-10) assms(3-6) s in linarith)+
  show "uint (pr_x (ao_source_rect (plan_output bounds (Finite s) out))) = edge_pixel (fl (x0 out - l)) s"
    "uint (pr_y (ao_source_rect (plan_output bounds (Finite s) out))) = edge_pixel (fl (y0 out - t)) s"
    unfolding px [symmetric] by (simp_all add: plan_output_def Let_def e b del: f64_sub_Finite)
  have "uint (pr_width (ao_source_rect (plan_output bounds (Finite s) out))) =
      max (max (edge_pixel (fl (x1 out - l)) s - edge_pixel (fl (x0 out - l)) s) 0) 1"
    "uint (pr_height (ao_source_rect (plan_output bounds (Finite s) out))) =
      max (max (edge_pixel (fl (y1 out - t)) s - edge_pixel (fl (y0 out - t)) s) 0) 1"
    unfolding px [symmetric] uint_saturating_sub [symmetric] uint_max_1 [symmetric]
    by (simp_all add: plan_output_def Let_def e b del: f64_sub_Finite)
  then show "uint (pr_width (ao_source_rect (plan_output bounds (Finite s) out))) =
      max (edge_pixel (fl (x1 out - l)) s - edge_pixel (fl (x0 out - l)) s) 1"
    "uint (pr_height (ao_source_rect (plan_output bounds (Finite s) out))) =
      max (edge_pixel (fl (y1 out - t)) s - edge_pixel (fl (y0 out - t)) s) 1"
    by simp_all
qed

text \<open>Two source rectangles are apart.\<close>

definition sources_apart :: "pixel_rect \<Rightarrow> pixel_rect \<Rightarrow> bool" where
  "sources_apart a b \<longleftrightarrow>
     uint (pr_x a) + uint (pr_width a) \<le> uint (pr_x b) \<or> uint (pr_x b) + uint (pr_width b) \<le> uint (pr_x a) \<or>
     uint (pr_y a) + uint (pr_height a) \<le> uint (pr_y b) \<or> uint (pr_y b) + uint (pr_height b) \<le> uint (pr_y a)"

definition source_inside :: "pixel_rect \<Rightarrow> pixel_size \<Rightarrow> bool" where
  "source_inside r extent \<longleftrightarrow>
     uint (pr_x r) \<le> uint (ps_width extent) \<and> uint (pr_y r) \<le> uint (ps_height extent) \<and>
     (uint (pr_x r) < uint (ps_width extent) \<longrightarrow> uint (pr_x r) + uint (pr_width r) \<le> uint (ps_width extent)) \<and>
     (uint (pr_y r) < uint (ps_height extent) \<longrightarrow> uint (pr_y r) + uint (pr_height r) \<le> uint (ps_height extent))"

text \<open>A rectangle wider and higher than one pixel did not need the code's one-pixel minimum.\<close>

definition source_solid :: "pixel_rect \<Rightarrow> bool" where
  "source_solid r \<longleftrightarrow> 1 < uint (pr_width r) \<and> 1 < uint (pr_height r)"

lemma no_overlap_edges:
  assumes "spec_valid a" "spec_valid b"
    "\<not> logical_rects_overlap (spec_logical_rect a) (spec_logical_rect b)"
  shows "x1 b \<le> x0 a \<or> x1 a \<le> x0 b \<or> y1 b \<le> y0 a \<or> y1 a \<le> y0 b"
  using assms(3) by (simp add: logical_rects_overlap_def valid_edges [OF assms(1)] valid_edges [OF assms(2)] not_less)

lemma atlas_facts:
  assumes valid: "outputs_valid (snap_outputs snapshot)"
    and bounds: "snap_bounds snapshot = logical_bounds (snap_outputs snapshot)"
    and plan: "atlas_for_snapshot snapshot = Some plan"
  shows "(\<forall>p\<in>set (ap_outputs plan). source_inside (ao_source_rect p) (ap_pixel_size plan)) \<and>
    sorted_wrt (\<lambda>p q. source_solid (ao_source_rect p) \<longrightarrow> source_solid (ao_source_rect q) \<longrightarrow>
      sources_apart (ao_source_rect p) (ao_source_rect q)) (ap_outputs plan)"
proof -
  have v: "\<forall>out\<in>set (snap_outputs snapshot). spec_valid out"
    using valid by (simp add: outputs_valid_def)
  obtain B where B: "logical_bounds (snap_outputs snapshot) = Some B"
    using plan bounds by (auto simp: atlas_for_snapshot_def split: option.splits)
  obtain l t r b where lb: "B = \<lparr>lr_x = Finite l, lr_y = Finite t,
      lr_width = f64_sub (Finite r) (Finite l), lr_height = f64_sub (Finite b) (Finite t)\<rparr>"
    and cover: "\<forall>out\<in>set (snap_outputs snapshot). l \<le> x0 out \<and> x1 out \<le> r \<and> t \<le> y0 out \<and> y1 out \<le> b"
    and o: "- 2147483648 \<le> l" "l \<le> r" "r \<le> 2147483647" "- 2147483648 \<le> t" "t \<le> b" "b \<le> 2147483647"
    by (rule logical_bounds_correct [OF v B])
  obtain s where s: "0 < s" "s \<le> 2 ^ 32"
    "f64_div (f64_of_u32 (engine_scale_of snapshot)) (f64_of_u32 SCALE_BASE) = Finite s"
    using scale_positive [OF engine_scale_nonzero [OF v]] by blast
  have outs: "ap_outputs plan = map (plan_output B (Finite s)) (snap_outputs snapshot)"
    and size: "ap_pixel_size plan = \<lparr>ps_width = max (scaled_edge (lr_width B) (Finite s)) 1,
      ps_height = max (scaled_edge (lr_height B) (Finite s)) 1\<rparr>"
    using plan unfolding atlas_for_snapshot_def bounds B option.case Let_def s(3) by auto
  have sz: "uint (ps_width (ap_pixel_size plan)) = max (edge_pixel (fl (r - l)) s) 1"
    "uint (ps_height (ap_pixel_size plan)) = max (edge_pixel (fl (b - t)) s) 1"
    using scaled_difference [OF o(1-3) s(1,2)] scaled_difference [OF o(4-6) s(1,2)]
    by (simp_all add: size lb uint_max_1 del: f64_sub_Finite)
  have src: "uint (pr_x (ao_source_rect (plan_output B (Finite s) out))) = edge_pixel (fl (x0 out - l)) s \<and>
      uint (pr_y (ao_source_rect (plan_output B (Finite s) out))) = edge_pixel (fl (y0 out - t)) s \<and>
      uint (pr_width (ao_source_rect (plan_output B (Finite s) out))) =
        max (edge_pixel (fl (x1 out - l)) s - edge_pixel (fl (x0 out - l)) s) 1 \<and>
      uint (pr_height (ao_source_rect (plan_output B (Finite s) out))) =
        max (edge_pixel (fl (y1 out - t)) s - edge_pixel (fl (y0 out - t)) s) 1"
    if "out \<in> set (snap_outputs snapshot)" for out
    using plan_output_source [OF _ lb o(1) _ o(4) _ s(1,2), of out] v cover that by simp
  have "source_inside (ao_source_rect (plan_output B (Finite s) out)) (ap_pixel_size plan)"
    if "out \<in> set (snap_outputs snapshot)" for out
  proof -
    have "edge_pixel (fl (x0 out - l)) s \<le> edge_pixel (fl (x1 out - l)) s"
      "edge_pixel (fl (x1 out - l)) s \<le> edge_pixel (fl (r - l)) s"
      "edge_pixel (fl (y0 out - t)) s \<le> edge_pixel (fl (y1 out - t)) s"
      "edge_pixel (fl (y1 out - t)) s \<le> edge_pixel (fl (b - t)) s"
      using cover that v valid_edges(6,9) [of out] by (auto intro!: edge_pixel_diff_mono s)
    then show ?thesis
      unfolding source_inside_def sz using src [OF that] by linarith
  qed
  moreover have "sources_apart (ao_source_rect (plan_output B (Finite s) out))
      (ao_source_rect (plan_output B (Finite s) out'))"
    if "out \<in> set (snap_outputs snapshot)" "out' \<in> set (snap_outputs snapshot)"
      "\<not> logical_rects_overlap (spec_logical_rect out) (spec_logical_rect out')"
      "source_solid (ao_source_rect (plan_output B (Finite s) out))"
      "source_solid (ao_source_rect (plan_output B (Finite s) out'))" for out out'
  proof -
    have "x1 out' \<le> x0 out \<or> x1 out \<le> x0 out' \<or> y1 out' \<le> y0 out \<or> y1 out \<le> y0 out'"
      using no_overlap_edges that v by blast
    then have "edge_pixel (fl (x1 out' - l)) s \<le> edge_pixel (fl (x0 out - l)) s \<or>
        edge_pixel (fl (x1 out - l)) s \<le> edge_pixel (fl (x0 out' - l)) s \<or>
        edge_pixel (fl (y1 out' - t)) s \<le> edge_pixel (fl (y0 out - t)) s \<or>
        edge_pixel (fl (y1 out - t)) s \<le> edge_pixel (fl (y0 out' - t)) s"
      using edge_pixel_diff_mono [OF _ s(1)] by blast
    then show ?thesis
      using that(4,5) src [OF that(1)] src [OF that(2)]
      unfolding sources_apart_def source_solid_def by linarith
  qed
  ultimately show ?thesis
    using valid unfolding outs outputs_valid_def sorted_wrt_map
    by (auto elim!: sorted_wrt_mono_rel [rotated])
qed

section \<open>Projections and transforms\<close>

text \<open>The affine map of a projection, on exact numbers.\<close>

definition project :: "output_projection \<Rightarrow> rat \<Rightarrow> rat \<Rightarrow> rat \<times> rat" where
  "project p x y =
     (number (op_scale_x p) * x + number (op_skew_x p) * y + number (op_translate_x p),
      number (op_skew_y p) * x + number (op_scale_y p) * y + number (op_translate_y p))"

lemma rnd_int_diff: "\<bar>a - b\<bar> \<le> 9007199254740992 \<Longrightarrow> rnd (of_int a - of_int b) = Finite (of_int a - of_int b)"
  using rnd_of_int [of "a - b"] by simp

lemma rnd_int_add: "\<bar>a + b\<bar> \<le> 9007199254740992 \<Longrightarrow> rnd (of_int a + of_int b) = Finite (of_int a + of_int b)"
  using rnd_of_int [of "a + b"] by simp

lemma rnd_int_neg: "\<bar>a\<bar> \<le> 9007199254740992 \<Longrightarrow> rnd (- of_int a) = Finite (- of_int a)"
  using rnd_of_int [of "- a"] by simp

lemmas rnd_int_simps = rnd_int_diff rnd_int_add rnd_int_neg rnd_of_int f64_sub_Finite f64_add.simps f64_mul.simps

text \<open>The projection's coefficients when source and output have the same size.\<close>

lemma coefficients_one_to_one:
  fixes W H X Y :: int
  assumes "0 < W" "W < 4294967296" "0 < H" "H < 4294967296"
    and "0 \<le> X" "X < 4294967296" "0 \<le> Y" "Y < 4294967296"
    and "transform_coefficients t (Finite (of_int W)) (Finite (of_int H)) = (a, b, c, d, e, f)"
  shows "f64_mul a (Finite 1) = a" "f64_mul b (Finite 1) = b" "f64_mul d (Finite 1) = d"
    "f64_mul e (Finite 1) = e"
    "f64_sub (f64_sub c (f64_mul a (Finite (of_int X)))) (f64_mul b (Finite (of_int Y))) =
       Finite (number c - number a * of_int X - number b * of_int Y)"
    "f64_sub (f64_sub f (f64_mul d (Finite (of_int X)))) (f64_mul e (Finite (of_int Y))) =
       Finite (number f - number d * of_int X - number e * of_int Y)"
  using assms by (cases t; auto simp: rnd_int_simps)+

lemma rotated_by_cases: "rotated_by t r = rotated_by t (rotated_by Normal r) \<or> is_reflected r"
  by (cases r) (simp_all add: rotated_by_def)

lemma rotation_group:
  "rotated_by (rotated_by t r) (inverse_rotation r) = t"
  "rotated_by (rotated_by t r) r' = rotated_by (rotated_by t r') r"
  "rotated_by t Normal = t" "is_reflected (rotated_by t r) = is_reflected t"
  "swaps_axes (rotated_by t r) = (swaps_axes t \<noteq> swaps_axes r)"
  by (cases t; cases r; simp add: rotated_by_def; cases r'; simp)+

text \<open>Where a point of the unit square of the source lands in the unit square of the buffer.\<close>

fun native_corner :: "output_transform \<Rightarrow> rat \<Rightarrow> rat \<Rightarrow> rat \<times> rat" where
  "native_corner Normal u v = (u, v)"
| "native_corner Rotate90 u v = (1 - v, u)"
| "native_corner Rotate180 u v = (1 - u, 1 - v)"
| "native_corner Rotate270 u v = (v, 1 - u)"
| "native_corner Flipped u v = (1 - u, v)"
| "native_corner Flipped90 u v = (v, u)"
| "native_corner Flipped180 u v = (u, 1 - v)"
| "native_corner Flipped270 u v = (1 - v, 1 - u)"

lemma native_corner_inverse:
  "u \<in> {0, 1} \<Longrightarrow> v \<in> {0, 1} \<Longrightarrow> native_corner t u v = (a, b) \<Longrightarrow>
     native_to_logical t (Finite a) (Finite b) = (Finite u, Finite v)"
  by (cases t) auto

lemma project_unit_square:
  fixes W H X Y :: rat
  assumes "transform_coefficients t (Finite W) (Finite H) = (a, b, c, d, e, f)"
    and "native_corner t u v = (p, q)"
  shows "number a * (X + u * W) + number b * (Y + v * H) + (number c - number a * X - number b * Y) =
      p * (if swaps_axes t then H else W)"
    and "number d * (X + u * W) + number e * (Y + v * H) + (number f - number d * X - number e * Y) =
      q * (if swaps_axes t then W else H)"
  using assms
  by (cases t; simp only: transform_coefficients.simps native_corner.simps prod.inject swaps_axes.simps
        if_False if_True; elim conjE; hypsubst; simp add: algebra_simps)+

lemma projection_one_to_one_lemma:
  assumes mode: "ps_width (spec_mode out) \<noteq> 0" "ps_height (spec_mode out) \<noteq> 0"
    and same: "pixel_rect_size source = transformed_pixel_size out"
    and corner: "native_corner (spec_transform out) u v = (p, q)"
  shows "project (projection_for_output out source)
      (of_int (uint (pr_x source)) + u * of_int (uint (pr_width source)))
      (of_int (uint (pr_y source)) + v * of_int (uint (pr_height source))) =
    (p * of_int (uint (ps_width (spec_mode out))), q * of_int (uint (ps_height (spec_mode out))))"
proof -
  define W where "W = uint (pr_width source)"
  define H where "H = uint (pr_height source)"
  define X where "X = uint (pr_x source)"
  define Y where "Y = uint (pr_y source)"
  have size: "ps_width (transformed_pixel_size out) = pr_width source"
    "ps_height (transformed_pixel_size out) = pr_height source"
    using same by (simp_all add: pixel_rect_size_def flip: same)
  have modes: "uint (ps_width (spec_mode out)) = (if swaps_axes (spec_transform out) then H else W)"
    "uint (ps_height (spec_mode out)) = (if swaps_axes (spec_transform out) then W else H)"
    using size by (auto simp: transformed_pixel_size_def W_def H_def split: if_splits)
  have nz: "pr_width source \<noteq> 0" "pr_height source \<noteq> 0"
    using size mode by (auto simp: transformed_pixel_size_def split: if_splits)
  have r: "0 < W" "W < 4294967296" "0 < H" "H < 4294967296" "0 \<le> X" "X < 4294967296" "0 \<le> Y" "Y < 4294967296"
    using nz uint_lt2p [of "pr_width source"] uint_lt2p [of "pr_height source"]
      uint_lt2p [of "pr_x source"] uint_lt2p [of "pr_y source"]
    by (simp_all add: W_def H_def X_def Y_def order_less_le uint_0_iff)
  obtain a b c d e f where co: "transform_coefficients (spec_transform out) (Finite (of_int W)) (Finite (of_int H)) = (a, b, c, d, e, f)"
    by (cases "transform_coefficients (spec_transform out) (Finite (of_int W)) (Finite (of_int H))") auto
  note one = coefficients_one_to_one [OF r co]
  have div: "f64_div (Finite (of_int W)) (Finite (of_int W)) = Finite 1"
    "f64_div (Finite (of_int H)) (Finite (of_int H)) = Finite 1"
    using r by simp_all
  have fin: "f64_of_u32 (pr_width source) = Finite (of_int W)" "f64_of_u32 (pr_height source) = Finite (of_int H)"
    "f64_of_u32 (pr_x source) = Finite (of_int X)" "f64_of_u32 (pr_y source) = Finite (of_int Y)"
    unfolding W_def H_def X_def Y_def by (rule f64_of_u32_exact)+
  have "projection_for_output out source = \<lparr>op_scale_x = a, op_skew_x = b,
      op_translate_x = Finite (number c - number a * of_int X - number b * of_int Y),
      op_skew_y = d, op_scale_y = e,
      op_translate_y = Finite (number f - number d * of_int X - number e * of_int Y)\<rparr>"
    unfolding projection_for_output_def Let_def size fin div co prod.case one ..
  then show ?thesis
    using project_unit_square [OF co corner, of "of_int X" "of_int Y"]
    unfolding modes by (simp add: project_def W_def [symmetric] H_def [symmetric] X_def [symmetric] Y_def [symmetric] del: of_int_uint)
qed

section \<open>Rendered outputs\<close>

lemma collect_options_Some:
  "\<forall>x\<in>set xs. f x = Some (g x) \<Longrightarrow> collect_options (map f xs) = Some (map g xs)"
  by (induction xs) auto

lemma find_by_id:
  "distinct (map key xs) \<Longrightarrow> x \<in> set xs \<Longrightarrow> (\<And>y. ident (f y) = key y) \<Longrightarrow>
     find (\<lambda>p. ident p = key x) (map f xs) = Some (f x)"
  by (induction xs) (auto simp: image_iff)

lemma render_view_Some: "uint oid < i64_max \<Longrightarrow> render_view_for_output oid = Some (- uint oid - 1)"
  by (simp add: render_view_for_output_def i64_checked_add_def i64_checked_neg_def)
    (rule order_trans [of _ 0]; simp)

lemma map_values_ids: "keyed outs \<Longrightarrow> map spec_id (map_values outs) = sorted_list_of_set (dom outs)"
  unfolding map_values_def map_iter_def map_map comp_def snd_conv
  by (rule map_idI) (auto simp: keyed_def)

lemma map_values_set: "keyed outs \<Longrightarrow> set (map_values outs) = ran outs"
  by (force simp: map_values_def map_iter_def keyed_def ran_def image_iff dom_def)

section \<open>Histories\<close>

fun topology_run :: "topology_manager \<Rightarrow> (topology_change list \<times> ustring option) list \<Rightarrow> topology_manager" where
  "topology_run m [] = m"
| "topology_run m ((changes, primary) # rest) =
     topology_run (fst (apply_with_primary_output m changes primary)) rest"

definition topology_inv :: "topology_manager \<Rightarrow> bool" where
  "topology_inv m \<longleftrightarrow> keyed (tm_outputs m) \<and> outputs_valid (map_values (tm_outputs m)) \<and>
     (tm_epoch m = 0 \<longrightarrow> tm_outputs m = Map.empty \<and> tm_primary m = None)"

lemma topology_inv_apply:
  assumes "topology_inv m"
  shows "topology_inv (fst (apply_with_primary_output m changes primary))"
proof -
  obtain m' r where a: "apply_with_primary_output m changes primary = (m', r)"
    by (cases "apply_with_primary_output m changes primary")
  have k: "keyed (tm_outputs m)"
    using assms by (simp add: topology_inv_def)
  from k a show ?thesis
  proof (cases rule: apply_cases)
    case rejected
    then show ?thesis
      using assms a by simp
  next
    case (accepted c)
    then show ?thesis
      using assms a keyed_foldl [OF k, of changes] next_counter(2)
      by (auto simp: topology_inv_def split: if_splits)
  qed
qed

lemma topology_inv_default: "topology_inv topology_manager_default"
  by (simp add: topology_inv_def topology_manager_default_def keyed_def map_values_def map_iter_def
      outputs_valid_def)

lemma topology_inv_run: "topology_inv m \<Longrightarrow> topology_inv (topology_run m history)"
  by (induction history arbitrary: m) (auto simp: topology_inv_apply)

section \<open>Properties\<close>

text \<open>
  C30: whatever batches of changes a topology manager is given, accepted or rejected, its outputs
  stay valid: usable names, all different, non-empty modes, usable scale and refresh, rectangles
  in the coordinate range and no two of them overlapping; a manager at epoch zero is empty.
\<close>

theorem topology_always_valid:
  "let m = topology_run topology_manager_default history
   in outputs_valid (map_values (tm_outputs m)) \<and>
      map spec_id (map_values (tm_outputs m)) = sorted_list_of_set (dom (tm_outputs m)) \<and>
      (tm_outputs m \<noteq> Map.empty \<longrightarrow> tm_epoch m \<noteq> 0)"
  using topology_inv_run [OF topology_inv_default, of history] map_values_ids
  by (auto simp: topology_inv_def Let_def)

definition example_output :: "u64 \<Rightarrow> nat \<Rightarrow> 32 word \<Rightarrow> output_spec" where
  "example_output oid letter x = \<lparr>spec_id = oid, spec_name = [letter],
     spec_position = \<lparr>lp_x = x, lp_y = 0\<rparr>, spec_mode = \<lparr>ps_width = 100, ps_height = 50\<rparr>,
     spec_scale_120 = 120, spec_refresh_millihz = 60000, spec_transform = Normal,
     spec_subpixel = SubpixelUnknown, spec_size_mm = \<lparr>mm_width = 0, mm_height = 0\<rparr>\<rparr>"

theorem topology_always_valid_witness:
  "outputs_valid (map_values (tm_outputs (topology_run topology_manager_default
     [([Upsert (example_output 1 65 0)], None), ([Remove 1], None)])))"
  using topology_always_valid [of "[([Upsert (example_output 1 65 0)], None), ([Remove 1], None)]"]
  by (simp add: Let_def del: topology_run.simps)

text \<open>
  C31: a batch is atomic. A rejected one changes nothing; an accepted one leaves exactly the outputs
  the changes describe and the requested primary output, its commit lists name exactly the added,
  removed and changed outputs, in order, and it keeps the epoch exactly when nothing changed.
\<close>

theorem topology_commit_exact:
  assumes "topology_inv m" and "apply_with_primary_output m changes primary = (m', r)"
  shows "case r of
      Inl e \<Rightarrow> m' = m \<and> validate_outputs (map_values (foldl apply_change (tm_outputs m) changes)) = Inl e
    | Inr c \<Rightarrow> tm_outputs m' = foldl apply_change (tm_outputs m) changes \<and> tm_primary m' = primary \<and>
        set (added c) = dom (tm_outputs m') - dom (tm_outputs m) \<and>
        set (removed c) = dom (tm_outputs m) - dom (tm_outputs m') \<and>
        set (changed c) = {oid \<in> dom (tm_outputs m) \<inter> dom (tm_outputs m'). tm_outputs m oid \<noteq> tm_outputs m' oid} \<and>
        sorted (added c) \<and> sorted (removed c) \<and> sorted (changed c) \<and>
        distinct (added c) \<and> distinct (removed c) \<and> distinct (changed c) \<and>
        (is_noop c \<longleftrightarrow> tm_outputs m' = tm_outputs m \<and> tm_primary m' = tm_primary m) \<and>
        (is_noop c \<longrightarrow> m' = m) \<and> (\<not> is_noop c \<longrightarrow> commit_epoch c \<noteq> 0)"
proof -
  have k: "keyed (tm_outputs m)"
    using assms(1) by (simp add: topology_inv_def)
  from k assms(2) show ?thesis
  proof (cases rule: apply_cases)
    case (rejected e)
    then show ?thesis
      by simp
  next
    case (accepted c)
    have fin: "finite (dom (tm_outputs m))" "finite (dom (tm_outputs m'))"
      using k keyed_foldl [OF k, of changes] accepted(3) by (auto simp: keyed_def)
    have noop: "is_noop c \<longleftrightarrow> tm_outputs m' = tm_outputs m \<and> tm_primary m' = tm_primary m"
      using accepted(4,6-8) next_counter(1) [of "tm_epoch m"]
      by (metis is_noop_def)
    moreover have "m' = m" if "is_noop c"
      using that noop accepted(8) accepted(4) by (intro topology_manager.equality) simp_all
    moreover have "commit_epoch c \<noteq> 0" if "\<not> is_noop c"
      using that noop accepted(4,7,8) next_counter(2) [of "tm_epoch m"] by metis
    ultimately show ?thesis
      using topology_diff_correct [OF fin accepted(5)] accepted(1,3,4) by simp
  qed
qed

lemma example_output_valid: "spec_valid (example_output oid 65 0)"
  by (simp add: spec_valid_def example_output_def is_whitespace_def coordinate_overflow_def
      spec_logical_rect_def transformed_pixel_size_def lr_right_def lr_bottom_def SCALE_BASE_def Let_def)

definition example_manager :: topology_manager where
  "example_manager = \<lparr>tm_epoch = 1, tm_outputs = [1 \<mapsto> example_output 1 65 0], tm_primary = None\<rparr>"

lemma example_apply:
  "apply_with_primary_output topology_manager_default [Upsert (example_output 1 65 0)] None =
     (example_manager,
      Inr \<lparr>previous_epoch = 0, commit_epoch = 1, added = [1], removed = [], changed = []\<rparr>)"
proof -
  have e: "spec_id (example_output 1 65 0) = 1"
    by (simp add: example_output_def)
  have "validate_outputs [example_output 1 65 0] = Inr ()"
    by (simp add: validate_outputs_Inr outputs_valid_def example_output_valid)
  moreover have "topology_diff Map.empty [1 \<mapsto> example_output 1 65 0] = ([1], [], [])"
    by (simp add: topology_diff_def set_iter_def)
  ultimately show ?thesis
    by (simp add: apply_with_primary_output_def topology_manager_default_def map_values_def map_iter_def
        Let_def example_manager_def e)
qed

theorem topology_commit_exact_witness:
  "{1 :: u64} = dom (tm_outputs example_manager) - dom (tm_outputs topology_manager_default)"
  using topology_commit_exact [OF topology_inv_default example_apply]
  unfolding sum.case topology_commit.select_convs list.set by (elim conjE)

text \<open>
  the atlas planned for valid outputs contains the source rectangle of each of them, and the
  source rectangles that are wider and higher than the one-pixel minimum do not overlap.
\<close>

theorem atlas_sources_tile:
  assumes "outputs_valid (snap_outputs snapshot)"
    and "snap_bounds snapshot = logical_bounds (snap_outputs snapshot)"
    and "atlas_for_snapshot snapshot = Some plan"
  shows "(\<forall>p\<in>set (ap_outputs plan). source_inside (ao_source_rect p) (ap_pixel_size plan)) \<and>
    sorted_wrt (\<lambda>p q. source_solid (ao_source_rect p) \<longrightarrow> source_solid (ao_source_rect q) \<longrightarrow>
      sources_apart (ao_source_rect p) (ao_source_rect q)) (ap_outputs plan)"
  using assms by (rule atlas_facts)

lemma example_inv: "topology_inv example_manager"
  using topology_inv_apply [OF topology_inv_default, of "[Upsert (example_output 1 65 0)]" None]
  by (simp add: example_apply)

lemma example_plan: "\<exists>plan. atlas_for_snapshot (topology_snapshot_of example_manager) = Some plan"
  by (simp add: atlas_for_snapshot_def topology_snapshot_of_def map_values_def map_iter_def Let_def
      example_manager_def logical_bounds_def del: f64_of_u32_exact)

theorem atlas_sources_tile_witness:
  "\<exists>plan. atlas_for_snapshot (topology_snapshot_of example_manager) = Some plan \<and>
     (\<forall>p\<in>set (ap_outputs plan). source_inside (ao_source_rect p) (ap_pixel_size plan))"
proof -
  obtain plan where p: "atlas_for_snapshot (topology_snapshot_of example_manager) = Some plan"
    using example_plan by blast
  have "outputs_valid (snap_outputs (topology_snapshot_of example_manager))"
    using example_inv by (simp add: topology_inv_def topology_snapshot_of_def Let_def)
  from atlas_sources_tile [OF this _ p] show ?thesis
    using p by (simp add: topology_snapshot_of_def Let_def)
qed

text \<open>
  When an output's source rectangle has its transformed size, its raster projection maps the
  source onto the whole native buffer, by the output's transform, and \<open>native_to_logical\<close> takes
  each corner of the buffer back to the corner of the source it came from.
\<close>

theorem projection_one_to_one:
  assumes "ps_width (spec_mode out) \<noteq> 0" and "ps_height (spec_mode out) \<noteq> 0"
    and "pixel_rect_size source = transformed_pixel_size out"
    and "native_corner (spec_transform out) u v = (p, q)"
  shows "project (projection_for_output out source)
      (of_int (uint (pr_x source)) + u * of_int (uint (pr_width source)))
      (of_int (uint (pr_y source)) + v * of_int (uint (pr_height source))) =
    (p * of_int (uint (ps_width (spec_mode out))), q * of_int (uint (ps_height (spec_mode out)))) \<and>
    (u \<in> {0, 1} \<longrightarrow> v \<in> {0, 1} \<longrightarrow>
      native_to_logical (spec_transform out) (Finite p) (Finite q) = (Finite u, Finite v))"
  using projection_one_to_one_lemma [OF assms] native_corner_inverse assms(4) by blast

theorem projection_one_to_one_witness:
  "project (projection_for_output ((example_output 1 65 0)\<lparr>spec_transform := Rotate90\<rparr>)
     \<lparr>pr_x = 7, pr_y = 0, pr_width = 50, pr_height = 100\<rparr>) 7 100 = (0, 0)"
  using projection_one_to_one [of "(example_output 1 65 0)\<lparr>spec_transform := Rotate90\<rparr>"
      "\<lparr>pr_x = 7, pr_y = 0, pr_width = 50, pr_height = 100\<rparr>" 0 1]
  by (simp add: example_output_def pixel_rect_size_def transformed_pixel_size_def)

text \<open>
  A plan made for a snapshot of a non-empty epoch yields one raster projection per output, in the
  snapshot's order, with the source rectangle planned for that output and a view id of its own in
  the negative namespace, as long as every output id is below the largest \<open>i64\<close>.
\<close>

theorem render_outputs_complete:
  assumes "distinct (map spec_id (snap_outputs snapshot))" and "snap_epoch snapshot \<noteq> 0"
    and "\<forall>out\<in>set (snap_outputs snapshot). uint (spec_id out) < i64_max"
    and "atlas_for_snapshot snapshot = Some plan"
  shows "\<exists>rs. render_outputs plan snapshot = Some rs \<and>
    map ro_output_id rs = map spec_id (snap_outputs snapshot) \<and>
    map ro_source_rect rs = map ao_source_rect (ap_outputs plan) \<and>
    distinct (map ro_view_id rs) \<and> (\<forall>r\<in>set rs. ro_view_id r < 0 \<and> ro_generation r = snap_epoch snapshot)"
proof -
  obtain bounds where b: "snap_bounds snapshot = Some bounds"
    using assms(4) by (auto simp: atlas_for_snapshot_def split: option.splits)
  define scale where "scale = f64_div (f64_of_u32 (engine_scale_of snapshot)) (f64_of_u32 SCALE_BASE)"
  have plan: "ap_outputs plan = map (plan_output bounds scale) (snap_outputs snapshot)"
    "ap_epoch plan = snap_epoch snapshot"
    using assms(4) unfolding atlas_for_snapshot_def b Let_def scale_def by auto
  let ?g = "\<lambda>out. \<lparr>ro_output_id = spec_id out, ro_view_id = - uint (spec_id out) - 1,
      ro_generation = snap_epoch snapshot, ro_source_rect = ao_source_rect (plan_output bounds scale out),
      ro_target_size = spec_mode out, ro_scale_120 = spec_scale_120 out,
      ro_projection = projection_for_output out (ao_source_rect (plan_output bounds scale out))\<rparr>"
  have "render_output plan snapshot out = Some (?g out)" if "out \<in> set (snap_outputs snapshot)" for out
  proof -
    have "find (\<lambda>p. ao_id p = spec_id out) (ap_outputs plan) = Some (plan_output bounds scale out)"
      unfolding plan by (rule find_by_id [OF assms(1) that]) (simp add: plan_output_def Let_def)
    then show ?thesis
      using assms(3) that by (simp add: render_output_def render_view_Some)
  qed
  then have "render_outputs plan snapshot = Some (map ?g (snap_outputs snapshot))"
    using assms(2) collect_options_Some [of "snap_outputs snapshot" "render_output plan snapshot" ?g]
    by (simp add: render_outputs_def plan)
  moreover have "inj_on (\<lambda>out. - uint (spec_id out) - 1) (set (snap_outputs snapshot))"
    using assms(1) by (auto simp: inj_on_def distinct_map simp flip: word_uint_eq_iff)
  then have "distinct (map ro_view_id (map ?g (snap_outputs snapshot)))"
    using assms(1) by (simp add: distinct_map comp_def)
  moreover have "- uint w - 1 < (0 :: int)" for w :: u64
    by (rule le_less_trans [of _ "- 1"]) simp_all
  ultimately show ?thesis
    by (intro exI [of _ "map ?g (snap_outputs snapshot)"]) (simp add: plan comp_def)
qed

theorem render_outputs_complete_witness:
  "\<exists>plan rs. atlas_for_snapshot (topology_snapshot_of example_manager) = Some plan \<and>
     render_outputs plan (topology_snapshot_of example_manager) = Some rs \<and> map ro_output_id rs = [1]"
proof -
  obtain plan where p: "atlas_for_snapshot (topology_snapshot_of example_manager) = Some plan"
    using example_plan by blast
  have o: "snap_outputs (topology_snapshot_of example_manager) = [example_output 1 65 0]"
    "snap_epoch (topology_snapshot_of example_manager) = 1"
    by (simp_all add: topology_snapshot_of_def Let_def example_manager_def map_values_def map_iter_def)
  show ?thesis
    using render_outputs_complete [OF _ _ _ p] p unfolding o by (auto simp: example_output_def)
qed

text \<open>
  Cardinal rotations compose as turns on top of the panel mount: undoing a rotation restores
  the transform, the order of rotations does not matter, and reflection is never toggled.
\<close>

theorem rotations_compose:
  "rotated_by (rotated_by t r) (inverse_rotation r) = t \<and>
   rotated_by (rotated_by t r) r' = rotated_by (rotated_by t r') r \<and>
   is_reflected (rotated_by t r) = is_reflected t \<and>
   swaps_axes (rotated_by t r) = (swaps_axes t \<noteq> swaps_axes r)"
  using rotation_group by blast

end
