(* ===== verification/Dispatch_Deadline.thy ===== *)
theory Dispatch_Deadline
  imports Prelude
begin

text \<open>
  The contract of every component that bounds the event loop's sleep
  (\<open>limit_dispatch_timeout\<close> of several types), its composition as the loop chains the calls, and
  the loop's own cadence (\<open>OperationCadence\<close> in
  \<open>compositor/src/bin/deniald/flutter_event_loop.rs\<close>).
\<close>

section \<open>The contract\<close>

text \<open>
  \<open>due s t\<close> says that the component has work at time \<open>t\<close>. A limiter never sleeps longer than it was
  asked to, never past the moment its work is due, and shortens a sleep only to such a moment.
\<close>

locale dispatch_limiter =
  fixes due :: "'s \<Rightarrow> instant \<Rightarrow> bool"
    and limit :: "'s \<Rightarrow> instant \<Rightarrow> duration \<Rightarrow> duration"
  assumes limit_le: "limit s now timeout \<le> timeout"
    and not_late: "now \<le> t \<Longrightarrow> t < now + int (limit s now timeout) \<Longrightarrow> \<not> due s t"
    and wakes: "limit s now timeout < timeout \<Longrightarrow> due s (now + int (limit s now timeout))"
begin

lemma due_now: "due s now \<Longrightarrow> limit s now timeout = 0"
  using not_late [of now now s timeout] by auto

lemma due_later: "due s t \<Longrightarrow> now \<le> t \<Longrightarrow> now + int (limit s now timeout) \<le> t"
  using not_late [of now t s timeout] by (meson not_le)

text \<open>The limit is the first due moment within the timeout, or the timeout.\<close>

lemma limit_exact:
  "limit s now timeout = d \<longleftrightarrow>
     (d \<le> timeout \<and> (\<forall>t. now \<le> t \<and> t < now + int d \<longrightarrow> \<not> due s t) \<and>
      (d < timeout \<longrightarrow> due s (now + int d)))"
proof
  assume "limit s now timeout = d"
  then show "d \<le> timeout \<and> (\<forall>t. now \<le> t \<and> t < now + int d \<longrightarrow> \<not> due s t) \<and>
      (d < timeout \<longrightarrow> due s (now + int d))"
    using limit_le not_late wakes by blast
next
  assume d: "d \<le> timeout \<and> (\<forall>t. now \<le> t \<and> t < now + int d \<longrightarrow> \<not> due s t) \<and>
      (d < timeout \<longrightarrow> due s (now + int d))"
  show "limit s now timeout = d"
  proof (rule linorder_cases [of "limit s now timeout" d])
    assume lt: "limit s now timeout < d"
    then have "due s (now + int (limit s now timeout))"
      using d by (intro wakes) simp
    then show ?thesis
      using d lt by simp
  next
    assume gt: "d < limit s now timeout"
    then have "d < timeout"
      using limit_le [of s now timeout] by simp
    then have "due s (now + int d)"
      using d by simp
    then show ?thesis
      using not_late [of now "now + int d" s timeout] gt by simp
  qed
qed

end

text \<open>Chaining two limiters, as the loop does, gives a limiter for the work of either.\<close>

locale limiter_pair = first: dispatch_limiter due1 limit1 + second: dispatch_limiter due2 limit2
  for due1 :: "'a \<Rightarrow> instant \<Rightarrow> bool" and limit1 and due2 :: "'b \<Rightarrow> instant \<Rightarrow> bool" and limit2

sublocale limiter_pair \<subseteq> chain: dispatch_limiter
  "\<lambda>(a, b) t. due1 a t \<or> due2 b t" "\<lambda>(a, b) now timeout. limit2 b now (limit1 a now timeout)"
proof (unfold_locales, goal_cases)
  case (1 s now timeout)
  show ?case
    using order_trans [OF second.limit_le first.limit_le] by (simp split: prod.split)
next
  case (2 now t s timeout)
  obtain a b where s: "s = (a, b)"
    by (cases s)
  have "t < now + int (limit2 b now (limit1 a now timeout))"
    using 2 s by simp
  moreover have "limit2 b now (limit1 a now timeout) \<le> limit1 a now timeout"
    by (rule second.limit_le)
  ultimately show ?case
    using first.not_late [of now t a timeout] second.not_late [of now t b "limit1 a now timeout"] 2(1) s
    by simp
next
  case (3 s now timeout)
  obtain a b where s: "s = (a, b)"
    by (cases s)
  show ?case
  proof (cases "limit2 b now (limit1 a now timeout) < limit1 a now timeout")
    case True
    then show ?thesis
      using second.wakes s by simp
  next
    case False
    then have "limit2 b now (limit1 a now timeout) = limit1 a now timeout"
      using second.limit_le [of b now "limit1 a now timeout"] by simp
    then show ?thesis
      using first.wakes [of a now timeout] 3 s by simp
  qed
qed

section \<open>Limiters made of one deadline\<close>

definition until_deadline :: "instant option \<Rightarrow> instant \<Rightarrow> duration \<Rightarrow> duration" where
  "until_deadline deadline now timeout =
     (case deadline of None \<Rightarrow> timeout | Some d \<Rightarrow> min timeout (saturating_duration_since d now))"

definition deadline_reached :: "instant option \<Rightarrow> instant \<Rightarrow> bool" where
  "deadline_reached deadline t \<longleftrightarrow> (case deadline of None \<Rightarrow> False | Some d \<Rightarrow> d \<le> t)"

interpretation one_deadline: dispatch_limiter deadline_reached until_deadline
  by unfold_locales
    (auto simp: until_deadline_def deadline_reached_def saturating_duration_since_def split: option.splits)

lemma deadline_limiter:
  "dispatch_limiter (\<lambda>s. deadline_reached (f s)) (\<lambda>s. until_deadline (f s))"
  using one_deadline.limit_le one_deadline.not_late one_deadline.wakes
  unfolding dispatch_limiter_def by blast

section \<open>The event loop's cadence\<close>

definition BACKGROUND_SERVICE_INTERVAL :: duration where
  "BACKGROUND_SERVICE_INTERVAL = 1000000000 div 30"

definition BACKGROUND_MAINTENANCE_INTERVAL :: duration where
  "BACKGROUND_MAINTENANCE_INTERVAL = 100 * 1000000"

record operation_cadence =
  next_service :: instant
  next_maintenance :: instant

definition operation_cadence_new :: "instant \<Rightarrow> operation_cadence" where
  "operation_cadence_new now = \<lparr>next_service = now, next_maintenance = now\<rparr>"

text \<open>Whether the deadline was due, and the deadline after the call.\<close>

definition take_periodic_deadline :: "instant \<Rightarrow> instant \<Rightarrow> duration \<Rightarrow> bool \<times> instant" where
  "take_periodic_deadline now deadline interval =
     (if now < deadline then (False, deadline) else (True, now + int interval))"

definition take_service_due :: "operation_cadence \<Rightarrow> instant \<Rightarrow> bool \<times> operation_cadence" where
  "take_service_due c now =
     (case take_periodic_deadline now (next_service c) BACKGROUND_SERVICE_INTERVAL of
        (taken, deadline) \<Rightarrow> (taken, c\<lparr>next_service := deadline\<rparr>))"

definition take_maintenance_due :: "operation_cadence \<Rightarrow> instant \<Rightarrow> bool \<times> operation_cadence" where
  "take_maintenance_due c now =
     (case take_periodic_deadline now (next_maintenance c) BACKGROUND_MAINTENANCE_INTERVAL of
        (taken, deadline) \<Rightarrow> (taken, c\<lparr>next_maintenance := deadline\<rparr>))"

definition cadence_limit_dispatch :: "operation_cadence \<Rightarrow> instant \<Rightarrow> duration \<Rightarrow> duration" where
  "cadence_limit_dispatch c now timeout =
     min (min timeout (saturating_duration_since (next_service c) now))
       (saturating_duration_since (next_maintenance c) now)"

definition cadence_due :: "operation_cadence \<Rightarrow> instant \<Rightarrow> bool" where
  "cadence_due c t \<longleftrightarrow> next_service c \<le> t \<or> next_maintenance c \<le> t"

interpretation cadence: dispatch_limiter cadence_due cadence_limit_dispatch
  by unfold_locales
    (auto simp: cadence_limit_dispatch_def cadence_due_def saturating_duration_since_def min_def
      split: if_splits)

lemma cadence_due_taken:
  "cadence_due c now \<longleftrightarrow> fst (take_service_due c now) \<or> fst (take_maintenance_due c now)"
  by (auto simp: cadence_due_def take_service_due_def take_maintenance_due_def take_periodic_deadline_def)

end
