(* ===== verification/Frame_Scheduler.thy ===== *)
theory Frame_Scheduler
  imports Topology Dispatch_Deadline
begin

text \<open>
  The mixed-refresh frame scheduler (\<open>compositor/src/bin/deniald/frame_scheduler.rs\<close>): one timeline
  per powered output, its phase lock to presentation timestamps, dirty marks with serials, and the
  decision which due outputs to render and whether the Dart scene advances. A DRM mode is a type
  parameter, and its refresh rate (from the mode type of the compositor toolkit) a parameter.
\<close>

section \<open>Integer division as Rust truncates it\<close>

definition trunc_div :: "int \<Rightarrow> int \<Rightarrow> int" where
  "trunc_div a b = (if 0 \<le> a then a div b else - (- a div b))"

definition trunc_rem :: "int \<Rightarrow> int \<Rightarrow> int" where
  "trunc_rem a b = (if 0 \<le> a then a mod b else - (- a mod b))"

section \<open>Data\<close>

definition PHASE_LOCK_DEADBAND :: duration where "PHASE_LOCK_DEADBAND = 50 * 1000"
definition PHASE_LOCK_MAX_ADJUSTMENT :: duration where "PHASE_LOCK_MAX_ADJUSTMENT = 250 * 1000"
definition PHASE_LOCK_GAIN_DIVISOR :: int where "PHASE_LOCK_GAIN_DIVISOR = 8"
definition FRAME_SCHEDULER_AUDIT_INTERVAL :: duration where
  "FRAME_SCHEDULER_AUDIT_INTERVAL = 1000000000"

record frame_tick =
  ft_output :: output_id
  ft_sequence :: u64
  ft_interval :: duration
  ft_render_deadline :: instant
  ft_presentation_target :: instant

record pending_frame =
  flutter_requested :: bool

datatype frame_action = Skip | Render "output_id option"

record output_frame_request =
  ofr_tick :: frame_tick
  ofr_dirty_serial :: u64

record dirty_output =
  do_serial :: u64
  do_texture_ids :: "int set"

definition dirty_output_default :: dirty_output where
  "dirty_output_default = \<lparr>do_serial = 0, do_texture_ids = {}\<rparr>"

text \<open>The fields of a scanout that the scheduler reads.\<close>

record 'm scanout =
  sc_id :: output_id
  sc_mode :: 'm
  sc_transform :: output_transform
  sc_source_rect :: pixel_rect
  sc_connector :: u32
  sc_crtc :: u32
  sc_vrr_enabled :: bool
  sc_powered :: bool

record 'm output_signature =
  os_mode :: 'm
  os_transform :: output_transform
  os_source_rect :: pixel_rect
  os_connector :: u32
  os_crtc :: u32
  os_vrr_enabled :: bool

definition signature_of :: "'m scanout \<Rightarrow> 'm output_signature" where
  "signature_of sc = \<lparr>os_mode = sc_mode sc, os_transform = sc_transform sc,
     os_source_rect = sc_source_rect sc, os_connector = sc_connector sc, os_crtc = sc_crtc sc,
     os_vrr_enabled = sc_vrr_enabled sc\<rparr>"

record timeline_source =
  ts_output :: output_id
  ts_interval :: duration
  ts_vrr_enabled :: bool

record output_timeline =
  ot_source :: timeline_source
  ot_next_tick :: instant
  ot_next_sequence :: u64
  ot_pending_phase :: int

section \<open>One timeline\<close>

definition timeline_new :: "timeline_source \<Rightarrow> instant \<Rightarrow> output_timeline" where
  "timeline_new source now =
     \<lparr>ot_source = source, ot_next_tick = now, ot_next_sequence = 1, ot_pending_phase = 0\<rparr>"

definition signed_instant_delta :: "instant \<Rightarrow> instant \<Rightarrow> int" where
  "signed_instant_delta lhs rhs =
     (if rhs \<le> lhs then int (nat (lhs - rhs)) else - int (nat (rhs - lhs)))"

definition nearest_phase_error :: "int \<Rightarrow> duration \<Rightarrow> int" where
  "nearest_phase_error delta_nanos interval =
     (let period = int (max interval 1); error = trunc_rem delta_nanos period; half_period = period div 2
      in if half_period < error then error - period
         else if error < - half_period then error + period else error)"

definition shift_instant :: "instant \<Rightarrow> int \<Rightarrow> instant" where
  "shift_instant t adjustment_nanos =
     (if 0 \<le> adjustment_nanos then t + int (nat adjustment_nanos) else t - int (nat (- adjustment_nanos)))"

text \<open>The deadline moves in chunks because a duration is multiplied by a \<open>u32\<close>.\<close>

function advance_deadline :: "instant \<Rightarrow> duration \<Rightarrow> nat \<Rightarrow> instant" where
  "advance_deadline deadline interval periods =
     (if 0 < periods then
        let chunk = min periods 4294967295
        in advance_deadline (deadline + int (interval * chunk)) interval (periods - chunk)
      else deadline)"
  by pat_completeness auto

termination
  by (relation "measure (\<lambda>(_, _, periods). periods)") auto

declare advance_deadline.simps [simp del]

definition timeline_observe :: "output_timeline \<Rightarrow> instant \<Rightarrow> instant \<Rightarrow> output_timeline" where
  "timeline_observe timeline presentation_target presented_at =
     (let phase_error = nearest_phase_error (signed_instant_delta presented_at presentation_target)
            (ts_interval (ot_source timeline))
      in if nat \<bar>phase_error\<bar> \<le> PHASE_LOCK_DEADBAND then timeline
         else
           let limit = int PHASE_LOCK_MAX_ADJUSTMENT;
               correction = clamp (trunc_div phase_error PHASE_LOCK_GAIN_DIVISOR) (- limit) limit;
               pending = ot_pending_phase timeline + correction
           in timeline\<lparr>ot_pending_phase := clamp pending (- limit) limit\<rparr>)"

definition take_tick :: "output_timeline \<Rightarrow> instant \<Rightarrow> frame_tick option \<times> output_timeline" where
  "take_tick timeline now =
     (if now < ot_next_tick timeline then (None, timeline)
      else
        let interval = ts_interval (ot_source timeline);
            interval_nanos = max interval 1;
            missed_periods = saturating_duration_since now (ot_next_tick timeline) div interval_nanos;
            render_deadline = advance_deadline (ot_next_tick timeline) interval missed_periods;
            sequence = ot_next_sequence timeline + word_of_nat missed_periods;
            nominal_next_tick = render_deadline + int interval;
            next = shift_instant nominal_next_tick (ot_pending_phase timeline)
        in (Some \<lparr>ft_output = ts_output (ot_source timeline), ft_sequence = sequence,
                 ft_interval = saturating_duration_since next render_deadline,
                 ft_render_deadline = render_deadline, ft_presentation_target = next\<rparr>,
            timeline\<lparr>ot_next_tick := next, ot_next_sequence := sequence + 1, ot_pending_phase := 0\<rparr>))"

section \<open>The timelines of all powered outputs\<close>

record output_timelines =
  ots_timelines :: "output_timeline list"
  ots_ticks :: "frame_tick list"
  ots_flutter_output :: "output_id option"

definition refresh_interval :: "('m \<Rightarrow> int) \<Rightarrow> 'm scanout \<Rightarrow> duration" where
  "refresh_interval refresh sc =
     (let refresh_millihz = (if 0 < refresh (sc_mode sc) then refresh (sc_mode sc) else 60000)
      in nat (1000000000000 div refresh_millihz))"

definition timeline_source_of :: "('m \<Rightarrow> int) \<Rightarrow> 'm scanout \<Rightarrow> timeline_source" where
  "timeline_source_of refresh sc =
     \<lparr>ts_output = sc_id sc, ts_interval = refresh_interval refresh sc, ts_vrr_enabled = sc_vrr_enabled sc\<rparr>"

text \<open>\<open>min_by_key\<close> on the interval and the output id: the first of the least.\<close>

definition source_lt :: "timeline_source \<Rightarrow> timeline_source \<Rightarrow> bool" where
  "source_lt a b \<longleftrightarrow> ts_interval a < ts_interval b \<or>
     ts_interval a = ts_interval b \<and> ts_output a < ts_output b"

fun fastest_source :: "timeline_source list \<Rightarrow> timeline_source option" where
  "fastest_source [] = None"
| "fastest_source (x # xs) = Some (foldl (\<lambda>best y. if source_lt y best then y else best) x xs)"

definition flutter_output_of :: "output_timeline list \<Rightarrow> output_id option" where
  "flutter_output_of timelines = map_option ts_output (fastest_source (map ot_source timelines))"

definition timelines_replace :: "output_timelines \<Rightarrow> timeline_source list \<Rightarrow> instant \<Rightarrow> output_timelines" where
  "timelines_replace ots sources now =
     (let timelines = map (\<lambda>source. timeline_new source now) sources
      in \<lparr>ots_timelines = timelines, ots_ticks = [], ots_flutter_output = flutter_output_of timelines\<rparr>)"

definition timelines_new :: "('m \<Rightarrow> int) \<Rightarrow> 'm scanout list \<Rightarrow> instant \<Rightarrow> output_timelines" where
  "timelines_new refresh scanouts now =
     timelines_replace \<lparr>ots_timelines = [], ots_ticks = [], ots_flutter_output = None\<rparr>
       (map (timeline_source_of refresh) (filter sc_powered scanouts)) now"

fun push_new_sources :: "output_timeline list \<Rightarrow> timeline_source list \<Rightarrow> instant \<Rightarrow> output_timeline list" where
  "push_new_sources timelines [] now = timelines"
| "push_new_sources timelines (source # sources) now =
     push_new_sources
       (if \<exists>timeline\<in>set timelines. ot_source timeline = source then timelines
        else timelines @ [timeline_new source now]) sources now"

definition timelines_reconfigure ::
  "output_timelines \<Rightarrow> timeline_source list \<Rightarrow> instant \<Rightarrow> output_timelines" where
  "timelines_reconfigure ots sources now =
     (if length (ots_timelines ots) = length sources \<and>
         (\<forall>source\<in>set sources. \<exists>timeline\<in>set (ots_timelines ots). ot_source timeline = source)
      then ots
      else
        let timelines = push_new_sources
              (filter (\<lambda>timeline. ot_source timeline \<in> set sources) (ots_timelines ots)) sources now
        in \<lparr>ots_timelines = timelines, ots_ticks = [], ots_flutter_output = flutter_output_of timelines\<rparr>)"

fun advance_all :: "output_timeline list \<Rightarrow> instant \<Rightarrow> frame_tick list \<times> output_timeline list" where
  "advance_all [] now = ([], [])"
| "advance_all (timeline # rest) now =
     (case take_tick timeline now of (tick, timeline') \<Rightarrow>
        case advance_all rest now of (ticks, rest') \<Rightarrow>
          (case tick of None \<Rightarrow> ticks | Some t \<Rightarrow> t # ticks, timeline' # rest'))"

definition timelines_advance :: "output_timelines \<Rightarrow> instant \<Rightarrow> output_timelines" where
  "timelines_advance ots now =
     (case advance_all (ots_timelines ots) now of (ticks, timelines) \<Rightarrow>
        ots\<lparr>ots_ticks := ticks, ots_timelines := timelines\<rparr>)"

definition timelines_flutter_tick :: "output_timelines \<Rightarrow> frame_tick option" where
  "timelines_flutter_tick ots =
     Option.bind (ots_flutter_output ots) (\<lambda>out. find (\<lambda>tick. ft_output tick = out) (ots_ticks ots))"

definition is_parked :: "output_timelines \<Rightarrow> bool" where
  "is_parked ots \<longleftrightarrow> ots_timelines ots = []"

fun observe_first :: "output_timeline list \<Rightarrow> output_id \<Rightarrow> instant \<Rightarrow> instant \<Rightarrow> output_timeline list" where
  "observe_first [] out target shown_at = []"
| "observe_first (timeline # rest) out target shown_at =
     (if ts_output (ot_source timeline) = out then timeline_observe timeline target shown_at # rest
      else timeline # observe_first rest out target shown_at)"

definition timelines_observe :: "output_timelines \<Rightarrow> output_id \<Rightarrow> instant \<Rightarrow> instant \<Rightarrow> output_timelines" where
  "timelines_observe ots out target shown_at =
     ots\<lparr>ots_timelines := observe_first (ots_timelines ots) out target shown_at\<rparr>"

definition timelines_limit_dispatch :: "output_timelines \<Rightarrow> instant \<Rightarrow> duration \<Rightarrow> duration" where
  "timelines_limit_dispatch ots now timeout =
     foldl (\<lambda>timeout timeline. min timeout (saturating_duration_since (ot_next_tick timeline) now))
       timeout (ots_timelines ots)"

section \<open>The scheduler\<close>

record frame_scheduler_audit =
  fa_interval_started :: instant
  fa_dirty_updates :: u64
  fa_output_ticks :: u64
  fa_dirty_output_ticks :: u64
  fa_unavailable_output_ticks :: u64
  fa_render_requests :: u64

definition audit_new :: "instant \<Rightarrow> frame_scheduler_audit" where
  "audit_new clock = \<lparr>fa_interval_started = clock, fa_dirty_updates = 0, fa_output_ticks = 0,
     fa_dirty_output_ticks = 0, fa_unavailable_output_ticks = 0, fa_render_requests = 0\<rparr>"

definition record_step :: "frame_scheduler_audit \<Rightarrow> nat \<Rightarrow> nat \<Rightarrow> nat \<Rightarrow> frame_scheduler_audit" where
  "record_step audit output_ticks dirty_ticks unavailable_ticks = audit
     \<lparr>fa_output_ticks := u64_saturating_add (fa_output_ticks audit) (word_of_nat output_ticks),
      fa_dirty_output_ticks := u64_saturating_add (fa_dirty_output_ticks audit) (word_of_nat dirty_ticks),
      fa_unavailable_output_ticks :=
        u64_saturating_add (fa_unavailable_output_ticks audit) (word_of_nat unavailable_ticks)\<rparr>"

text \<open>The report itself is a log line; the counters restart with it.\<close>

definition maybe_report :: "frame_scheduler_audit \<Rightarrow> instant \<Rightarrow> frame_scheduler_audit" where
  "maybe_report audit clock =
     (if saturating_duration_since clock (fa_interval_started audit) < FRAME_SCHEDULER_AUDIT_INTERVAL
      then audit else audit_new clock)"

record 'm frame_scheduler =
  fs_outputs :: output_timelines
  fs_configured_outputs :: "output_id set"
  fs_output_signatures :: "output_id \<rightharpoonup> 'm output_signature"
  fs_dirty_outputs :: "output_id \<rightharpoonup> dirty_output"
  fs_render_requests :: "output_frame_request list"
  fs_render_texture_ids :: "int set"
  fs_available_outputs :: "output_id list"
  fs_next_dirty_serial :: u64
  fs_flutter_request_latched :: bool
  fs_flutter_outputs_dirty :: bool
  fs_flutter_tick :: "frame_tick option"
  fs_last_flutter_target :: "instant option"
  fs_audit :: "frame_scheduler_audit option"

definition allocate_dirty_serial :: "'m frame_scheduler \<Rightarrow> 'm frame_scheduler \<times> u64" where
  "allocate_dirty_serial s =
     (let serial = max (fs_next_dirty_serial s + 1) 1 in (s\<lparr>fs_next_dirty_serial := serial\<rparr>, serial))"

definition dirty_entry :: "'m frame_scheduler \<Rightarrow> output_id \<Rightarrow> dirty_output" where
  "dirty_entry s out = (case fs_dirty_outputs s out of None \<Rightarrow> dirty_output_default | Some d \<Rightarrow> d)"

definition mark_app_dirty :: "'m frame_scheduler \<Rightarrow> output_id \<Rightarrow> int set \<Rightarrow> 'm frame_scheduler" where
  "mark_app_dirty s0 out texture_ids =
     (if out \<notin> fs_configured_outputs s0 then s0
      else case allocate_dirty_serial s0 of (s, serial) \<Rightarrow>
        s\<lparr>fs_dirty_outputs := (fs_dirty_outputs s)(out \<mapsto>
            \<lparr>do_serial = serial, do_texture_ids = do_texture_ids (dirty_entry s out) \<union> texture_ids\<rparr>),
          fs_audit := map_option (\<lambda>audit.
            audit\<lparr>fa_dirty_updates := u64_saturating_add (fa_dirty_updates audit) 1\<rparr>) (fs_audit s)\<rparr>)"

definition mark_output_dirty :: "'m frame_scheduler \<Rightarrow> output_id \<Rightarrow> 'm frame_scheduler" where
  "mark_output_dirty s out = mark_app_dirty s out {}"

fun mark_each_dirty :: "'m frame_scheduler \<Rightarrow> output_id list \<Rightarrow> 'm frame_scheduler" where
  "mark_each_dirty s [] = s"
| "mark_each_dirty s0 (out # outs) =
     (case allocate_dirty_serial s0 of (s, serial) \<Rightarrow>
        mark_each_dirty (s\<lparr>fs_dirty_outputs := (fs_dirty_outputs s)(out \<mapsto>
          (dirty_entry s out)\<lparr>do_serial := serial\<rparr>)\<rparr>) outs)"

definition mark_all_dirty :: "'m frame_scheduler \<Rightarrow> 'm frame_scheduler" where
  "mark_all_dirty s =
     mark_each_dirty s (map (\<lambda>timeline. ts_output (ot_source timeline)) (ots_timelines (fs_outputs s)))"

definition frame_scheduler_new ::
  "('m \<Rightarrow> int) \<Rightarrow> instant option \<Rightarrow> 'm scanout list \<Rightarrow> instant \<Rightarrow> 'm frame_scheduler" where
  "frame_scheduler_new refresh audit_clock scanouts now =
     mark_all_dirty
       \<lparr>fs_outputs = timelines_new refresh scanouts now,
        fs_configured_outputs = set (map sc_id scanouts),
        fs_output_signatures = map_of (rev (map (\<lambda>sc. (sc_id sc, signature_of sc)) scanouts)),
        fs_dirty_outputs = Map.empty, fs_render_requests = [], fs_render_texture_ids = {},
        fs_available_outputs = [], fs_next_dirty_serial = 0, fs_flutter_request_latched = False,
        fs_flutter_outputs_dirty = False, fs_flutter_tick = None, fs_last_flutter_target = None,
        fs_audit = map_option audit_new audit_clock\<rparr>"

definition restarted_outputs :: "'m frame_scheduler \<Rightarrow> timeline_source list \<Rightarrow> output_id list" where
  "restarted_outputs s sources =
     map ts_output (filter (\<lambda>source.
       case find (\<lambda>timeline. ts_output (ot_source timeline) = ts_output source)
              (ots_timelines (fs_outputs s)) of
         None \<Rightarrow> True | Some timeline \<Rightarrow> ot_source timeline \<noteq> source) sources)"

definition reconfigure_sources ::
  "'m frame_scheduler \<Rightarrow> output_id set \<Rightarrow> timeline_source list \<Rightarrow> instant \<Rightarrow> 'm frame_scheduler" where
  "reconfigure_sources s configured sources now =
     (let restarted = restarted_outputs s sources;
          s1 = s\<lparr>fs_configured_outputs := configured,
            fs_outputs := timelines_reconfigure (fs_outputs s) sources now,
            fs_dirty_outputs := map_retain (\<lambda>out. out \<in> configured) (fs_dirty_outputs s)\<rparr>;
          s2 = foldl mark_output_dirty s1 restarted
      in if is_parked (fs_outputs s2)
         then s2\<lparr>fs_flutter_request_latched := False, fs_flutter_outputs_dirty := False,
                 fs_flutter_tick := None\<rparr>
         else s2)"

fun refresh_signatures :: "'m frame_scheduler \<Rightarrow> 'm scanout list \<Rightarrow> 'm frame_scheduler" where
  "refresh_signatures s [] = s"
| "refresh_signatures s (sc # scs) =
     (let signature = signature_of sc;
          changed = (case fs_output_signatures s (sc_id sc) of
            None \<Rightarrow> True | Some previous \<Rightarrow> previous \<noteq> signature);
          s' = s\<lparr>fs_output_signatures := (fs_output_signatures s)(sc_id sc \<mapsto> signature)\<rparr>
      in refresh_signatures (if changed \<and> sc_powered sc then mark_output_dirty s' (sc_id sc) else s') scs)"

definition reconfigure ::
  "('m \<Rightarrow> int) \<Rightarrow> 'm frame_scheduler \<Rightarrow> 'm scanout list \<Rightarrow> instant \<Rightarrow> 'm frame_scheduler" where
  "reconfigure refresh s scanouts now =
     (let s1 = reconfigure_sources s (set (map sc_id scanouts))
            (map (timeline_source_of refresh) (filter sc_powered scanouts)) now
      in refresh_signatures (s1\<lparr>fs_output_signatures :=
           map_retain (\<lambda>out. out \<in> fs_configured_outputs s1) (fs_output_signatures s1)\<rparr>) scanouts)"

definition complete_render :: "'m frame_scheduler \<Rightarrow> output_id \<Rightarrow> u64 \<Rightarrow> 'm frame_scheduler" where
  "complete_render s out dirty_serial =
     (case fs_dirty_outputs s out of
        Some dirty \<Rightarrow>
          if do_serial dirty = dirty_serial
          then s\<lparr>fs_dirty_outputs := (fs_dirty_outputs s)(out := None)\<rparr> else s
      | None \<Rightarrow> s)"

definition observe_presentation ::
  "'m frame_scheduler \<Rightarrow> output_id \<Rightarrow> instant \<Rightarrow> instant \<Rightarrow> 'm frame_scheduler" where
  "observe_presentation s out target shown_at =
     s\<lparr>fs_outputs := timelines_observe (fs_outputs s) out target shown_at\<rparr>"

text \<open>\<open>None\<close> is the panic of the \<open>expect\<close> on the retained tick.\<close>

definition flutter_frame_dispatched :: "'m frame_scheduler \<Rightarrow> 'm frame_scheduler option" where
  "flutter_frame_dispatched s =
     (case fs_flutter_tick s of
        None \<Rightarrow> None
      | Some tick \<Rightarrow> Some (s\<lparr>fs_flutter_tick := None,
          fs_last_flutter_target := Some (ft_presentation_target tick),
          fs_flutter_request_latched := False, fs_flutter_outputs_dirty := False\<rparr>))"

definition flutter_frame_dispatched_asserts :: "'m frame_scheduler \<Rightarrow> bool" where
  "flutter_frame_dispatched_asserts s \<longleftrightarrow>
     (case fs_flutter_tick s of
        None \<Rightarrow> False
      | Some tick \<Rightarrow>
          (case fs_last_flutter_target s of
             None \<Rightarrow> True | Some target \<Rightarrow> target < ft_presentation_target tick))"

definition step_flutter_tick :: "'m frame_scheduler \<Rightarrow> frame_tick option" where
  "step_flutter_tick s =
     (case timelines_flutter_tick (fs_outputs s) of
        None \<Rightarrow> None
      | Some tick \<Rightarrow>
          if fs_flutter_request_latched s \<and> ft_output tick \<in> set (fs_available_outputs s) \<and>
             (case fs_last_flutter_target s of
                None \<Rightarrow> True | Some target \<Rightarrow> target < ft_presentation_target tick)
          then Some tick else None)"

definition requests_of :: "'m frame_scheduler \<Rightarrow> output_frame_request list" where
  "requests_of s = List.map_filter (\<lambda>tick.
     if ft_output tick \<notin> set (fs_available_outputs s) then None
     else map_option (\<lambda>dirty. \<lparr>ofr_tick = tick, ofr_dirty_serial = do_serial dirty\<rparr>)
       (fs_dirty_outputs s (ft_output tick))) (ots_ticks (fs_outputs s))"

definition request_textures :: "'m frame_scheduler \<Rightarrow> int set" where
  "request_textures s = (\<Union>tick \<in> {tick \<in> set (ots_ticks (fs_outputs s)).
     ft_output tick \<in> set (fs_available_outputs s)}.
     case fs_dirty_outputs s (ft_output tick) of None \<Rightarrow> {} | Some dirty \<Rightarrow> do_texture_ids dirty)"

definition step_audit :: "'m frame_scheduler \<Rightarrow> instant \<Rightarrow> 'm frame_scheduler" where
  "step_audit s clock =
     (let ticks = ots_ticks (fs_outputs s);
          dirty_ticks = length (filter (\<lambda>tick. fs_dirty_outputs s (ft_output tick) \<noteq> None) ticks);
          unavailable_ticks = length (filter (\<lambda>tick. fs_dirty_outputs s (ft_output tick) \<noteq> None \<and>
            ft_output tick \<notin> set (fs_available_outputs s)) ticks)
      in s\<lparr>fs_audit := map_option (\<lambda>audit.
           let audit' = record_step audit (length ticks) dirty_ticks unavailable_ticks
           in maybe_report (audit'\<lparr>fa_render_requests := u64_saturating_add (fa_render_requests audit')
                (word_of_nat (length (fs_render_requests s)))\<rparr>) clock) (fs_audit s)\<rparr>)"

text \<open>The step up to the dirty marks of a new Dart frame, and the whole step.\<close>

definition step_prepare ::
  "'m frame_scheduler \<Rightarrow> instant \<Rightarrow> pending_frame \<Rightarrow> (output_id \<Rightarrow> bool) \<Rightarrow> 'm frame_scheduler" where
  "step_prepare s now pending output_available =
     (let outs = timelines_advance (fs_outputs s) now
      in s\<lparr>fs_flutter_request_latched := fs_flutter_request_latched s \<or> flutter_requested pending,
           fs_outputs := outs, fs_render_requests := [], fs_render_texture_ids := {},
           fs_available_outputs := filter output_available (map ft_output (ots_ticks outs)),
           fs_flutter_tick := None\<rparr>)"

definition step_mark :: "'m frame_scheduler \<Rightarrow> 'm frame_scheduler" where
  "step_mark s =
     (if step_flutter_tick s \<noteq> None \<and> \<not> fs_flutter_outputs_dirty s
      then (mark_all_dirty s)\<lparr>fs_flutter_outputs_dirty := True\<rparr> else s)"

definition step_with_output_availability ::
  "'m frame_scheduler \<Rightarrow> instant \<Rightarrow> pending_frame \<Rightarrow> (output_id \<Rightarrow> bool) \<Rightarrow> instant \<Rightarrow>
     'm frame_scheduler \<times> frame_action" where
  "step_with_output_availability s0 now pending output_available clock =
     (let s1 = step_prepare s0 now pending output_available;
          flutter_tick = step_flutter_tick s1;
          s2 = step_mark s1;
          s3 = step_audit (s2\<lparr>fs_render_requests := requests_of s2,
            fs_render_texture_ids := request_textures s2\<rparr>) clock
      in if fs_render_requests s3 = [] then (s3, Skip)
         else
           let tick = (case flutter_tick of None \<Rightarrow> None
             | Some tick \<Rightarrow>
                 if \<exists>request\<in>set (fs_render_requests s3). ft_output (ofr_tick request) = ft_output tick
                 then Some tick else None)
           in (s3\<lparr>fs_flutter_tick := tick\<rparr>, Render (map_option ft_output tick)))"

definition output_ticks :: "'m frame_scheduler \<Rightarrow> frame_tick list" where
  "output_ticks s = ots_ticks (fs_outputs s)"

definition output_tick_due :: "'m frame_scheduler \<Rightarrow> instant \<Rightarrow> bool" where
  "output_tick_due s now \<longleftrightarrow> (\<exists>timeline\<in>set (ots_timelines (fs_outputs s)). ot_next_tick timeline \<le> now)"

definition scheduler_limit_dispatch :: "'m frame_scheduler \<Rightarrow> instant \<Rightarrow> duration \<Rightarrow> duration" where
  "scheduler_limit_dispatch s now timeout = timelines_limit_dispatch (fs_outputs s) now timeout"

section \<open>Waking for the next tick\<close>

definition timelines_due :: "output_timelines \<Rightarrow> instant \<Rightarrow> bool" where
  "timelines_due ots t \<longleftrightarrow> (\<exists>timeline\<in>set (ots_timelines ots). ot_next_tick timeline \<le> t)"

lemma foldl_min_bounds:
  fixes f :: "'a \<Rightarrow> 'b :: linorder"
  shows "foldl (\<lambda>acc x. min acc (f x)) a xs \<le> a"
    and "x \<in> set xs \<Longrightarrow> foldl (\<lambda>acc x. min acc (f x)) a xs \<le> f x"
    and "foldl (\<lambda>acc x. min acc (f x)) a xs = a \<or> (\<exists>x\<in>set xs. foldl (\<lambda>acc x. min acc (f x)) a xs = f x)"
proof (induction xs arbitrary: a)
  case (Cons y ys)
  {
    case 1
    show ?case
      using Cons(1) [of "min a (f y)"] by simp
  next
    case 2
    then show ?case
      using Cons(1,2) [of "min a (f y)"] by auto
  next
    case 3
    show ?case
      using Cons(3) [of "min a (f y)"] by (auto simp: min_def)
  }
qed simp_all

interpretation timelines: dispatch_limiter timelines_due timelines_limit_dispatch
proof (unfold_locales, goal_cases)
  case (1 ots now timeout)
  show ?case
    unfolding timelines_limit_dispatch_def by (rule foldl_min_bounds)
next
  case (2 now t ots timeout)
  have "t < ot_next_tick timeline" if "timeline \<in> set (ots_timelines ots)" for timeline
  proof -
    have "timelines_limit_dispatch ots now timeout \<le> saturating_duration_since (ot_next_tick timeline) now"
      unfolding timelines_limit_dispatch_def by (rule foldl_min_bounds(2) [OF that])
    then show ?thesis
      using 2 by (auto simp: saturating_duration_since_def)
  qed
  then show ?case
    by (auto simp: timelines_due_def not_le)
next
  case (3 ots now timeout)
  then obtain timeline where "timeline \<in> set (ots_timelines ots)"
    "timelines_limit_dispatch ots now timeout = saturating_duration_since (ot_next_tick timeline) now"
    using foldl_min_bounds(3) [of "\<lambda>timeline. saturating_duration_since (ot_next_tick timeline) now"
        timeout "ots_timelines ots"]
    by (auto simp: timelines_limit_dispatch_def)
  then show ?case
    unfolding timelines_due_def by (intro bexI [of _ timeline]) (simp_all add: saturating_duration_since_def)
qed

section \<open>The timeline's ticks\<close>

lemma advance_deadline_eq: "advance_deadline deadline interval periods = deadline + int (interval * periods)"
proof (induction deadline interval periods rule: advance_deadline.induct)
  case (1 deadline interval periods)
  show ?case
  proof (cases "0 < periods")
    case True
    let ?chunk = "min periods 4294967295"
    have "interval * ?chunk + interval * (periods - ?chunk) = interval * periods"
      by (simp flip: distrib_left)
    then show ?thesis
      using 1 [OF True refl] True
      by (subst advance_deadline.simps) (simp only: if_True Let_def add.assoc flip: of_nat_add)
  qed (simp add: advance_deadline.simps)
qed

lemma shift_instant_eq: "shift_instant t a = t + a"
  by (simp add: shift_instant_def)

lemma signed_instant_delta_eq: "signed_instant_delta a b = a - b"
  by (simp add: signed_instant_delta_def)

lemma nearest_phase_error_bounds:
  fixes interval :: duration
  defines "P \<equiv> int (max interval 1)"
  shows "- (P div 2) \<le> nearest_phase_error d interval \<and> nearest_phase_error d interval \<le> P div 2 \<and>
    P dvd d - nearest_phase_error d interval"
proof -
  have P: "0 < P"
    by (simp add: P_def)
  have r: "- P < trunc_rem d P" "trunc_rem d P < P" "P dvd d - trunc_rem d P"
  proof -
    have "0 \<le> d mod P" "d mod P < P" "0 \<le> - d mod P" "- d mod P < P"
      using P by simp_all
    then show "- P < trunc_rem d P" "trunc_rem d P < P"
      using P unfolding trunc_rem_def by (cases "0 \<le> d"; simp only: if_True if_False; linarith)+
    have "P dvd - d - (- d mod P)"
      by (rule dvd_minus_mod)
    then have "P dvd - (- d - (- d mod P))"
      by (simp only: dvd_minus_iff)
    moreover have "d - - (- d mod P) = - (- d - (- d mod P))"
      by simp
    ultimately show "P dvd d - trunc_rem d P"
      unfolding trunc_rem_def by (cases "0 \<le> d"; simp only: if_True if_False dvd_minus_mod)
  qed
  let ?e = "trunc_rem d P"
  have eq: "nearest_phase_error d interval =
      (if P div 2 < ?e then ?e - P else if ?e < - (P div 2) then ?e + P else ?e)"
    by (simp add: nearest_phase_error_def P_def Let_def)
  have "P dvd d - (?e - P)" "P dvd d - (?e + P)"
    using r(3) dvd_add [OF r(3) dvd_refl] dvd_diff [OF r(3) dvd_refl] by (simp_all add: algebra_simps)
  then show ?thesis
    using r unfolding eq by (auto split: if_splits)
qed

definition phase_bounded :: "output_timeline \<Rightarrow> bool" where
  "phase_bounded timeline \<longleftrightarrow> \<bar>ot_pending_phase timeline\<bar> \<le> 250000"

lemma timeline_observe_bounded:
  "phase_bounded timeline \<Longrightarrow> phase_bounded (timeline_observe timeline target shown_at) \<and>
     ot_source (timeline_observe timeline target shown_at) = ot_source timeline \<and>
     ot_next_tick (timeline_observe timeline target shown_at) = ot_next_tick timeline"
  using clamp_bounds [of "- 250000" "250000 :: int"]
  by (auto simp: timeline_observe_def phase_bounded_def PHASE_LOCK_MAX_ADJUSTMENT_def Let_def abs_le_iff minus_le_iff)

lemma take_tick_Some:
  assumes "take_tick timeline now = (Some tick, timeline')" and "0 < ts_interval (ot_source timeline)"
  shows "\<exists>k. ft_render_deadline tick = ot_next_tick timeline + int (ts_interval (ot_source timeline) * k) \<and>
      ft_sequence tick = ot_next_sequence timeline + word_of_nat k"
    and "ot_next_tick timeline \<le> ft_render_deadline tick" "ft_render_deadline tick \<le> now"
    and "now < ft_render_deadline tick + int (ts_interval (ot_source timeline))"
    and "ft_presentation_target tick =
      ft_render_deadline tick + int (ts_interval (ot_source timeline)) + ot_pending_phase timeline"
    and "ft_output tick = ts_output (ot_source timeline)"
    and "timeline' = timeline\<lparr>ot_next_tick := ft_presentation_target tick,
      ot_next_sequence := ft_sequence tick + 1, ot_pending_phase := 0\<rparr>"
    and "ft_interval tick = nat (ft_presentation_target tick - ft_render_deadline tick)"
proof -
  let ?I = "ts_interval (ot_source timeline)"
  define k where "k = saturating_duration_since now (ot_next_tick timeline) div max ?I 1"
  have le: "ot_next_tick timeline \<le> now"
    using assms(1) by (auto simp: take_tick_def split: if_splits)
  have I: "max ?I 1 = ?I"
    using assms(2) by simp
  have t: "tick = \<lparr>ft_output = ts_output (ot_source timeline), ft_sequence = ot_next_sequence timeline + word_of_nat k,
      ft_interval = nat (int ?I + ot_pending_phase timeline),
      ft_render_deadline = ot_next_tick timeline + int (?I * k),
      ft_presentation_target = ot_next_tick timeline + int (?I * k) + int ?I + ot_pending_phase timeline\<rparr>"
    and t': "timeline' = timeline\<lparr>ot_next_tick := ft_presentation_target tick,
      ot_next_sequence := ft_sequence tick + 1, ot_pending_phase := 0\<rparr>"
    using assms(1) le
    by (auto simp: take_tick_def Let_def k_def advance_deadline_eq shift_instant_eq saturating_duration_since_def)
  have d: "?I * k \<le> nat (now - ot_next_tick timeline)" "nat (now - ot_next_tick timeline) < ?I * k + ?I"
    using div_times_less_eq_dividend [of "nat (now - ot_next_tick timeline)" ?I]
      dividend_less_div_times [OF assms(2), of "nat (now - ot_next_tick timeline)"]
    unfolding k_def I saturating_duration_since_def by (simp_all add: mult.commute)
  show "\<exists>k. ft_render_deadline tick = ot_next_tick timeline + int (?I * k) \<and>
      ft_sequence tick = ot_next_sequence timeline + word_of_nat k"
    by (intro exI [of _ k]) (simp add: t)
  show "ot_next_tick timeline \<le> ft_render_deadline tick" "ft_render_deadline tick \<le> now"
    "now < ft_render_deadline tick + int ?I"
    using d le unfolding t frame_tick.select_convs by linarith+
  show "ft_presentation_target tick = ft_render_deadline tick + int ?I + ot_pending_phase timeline"
    "ft_output tick = ts_output (ot_source timeline)"
    "ft_interval tick = nat (ft_presentation_target tick - ft_render_deadline tick)"
    unfolding t by simp_all
  show "timeline' = timeline\<lparr>ot_next_tick := ft_presentation_target tick,
      ot_next_sequence := ft_sequence tick + 1, ot_pending_phase := 0\<rparr>"
    by (rule t')
qed

lemma take_tick_None: "take_tick timeline now = (None, timeline') \<longleftrightarrow> now < ot_next_tick timeline \<and> timeline' = timeline"
  by (auto simp: take_tick_def Let_def split: if_splits)

text \<open>A timeline polled and corrected in any order, and the ticks it gives.\<close>

datatype timeline_event = TimelineObserve instant instant | TimelinePoll instant

fun timeline_run :: "output_timeline \<Rightarrow> timeline_event list \<Rightarrow> frame_tick list" where
  "timeline_run timeline [] = []"
| "timeline_run timeline (TimelineObserve target shown_at # events) =
     timeline_run (timeline_observe timeline target shown_at) events"
| "timeline_run timeline (TimelinePoll now # events) =
     (case take_tick timeline now of
        (None, timeline') \<Rightarrow> timeline_run timeline' events
      | (Some tick, timeline') \<Rightarrow> tick # timeline_run timeline' events)"

lemma timeline_run_order:
  assumes "phase_bounded timeline" "ts_interval (ot_source timeline) = interval" "250000 < interval"
  shows "sorted_wrt (\<lambda>a b. ft_presentation_target a \<le> ft_render_deadline b) (timeline_run timeline events) \<and>
    (\<forall>tick\<in>set (timeline_run timeline events). ot_next_tick timeline \<le> ft_render_deadline tick \<and>
       ft_render_deadline tick < ft_presentation_target tick \<and>
       \<bar>ft_presentation_target tick - ft_render_deadline tick - int interval\<bar> \<le> 250000 \<and>
       ft_interval tick = nat (ft_presentation_target tick - ft_render_deadline tick) \<and>
       ft_output tick = ts_output (ot_source timeline))"
  using assms
proof (induction timeline events rule: timeline_run.induct)
  case (2 timeline target shown_at events)
  then show ?case
    using timeline_observe_bounded [of timeline target shown_at] by simp
next
  case (3 timeline now events)
  obtain t timeline' where tt: "take_tick timeline now = (t, timeline')"
    by (cases "take_tick timeline now")
  show ?case
  proof (cases t)
    case None
    have run: "timeline_run timeline (TimelinePoll now # events) = timeline_run timeline' events"
      using tt None by simp
    have "timeline' = timeline"
      using tt None take_tick_None by blast
    then show ?thesis
      unfolding run using "3.IH"(1) [OF tt [symmetric] None] "3.prems" by simp
  next
    case (Some tick)
    have I: "0 < ts_interval (ot_source timeline)"
      using 3 by simp
    note tk = take_tick_Some [OF tt [unfolded Some] I]
    have "sorted_wrt (\<lambda>a b. ft_presentation_target a \<le> ft_render_deadline b) (timeline_run timeline' events) \<and>
        (\<forall>tick'\<in>set (timeline_run timeline' events). ft_presentation_target tick \<le> ft_render_deadline tick' \<and>
           ft_render_deadline tick' < ft_presentation_target tick' \<and>
           \<bar>ft_presentation_target tick' - ft_render_deadline tick' - int interval\<bar> \<le> 250000 \<and>
           ft_interval tick' = nat (ft_presentation_target tick' - ft_render_deadline tick') \<and>
           ft_output tick' = ts_output (ot_source timeline))"
      using "3.IH"(2) [OF tt [symmetric] Some] "3.prems" by (simp add: tk(7) phase_bounded_def)
    moreover have "ft_render_deadline tick < ft_presentation_target tick"
      "\<bar>ft_presentation_target tick - ft_render_deadline tick - int interval\<bar> \<le> 250000"
      using tk(5) "3.prems" by (auto simp: phase_bounded_def)
    ultimately show ?thesis
      using tk(2,6,8) tt Some by (auto intro: order_trans)
  qed
qed simp

section \<open>Dirty marks\<close>

lemma mark_each_dirty_fields [simp]:
  "fs_outputs (mark_each_dirty s outs) = fs_outputs s"
  "fs_configured_outputs (mark_each_dirty s outs) = fs_configured_outputs s"
  "fs_available_outputs (mark_each_dirty s outs) = fs_available_outputs s"
  "fs_flutter_request_latched (mark_each_dirty s outs) = fs_flutter_request_latched s"
  "fs_flutter_tick (mark_each_dirty s outs) = fs_flutter_tick s"
  "fs_last_flutter_target (mark_each_dirty s outs) = fs_last_flutter_target s"
  by (induction s outs rule: mark_each_dirty.induct) (simp_all add: allocate_dirty_serial_def Let_def)

lemma mark_app_dirty_fields [simp]:
  "fs_outputs (mark_app_dirty s out texs) = fs_outputs s"
  "fs_configured_outputs (mark_app_dirty s out texs) = fs_configured_outputs s"
  "fs_flutter_request_latched (mark_app_dirty s out texs) = fs_flutter_request_latched s"
  "fs_flutter_tick (mark_app_dirty s out texs) = fs_flutter_tick s"
  "fs_last_flutter_target (mark_app_dirty s out texs) = fs_last_flutter_target s"
  "fs_output_signatures (mark_app_dirty s out texs) = fs_output_signatures s"
  by (simp_all add: mark_app_dirty_def allocate_dirty_serial_def Let_def)

text \<open>The damage an output carries: nothing when it is clean.\<close>

definition keeps_damage :: "'m frame_scheduler \<Rightarrow> 'm frame_scheduler \<Rightarrow> output_id \<Rightarrow> bool" where
  "keeps_damage s s' out \<longleftrightarrow> (\<forall>d. fs_dirty_outputs s out = Some d \<longrightarrow>
     (\<exists>d'. fs_dirty_outputs s' out = Some d' \<and> do_texture_ids d \<subseteq> do_texture_ids d'))"

lemma keeps_damage_refl [simp]: "keeps_damage s s out"
  by (simp add: keeps_damage_def)

lemma keeps_damage_trans: "keeps_damage s s' out \<Longrightarrow> keeps_damage s' s'' out \<Longrightarrow> keeps_damage s s'' out"
  unfolding keeps_damage_def by (meson order_trans)

lemma mark_app_dirty_keeps: "keeps_damage s (mark_app_dirty s out texs) out'"
  by (auto simp: keeps_damage_def mark_app_dirty_def allocate_dirty_serial_def dirty_entry_def Let_def)

lemma mark_each_dirty_keeps: "keeps_damage s (mark_each_dirty s outs) out'"
proof (induction s outs rule: mark_each_dirty.induct)
  case (2 s0 out outs)
  obtain s serial where a: "allocate_dirty_serial s0 = (s, serial)"
    by (cases "allocate_dirty_serial s0")
  let ?s = "s\<lparr>fs_dirty_outputs := (fs_dirty_outputs s)(out \<mapsto> (dirty_entry s out)\<lparr>do_serial := serial\<rparr>)\<rparr>"
  have "fs_dirty_outputs s = fs_dirty_outputs s0"
    using a by (auto simp: allocate_dirty_serial_def Let_def)
  then have "keeps_damage s0 ?s out'"
    by (auto simp: keeps_damage_def dirty_entry_def)
  then show ?case
    using 2 [OF a [symmetric]] a keeps_damage_trans by fastforce
qed simp

lemma mark_each_dirty_dom:
  "dom (fs_dirty_outputs (mark_each_dirty s outs)) = dom (fs_dirty_outputs s) \<union> set outs"
  by (induction s outs rule: mark_each_dirty.induct) (auto simp: allocate_dirty_serial_def Let_def)

section \<open>The step\<close>

lemma requests_of_member:
  "r \<in> set (requests_of s) \<longleftrightarrow> ofr_tick r \<in> set (ots_ticks (fs_outputs s)) \<and>
     ft_output (ofr_tick r) \<in> set (fs_available_outputs s) \<and>
     (\<exists>d. fs_dirty_outputs s (ft_output (ofr_tick r)) = Some d \<and> ofr_dirty_serial r = do_serial d)"
proof (cases r)
  case (fields tick serial)
  then show ?thesis
    unfolding requests_of_def set_map_filter by (auto split: if_splits)
qed

lemma step_audit_fields [simp]:
  "fs_outputs (step_audit s clock) = fs_outputs s"
  "fs_dirty_outputs (step_audit s clock) = fs_dirty_outputs s"
  "fs_render_requests (step_audit s clock) = fs_render_requests s"
  "fs_render_texture_ids (step_audit s clock) = fs_render_texture_ids s"
  "fs_available_outputs (step_audit s clock) = fs_available_outputs s"
  "fs_flutter_request_latched (step_audit s clock) = fs_flutter_request_latched s"
  "fs_flutter_outputs_dirty (step_audit s clock) = fs_flutter_outputs_dirty s"
  "fs_flutter_tick (step_audit s clock) = fs_flutter_tick s"
  "fs_last_flutter_target (step_audit s clock) = fs_last_flutter_target s"
  by (simp_all add: step_audit_def Let_def)

lemma step_mark_fields [simp]:
  "fs_outputs (step_mark s) = fs_outputs s"
  "fs_available_outputs (step_mark s) = fs_available_outputs s"
  "fs_flutter_request_latched (step_mark s) = fs_flutter_request_latched s"
  "fs_flutter_tick (step_mark s) = fs_flutter_tick s"
  "fs_last_flutter_target (step_mark s) = fs_last_flutter_target s"
  by (simp_all add: step_mark_def mark_all_dirty_def)

lemma step_mark_keeps: "keeps_damage s (step_mark s) out"
  using mark_each_dirty_keeps [of s _ out]
  by (simp add: step_mark_def mark_all_dirty_def keeps_damage_def)

lemma step_prepare_fields [simp]:
  "fs_outputs (step_prepare s now pending avail) = timelines_advance (fs_outputs s) now"
  "fs_dirty_outputs (step_prepare s now pending avail) = fs_dirty_outputs s"
  "fs_available_outputs (step_prepare s now pending avail) =
     filter avail (map ft_output (ots_ticks (timelines_advance (fs_outputs s) now)))"
  "fs_flutter_tick (step_prepare s now pending avail) = None"
  "fs_last_flutter_target (step_prepare s now pending avail) = fs_last_flutter_target s"
  "fs_flutter_request_latched (step_prepare s now pending avail) \<longleftrightarrow>
     fs_flutter_request_latched s \<or> flutter_requested pending"
  by (simp_all add: step_prepare_def Let_def)

lemma step_mark_dirty: "step_flutter_tick s \<noteq> None \<Longrightarrow> fs_flutter_outputs_dirty (step_mark s)"
  by (simp add: step_mark_def)

text \<open>The state a step leaves, field by field.\<close>

lemma step_result:
  assumes "step_with_output_availability s now pending avail clock = (s', action)"
  defines "p \<equiv> step_prepare s now pending avail"
  shows "fs_outputs s' = fs_outputs p" and "fs_dirty_outputs s' = fs_dirty_outputs (step_mark p)"
    and "fs_render_requests s' = requests_of (step_mark p)"
    and "fs_render_texture_ids s' = request_textures (step_mark p)"
    and "fs_available_outputs s' = fs_available_outputs p"
    and "fs_last_flutter_target s' = fs_last_flutter_target s"
    and "fs_flutter_request_latched s' = fs_flutter_request_latched p"
    and "action = Skip \<longleftrightarrow> fs_render_requests s' = []"
    and "fs_flutter_tick s' = (if fs_render_requests s' = [] then None
      else case step_flutter_tick p of None \<Rightarrow> None
        | Some tick \<Rightarrow> if \<exists>r\<in>set (fs_render_requests s'). ft_output (ofr_tick r) = ft_output tick
            then Some tick else None)"
    and "action \<noteq> Skip \<Longrightarrow> action = Render (map_option ft_output (fs_flutter_tick s'))"
    and "step_flutter_tick p \<noteq> None \<Longrightarrow> fs_flutter_outputs_dirty s'"
proof -
  let ?s3 = "step_audit ((step_mark p)\<lparr>fs_render_requests := requests_of (step_mark p),
    fs_render_texture_ids := request_textures (step_mark p)\<rparr>) clock"
  let ?tick = "case step_flutter_tick p of None \<Rightarrow> None
    | Some tick \<Rightarrow> if \<exists>r\<in>set (requests_of (step_mark p)). ft_output (ofr_tick r) = ft_output tick
        then Some tick else None"
  have req: "fs_render_requests ?s3 = requests_of (step_mark p)"
    by simp
  have "(s', action) = (if requests_of (step_mark p) = [] then (?s3, Skip)
      else (?s3\<lparr>fs_flutter_tick := ?tick\<rparr>, Render (map_option ft_output ?tick)))"
    unfolding assms(1) [symmetric] step_with_output_availability_def Let_def p_def [symmetric] req
    by (rule refl)
  then consider "requests_of (step_mark p) = []" "s' = ?s3" "action = Skip"
    | "requests_of (step_mark p) \<noteq> []" "s' = ?s3\<lparr>fs_flutter_tick := ?tick\<rparr>"
      "action = Render (map_option ft_output ?tick)"
    by (auto split: if_splits)
  note cs = this
  have f: "fs_outputs ?s3 = fs_outputs p" "fs_available_outputs ?s3 = fs_available_outputs p"
    "fs_last_flutter_target ?s3 = fs_last_flutter_target s" "fs_flutter_tick ?s3 = None"
    "step_flutter_tick p \<noteq> None \<Longrightarrow> fs_flutter_outputs_dirty ?s3"
    "fs_flutter_request_latched ?s3 = fs_flutter_request_latched p"
    using step_mark_dirty [of p] by (simp_all add: p_def)
  have all: "fs_outputs s' = fs_outputs p \<and>
    fs_dirty_outputs s' = fs_dirty_outputs (step_mark p) \<and>
    fs_render_requests s' = requests_of (step_mark p) \<and>
    fs_render_texture_ids s' = request_textures (step_mark p) \<and>
    fs_available_outputs s' = fs_available_outputs p \<and>
    fs_last_flutter_target s' = fs_last_flutter_target s \<and>
    fs_flutter_request_latched s' = fs_flutter_request_latched p \<and>
    (action = Skip \<longleftrightarrow> requests_of (step_mark p) = []) \<and>
    fs_flutter_tick s' = (if requests_of (step_mark p) = [] then None else ?tick) \<and>
    (action \<noteq> Skip \<longrightarrow> action = Render (map_option ft_output (fs_flutter_tick s'))) \<and>
    (step_flutter_tick p \<noteq> None \<longrightarrow> fs_flutter_outputs_dirty s')"
  proof (cases rule: cs)
    case 1
    show ?thesis
      unfolding 1(2,3) using f 1(1) by simp
  next
    case 2
    show ?thesis
      unfolding 2(2,3) using f 2(1) by simp
  qed
  from all have eq: "fs_render_requests s' = requests_of (step_mark p)"
    by (elim conjE)
  show "fs_outputs s' = fs_outputs p" "fs_dirty_outputs s' = fs_dirty_outputs (step_mark p)"
    "fs_render_requests s' = requests_of (step_mark p)"
    "fs_render_texture_ids s' = request_textures (step_mark p)"
    "fs_available_outputs s' = fs_available_outputs p"
    "fs_last_flutter_target s' = fs_last_flutter_target s"
    "fs_flutter_request_latched s' = fs_flutter_request_latched p"
    "action = Skip \<longleftrightarrow> fs_render_requests s' = []"
    using all unfolding eq by - (elim conjE, (assumption | rule refl))+
  show "fs_flutter_tick s' = (if fs_render_requests s' = [] then None
      else case step_flutter_tick p of None \<Rightarrow> None
        | Some tick \<Rightarrow> if \<exists>r\<in>set (fs_render_requests s'). ft_output (ofr_tick r) = ft_output tick
            then Some tick else None)"
    using all unfolding eq by - (elim conjE, assumption)
  show "action = Render (map_option ft_output (fs_flutter_tick s'))" if "action \<noteq> Skip"
    using all that by - (elim conjE, erule (1) mp)
  show "fs_flutter_outputs_dirty s'" if "step_flutter_tick p \<noteq> None"
    using all that by - (elim conjE, erule (1) mp)
qed

lemma advance_all_outputs:
  "map ft_output (fst (advance_all timelines now)) =
     map (\<lambda>timeline. ts_output (ot_source timeline)) (filter (\<lambda>timeline. ot_next_tick timeline \<le> now) timelines)"
  "map ot_source (snd (advance_all timelines now)) = map ot_source timelines"
proof (induction timelines)
  case (Cons timeline rest)
  obtain t timeline' where tt: "take_tick timeline now = (t, timeline')"
    by (cases "take_tick timeline now")
  have t: "(case t of None \<Rightarrow> now < ot_next_tick timeline
      | Some tick \<Rightarrow> ot_next_tick timeline \<le> now \<and> ft_output tick = ts_output (ot_source timeline)) \<and>
      ot_source timeline' = ot_source timeline"
    using tt by (auto simp: take_tick_def Let_def split: if_splits)
  {
    case 1
    show ?case
      using Cons t tt by (auto split: prod.splits option.splits)
  next
    case 2
    show ?case
      using Cons t tt by (auto split: prod.splits option.splits)
  }
qed simp_all

text \<open>The outputs a time makes due.\<close>

definition due_outputs :: "output_timelines \<Rightarrow> instant \<Rightarrow> output_id list" where
  "due_outputs ots now = map (\<lambda>timeline. ts_output (ot_source timeline))
     (filter (\<lambda>timeline. ot_next_tick timeline \<le> now) (ots_timelines ots))"

lemma advance_ticks_due: "map ft_output (ots_ticks (timelines_advance ots now)) = due_outputs ots now"
  using advance_all_outputs(1) [of "ots_timelines ots" now]
  by (simp add: timelines_advance_def case_prod_unfold due_outputs_def)

lemma request_textures_iff:
  "x \<in> request_textures s \<longleftrightarrow> (\<exists>tick\<in>set (ots_ticks (fs_outputs s)).
     ft_output tick \<in> set (fs_available_outputs s) \<and>
     (\<exists>d. fs_dirty_outputs s (ft_output tick) = Some d \<and> x \<in> do_texture_ids d))"
  unfolding request_textures_def by (auto split: option.splits)

lemma step_facts:
  assumes "step_with_output_availability s now pending avail clock = (s', action)"
  shows "map ft_output (output_ticks s') = due_outputs (fs_outputs s) now"
    and "set (fs_render_requests s') = {\<lparr>ofr_tick = tick, ofr_dirty_serial = do_serial d\<rparr> | tick d.
      tick \<in> set (output_ticks s') \<and> avail (ft_output tick) \<and> fs_dirty_outputs s' (ft_output tick) = Some d}"
    and "fs_render_texture_ids s' = {x. \<exists>tick\<in>set (output_ticks s'). avail (ft_output tick) \<and>
      (\<exists>d. fs_dirty_outputs s' (ft_output tick) = Some d \<and> x \<in> do_texture_ids d)}"
    and "action = Skip \<longleftrightarrow> fs_render_requests s' = []"
    and "keeps_damage s s' out"
    and "fs_flutter_tick s' = Some tick \<Longrightarrow> action = Render (Some (ft_output tick)) \<and>
      (fs_flutter_request_latched s \<or> flutter_requested pending) \<and> avail (ft_output tick) \<and>
      tick \<in> set (output_ticks s') \<and> fs_flutter_outputs_dirty s'"
proof -
  note res = step_result [OF assms]
  define p where "p = step_prepare s now pending avail"
  have ticks: "ots_ticks (fs_outputs s') = ots_ticks (timelines_advance (fs_outputs s) now)"
    by (simp add: res(1))
  have avail: "ft_output tick \<in> set (fs_available_outputs p) \<longleftrightarrow> avail (ft_output tick)"
    if "tick \<in> set (ots_ticks (fs_outputs s'))" for tick
    using that by (auto simp: ticks p_def)
  have dirty: "fs_dirty_outputs s' = fs_dirty_outputs (step_mark p)"
    by (simp add: res(2) p_def)
  show "map ft_output (output_ticks s') = due_outputs (fs_outputs s) now"
    by (simp add: output_ticks_def ticks advance_ticks_due)
  have m: "r \<in> set (fs_render_requests s') \<longleftrightarrow> ofr_tick r \<in> set (output_ticks s') \<and>
     avail (ft_output (ofr_tick r)) \<and>
     (\<exists>d. fs_dirty_outputs s' (ft_output (ofr_tick r)) = Some d \<and> ofr_dirty_serial r = do_serial d)" for r
    unfolding res(3) requests_of_member dirty output_ticks_def
    using avail [of "ofr_tick r"] by (auto simp: res(1) p_def)
  show "set (fs_render_requests s') = {\<lparr>ofr_tick = tick, ofr_dirty_serial = do_serial d\<rparr> | tick d.
      tick \<in> set (output_ticks s') \<and> avail (ft_output tick) \<and> fs_dirty_outputs s' (ft_output tick) = Some d}"
    (is "_ = ?R")
  proof (rule set_eqI)
    fix r :: output_frame_request
    show "r \<in> set (fs_render_requests s') \<longleftrightarrow> r \<in> ?R"
      unfolding m by (cases r) auto
  qed
  show "fs_render_texture_ids s' = {x. \<exists>tick\<in>set (output_ticks s'). avail (ft_output tick) \<and>
      (\<exists>d. fs_dirty_outputs s' (ft_output tick) = Some d \<and> x \<in> do_texture_ids d)}"
    (is "_ = ?T")
  proof (rule set_eqI)
    fix x
    show "x \<in> fs_render_texture_ids s' \<longleftrightarrow> x \<in> ?T"
      unfolding res(4) request_textures_iff dirty output_ticks_def
      using avail [unfolded res(1)] by (auto simp: res(1) p_def Bex_def)
  qed
  show "action = Skip \<longleftrightarrow> fs_render_requests s' = []"
    by (rule res(8))
  show "keeps_damage s s' out"
    using step_mark_keeps [of p out] unfolding keeps_damage_def dirty by (simp add: p_def)
  show "action = Render (Some (ft_output tick)) \<and>
      (fs_flutter_request_latched s \<or> flutter_requested pending) \<and> avail (ft_output tick) \<and>
      tick \<in> set (output_ticks s') \<and> fs_flutter_outputs_dirty s'"
    if tick: "fs_flutter_tick s' = Some tick"
  proof -
    have st: "step_flutter_tick p = Some tick" "fs_render_requests s' \<noteq> []"
      using tick res(9) by (auto simp: p_def split: if_splits option.splits)
    have f: "timelines_flutter_tick (fs_outputs p) = Some tick" "fs_flutter_request_latched p"
        "ft_output tick \<in> set (fs_available_outputs p)"
      using st(1) by (auto simp: step_flutter_tick_def split: option.splits if_splits)
    have "tick \<in> set (output_ticks s')"
      using f(1) by (auto simp: timelines_flutter_tick_def output_ticks_def res(1) p_def bind_eq_Some_conv find_Some_iff)
    moreover have "action = Render (Some (ft_output tick))"
      using res(8,10) st(2) tick by simp
    moreover have "fs_flutter_outputs_dirty s'"
      using res(11) st(1) by (simp add: p_def)
    ultimately show ?thesis
      using f avail [of tick] by (auto simp: p_def output_ticks_def)
  qed
qed
text \<open>C10: A step requests a frame exactly for the due, available outputs that carry damage, with the
  serial of that damage; it collects exactly their textures, skips exactly when there is nothing to
  request, drops no damage, and only a latched request on an available due output advances the Dart
  scene.\<close>

theorem step_renders_due_damage:
  assumes "step_with_output_availability s now pending avail clock = (s', action)"
  shows "map ft_output (output_ticks s') = due_outputs (fs_outputs s) now \<and>
    set (fs_render_requests s') = {\<lparr>ofr_tick = tick, ofr_dirty_serial = do_serial d\<rparr> | tick d.
      tick \<in> set (output_ticks s') \<and> avail (ft_output tick) \<and> fs_dirty_outputs s' (ft_output tick) = Some d} \<and>
    fs_render_texture_ids s' = {x. \<exists>tick\<in>set (output_ticks s'). avail (ft_output tick) \<and>
      (\<exists>d. fs_dirty_outputs s' (ft_output tick) = Some d \<and> x \<in> do_texture_ids d)} \<and>
    (action = Skip \<longleftrightarrow> fs_render_requests s' = []) \<and>
    (\<forall>out. keeps_damage s s' out) \<and>
    (\<forall>tick. fs_flutter_tick s' = Some tick \<longrightarrow> action = Render (Some (ft_output tick)) \<and>
      (fs_flutter_request_latched s \<or> flutter_requested pending) \<and> avail (ft_output tick) \<and>
      tick \<in> set (output_ticks s') \<and> fs_flutter_outputs_dirty s')"
  using step_facts(1-4) [OF assms]
  by (intro conjI allI impI step_facts(5,6) [OF assms]) assumption+

definition sample_scanout :: "int scanout" where
  "sample_scanout = \<lparr>sc_id = 7, sc_mode = 60000, sc_transform = Normal,
     sc_source_rect = \<lparr>pr_x = 0, pr_y = 0, pr_width = 1, pr_height = 1\<rparr>, sc_connector = 1, sc_crtc = 1,
     sc_vrr_enabled = False, sc_powered = True\<rparr>"

definition sample_scheduler :: "int frame_scheduler" where
  "sample_scheduler = frame_scheduler_new id None [sample_scanout] 0"

definition sample_tick :: frame_tick where
  "sample_tick = \<lparr>ft_output = 7, ft_sequence = 1, ft_interval = 16666666, ft_render_deadline = 0,
     ft_presentation_target = 16666666\<rparr>"

lemma sample_scheduler_eq: "sample_scheduler = \<lparr>fs_outputs = \<lparr>ots_timelines = [timeline_new
     \<lparr>ts_output = 7, ts_interval = 16666666, ts_vrr_enabled = False\<rparr> 0], ots_ticks = [],
       ots_flutter_output = Some 7\<rparr>,
     fs_configured_outputs = {7}, fs_output_signatures = [7 \<mapsto> signature_of sample_scanout],
     fs_dirty_outputs = [7 \<mapsto> \<lparr>do_serial = 1, do_texture_ids = {}\<rparr>], fs_render_requests = [],
     fs_render_texture_ids = {}, fs_available_outputs = [], fs_next_dirty_serial = 1,
     fs_flutter_request_latched = False, fs_flutter_outputs_dirty = False, fs_flutter_tick = None,
     fs_last_flutter_target = None, fs_audit = None\<rparr>"
  by (simp add: sample_scheduler_def frame_scheduler_new_def timelines_new_def timelines_replace_def
      timeline_source_of_def refresh_interval_def sample_scanout_def flutter_output_of_def timeline_new_def
      mark_all_dirty_def allocate_dirty_serial_def dirty_entry_def dirty_output_default_def)

definition sample_step :: "int frame_scheduler \<times> frame_action" where
  "sample_step = step_with_output_availability sample_scheduler 0 \<lparr>flutter_requested = True\<rparr> (\<lambda>_. True) 0"

lemma sample_step_eq: "sample_step = (sample_scheduler\<lparr>
    fs_outputs := \<lparr>ots_timelines = [\<lparr>ot_source = \<lparr>ts_output = 7, ts_interval = 16666666, ts_vrr_enabled = False\<rparr>,
      ot_next_tick = 16666666, ot_next_sequence = 2, ot_pending_phase = 0\<rparr>], ots_ticks = [sample_tick],
      ots_flutter_output = Some 7\<rparr>,
    fs_dirty_outputs := [7 \<mapsto> \<lparr>do_serial = 2, do_texture_ids = {}\<rparr>],
    fs_render_requests := [\<lparr>ofr_tick = sample_tick, ofr_dirty_serial = 2\<rparr>],
    fs_available_outputs := [7], fs_next_dirty_serial := 2, fs_flutter_request_latched := True,
    fs_flutter_outputs_dirty := True, fs_flutter_tick := Some sample_tick\<rparr>, Render (Some 7))"
  unfolding sample_step_def sample_scheduler_eq
  by (simp add: step_with_output_availability_def step_prepare_def step_mark_def step_audit_def
      step_flutter_tick_def timelines_advance_def timelines_flutter_tick_def take_tick_def timeline_new_def
      advance_deadline_eq shift_instant_eq sample_tick_def saturating_duration_since_def requests_of_def
      request_textures_def mark_all_dirty_def allocate_dirty_serial_def dirty_entry_def Let_def
      List.map_filter_simps)

lemma step_renders_due_damage_witness:
  "keeps_damage sample_scheduler (fst sample_step) 7 \<and>
   map ft_output (output_ticks (fst sample_step)) = due_outputs (fs_outputs sample_scheduler) 0 \<and>
   fs_render_requests (fst sample_step) = [\<lparr>ofr_tick = sample_tick, ofr_dirty_serial = 2\<rparr>]"
proof -
  have step: "step_with_output_availability sample_scheduler 0 \<lparr>flutter_requested = True\<rparr> (\<lambda>_. True) 0 =
      (fst sample_step, snd sample_step)"
    by (simp add: sample_step_def)
  have "map ft_output (output_ticks (fst sample_step)) = due_outputs (fs_outputs sample_scheduler) 0"
    "\<forall>out. keeps_damage sample_scheduler (fst sample_step) out"
    using step_renders_due_damage [OF step] by - (elim conjE, assumption)+
  then show ?thesis
    by (simp add: sample_step_eq)
qed

section \<open>Ticks and the phase lock\<close>

text \<open>However a fresh timeline of an interval above the largest correction is polled and corrected,
  its ticks come in order, a tick's target is never before the next one's deadline, and each target is
  one interval after its deadline up to the bounded phase correction.\<close>

theorem timeline_ticks_in_order:
  assumes "250000 < ts_interval source"
  shows "sorted_wrt (\<lambda>a b. ft_presentation_target a \<le> ft_render_deadline b)
      (timeline_run (timeline_new source now) events) \<and>
    (\<forall>tick\<in>set (timeline_run (timeline_new source now) events). now \<le> ft_render_deadline tick \<and>
       ft_render_deadline tick < ft_presentation_target tick \<and>
       \<bar>ft_presentation_target tick - ft_render_deadline tick - int (ts_interval source)\<bar> \<le> 250000 \<and>
       ft_interval tick = nat (ft_presentation_target tick - ft_render_deadline tick) \<and>
       ft_output tick = ts_output source)"
proof -
  have p: "phase_bounded (timeline_new source now)" "ot_source (timeline_new source now) = source"
    "ot_next_tick (timeline_new source now) = now"
    by (simp_all add: phase_bounded_def timeline_new_def)
  show ?thesis
    using timeline_run_order [OF p(1) refl, of events] assms by (simp add: p)
qed

lemma timeline_ticks_in_order_witness:
  "timeline_run (timeline_new \<lparr>ts_output = 3, ts_interval = 1000000, ts_vrr_enabled = False\<rparr> 5)
     [TimelinePoll 5, TimelineObserve 1000005 1400005, TimelinePoll 3100000] \<noteq> [] \<and>
   sorted_wrt (\<lambda>a b. ft_presentation_target a \<le> ft_render_deadline b)
     (timeline_run (timeline_new \<lparr>ts_output = 3, ts_interval = 1000000, ts_vrr_enabled = False\<rparr> 5)
        [TimelinePoll 5, TimelineObserve 1000005 1400005, TimelinePoll 3100000])"
proof
  let ?source = "\<lparr>ts_output = 3, ts_interval = 1000000, ts_vrr_enabled = False\<rparr>"
  show "timeline_run (timeline_new ?source 5) [TimelinePoll 5, TimelineObserve 1000005 1400005, TimelinePoll 3100000] \<noteq> []"
    by (simp add: take_tick_def timeline_new_def Let_def)
  show "sorted_wrt (\<lambda>a b. ft_presentation_target a \<le> ft_render_deadline b)
     (timeline_run (timeline_new ?source 5) [TimelinePoll 5, TimelineObserve 1000005 1400005, TimelinePoll 3100000])"
    by (rule conjunct1 [OF timeline_ticks_in_order]) simp
qed

end
