(* ===== verification/Output_Broker.thy ===== *)
theory Output_Broker
  imports Damage Frame_Scheduler
begin

text \<open>
  The pools of native framebuffers the Flutter engine renders into
  (\<open>compositor/src/bin/deniald/flutter_runtime/output_pipeline.rs\<close>): authorisation of a render, the
  life of a buffer from free over rendering, ready and pending to a published output reference, the
  repair history of every buffer, and the queue of vsync batons. The file descriptor of a fence and
  the feedback of a sampled surface are type parameters.
\<close>

section \<open>Data\<close>

datatype buffer_state = Free | Rendering | Ready | Pending

datatype render_target_blocked = ReadyHandoff | PoolExhausted

record output_pool_descriptor =
  opd_output_id :: output_id
  opd_render_view_id :: render_view_id
  opd_configuration_generation :: u64
  opd_size :: pixel_size
  opd_initial_scanout :: nat
  opd_framebuffers :: "u32 list"

record ('f, 'b) output_buffer_slot =
  framebuffer :: u32
  state :: buffer_state
  output_refs :: nat
  fence :: "'f option"
  ready_damage :: "damage_region option"
  damage :: damage_region
  screenshot_request_id :: "u64 option"
  rendered_at :: "instant option"
  ready_transaction :: u64
  feedback :: "'b list"
  request :: "output_frame_request option"

record authorized_output_request =
  ao_request :: output_frame_request
  authorized_at :: instant

record ('f, 'b) output_buffer_pool =
  pool_output_id :: output_id
  pool_render_view_id :: render_view_id
  pool_configuration_generation :: u64
  pool_size :: pixel_size
  slots :: "('f, 'b) output_buffer_slot list"
  authorized_request :: "authorized_output_request option"

record ('f, 'b) output_buffer_broker =
  pools :: "('f, 'b) output_buffer_pool list"
  transaction :: u64
  next_screenshot :: "(output_id \<times> u64) option"

record ('f, 'b) ready_output_frame =
  rof_output_id :: output_id
  rof_render_view_id :: render_view_id
  rof_configuration_generation :: u64
  rof_index :: nat
  rof_fence :: "'f option"
  rof_damage :: damage_region
  rof_screenshot_request_id :: "u64 option"
  rof_rendered_at :: "instant option"
  rof_request :: output_frame_request
  rof_feedback :: "'b list"

section \<open>Construction\<close>

definition initial_slot :: "pixel_size \<Rightarrow> nat \<Rightarrow> nat \<Rightarrow> u32 \<Rightarrow> ('f, 'b) output_buffer_slot" where
  "initial_slot extent initial_scanout index fb =
     \<lparr>framebuffer = fb, state = Free, output_refs = (if index = initial_scanout then 1 else 0),
      fence = None, ready_damage = None,
      damage = damage_full (uint (ps_width extent)) (uint (ps_height extent)),
      screenshot_request_id = None, rendered_at = None, ready_transaction = 0, feedback = [],
      request = None\<rparr>"

text \<open>\<open>any(|fb| fb == 0 || !set.insert(fb))\<close>: the set grows up to the first offending handle.\<close>

fun insert_framebuffers :: "u32 set \<Rightarrow> u32 list \<Rightarrow> u32 set option" where
  "insert_framebuffers seen [] = Some seen"
| "insert_framebuffers seen (fb # fbs) =
     (if fb = 0 \<or> fb \<in> seen then None else insert_framebuffers (insert fb seen) fbs)"

definition pool_of :: "output_pool_descriptor \<Rightarrow> ('f, 'b) output_buffer_pool" where
  "pool_of d =
     \<lparr>pool_output_id = opd_output_id d, pool_render_view_id = opd_render_view_id d,
      pool_configuration_generation = opd_configuration_generation d, pool_size = opd_size d,
      slots = map (\<lambda>(index, fb). initial_slot (opd_size d) (opd_initial_scanout d) index fb)
        (enumerate 0 (opd_framebuffers d)),
      authorized_request = None\<rparr>"

fun collect_pools ::
  "u64 option \<Rightarrow> output_id set \<Rightarrow> render_view_id set \<Rightarrow> u32 set \<Rightarrow> output_pool_descriptor list \<Rightarrow>
     string + ('f, 'b) output_buffer_pool list" where
  "collect_pools generation outs views fbs [] = Inr []"
| "collect_pools generation outs views fbs (d # ds) =
     (if opd_configuration_generation d = 0 \<or>
         (case generation of None \<Rightarrow> False | Some value \<Rightarrow> value \<noteq> opd_configuration_generation d) \<or>
         opd_output_id d \<in> outs \<or> opd_render_view_id d \<in> views \<or>
         ps_width (opd_size d) = 0 \<or> ps_height (opd_size d) = 0 \<or>
         length (opd_framebuffers d) \<le> opd_initial_scanout d \<or> length (opd_framebuffers d) < 3
      then Inl ''invalid physical output framebuffer pool''
      else case insert_framebuffers fbs (opd_framebuffers d) of
        None \<Rightarrow> Inl ''invalid physical output framebuffer pool''
      | Some fbs' \<Rightarrow>
          and_then (collect_pools (Some (opd_configuration_generation d)) (insert (opd_output_id d) outs)
              (insert (opd_render_view_id d) views) fbs' ds)
            (\<lambda>rest. Inr (pool_of d # rest)))"

definition broker_new :: "output_pool_descriptor list \<Rightarrow> string + ('f, 'b) output_buffer_broker" where
  "broker_new descriptors =
     and_then (collect_pools None {} {} {} descriptors) (\<lambda>ps.
       if ps = [] then Inl ''physical output framebuffer pools are empty''
       else Inr \<lparr>pools = sort_key pool_render_view_id ps, transaction = 0, next_screenshot = None\<rparr>)"

section \<open>Transactions and authorisation\<close>

definition abandon_rendering :: "('f, 'b) output_buffer_slot \<Rightarrow> ('f, 'b) output_buffer_slot" where
  "abandon_rendering slot =
     (if state slot = Rendering \<and> output_refs slot = 0
      then slot\<lparr>damage := damage_invalidate (damage slot), state := Free, fence := None,
             ready_damage := None, rendered_at := None, screenshot_request_id := None,
             ready_transaction := 0, request := None\<rparr>
      else slot)"

definition begin_transaction :: "('f, 'b) output_buffer_broker \<Rightarrow> ('f, 'b) output_buffer_broker" where
  "begin_transaction b =
     b\<lparr>transaction := max (transaction b + 1) 1,
       pools := map (\<lambda>pool. pool\<lparr>slots := map abandon_rendering (slots pool)\<rparr>) (pools b)\<rparr>"

definition slot_acquirable :: "('f, 'b) output_buffer_slot \<Rightarrow> bool" where
  "slot_acquirable slot \<longleftrightarrow> state slot = Free \<and> output_refs slot = 0"

definition target_available :: "('f, 'b) output_buffer_broker \<Rightarrow> output_id \<Rightarrow> bool" where
  "target_available b out \<longleftrightarrow>
     (case find (\<lambda>pool. pool_output_id pool = out) (pools b) of
        None \<Rightarrow> False
      | Some pool \<Rightarrow> authorized_request pool = None \<and>
          \<not> list_ex (\<lambda>slot. state slot \<noteq> Free) (slots pool) \<and> list_ex slot_acquirable (slots pool))"

text \<open>\<open>iter_mut().find(p)\<close> and a mutation of the element found.\<close>

fun update_first :: "('a \<Rightarrow> bool) \<Rightarrow> ('a \<Rightarrow> 'a) \<Rightarrow> 'a list \<Rightarrow> 'a list" where
  "update_first P f [] = []"
| "update_first P f (x # xs) = (if P x then f x # xs else x # update_first P f xs)"

definition authorize ::
  "('f, 'b) output_buffer_broker \<Rightarrow> output_frame_request \<Rightarrow> instant \<Rightarrow>
     ('f, 'b) output_buffer_broker \<times> render_view_id option" where
  "authorize b req now =
     (if ofr_dirty_serial req = 0 \<or> \<not> target_available b (ft_output (ofr_tick req)) then (b, None)
      else case find (\<lambda>pool. pool_output_id pool = ft_output (ofr_tick req)) (pools b) of
        None \<Rightarrow> (b, None)
      | Some pool \<Rightarrow>
          (b\<lparr>pools := update_first (\<lambda>pool. pool_output_id pool = ft_output (ofr_tick req))
             (\<lambda>pool. pool\<lparr>authorized_request := Some \<lparr>ao_request = req, authorized_at = now\<rparr>\<rparr>) (pools b)\<rparr>,
           Some (pool_render_view_id pool)))"

definition cancel_authorizations ::
  "('f, 'b) output_buffer_broker \<Rightarrow> render_view_id list \<Rightarrow> ('f, 'b) output_buffer_broker" where
  "cancel_authorizations b views =
     b\<lparr>pools := map (\<lambda>pool. if pool_render_view_id pool \<in> set views
       then pool\<lparr>authorized_request := None\<rparr> else pool) (pools b)\<rparr>"

definition DURATION_MAX :: duration where "DURATION_MAX = 2 ^ 64 * 1000000000 - 1"

definition should_expire :: "instant \<Rightarrow> ('f, 'b) output_buffer_pool \<Rightarrow> bool" where
  "should_expire now pool \<longleftrightarrow>
     (case authorized_request pool of
        None \<Rightarrow> False
      | Some authorization \<Rightarrow>
          min (ft_interval (ofr_tick (ao_request authorization)) * 2) DURATION_MAX
            \<le> saturating_duration_since now (authorized_at authorization))"

definition expire_authorizations ::
  "('f, 'b) output_buffer_broker \<Rightarrow> instant \<Rightarrow> ('f, 'b) output_buffer_broker \<times> nat" where
  "expire_authorizations b now =
     (b\<lparr>pools := map (\<lambda>pool. if should_expire now pool
          then pool\<lparr>authorized_request := None\<rparr> else pool) (pools b)\<rparr>,
      length (filter (should_expire now) (pools b)))"

definition acquired_slot ::
  "('f, 'b) output_buffer_broker \<Rightarrow> output_id \<Rightarrow> authorized_output_request \<Rightarrow> ('f, 'b) output_buffer_slot \<Rightarrow>
     ('f, 'b) output_buffer_slot" where
  "acquired_slot b out authorization slot =
     slot\<lparr>state := Rendering, fence := None, ready_damage := None, rendered_at := None,
       screenshot_request_id :=
         (case next_screenshot b of
            None \<Rightarrow> None | Some (shot_out, shot_id) \<Rightarrow> if shot_out = out then Some shot_id else None),
       ready_transaction := 0, request := Some (ao_request authorization)\<rparr>"

definition acquire ::
  "('f, 'b) output_buffer_broker \<Rightarrow> render_view_id \<Rightarrow> pixel_size \<Rightarrow>
     ('f, 'b) output_buffer_broker \<times> (render_target_blocked + u32)" where
  "acquire b view extent =
     (case find (\<lambda>pool. pool_render_view_id pool = view \<and> pool_size pool = extent) (pools b) of
        None \<Rightarrow> (b, Inl PoolExhausted)
      | Some pool \<Rightarrow>
          (case authorized_request pool of
             None \<Rightarrow> (b, Inl PoolExhausted)
           | Some authorization \<Rightarrow>
               if list_ex (\<lambda>slot. state slot = Ready) (slots pool) then (b, Inl ReadyHandoff)
               else case position slot_acquirable (slots pool) of
                 None \<Rightarrow> (b, Inl PoolExhausted)
               | Some index \<Rightarrow>
                   (b\<lparr>pools := update_first
                         (\<lambda>pool. pool_render_view_id pool = view \<and> pool_size pool = extent)
                         (\<lambda>pool. pool\<lparr>authorized_request := None, slots := (slots pool)[index :=
                           acquired_slot b (pool_output_id pool) authorization (slots pool ! index)]\<rparr>)
                         (pools b)\<rparr>,
                    Inr (framebuffer (slots pool ! index)))))"

definition validate_backing_store ::
  "('f, 'b) output_buffer_broker \<Rightarrow> render_view_id \<Rightarrow> u32 \<Rightarrow> pixel_size \<Rightarrow> bool" where
  "validate_backing_store b view fb extent \<longleftrightarrow>
     list_ex (\<lambda>pool. pool_render_view_id pool = view \<and> pool_size pool = extent \<and>
       list_ex (\<lambda>slot. framebuffer slot = fb) (slots pool)) (pools b)"

section \<open>From rendering to publication\<close>

definition damage_of_rects :: "pixel_size \<Rightarrow> flutter_rect list \<Rightarrow> damage_region" where
  "damage_of_rects extent rs =
     replace_from_flutter (damage_empty (uint (ps_width extent)) (uint (ps_height extent))) rs"

definition mark_slot_ready ::
  "('f, 'b) output_buffer_pool \<Rightarrow> nat \<Rightarrow> flutter_rect list \<Rightarrow> flutter_rect list \<Rightarrow> 'f option \<Rightarrow>
     instant option \<Rightarrow> 'b list \<Rightarrow> u64 \<Rightarrow> ('f, 'b) output_buffer_pool" where
  "mark_slot_ready pool index frame_damage buffer_damage fd rendered fb txn =
     (let frame_damage_region = damage_of_rects (pool_size pool) frame_damage;
          buffer_damage_region = damage_of_rects (pool_size pool) buffer_damage;
          others = map (\<lambda>(other_index, slot).
            if other_index \<noteq> index then slot\<lparr>damage := damage_union (damage slot) frame_damage_region\<rparr>
            else slot) (enumerate 0 (slots pool));
          slot = (others ! index)
            \<lparr>damage := damage_clear (damage (others ! index)), ready_damage := Some buffer_damage_region,
             state := Ready, fence := fd, rendered_at := rendered, feedback := fb, ready_transaction := txn\<rparr>
      in pool\<lparr>slots := others[index := slot]\<rparr>)"

definition mark_ready_with_feedback ::
  "('f, 'b) output_buffer_broker \<Rightarrow> render_view_id \<Rightarrow> u32 \<Rightarrow> flutter_rect list \<Rightarrow> flutter_rect list \<Rightarrow>
     'f option \<Rightarrow> instant option \<Rightarrow> 'b list \<Rightarrow> ('f, 'b) output_buffer_broker \<times> bool" where
  "mark_ready_with_feedback b view fb frame_damage buffer_damage fd rendered sampled =
     (case find (\<lambda>pool. pool_render_view_id pool = view) (pools b) of
        None \<Rightarrow> (b, False)
      | Some pool \<Rightarrow>
          (case position (\<lambda>slot. framebuffer slot = fb) (slots pool) of
             None \<Rightarrow> (b, False)
           | Some index \<Rightarrow>
               if state (slots pool ! index) \<noteq> Rendering \<or>
                  list_ex (\<lambda>(other_index, slot). other_index \<noteq> index \<and> state slot = Ready)
                    (enumerate 0 (slots pool))
               then (b, False)
               else (b\<lparr>pools := update_first (\<lambda>pool. pool_render_view_id pool = view)
                        (\<lambda>pool. mark_slot_ready pool index frame_damage buffer_damage fd rendered sampled
                          (transaction b)) (pools b)\<rparr>, True)))"

text \<open>
  One pool of \<open>finish_transaction\<close>: the pool and the frame it publishes. A ready slot without its
  request or its damage is recycled; \<open>finish_pool_asserts\<close> is the assertion in front of that.
\<close>

definition ready_in :: "u64 \<Rightarrow> ('f, 'b) output_buffer_slot \<Rightarrow> bool" where
  "ready_in txn slot \<longleftrightarrow> state slot = Ready \<and> ready_transaction slot = txn"

definition finish_pool ::
  "u64 \<Rightarrow> ('f, 'b) output_buffer_pool \<Rightarrow> ('f, 'b) output_buffer_pool \<times> ('f, 'b) ready_output_frame option" where
  "finish_pool txn pool =
     (case position (ready_in txn) (slots pool) of
        None \<Rightarrow> (pool, None)
      | Some index \<Rightarrow>
          let slot = (slots pool ! index)\<lparr>state := Pending, ready_transaction := 0,
                request := None, ready_damage := None\<rparr>
          in (case (request (slots pool ! index), ready_damage (slots pool ! index)) of
                (Some req, Some dmg) \<Rightarrow>
                  (pool\<lparr>slots := (slots pool)[index := slot\<lparr>fence := None, screenshot_request_id := None,
                     rendered_at := None, feedback := []\<rparr>]\<rparr>,
                   Some \<lparr>rof_output_id = pool_output_id pool, rof_render_view_id = pool_render_view_id pool,
                     rof_configuration_generation = pool_configuration_generation pool, rof_index = index,
                     rof_fence = fence slot, rof_damage = dmg,
                     rof_screenshot_request_id = screenshot_request_id slot,
                     rof_rendered_at = rendered_at slot, rof_request = req, rof_feedback = feedback slot\<rparr>)
              | _ \<Rightarrow>
                  (pool\<lparr>slots := (slots pool)[index := slot\<lparr>state := Free,
                     damage := damage_invalidate (damage slot), fence := None, rendered_at := None,
                     screenshot_request_id := None, feedback := []\<rparr>]\<rparr>, None)))"

definition finish_pool_asserts :: "u64 \<Rightarrow> ('f, 'b) output_buffer_pool \<Rightarrow> bool" where
  "finish_pool_asserts txn pool \<longleftrightarrow>
     (case position (ready_in txn) (slots pool) of
        None \<Rightarrow> True
      | Some index \<Rightarrow> request (slots pool ! index) \<noteq> None \<and> ready_damage (slots pool ! index) \<noteq> None)"

definition finish_transaction ::
  "('f, 'b) output_buffer_broker \<Rightarrow> ('f, 'b) output_buffer_broker \<times> ('f, 'b) ready_output_frame list" where
  "finish_transaction b =
     (let results = map (finish_pool (transaction b)) (pools b);
          outs = List.map_filter snd results;
          shot = (case next_screenshot b of
            None \<Rightarrow> None
          | Some (out, shot_id) \<Rightarrow>
              if list_ex (\<lambda>frame. rof_output_id frame = out \<and> rof_screenshot_request_id frame = Some shot_id) outs
              then None else Some (out, shot_id))
      in (b\<lparr>pools := map fst results, next_screenshot := shot\<rparr>, outs))"

definition populate_existing_damage ::
  "('f, 'b) output_buffer_broker \<Rightarrow> int \<Rightarrow> flutter_rect list \<Rightarrow> flutter_rect list \<times> bool" where
  "populate_existing_damage b fb out =
     (if fb < 0 \<or> 2 ^ 32 \<le> fb then (out, False)
      else case find (\<lambda>slot. framebuffer slot = word_of_int fb) (concat (map slots (pools b))) of
        None \<Rightarrow> (out, False)
      | Some slot \<Rightarrow> (write_flutter (damage slot) out, True))"

section \<open>Output ownership\<close>

text \<open>The slot of an output's pool, and its replacement.\<close>

definition slot_at :: "('f, 'b) output_buffer_broker \<Rightarrow> output_id \<Rightarrow> nat \<Rightarrow> ('f, 'b) output_buffer_slot option" where
  "slot_at b out index =
     Option.bind (find (\<lambda>pool. pool_output_id pool = out) (pools b)) (\<lambda>pool. get_at (slots pool) index)"

definition set_slot ::
  "('f, 'b) output_buffer_broker \<Rightarrow> output_id \<Rightarrow> nat \<Rightarrow> ('f, 'b) output_buffer_slot \<Rightarrow>
     ('f, 'b) output_buffer_broker" where
  "set_slot b out index slot =
     b\<lparr>pools := update_first (\<lambda>pool. pool_output_id pool = out)
       (\<lambda>pool. pool\<lparr>slots := (slots pool)[index := slot]\<rparr>) (pools b)\<rparr>"

definition publish ::
  "('f, 'b) output_buffer_broker \<Rightarrow> ('f, 'b) ready_output_frame \<Rightarrow> string + ('f, 'b) output_buffer_broker" where
  "publish b frame =
     (case slot_at b (rof_output_id frame) (rof_index frame) of
        None \<Rightarrow> Inl ''Flutter output publication slot is out of range''
      | Some slot \<Rightarrow>
          if state slot \<noteq> Pending \<or> output_refs slot \<noteq> 0
          then Inl ''Flutter output publication slot is not exclusively pending''
          else Inr (set_slot b (rof_output_id frame) (rof_index frame) (slot\<lparr>state := Free, output_refs := 1\<rparr>)))"

definition release_output ::
  "('f, 'b) output_buffer_broker \<Rightarrow> output_id \<Rightarrow> nat \<Rightarrow> string + ('f, 'b) output_buffer_broker" where
  "release_output b out index =
     (case slot_at b out index of
        None \<Rightarrow> Inl ''Flutter released output slot is out of range''
      | Some slot \<Rightarrow>
          if output_refs slot = 0 then Inl ''released a Flutter buffer without an output owner''
          else Inr (set_slot b out index (slot\<lparr>output_refs := output_refs slot - 1\<rparr>)))"

definition retain_output ::
  "('f, 'b) output_buffer_broker \<Rightarrow> output_id \<Rightarrow> nat \<Rightarrow> string + ('f, 'b) output_buffer_broker" where
  "retain_output b out index =
     (case slot_at b out index of
        None \<Rightarrow> Inl ''Flutter retained output slot is out of range''
      | Some slot \<Rightarrow>
          if state slot \<noteq> Free \<or> output_refs slot = 0
          then Inl ''retained a Flutter buffer without a published output owner''
          else if output_refs slot = usize_max then Inl ''Flutter output reference count overflow''
          else Inr (set_slot b out index (slot\<lparr>output_refs := output_refs slot + 1\<rparr>)))"

definition tag_next_frame_for_screenshot ::
  "('f, 'b) output_buffer_broker \<Rightarrow> output_id \<Rightarrow> u64 \<Rightarrow> string + ('f, 'b) output_buffer_broker" where
  "tag_next_frame_for_screenshot b out shot_id =
     (if shot_id = 0 \<or> next_screenshot b \<noteq> None \<or> \<not> list_ex (\<lambda>pool. pool_output_id pool = out) (pools b)
      then Inl ''a screenshot frame is already pending''
      else Inr (b\<lparr>next_screenshot := Some (out, shot_id)\<rparr>))"

definition cancel_screenshot_frame :: "('f, 'b) output_buffer_broker \<Rightarrow> u64 \<Rightarrow> ('f, 'b) output_buffer_broker" where
  "cancel_screenshot_frame b shot_id =
     b\<lparr>next_screenshot := (case next_screenshot b of
         None \<Rightarrow> None | Some (out, pending) \<Rightarrow> if pending = shot_id then None else Some (out, pending)),
       pools := map (\<lambda>pool. pool\<lparr>slots := map (\<lambda>slot.
         if screenshot_request_id slot = Some shot_id then slot\<lparr>screenshot_request_id := None\<rparr> else slot)
           (slots pool)\<rparr>) (pools b)\<rparr>"

section \<open>Vsync batons\<close>

datatype vsync_registration = Accepted | Duplicate | AtCapacity

definition MAX_PENDING_VSYNC_BATONS :: nat where "MAX_PENDING_VSYNC_BATONS = 256"

record pending_vsync_batons =
  pvb_values :: "int list"
  members :: "int set"

definition pending_vsync_batons_default :: pending_vsync_batons where
  "pending_vsync_batons_default = \<lparr>pvb_values = [], members = {}\<rparr>"

definition register :: "pending_vsync_batons \<Rightarrow> int \<Rightarrow> pending_vsync_batons \<times> vsync_registration" where
  "register q baton =
     (if baton \<in> members q then (q, Duplicate)
      else if MAX_PENDING_VSYNC_BATONS \<le> length (pvb_values q) then (q, AtCapacity)
      else (q\<lparr>members := insert baton (members q), pvb_values := pvb_values q @ [baton]\<rparr>, Accepted))"

definition remove_at :: "nat \<Rightarrow> 'a list \<Rightarrow> 'a list" where
  "remove_at i xs = take i xs @ drop (Suc i) xs"

definition complete :: "pending_vsync_batons \<Rightarrow> int \<Rightarrow> pending_vsync_batons \<times> bool" where
  "complete q baton =
     (case position (\<lambda>candidate. candidate = baton) (pvb_values q) of
        None \<Rightarrow> (q, False)
      | Some index \<Rightarrow> (q\<lparr>pvb_values := remove_at index (pvb_values q), members := members q - {baton}\<rparr>, True))"

definition has_pending :: "pending_vsync_batons \<Rightarrow> bool" where
  "has_pending q \<longleftrightarrow> pvb_values q \<noteq> []"

definition take_next :: "pending_vsync_batons \<Rightarrow> pending_vsync_batons \<times> int option" where
  "take_next q =
     (case pvb_values q of
        [] \<Rightarrow> (q, None)
      | baton # rest \<Rightarrow> (q\<lparr>pvb_values := rest, members := members q - {baton}\<rparr>, Some baton))"

definition restore_front :: "pending_vsync_batons \<Rightarrow> int \<Rightarrow> pending_vsync_batons" where
  "restore_front q baton =
     (if baton \<in> members q then q
      else q\<lparr>members := insert baton (members q), pvb_values := baton # pvb_values q\<rparr>)"

definition take_all :: "pending_vsync_batons \<Rightarrow> pending_vsync_batons \<times> int list" where
  "take_all q = (q\<lparr>members := {}, pvb_values := []\<rparr>, pvb_values q)"

section \<open>The invariant of a pool\<close>

lemma map_update_first: "(\<And>x. key (f x) = key x) \<Longrightarrow> map key (update_first P f xs) = map key xs"
  by (induction xs) auto

lemma update_first_member:
  "y \<in> set (update_first P f xs) \<Longrightarrow> y \<in> set xs \<or> (\<exists>x. find P xs = Some x \<and> x \<in> set xs \<and> y = f x)"
  by (induction xs) (auto split: if_splits)

definition pool_bounds :: "('f, 'b) output_buffer_pool \<Rightarrow> damage_rect" where
  "pool_bounds pool = bounds (damage_empty (uint (ps_width (pool_size pool))) (uint (ps_height (pool_size pool))))"

definition busy :: "('f, 'b) output_buffer_slot \<Rightarrow> bool" where
  "busy slot \<longleftrightarrow> state slot \<noteq> Free"

text \<open>
  A buffer in flight has no output owner, a ready one carries what its publication needs and represents
  the whole scene, and the repair history is a well-formed region of the pool's size.
\<close>

definition slot_inv :: "damage_rect \<Rightarrow> ('f, 'b) output_buffer_slot \<Rightarrow> bool" where
  "slot_inv box slot \<longleftrightarrow> region_inv (damage slot) \<and> bounds (damage slot) = box \<and>
     (busy slot \<longrightarrow> output_refs slot = 0) \<and>
     (state slot = Ready \<longrightarrow> request slot \<noteq> None \<and> ready_damage slot \<noteq> None) \<and>
     (state slot = Rendering \<longrightarrow> request slot \<noteq> None) \<and>
     (state slot \<in> {Ready, Pending} \<longrightarrow> is_empty (damage slot))"

definition one_busy :: "('f, 'b) output_buffer_slot list \<Rightarrow> bool" where
  "one_busy ss \<longleftrightarrow> (\<forall>i<length ss. \<forall>j<length ss. busy (ss ! i) \<and> busy (ss ! j) \<longrightarrow> i = j)"

definition pool_inv :: "('f, 'b) output_buffer_pool \<Rightarrow> bool" where
  "pool_inv pool \<longleftrightarrow> (\<forall>slot\<in>set (slots pool). slot_inv (pool_bounds pool) slot) \<and>
     one_busy (slots pool) \<and>
     (authorized_request pool \<noteq> None \<longrightarrow>
        list_all (\<lambda>slot. \<not> busy slot) (slots pool) \<and> list_ex slot_acquirable (slots pool))"

definition broker_inv :: "('f, 'b) output_buffer_broker \<Rightarrow> bool" where
  "broker_inv b \<longleftrightarrow> (\<forall>pool\<in>set (pools b). pool_inv pool) \<and>
     distinct (map pool_output_id (pools b)) \<and> distinct (map pool_render_view_id (pools b))"

lemma one_busyD:
  "one_busy ss \<Longrightarrow> i < length ss \<Longrightarrow> j < length ss \<Longrightarrow> busy (ss ! i) \<Longrightarrow> busy (ss ! j) \<Longrightarrow> i = j"
  by (simp add: one_busy_def)

lemma one_busy_update:
  assumes "one_busy ss" "i < length ss" "busy slot \<longrightarrow> (\<forall>j<length ss. j \<noteq> i \<longrightarrow> \<not> busy (ss ! j))"
  shows "one_busy (ss[i := slot])"
  unfolding one_busy_def
proof (intro allI impI)
  fix j k
  assume jk: "j < length (ss[i := slot])" "k < length (ss[i := slot])"
    and b: "busy (ss[i := slot] ! j) \<and> busy (ss[i := slot] ! k)"
  have other: "\<not> busy (ss[i := slot] ! m)" if "busy slot" "m \<noteq> i" "m < length ss" for m
    using assms(3) that by simp
  show "j = k"
  proof (cases "j = i \<or> k = i")
    case True
    then show ?thesis
      using b jk other [of j] other [of k] assms(2) by (metis length_list_update nth_list_update_eq)
  next
    case False
    then show ?thesis
      using one_busyD [OF assms(1), of j k] b jk by simp
  qed
qed

lemma one_busy_map:
  "one_busy ss \<Longrightarrow> (\<And>slot. slot \<in> set ss \<Longrightarrow> busy (f slot) \<Longrightarrow> busy slot) \<Longrightarrow> one_busy (map f ss)"
  by (auto simp: one_busy_def)

lemma one_busy_free: "list_all (\<lambda>slot. \<not> busy slot) ss \<Longrightarrow> one_busy ss"
  by (auto simp: one_busy_def list_all_length)

lemma one_busy_others:
  "one_busy ss \<Longrightarrow> i < length ss \<Longrightarrow> busy (ss ! i) \<Longrightarrow> j < length ss \<Longrightarrow> j \<noteq> i \<Longrightarrow> \<not> busy (ss ! j)"
  by (auto simp: one_busy_def)

text \<open>Replacing one buffer of an unauthorised pool, or one whose availability does not change.\<close>

lemma pool_inv_update:
  assumes "pool_inv pool" "i < length (slots pool)" "slot_inv (pool_bounds pool) slot"
    and "busy slot \<longrightarrow> (\<forall>j<length (slots pool). j \<noteq> i \<longrightarrow> \<not> busy (slots pool ! j))"
    and "authorized_request pool = None \<or> \<not> busy slot \<and> (slot_acquirable (slots pool ! i) \<longrightarrow> slot_acquirable slot)"
  shows "pool_inv (pool\<lparr>slots := (slots pool)[i := slot]\<rparr>)"
proof -
  have "\<forall>slot\<in>set ((slots pool)[i := slot]). slot_inv (pool_bounds pool) slot"
    using assms(1,3) set_update_subset_insert [of "slots pool" i slot] by (auto simp: pool_inv_def)
  moreover have "one_busy ((slots pool)[i := slot])"
    using assms by (intro one_busy_update) (auto simp: pool_inv_def)
  moreover have "list_all (\<lambda>slot. \<not> busy slot) ((slots pool)[i := slot]) \<and> list_ex slot_acquirable ((slots pool)[i := slot])"
    if "authorized_request pool \<noteq> None"
  proof -
    have a: "list_all (\<lambda>slot. \<not> busy slot) (slots pool)" "list_ex slot_acquirable (slots pool)"
        "\<not> busy slot" "slot_acquirable (slots pool ! i) \<longrightarrow> slot_acquirable slot"
      using assms(1,5) that by (auto simp: pool_inv_def)
    obtain j where "j < length (slots pool)" "slot_acquirable (slots pool ! j)"
      using a(2) by (auto simp: list_ex_length)
    then have "list_ex slot_acquirable ((slots pool)[i := slot])"
      unfolding list_ex_length using a(4) assms(2) by (intro exI [of _ j]) (auto simp: nth_list_update)
    then show ?thesis
      using a(1,3) assms(2) by (auto simp: list_all_length nth_list_update)
  qed
  ultimately show ?thesis
    by (simp add: pool_inv_def pool_bounds_def)
qed

lemma pool_inv_map:
  assumes "pool_inv pool"
    and "\<And>slot. slot \<in> set (slots pool) \<Longrightarrow> slot_inv (pool_bounds pool) slot \<Longrightarrow> slot_inv (pool_bounds pool) (f slot)"
    and "\<And>slot. slot \<in> set (slots pool) \<Longrightarrow> busy (f slot) \<Longrightarrow> busy slot"
    and "\<And>slot. slot \<in> set (slots pool) \<Longrightarrow> slot_acquirable slot \<Longrightarrow> slot_acquirable (f slot)"
  shows "pool_inv (pool\<lparr>slots := map f (slots pool)\<rparr>)"
proof -
  have "list_ex slot_acquirable (map f (slots pool))" if "list_ex slot_acquirable (slots pool)"
    using that assms(4) by (auto simp: list_ex_iff)
  moreover have "list_all (\<lambda>slot. \<not> busy slot) (map f (slots pool))" if "list_all (\<lambda>slot. \<not> busy slot) (slots pool)"
    using that assms(3) by (auto simp: list_all_iff)
  ultimately show ?thesis
    using assms one_busy_map [of "slots pool" f] by (auto simp: pool_inv_def pool_bounds_def)
qed

lemma broker_inv_map:
  assumes "broker_inv b" "\<And>pool. pool \<in> set (pools b) \<Longrightarrow> pool_inv (f pool)"
    "\<And>pool. pool_output_id (f pool) = pool_output_id pool" "\<And>pool. pool_render_view_id (f pool) = pool_render_view_id pool"
  shows "broker_inv (b\<lparr>pools := map f (pools b)\<rparr>)"
proof -
  have "map pool_output_id (map f (pools b)) = map pool_output_id (pools b)"
    "map pool_render_view_id (map f (pools b)) = map pool_render_view_id (pools b)"
    by (simp_all add: assms)
  then show ?thesis
    using assms(1,2) unfolding broker_inv_def by (simp del: map_map)
qed

lemma broker_inv_update_first:
  assumes "broker_inv b" "\<And>pool. pool \<in> set (pools b) \<Longrightarrow> find P (pools b) = Some pool \<Longrightarrow> pool_inv (f pool)"
    "\<And>pool. pool_output_id (f pool) = pool_output_id pool" "\<And>pool. pool_render_view_id (f pool) = pool_render_view_id pool"
  shows "broker_inv (b\<lparr>pools := update_first P f (pools b)\<rparr>)"
  using assms(1,2) map_update_first [of pool_output_id f, OF assms(3)]
    map_update_first [of pool_render_view_id f, OF assms(4)]
  by (auto simp: broker_inv_def dest: update_first_member)

lemma broker_inv_fields: "broker_inv (b\<lparr>transaction := t\<rparr>) = broker_inv b" "broker_inv (b\<lparr>next_screenshot := n\<rparr>) = broker_inv b"
  by (simp_all add: broker_inv_def)

section \<open>Every operation keeps it\<close>

lemma full_inv:
  assumes "region_inv d"
  shows "region_inv (damage_invalidate d)" "bounds (damage_invalidate d) = bounds d"
  using set_full_correct [OF assms] by (simp_all add: damage_invalidate_def)

lemma uint_u32: "u32_int (uint (w :: u32))"
  using uint_lt2p [of w] by (simp add: u32_int_def)

lemma begin_transaction_inv: "broker_inv b \<Longrightarrow> broker_inv (begin_transaction b)"
proof -
  assume inv: "broker_inv b"
  have "pool_inv (pool\<lparr>slots := map abandon_rendering (slots pool)\<rparr>)" if "pool \<in> set (pools b)" for pool
  proof (rule pool_inv_map)
    show "pool_inv pool"
      using inv that by (simp add: broker_inv_def)
  qed (auto simp: abandon_rendering_def slot_inv_def busy_def slot_acquirable_def full_inv)
  then have "broker_inv (b\<lparr>pools := map (\<lambda>pool. pool\<lparr>slots := map abandon_rendering (slots pool)\<rparr>) (pools b)\<rparr>)"
    by (intro broker_inv_map inv) auto
  then show ?thesis
    by (simp add: begin_transaction_def broker_inv_def)
qed

lemma authorize_inv:
  assumes inv: "broker_inv b"
  shows "broker_inv (fst (authorize b req now))"
proof (cases "ofr_dirty_serial req = 0 \<or> \<not> target_available b (ft_output (ofr_tick req))")
  case False
  let ?P = "\<lambda>pool :: ('a, 'b) output_buffer_pool. pool_output_id pool = ft_output (ofr_tick req)"
  obtain pool where pool: "find ?P (pools b) = Some pool" "list_ex slot_acquirable (slots pool)"
    "\<not> list_ex (\<lambda>slot. state slot \<noteq> Free) (slots pool)"
    using False by (auto simp: target_available_def split: option.splits)
  have "pool_inv (pool\<lparr>authorized_request := a\<rparr>)" for a
  proof -
    have "pool \<in> set (pools b)"
      using pool(1) by (auto simp: find_Some_iff)
    then show ?thesis
      using inv pool(2,3) by (auto simp: broker_inv_def pool_inv_def pool_bounds_def list_all_iff list_ex_iff busy_def)
  qed
  then have "broker_inv (b\<lparr>pools := update_first ?P
      (\<lambda>pool. pool\<lparr>authorized_request := Some \<lparr>ao_request = req, authorized_at = now\<rparr>\<rparr>) (pools b)\<rparr>)"
    using pool(1) by (intro broker_inv_update_first [OF inv]) auto
  then show ?thesis
    using False pool(1) by (simp add: authorize_def)
qed (auto simp: authorize_def inv)

lemma pool_inv_unauthorized: "pool_inv pool \<Longrightarrow> pool_inv (pool\<lparr>authorized_request := None\<rparr>)"
  by (simp add: pool_inv_def pool_bounds_def)

lemma cancel_authorizations_inv: "broker_inv b \<Longrightarrow> broker_inv (cancel_authorizations b views)"
  unfolding cancel_authorizations_def
  by (rule broker_inv_map) (auto simp: pool_inv_unauthorized broker_inv_def)

lemma expire_authorizations_inv: "broker_inv b \<Longrightarrow> broker_inv (fst (expire_authorizations b now))"
  unfolding expire_authorizations_def fst_conv
  by (rule broker_inv_map) (auto simp: pool_inv_unauthorized broker_inv_def)

lemma broker_pool:
  "broker_inv b \<Longrightarrow> find P (pools b) = Some pool \<Longrightarrow> pool \<in> set (pools b) \<and> pool_inv pool \<and> P pool"
  by (auto simp: broker_inv_def find_Some_iff)

lemma acquire_cases:
  assumes "acquire b view extent = (b', r)"
  obtains (blocked) e where "b' = b" "r = Inl e"
  | (acquired) pool authorization index where
      "find (\<lambda>pool. pool_render_view_id pool = view \<and> pool_size pool = extent) (pools b) = Some pool"
      "authorized_request pool = Some authorization"
      "position slot_acquirable (slots pool) = Some index"
      "r = Inr (framebuffer (slots pool ! index))"
      "b' = b\<lparr>pools := update_first (\<lambda>pool. pool_render_view_id pool = view \<and> pool_size pool = extent)
         (\<lambda>pool. pool\<lparr>authorized_request := None, slots := (slots pool)[index :=
           acquired_slot b (pool_output_id pool) authorization (slots pool ! index)]\<rparr>) (pools b)\<rparr>"
  using assms unfolding acquire_def by (auto split: option.splits if_splits)

lemma acquired_slot_inv:
  "slot_inv box slot \<Longrightarrow> slot_acquirable slot \<Longrightarrow> slot_inv box (acquired_slot b out authorization slot)"
  by (simp add: slot_inv_def slot_acquirable_def acquired_slot_def busy_def)

lemma acquire_inv:
  assumes inv: "broker_inv b"
  shows "broker_inv (fst (acquire b view extent))"
proof -
  obtain b' r where a: "acquire b view extent = (b', r)"
    by fastforce
  from a show ?thesis
  proof (cases rule: acquire_cases)
    case (acquired pool authorization index)
    let ?slot = "acquired_slot b (pool_output_id pool) authorization (slots pool ! index)"
    note p = broker_pool [OF inv acquired(1)]
    have i: "index < length (slots pool)" "slot_acquirable (slots pool ! index)"
      using position_Some [OF acquired(3)] by auto
    have free: "\<not> busy (slots pool ! j)" if "j < length (slots pool)" for j
      using p acquired(2) that by (auto simp: pool_inv_def list_all_length)
    have "slot_inv (pool_bounds pool) (slots pool ! index)"
      using p i(1) by (simp add: pool_inv_def)
    then have "pool_inv (pool\<lparr>authorized_request := None\<rparr>\<lparr>slots := (slots pool)[index := ?slot]\<rparr>)"
      using pool_inv_update [of "pool\<lparr>authorized_request := None\<rparr>" index ?slot] p i free
      by (simp add: pool_inv_unauthorized pool_bounds_def acquired_slot_inv)
    then show ?thesis
      unfolding a fst_conv acquired(5)
      using acquired(1) by (intro broker_inv_update_first [OF inv]) auto
  qed (simp add: a inv)
qed

lemma damage_of_rects_inv:
  "region_inv (damage_of_rects extent rs)"
  "bounds (damage_of_rects extent rs) = bounds (damage_empty (uint (ps_width extent)) (uint (ps_height extent)))"
proof -
  have "region_inv (damage_clear (damage_empty (uint (ps_width extent)) (uint (ps_height extent))))"
    "bounds (damage_clear (damage_empty (uint (ps_width extent)) (uint (ps_height extent)))) =
       bounds (damage_empty (uint (ps_width extent)) (uint (ps_height extent)))"
    using damage_clear_inv [OF damage_empty_inv [OF uint_u32 uint_u32]] by blast+
  then show "region_inv (damage_of_rects extent rs)"
    "bounds (damage_of_rects extent rs) = bounds (damage_empty (uint (ps_width extent)) (uint (ps_height extent)))"
    using insert_clipped_correct unfolding damage_of_rects_def replace_from_flutter_def by metis+
qed

text \<open>The buffer a frame was marked ready in, and the others.\<close>

definition readied_slot ::
  "('f, 'b) output_buffer_pool \<Rightarrow> ('f, 'b) output_buffer_slot \<Rightarrow> flutter_rect list \<Rightarrow> 'f option \<Rightarrow>
     instant option \<Rightarrow> 'b list \<Rightarrow> u64 \<Rightarrow> ('f, 'b) output_buffer_slot" where
  "readied_slot pool slot buffer_damage fd rendered fb txn =
     slot\<lparr>damage := damage_clear (damage slot), ready_damage := Some (damage_of_rects (pool_size pool) buffer_damage),
       state := Ready, fence := fd, rendered_at := rendered, feedback := fb, ready_transaction := txn\<rparr>"

lemma mark_slot_ready_slots:
  assumes "index < length (slots pool)"
    and "result = slots (mark_slot_ready pool index frame_damage buffer_damage fd rendered fb txn)"
  shows "length result = length (slots pool)"
    and "j < length (slots pool) \<Longrightarrow> result ! j =
      (if j = index then readied_slot pool (slots pool ! index) buffer_damage fd rendered fb txn
       else (slots pool ! j)\<lparr>damage := damage_union (damage (slots pool ! j))
              (damage_of_rects (pool_size pool) frame_damage)\<rparr>)"
  using assms by (simp_all add: mark_slot_ready_def Let_def nth_enumerate_eq readied_slot_def)

lemma mark_slot_ready_pool [simp]:
  "pool_output_id (mark_slot_ready pool index fd bd f r fb txn) = pool_output_id pool"
  "pool_render_view_id (mark_slot_ready pool index fd bd f r fb txn) = pool_render_view_id pool"
  "pool_size (mark_slot_ready pool index fd bd f r fb txn) = pool_size pool"
  "authorized_request (mark_slot_ready pool index fd bd f r fb txn) = authorized_request pool"
  "pool_bounds (mark_slot_ready pool index fd bd f r fb txn) = pool_bounds pool"
  by (simp_all add: mark_slot_ready_def Let_def pool_bounds_def)

lemma mark_slot_ready_inv:
  assumes inv: "pool_inv pool" and i: "index < length (slots pool)" "state (slots pool ! index) = Rendering"
  shows "pool_inv (mark_slot_ready pool index frame_damage buffer_damage fd rendered fb txn)"
proof -
  let ?pool = "mark_slot_ready pool index frame_damage buffer_damage fd rendered fb txn"
  let ?region = "damage_of_rects (pool_size pool) frame_damage"
  note res = mark_slot_ready_slots [OF i(1) refl, where frame_damage = frame_damage and buffer_damage = buffer_damage and fd = fd and
      rendered = rendered and fb = fb and txn = txn]
  have busy_i: "busy (slots pool ! index)"
    using i(2) by (simp add: busy_def)
  have one: "one_busy (slots pool)" and slot: "\<And>j. j < length (slots pool) \<Longrightarrow> slot_inv (pool_bounds pool) (slots pool ! j)"
    and auth: "authorized_request pool = None"
    using inv busy_i i(1) by (auto simp: pool_inv_def list_all_length)
  have free: "\<not> busy (slots pool ! j)" if "j < length (slots pool)" "j \<noteq> index" for j
    by (rule one_busy_others [OF one i(1) busy_i that])
  have "slot_inv (pool_bounds pool) (slots ?pool ! j)" if j: "j < length (slots pool)" for j
  proof (cases "j = index")
    case True
    have "region_inv (damage (slots pool ! index))"
      using slot [OF i(1)] by (simp add: slot_inv_def)
    from damage_clear_inv [OF this] slot [OF i(1)] i(2) show ?thesis
      by (simp add: True res(2) [OF i(1)] readied_slot_def slot_inv_def busy_def is_empty_def damage_clear_def)
  next
    case False
    have s: "region_inv (damage (slots pool ! j))" "bounds (damage (slots pool ! j)) = pool_bounds pool"
      "state (slots pool ! j) = Free"
      using slot [OF j] free [OF j False] by (simp_all add: slot_inv_def busy_def)
    from damage_union_correct [OF s(1) damage_of_rects_inv(1), of "pool_size pool" frame_damage] s show ?thesis
      using False by (simp add: res(2) [OF j] slot_inv_def busy_def)
  qed
  moreover have "busy (slots ?pool ! j) \<longleftrightarrow> j = index" if "j < length (slots pool)" for j
    using free that by (auto simp: res(2) busy_def readied_slot_def)
  then have "one_busy (slots ?pool)"
    by (simp add: one_busy_def res(1))
  ultimately show ?thesis
    using auth by (simp add: pool_inv_def all_set_conv_all_nth res(1))
qed

lemma mark_ready_cases:
  assumes "mark_ready_with_feedback b view fb frame_damage buffer_damage fd rendered sampled = (b', ok)"
  obtains (refused) "b' = b" "\<not> ok"
  | (ready) pool index where
      "find (\<lambda>pool. pool_render_view_id pool = view) (pools b) = Some pool"
      "position (\<lambda>slot. framebuffer slot = fb) (slots pool) = Some index"
      "state (slots pool ! index) = Rendering" "ok"
      "b' = b\<lparr>pools := update_first (\<lambda>pool. pool_render_view_id pool = view)
         (\<lambda>pool. mark_slot_ready pool index frame_damage buffer_damage fd rendered sampled (transaction b))
         (pools b)\<rparr>"
  using assms unfolding mark_ready_with_feedback_def by (auto split: option.splits if_splits)

lemma mark_ready_inv:
  assumes inv: "broker_inv b"
  shows "broker_inv (fst (mark_ready_with_feedback b view fb frame_damage buffer_damage fd rendered sampled))"
proof -
  obtain b' ok where a: "mark_ready_with_feedback b view fb frame_damage buffer_damage fd rendered sampled = (b', ok)"
    by fastforce
  from a show ?thesis
  proof (cases rule: mark_ready_cases)
    case (ready pool index)
    have "pool_inv (mark_slot_ready pool index frame_damage buffer_damage fd rendered sampled (transaction b))"
      using broker_pool [OF inv ready(1)] position_Some [OF ready(2)] ready(3)
      by (intro mark_slot_ready_inv) auto
    then show ?thesis
      unfolding a fst_conv ready(5) using ready(1) by (intro broker_inv_update_first [OF inv]) auto
  qed (simp add: a inv)
qed

section \<open>Publication\<close>

lemma finish_pool_cases:
  assumes "pool_inv pool"
  obtains (none) "finish_pool txn pool = (pool, None)" "finish_pool_asserts txn pool"
  | (frame) index req dmg frame where
      "index < length (slots pool)" "ready_in txn (slots pool ! index)"
      "request (slots pool ! index) = Some req" "ready_damage (slots pool ! index) = Some dmg"
      "finish_pool_asserts txn pool"
      "finish_pool txn pool = (pool\<lparr>slots := (slots pool)[index := (slots pool ! index)
         \<lparr>state := Pending, ready_transaction := 0, request := None, ready_damage := None, fence := None,
          screenshot_request_id := None, rendered_at := None, feedback := []\<rparr>]\<rparr>, Some frame)"
      "rof_output_id frame = pool_output_id pool" "rof_index frame = index" "rof_damage frame = dmg"
      "rof_request frame = req" "rof_render_view_id frame = pool_render_view_id pool"
proof (cases "position (ready_in txn) (slots pool)")
  case None
  then show ?thesis
    by (intro none) (simp_all add: finish_pool_def finish_pool_asserts_def)
next
  case (Some index)
  then have i: "index < length (slots pool)" "ready_in txn (slots pool ! index)"
    using position_Some by blast+
  then obtain req dmg where rd: "request (slots pool ! index) = Some req" "ready_damage (slots pool ! index) = Some dmg"
    using assms by (auto simp: pool_inv_def slot_inv_def ready_in_def)
  show ?thesis
    by (rule frame [OF i rd]) (simp_all add: finish_pool_def finish_pool_asserts_def Some rd, simp_all)
qed

lemma finish_pool_fields [simp]:
  "pool_output_id (fst (finish_pool txn pool)) = pool_output_id pool"
  "pool_render_view_id (fst (finish_pool txn pool)) = pool_render_view_id pool"
  "pool_size (fst (finish_pool txn pool)) = pool_size pool"
  by (auto simp: finish_pool_def Let_def split: option.splits)

lemma finish_pool_inv: "pool_inv pool \<Longrightarrow> pool_inv (fst (finish_pool txn pool))"
proof -
  assume inv: "pool_inv pool"
  show ?thesis
  proof (rule finish_pool_cases [OF inv, of txn])
    fix index req dmg frame
    assume i: "index < length (slots pool)" "ready_in txn (slots pool ! index)"
      and f: "finish_pool txn pool = (pool\<lparr>slots := (slots pool)[index := (slots pool ! index)
         \<lparr>state := Pending, ready_transaction := 0, request := None, ready_damage := None, fence := None,
          screenshot_request_id := None, rendered_at := None, feedback := []\<rparr>]\<rparr>, Some frame)"
    have b: "busy (slots pool ! index)"
      using i(2) by (simp add: ready_in_def busy_def)
    have "slot_inv (pool_bounds pool) (slots pool ! index)" "authorized_request pool = None"
      using inv i(1) b by (auto simp: pool_inv_def list_all_length)
    then show ?thesis
      unfolding f fst_conv using i one_busy_others [OF _ i(1) b] inv
      by (intro pool_inv_update) (auto simp: slot_inv_def busy_def ready_in_def pool_inv_def)
  qed (simp add: inv)
qed

lemma finish_transaction_inv: "broker_inv b \<Longrightarrow> broker_inv (fst (finish_transaction b))"
proof -
  assume inv: "broker_inv b"
  have "broker_inv (b\<lparr>pools := map (\<lambda>pool. fst (finish_pool (transaction b) pool)) (pools b)\<rparr>)"
    by (rule broker_inv_map [OF inv]) (use inv in \<open>auto simp: broker_inv_def finish_pool_inv\<close>)
  then show ?thesis
    by (simp add: finish_transaction_def broker_inv_def Let_def comp_def)
qed

lemma slot_at_Some:
  "slot_at b out index = Some slot \<longleftrightarrow> (\<exists>pool. find (\<lambda>pool. pool_output_id pool = out) (pools b) = Some pool \<and>
     index < length (slots pool) \<and> slots pool ! index = slot)"
  by (simp add: slot_at_def bind_eq_Some_conv)

lemma set_slot_inv:
  assumes inv: "broker_inv b" and slot: "slot_at b out index = Some slot"
    and keep: "\<And>box. slot_inv box slot \<Longrightarrow> slot_inv box slot'" "busy slot' \<Longrightarrow> busy slot"
      "slot_acquirable slot \<Longrightarrow> slot_acquirable slot'"
  shows "broker_inv (set_slot b out index slot')"
proof -
  obtain pool where pool: "find (\<lambda>pool. pool_output_id pool = out) (pools b) = Some pool"
      "index < length (slots pool)" "slots pool ! index = slot"
    using slot by (auto simp: slot_at_Some)
  note p = broker_pool [OF inv pool(1)]
  have "pool_inv (pool\<lparr>slots := (slots pool)[index := slot']\<rparr>)"
  proof (rule pool_inv_update)
    show "slot_inv (pool_bounds pool) slot'"
      using p pool(2,3) by (auto simp: pool_inv_def intro!: keep(1))
    show "busy slot' \<longrightarrow> (\<forall>j<length (slots pool). j \<noteq> index \<longrightarrow> \<not> busy (slots pool ! j))"
      using keep(2) p pool(2,3) one_busy_others by (auto simp: pool_inv_def)
    show "authorized_request pool = None \<or> \<not> busy slot' \<and> (slot_acquirable (slots pool ! index) \<longrightarrow> slot_acquirable slot')"
      using keep(2,3) p pool(2,3) by (auto simp: pool_inv_def list_all_length)
  qed (use p pool in auto)
  then show ?thesis
    unfolding set_slot_def using pool(1) by (intro broker_inv_update_first [OF inv]) auto
qed

lemma publish_inv: "broker_inv b \<Longrightarrow> publish b frame = Inr b' \<Longrightarrow> broker_inv b'"
  unfolding publish_def
  by (auto split: option.splits if_splits intro!: set_slot_inv
      simp: slot_inv_def busy_def slot_acquirable_def)

lemma release_output_inv: "broker_inv b \<Longrightarrow> release_output b out index = Inr b' \<Longrightarrow> broker_inv b'"
  unfolding release_output_def
  by (auto split: option.splits if_splits intro!: set_slot_inv
      simp: slot_inv_def busy_def slot_acquirable_def)

lemma retain_output_inv: "broker_inv b \<Longrightarrow> retain_output b out index = Inr b' \<Longrightarrow> broker_inv b'"
  unfolding retain_output_def
  by (auto split: option.splits if_splits intro!: set_slot_inv
      simp: slot_inv_def busy_def slot_acquirable_def)

lemma tag_screenshot_inv: "broker_inv b \<Longrightarrow> tag_next_frame_for_screenshot b out sid = Inr b' \<Longrightarrow> broker_inv b'"
  by (auto simp: tag_next_frame_for_screenshot_def broker_inv_def split: if_splits)

lemma cancel_screenshot_inv: "broker_inv b \<Longrightarrow> broker_inv (cancel_screenshot_frame b sid)"
proof -
  assume inv: "broker_inv b"
  let ?f = "\<lambda>slot :: ('a, 'b) output_buffer_slot. if screenshot_request_id slot = Some sid then slot\<lparr>screenshot_request_id := None\<rparr> else slot"
  have "pool_inv (pool\<lparr>slots := map ?f (slots pool)\<rparr>)" if "pool \<in> set (pools b)" for pool
    using inv that
    by (intro pool_inv_map) (auto simp: broker_inv_def slot_inv_def busy_def slot_acquirable_def split: if_splits)
  then have "broker_inv (b\<lparr>pools := map (\<lambda>pool. pool\<lparr>slots := map ?f (slots pool)\<rparr>) (pools b)\<rparr>)"
    by (intro broker_inv_map inv) auto
  then show ?thesis
    by (simp add: cancel_screenshot_frame_def broker_inv_def)
qed

lemma pool_of_inv: "pool_inv (pool_of d)"
proof -
  have r: "region_inv (damage_empty (uint (ps_width (opd_size d))) (uint (ps_height (opd_size d))))"
    by (rule damage_empty_inv [OF uint_u32 uint_u32])
  have "slot_inv (pool_bounds (pool_of d)) slot \<and> \<not> busy slot" if "slot \<in> set (slots (pool_of d))" for slot
    using that set_full_correct [OF r]
    by (auto simp: pool_of_def initial_slot_def pool_bounds_def slot_inv_def busy_def damage_full_def)
  then show ?thesis
    by (auto simp: pool_inv_def list_all_iff one_busy_free) (simp add: pool_of_def)+
qed

lemma collect_pools_distinct:
  "collect_pools generation outs views fbs ds = Inr ps \<Longrightarrow>
     (\<forall>pool\<in>set ps. pool_inv pool \<and> pool_output_id pool \<notin> outs \<and> pool_render_view_id pool \<notin> views) \<and>
     distinct (map pool_output_id ps) \<and> distinct (map pool_render_view_id ps)"
proof (induction generation outs views fbs ds arbitrary: ps rule: collect_pools.induct)
  case (2 generation outs views fbs d ds)
  let ?bad = "opd_configuration_generation d = 0 \<or>
    (case generation of None \<Rightarrow> False | Some value \<Rightarrow> value \<noteq> opd_configuration_generation d) \<or>
    opd_output_id d \<in> outs \<or> opd_render_view_id d \<in> views \<or>
    ps_width (opd_size d) = 0 \<or> ps_height (opd_size d) = 0 \<or>
    length (opd_framebuffers d) \<le> opd_initial_scanout d \<or> length (opd_framebuffers d) < 3"
  obtain fbs' rest where ok: "\<not> ?bad" "insert_framebuffers fbs (opd_framebuffers d) = Some fbs'"
    "collect_pools (Some (opd_configuration_generation d)) (insert (opd_output_id d) outs)
       (insert (opd_render_view_id d) views) fbs' ds = Inr rest" "ps = pool_of d # rest"
    using 2(2) by (simp only: collect_pools.simps) (auto simp: result_simps split: if_splits option.splits)
  have ids: "pool_output_id (pool_of d) = opd_output_id d" "pool_render_view_id (pool_of d) = opd_render_view_id d"
    by (simp_all add: pool_of_def)
  show ?case
    using 2(1) [OF ok(1,2,3)] ok(1) unfolding ok(4) by (auto simp: pool_of_inv ids)
qed simp

lemma broker_new_inv: "broker_new ds = Inr b \<Longrightarrow> broker_inv b"
  by (auto simp: broker_new_def result_simps broker_inv_def distinct_map dest!: collect_pools_distinct
      split: if_splits)

section \<open>Every history of a broker\<close>

inductive broker_step :: "('f, 'b) output_buffer_broker \<Rightarrow> ('f, 'b) output_buffer_broker \<Rightarrow> bool" where
  step_begin: "broker_step b (begin_transaction b)"
| step_authorize: "broker_step b (fst (authorize b req now))"
| step_cancel: "broker_step b (cancel_authorizations b views)"
| step_expire: "broker_step b (fst (expire_authorizations b now))"
| step_acquire: "broker_step b (fst (acquire b view extent))"
| step_ready: "broker_step b (fst (mark_ready_with_feedback b view fb frame_damage buffer_damage fd rendered sampled))"
| step_finish: "broker_step b (fst (finish_transaction b))"
| step_publish: "publish b frame = Inr b' \<Longrightarrow> broker_step b b'"
| step_release: "release_output b out index = Inr b' \<Longrightarrow> broker_step b b'"
| step_retain: "retain_output b out index = Inr b' \<Longrightarrow> broker_step b b'"
| step_tag: "tag_next_frame_for_screenshot b out sid = Inr b' \<Longrightarrow> broker_step b b'"
| step_cancel_shot: "broker_step b (cancel_screenshot_frame b sid)"

inductive broker_run :: "output_pool_descriptor list \<Rightarrow> ('f, 'b) output_buffer_broker \<Rightarrow> bool" for ds where
  run_new: "broker_new ds = Inr b \<Longrightarrow> broker_run ds b"
| run_step: "broker_run ds b \<Longrightarrow> broker_step b b' \<Longrightarrow> broker_run ds b'"

lemma broker_step_inv: "broker_step b b' \<Longrightarrow> broker_inv b \<Longrightarrow> broker_inv b'"
  by (induction rule: broker_step.induct)
    (auto intro: begin_transaction_inv authorize_inv cancel_authorizations_inv expire_authorizations_inv
      acquire_inv mark_ready_inv finish_transaction_inv publish_inv release_output_inv retain_output_inv
      tag_screenshot_inv cancel_screenshot_inv)

lemma broker_run_inv: "broker_run ds b \<Longrightarrow> broker_inv b"
  by (induction rule: broker_run.induct) (auto intro: broker_new_inv broker_step_inv)

lemma find_unique:
  assumes "distinct (map key xs)" "x \<in> set xs"
  shows "find (\<lambda>y. key y = key x \<and> Q y) xs = (if Q x then Some x else None)"
  using assms
proof (induction xs)
  case (Cons z xs)
  show ?case
  proof (cases "x = z")
    case True
    have "key y \<noteq> key x" if "y \<in> set xs" for y
      using Cons.prems(1) True that by (auto dest: image_eqI [of _ key, OF sym])
    then have "find (\<lambda>y. key y = key x \<and> Q y) xs = None"
      by (auto simp: find_None_iff)
    then show ?thesis
      using True by simp
  next
    case False
    then have "key z \<noteq> key x"
      using Cons.prems by (auto dest: image_eqI [of _ key, OF sym])
    then show ?thesis
      using Cons False by simp
  qed
qed simp

lemma find_key: "distinct (map key xs) \<Longrightarrow> x \<in> set xs \<Longrightarrow> find (\<lambda>y. key y = key x) xs = Some x"
  using find_unique [of key xs x "\<lambda>_. True"] by simp

lemma find_update_first_key:
  assumes "find P xs = Some x" "\<And>y. key (f y) = key y" "distinct (map key xs)"
  shows "find (\<lambda>y. key y = key x) (update_first P f xs) = Some (f x)"
  using assms(1,3)
proof (induction xs)
  case (Cons z xs)
  show ?case
  proof (cases "P z")
    case False
    then have x: "find P xs = Some x" "x \<in> set xs"
      using Cons.prems(1) by (auto simp: find_Some_iff)
    then have "key z \<noteq> key x"
      using Cons.prems(2) by (auto dest: image_eqI [of _ key, OF sym])
    then show ?thesis
      using Cons x False by simp
  qed (use Cons.prems assms(2) in auto)
qed simp

lemma acquire_authorized:
  assumes inv: "broker_inv b" and pool: "pool \<in> set (pools b)" "authorized_request pool = Some authorization"
  obtains index where "position slot_acquirable (slots pool) = Some index"
    and "acquire b (pool_render_view_id pool) (pool_size pool) =
      (b\<lparr>pools := update_first
         (\<lambda>p. pool_render_view_id p = pool_render_view_id pool \<and> pool_size p = pool_size pool)
         (\<lambda>pool. pool\<lparr>authorized_request := None, slots := (slots pool)[index :=
            acquired_slot b (pool_output_id pool) authorization (slots pool ! index)]\<rparr>) (pools b)\<rparr>,
       Inr (framebuffer (slots pool ! index)))"
proof -
  have f: "find (\<lambda>p. pool_render_view_id p = pool_render_view_id pool \<and> pool_size p = pool_size pool) (pools b) = Some pool"
    using find_unique [of pool_render_view_id "pools b" pool "\<lambda>p. pool_size p = pool_size pool"] inv pool(1)
    by (simp add: broker_inv_def)
  have p: "pool_inv pool"
    using inv pool(1) by (simp add: broker_inv_def)
  then have free: "\<not> list_ex (\<lambda>slot. state slot = Ready) (slots pool)" "list_ex slot_acquirable (slots pool)"
    using pool(2) by (auto simp: pool_inv_def list_all_iff list_ex_iff busy_def)
  then obtain index where index: "position slot_acquirable (slots pool) = Some index"
    by (cases "position slot_acquirable (slots pool)") (auto simp: position_None list_ex_iff)
  show thesis
    by (rule that [OF index]) (simp add: acquire_def f pool(2) free index)
qed

lemma authorized_acquire:
  assumes inv: "broker_inv b" and "authorize b req now = (b1, Some view)"
  shows "\<exists>pool\<in>set (pools b1). \<exists>index<length (slots pool). \<exists>b2.
      pool_output_id pool = ft_output (ofr_tick req) \<and> pool_render_view_id pool = view \<and>
      acquire b1 view (pool_size pool) = (b2, Inr (framebuffer (slots pool ! index))) \<and>
      output_refs (slots pool ! index) = 0 \<and> list_all (\<lambda>slot. state slot = Free) (slots pool) \<and>
      (\<exists>slot. slot_at b2 (pool_output_id pool) index = Some slot \<and> state slot = Rendering \<and>
         request slot = Some req)"
proof -
  let ?P = "\<lambda>pool :: ('a, 'b) output_buffer_pool. pool_output_id pool = ft_output (ofr_tick req)"
  let ?f = "\<lambda>pool :: ('a, 'b) output_buffer_pool. pool\<lparr>authorized_request := Some \<lparr>ao_request = req, authorized_at = now\<rparr>\<rparr>"
  obtain pool0 where pool0: "find ?P (pools b) = Some pool0" "view = pool_render_view_id pool0"
      "b1 = b\<lparr>pools := update_first ?P ?f (pools b)\<rparr>"
    using assms(2) by (auto simp: authorize_def split: if_splits option.splits)
  have inv1: "broker_inv b1"
    using authorize_inv [OF inv, of req now] assms(2) by simp
  have out0: "pool_output_id pool0 = ft_output (ofr_tick req)"
    using pool0(1) by (auto simp: find_Some_iff)
  have "find (\<lambda>y. pool_output_id y = pool_output_id pool0) (update_first ?P ?f (pools b)) = Some (?f pool0)"
    using inv by (intro find_update_first_key [OF pool0(1)]) (simp_all add: broker_inv_def)
  then have mem: "?f pool0 \<in> set (pools b1)"
    unfolding pool0(3) by (auto simp: find_Some_iff)
  have auth: "authorized_request (?f pool0) = Some \<lparr>ao_request = req, authorized_at = now\<rparr>"
    by simp
  obtain index where index: "position slot_acquirable (slots (?f pool0)) = Some index"
    and acq: "acquire b1 (pool_render_view_id (?f pool0)) (pool_size (?f pool0)) =
      (b1\<lparr>pools := update_first
         (\<lambda>p. pool_render_view_id p = pool_render_view_id (?f pool0) \<and> pool_size p = pool_size (?f pool0))
         (\<lambda>pool. pool\<lparr>authorized_request := None, slots := (slots pool)[index :=
            acquired_slot b1 (pool_output_id pool) \<lparr>ao_request = req, authorized_at = now\<rparr> (slots pool ! index)]\<rparr>) (pools b1)\<rparr>,
       Inr (framebuffer (slots (?f pool0) ! index)))"
    by (rule acquire_authorized [OF inv1 mem auth])
  let ?g = "\<lambda>pool :: ('a, 'b) output_buffer_pool. pool\<lparr>authorized_request := None, slots := (slots pool)[index :=
            acquired_slot b1 (pool_output_id pool) \<lparr>ao_request = req, authorized_at = now\<rparr> (slots pool ! index)]\<rparr>"
  let ?b2 = "b1\<lparr>pools := update_first
         (\<lambda>p. pool_render_view_id p = pool_render_view_id (?f pool0) \<and> pool_size p = pool_size (?f pool0)) ?g (pools b1)\<rparr>"
  note i = position_Some [OF index]
  have "find (\<lambda>p. pool_render_view_id p = pool_render_view_id (?f pool0) \<and> pool_size p = pool_size (?f pool0)) (pools b1)
      = Some (?f pool0)"
    using find_unique [of pool_render_view_id "pools b1" "?f pool0" "\<lambda>p. pool_size p = pool_size (?f pool0)"] inv1 mem
    by (simp add: broker_inv_def)
  from find_update_first_key [OF this, of pool_output_id ?g]
  have "find (\<lambda>y. pool_output_id y = pool_output_id (?f pool0)) (pools ?b2) = Some (?g (?f pool0))"
    using inv1 by (simp add: broker_inv_def)
  then have "slot_at ?b2 (pool_output_id (?f pool0)) index =
      Some (acquired_slot b1 (pool_output_id pool0) \<lparr>ao_request = req, authorized_at = now\<rparr> (slots pool0 ! index))"
    using i by (simp add: slot_at_Some)
  moreover have "list_all (\<lambda>slot. state slot = Free) (slots (?f pool0))"
    using inv1 mem by (auto simp: broker_inv_def pool_inv_def busy_def)
  ultimately show "\<exists>pool\<in>set (pools b1). \<exists>index<length (slots pool). \<exists>b2.
      pool_output_id pool = ft_output (ofr_tick req) \<and> pool_render_view_id pool = view \<and>
      acquire b1 view (pool_size pool) = (b2, Inr (framebuffer (slots pool ! index))) \<and>
      output_refs (slots pool ! index) = 0 \<and> list_all (\<lambda>slot. state slot = Free) (slots pool) \<and>
      (\<exists>slot. slot_at b2 (pool_output_id pool) index = Some slot \<and> state slot = Rendering \<and>
         request slot = Some req)"
    using acq i out0 pool0(2)
    by (intro bexI [OF _ mem] exI [of _ index] exI [of _ ?b2])
      (simp add: slot_acquirable_def acquired_slot_def)
qed

lemma owned_slots_free: "broker_inv b \<Longrightarrow> pool \<in> set (pools b) \<Longrightarrow>
    one_busy (slots pool) \<and> (\<forall>slot\<in>set (slots pool). busy slot \<longrightarrow> output_refs slot = 0)"
  by (auto simp: broker_inv_def pool_inv_def slot_inv_def)

text \<open>C14: In every history of a broker an authorised view obtains a buffer, and the buffer is free: no
  output shows or waits for it and no other buffer of the output is in flight. More generally a buffer
  with an output owner is never being rendered, ready or pending, and at most one buffer of an output is
  in flight.\<close>

theorem authorized_render_gets_free_buffer:
  assumes "broker_run ds b" and "authorize b req now = (b1, Some view)"
  shows "(\<exists>pool\<in>set (pools b1). \<exists>index<length (slots pool). \<exists>b2.
      pool_output_id pool = ft_output (ofr_tick req) \<and> pool_render_view_id pool = view \<and>
      acquire b1 view (pool_size pool) = (b2, Inr (framebuffer (slots pool ! index))) \<and>
      output_refs (slots pool ! index) = 0 \<and> list_all (\<lambda>slot. state slot = Free) (slots pool) \<and>
      (\<exists>slot. slot_at b2 (pool_output_id pool) index = Some slot \<and> state slot = Rendering \<and>
         request slot = Some req)) \<and>
    (\<forall>pool\<in>set (pools b). one_busy (slots pool) \<and> (\<forall>slot\<in>set (slots pool). busy slot \<longrightarrow> output_refs slot = 0))"
  using authorized_acquire [OF broker_run_inv [OF assms(1)] assms(2)]
    owned_slots_free [OF broker_run_inv [OF assms(1)]]
  by blast

definition sample_pool :: output_pool_descriptor where
  "sample_pool = \<lparr>opd_output_id = 7, opd_render_view_id = -1, opd_configuration_generation = 1,
     opd_size = \<lparr>ps_width = 100, ps_height = 50\<rparr>, opd_initial_scanout = 0, opd_framebuffers = [11, 12, 13]\<rparr>"

definition sample_broker :: "(nat, nat) output_buffer_broker" where
  "sample_broker = \<lparr>pools = [pool_of sample_pool], transaction = 0, next_screenshot = None\<rparr>"

lemma sample_broker_run: "broker_run [sample_pool] sample_broker"
  by (rule run_new) (simp add: broker_new_def sample_broker_def sample_pool_def)

definition sample_request :: output_frame_request where
  "sample_request = \<lparr>ofr_tick = sample_tick, ofr_dirty_serial = 2\<rparr>"

lemma sample_authorize: "authorize sample_broker sample_request 0 =
    (sample_broker\<lparr>pools := [(pool_of sample_pool)\<lparr>authorized_request :=
       Some \<lparr>ao_request = sample_request, authorized_at = 0\<rparr>\<rparr>]\<rparr>, Some (-1))"
  by (simp add: authorize_def target_available_def sample_broker_def sample_request_def sample_tick_def
      pool_of_def sample_pool_def initial_slot_def slot_acquirable_def numeral_3_eq_3)

lemma authorized_render_gets_free_buffer_witness:
  "\<exists>(pool :: (nat, nat) output_buffer_pool) b2 fb. acquire (fst (authorize sample_broker sample_request 0)) (-1) (pool_size pool) = (b2, Inr fb)"
  using authorized_render_gets_free_buffer [OF sample_broker_run sample_authorize]
  unfolding sample_authorize fst_conv by blast

lemma finish_transaction_frames:
  assumes inv: "broker_inv b" and fin: "finish_transaction b = (b', frames)" and frame: "frame \<in> set frames"
  shows "\<exists>b'' slot. publish b' frame = Inr b'' \<and>
    slot_at b'' (rof_output_id frame) (rof_index frame) = Some slot \<and> state slot = Free \<and> output_refs slot = 1"
proof -
  have b': "pools b' = map (\<lambda>pool. fst (finish_pool (transaction b) pool)) (pools b)"
    and frames: "frames = List.map_filter snd (map (finish_pool (transaction b)) (pools b))"
    using fin by (auto simp: finish_transaction_def Let_def)
  obtain pool where pool: "pool \<in> set (pools b)" "snd (finish_pool (transaction b) pool) = Some frame"
    using frame unfolding frames set_map_filter by auto
  have inv': "broker_inv b'"
    using finish_transaction_inv [OF inv] fin by simp
  have p: "pool_inv pool"
    using inv pool(1) by (simp add: broker_inv_def)
  show ?thesis
  proof (cases rule: finish_pool_cases [OF p, of "transaction b"])
    case 1
    then show ?thesis
      using pool(2) by simp
  next
    case (2 index req dmg frame')
    let ?slot = "(slots pool ! index)\<lparr>state := Pending, ready_transaction := 0, request := None, ready_damage := None,
      fence := None, screenshot_request_id := None, rendered_at := None, feedback := []\<rparr>"
    let ?pool = "fst (finish_pool (transaction b) pool)"
    have f: "frame' = frame" "rof_output_id frame = pool_output_id ?pool" "rof_index frame = index"
      using pool(2) 2 by auto
    have "?pool \<in> set (pools b')"
      using pool(1) b' by simp
    then have "find (\<lambda>p. pool_output_id p = pool_output_id ?pool) (pools b') = Some ?pool"
      using inv' by (intro find_key) (simp_all add: broker_inv_def)
    then have at: "slot_at b' (rof_output_id frame) (rof_index frame) = Some ?slot"
      using 2(1,6) unfolding f slot_at_Some by simp
    have refs: "output_refs (slots pool ! index) = 0"
      using owned_slots_free [OF inv pool(1)] 2(1,2) by (auto simp: busy_def ready_in_def)
    let ?b = "set_slot b' (rof_output_id frame) (rof_index frame) (?slot\<lparr>state := Free, output_refs := 1\<rparr>)"
    have pub: "publish b' frame = Inr ?b"
      by (simp add: publish_def at refs)
    obtain q where q: "find (\<lambda>p. pool_output_id p = rof_output_id frame) (pools b') = Some q"
        "rof_index frame < length (slots q)"
      using at by (auto simp: slot_at_Some)
    have "find (\<lambda>y. pool_output_id y = pool_output_id q) (pools ?b) =
        Some (q\<lparr>slots := (slots q)[rof_index frame := ?slot\<lparr>state := Free, output_refs := 1\<rparr>]\<rparr>)"
      unfolding set_slot_def
      using find_update_first_key [OF q(1), of pool_output_id] inv' by (simp add: broker_inv_def)
    moreover have "pool_output_id q = rof_output_id frame"
      using q(1) by (auto simp: find_Some_iff)
    ultimately have "slot_at ?b (rof_output_id frame) (rof_index frame) = Some (?slot\<lparr>state := Free, output_refs := 1\<rparr>)"
      using q(2) by (simp add: slot_at_Some)
    then show ?thesis
      using pub by auto
  qed
qed
lemma finish_transaction_complete:
  assumes inv: "broker_inv b" and fin: "finish_transaction b = (b', frames)"
    and pool: "pool \<in> set (pools b)" "i < length (slots pool)" "ready_in (transaction b) (slots pool ! i)"
  shows "\<exists>frame\<in>set frames. rof_output_id frame = pool_output_id pool \<and> rof_index frame = i \<and>
    Some (rof_request frame) = request (slots pool ! i) \<and> Some (rof_damage frame) = ready_damage (slots pool ! i)"
proof -
  have frames: "frames = List.map_filter snd (map (finish_pool (transaction b)) (pools b))"
    using fin by (auto simp: finish_transaction_def Let_def)
  have p: "pool_inv pool"
    using inv pool(1) by (simp add: broker_inv_def)
  show ?thesis
  proof (cases rule: finish_pool_cases [OF p, of "transaction b"])
    case 1
    then have "position (ready_in (transaction b)) (slots pool) = None"
      by (auto simp: finish_pool_def finish_pool_asserts_def Let_def split: option.splits)
    then show ?thesis
      using pool(2,3) by (simp add: position_None)
  next
    case (2 index req dmg frame)
    have "index = i"
      using p 2(1,2) pool(2,3) by (auto simp: pool_inv_def ready_in_def busy_def intro: one_busyD)
    moreover have "frame \<in> set frames"
      unfolding frames set_map_filter using pool(1) 2(6) by (auto intro!: bexI [of _ pool])
    ultimately show ?thesis
      using 2 by auto
  qed
qed

lemma finish_transaction_sound:
  assumes inv: "broker_inv b" and fin: "finish_transaction b = (b', frames)" and frame: "frame \<in> set frames"
  shows "\<exists>pool\<in>set (pools b). rof_output_id frame = pool_output_id pool \<and> rof_index frame < length (slots pool) \<and>
    ready_in (transaction b) (slots pool ! rof_index frame)"
proof -
  obtain pool where pool: "pool \<in> set (pools b)" "snd (finish_pool (transaction b) pool) = Some frame"
    using frame fin by (auto simp: finish_transaction_def Let_def set_map_filter)
  then have p: "pool_inv pool"
    using inv by (simp add: broker_inv_def)
  show ?thesis
    using pool by (cases rule: finish_pool_cases [OF p, of "transaction b"]) auto
qed

text \<open>C18: Along every history of a broker the end of a transaction never meets a ready buffer without its
  request or its damage; it hands out a frame for exactly the ready buffers of the transaction, with the request and
  the damage of the buffer; and every frame can be published: its buffer then belongs to the output, exactly once,
  and is no longer in flight.\<close>

theorem finished_frames_publish:
  assumes "broker_run ds b" and "finish_transaction b = (b', frames)"
  shows "(\<forall>pool\<in>set (pools b). finish_pool_asserts (transaction b) pool) \<and>
    (\<forall>pool\<in>set (pools b). \<forall>i<length (slots pool). ready_in (transaction b) (slots pool ! i) \<longrightarrow>
       (\<exists>frame\<in>set frames. rof_output_id frame = pool_output_id pool \<and> rof_index frame = i \<and>
          Some (rof_request frame) = request (slots pool ! i) \<and> Some (rof_damage frame) = ready_damage (slots pool ! i))) \<and>
    (\<forall>frame\<in>set frames.
       (\<exists>pool\<in>set (pools b). rof_output_id frame = pool_output_id pool \<and> rof_index frame < length (slots pool) \<and>
          ready_in (transaction b) (slots pool ! rof_index frame)) \<and>
       (\<exists>b'' slot. publish b' frame = Inr b'' \<and>
          slot_at b'' (rof_output_id frame) (rof_index frame) = Some slot \<and> state slot = Free \<and> output_refs slot = 1))"
proof -
  have inv: "broker_inv b"
    by (rule broker_run_inv [OF assms(1)])
  have "finish_pool_asserts (transaction b) pool" if "pool \<in> set (pools b)" for pool
    by (rule finish_pool_cases [of pool "transaction b"]) (use inv that in \<open>auto simp: broker_inv_def\<close>)
  then show ?thesis
    using finish_transaction_frames [OF inv assms(2)] finish_transaction_complete [OF inv assms(2)]
      finish_transaction_sound [OF inv assms(2)] by simp
qed

text \<open>One frame from authorisation to the end of its transaction.\<close>

definition sample_rendered :: "(nat, nat) output_buffer_broker" where
  "sample_rendered = fst (mark_ready_with_feedback
     (fst (acquire (fst (authorize (begin_transaction sample_broker) sample_request 0)) (-1) \<lparr>ps_width = 100, ps_height = 50\<rparr>))
     (-1) 12 [] [] None None [])"

lemma sample_rendered_run: "broker_run [sample_pool] sample_rendered"
  unfolding sample_rendered_def
  by (rule run_step [OF run_step [OF run_step [OF run_step [OF sample_broker_run step_begin] step_authorize]
        step_acquire] step_ready])

lemma sample_finished: "snd (finish_transaction sample_rendered) \<noteq> []"
  by (simp add: finish_transaction_def sample_rendered_def mark_ready_with_feedback_def acquire_def authorize_def
      target_available_def begin_transaction_def abandon_rendering_def sample_broker_def sample_request_def sample_tick_def
      pool_of_def sample_pool_def initial_slot_def slot_acquirable_def acquired_slot_def mark_slot_ready_def
      finish_pool_def ready_in_def List.map_filter_simps Let_def max_one_word)

lemma finished_frames_publish_witness:
  "\<exists>b'' :: (nat, nat) output_buffer_broker. publish (fst (finish_transaction sample_rendered))
     (hd (snd (finish_transaction sample_rendered))) = Inr b''"
  using finished_frames_publish [OF sample_rendered_run surjective_pairing] hd_in_set [OF sample_finished] by blast

section \<open>The baton queue\<close>

inductive baton_run :: "pending_vsync_batons \<Rightarrow> bool" where
  "baton_run pending_vsync_batons_default"
| "baton_run q \<Longrightarrow> baton_run (fst (register q baton))"
| "baton_run q \<Longrightarrow> baton_run (fst (complete q baton))"
| "baton_run q \<Longrightarrow> baton_run (fst (take_next q))"
| "baton_run q \<Longrightarrow> baton_run (restore_front q baton)"
| "baton_run q \<Longrightarrow> baton_run (fst (take_all q))"

lemma remove_at_set:
  "distinct xs \<Longrightarrow> i < length xs \<Longrightarrow> distinct (remove_at i xs) \<and> set (remove_at i xs) = set xs - {xs ! i}"
proof (induction xs arbitrary: i)
  case (Cons x xs)
  then show ?case
    by (cases i) (force simp: remove_at_def)+
qed simp

lemma remove_at_filter: "distinct xs \<Longrightarrow> i < length xs \<Longrightarrow> remove_at i xs = filter (\<lambda>x. x \<noteq> xs ! i) xs"
proof (induction xs arbitrary: i)
  case (Cons x xs)
  show ?case
  proof (cases i)
    case 0
    have "filter (\<lambda>y. y \<noteq> x) xs = xs"
      using Cons.prems(1) by (auto simp: filter_id_conv)
    then show ?thesis
      using 0 by (simp add: remove_at_def)
  next
    case (Suc j)
    then have "remove_at j xs = filter (\<lambda>x. x \<noteq> xs ! j) xs" "x \<noteq> xs ! j"
      using Cons by auto
    then show ?thesis
      using Suc by (simp add: remove_at_def)
  qed
qed simp

lemma complete_eq:
  assumes "distinct (pvb_values q)" "members q = set (pvb_values q)"
  shows "complete q baton = (if baton \<in> members q
    then (q\<lparr>pvb_values := filter (\<lambda>b. b \<noteq> baton) (pvb_values q), members := members q - {baton}\<rparr>, True)
    else (q, False))"
proof (cases "position (\<lambda>candidate. candidate = baton) (pvb_values q)")
  case None
  then have "baton \<notin> set (pvb_values q)"
    unfolding position_None by blast
  then show ?thesis
    using assms(2) by (simp add: complete_def None)
next
  case (Some index)
  then show ?thesis
    using assms position_Some [OF Some] remove_at_filter [OF assms(1), of index]
    by (auto simp: complete_def)
qed

lemma baton_run_inv: "baton_run q \<Longrightarrow> distinct (pvb_values q) \<and> members q = set (pvb_values q)"
proof (induction rule: baton_run.induct)
  case (3 q baton)
  then show ?case
    using complete_eq [of q baton] by auto
qed (auto simp: pending_vsync_batons_default_def register_def take_next_def restore_front_def take_all_def
    split: list.splits)

text \<open>Along every history the pending vsync batons are a queue without repetitions: the set mirrors it, a
  baton is accepted exactly when it is new and there is room and then waits behind all others, a
  completion removes exactly its baton, the oldest is handed out first, and restoring a baton that was
  just handed out leaves the queue as it was.\<close>

theorem vsync_batons_are_a_queue:
  assumes "baton_run q"
  shows "distinct (pvb_values q) \<and> members q = set (pvb_values q) \<and>
    (snd (register q baton) = Accepted \<longleftrightarrow> baton \<notin> set (pvb_values q) \<and> length (pvb_values q) < MAX_PENDING_VSYNC_BATONS) \<and>
    pvb_values (fst (register q baton)) = pvb_values q @ (if snd (register q baton) = Accepted then [baton] else []) \<and>
    (snd (complete q baton) \<longleftrightarrow> baton \<in> set (pvb_values q)) \<and>
    pvb_values (fst (complete q baton)) = filter (\<lambda>b. b \<noteq> baton) (pvb_values q) \<and>
    pvb_values q = (case snd (take_next q) of None \<Rightarrow> [] | Some b \<Rightarrow> b # pvb_values (fst (take_next q))) \<and>
    (case snd (take_next q) of None \<Rightarrow> q | Some b \<Rightarrow> restore_front (fst (take_next q)) b) = q \<and>
    snd (take_all q) = pvb_values q \<and> fst (take_all q) = pending_vsync_batons_default"
proof -
  have inv: "distinct (pvb_values q)" "members q = set (pvb_values q)"
    using baton_run_inv [OF assms] by simp_all
  have "filter (\<lambda>b. b \<noteq> baton) (pvb_values q) = pvb_values q" if "baton \<notin> set (pvb_values q)"
    using that by (auto simp: filter_id_conv)
  then have "(snd (complete q baton) \<longleftrightarrow> baton \<in> set (pvb_values q)) \<and>
    pvb_values (fst (complete q baton)) = filter (\<lambda>b. b \<noteq> baton) (pvb_values q)"
    using complete_eq [OF inv, of baton] inv(2) by simp
  moreover have "(case snd (take_next q) of None \<Rightarrow> q | Some b \<Rightarrow> restore_front (fst (take_next q)) b) = q"
    using inv by (cases q; cases "pvb_values q") (auto simp: take_next_def restore_front_def)
  moreover have "pvb_values q = (case snd (take_next q) of None \<Rightarrow> [] | Some b \<Rightarrow> b # pvb_values (fst (take_next q)))"
    by (simp add: take_next_def split: list.splits)
  moreover have "(snd (register q baton) = Accepted \<longleftrightarrow> baton \<notin> set (pvb_values q) \<and> length (pvb_values q) < MAX_PENDING_VSYNC_BATONS) \<and>
    pvb_values (fst (register q baton)) = pvb_values q @ (if snd (register q baton) = Accepted then [baton] else [])"
    using inv(2) by (simp add: register_def)
  ultimately show ?thesis
    using inv by (simp add: take_all_def pending_vsync_batons_default_def)
qed

lemma vsync_batons_are_a_queue_witness:
  "pvb_values (fst (register (fst (register pending_vsync_batons_default 5)) 6)) = [5, 6] \<and>
   snd (register (fst (register pending_vsync_batons_default 5)) 5) = Duplicate"
  using vsync_batons_are_a_queue [OF baton_run.intros(2) [OF baton_run.intros(1)], of 5 6]
  by (simp add: register_def pending_vsync_batons_default_def MAX_PENDING_VSYNC_BATONS_def)

end
