(* ===== verification/Buffer_Repair.thy ===== *)
theory Buffer_Repair
  imports Output_Broker
begin

text \<open>
  What the repair histories of the output buffers
  (\<open>compositor/src/bin/deniald/flutter_runtime/output_pipeline.rs\<close>, the \<open>damage\<close> of a slot) guarantee: beside
  the broker runs a ghost state of what the engine paints, and outside its history every buffer shows
  the newest scene.
\<close>

section \<open>The repair history\<close>

text \<open>
  What the embedder paints, as ghost state beside the broker: the newest scene of every output and the
  contents of every buffer. The engine may change the scene only inside the frame damage it reports (or
  report an unusable rectangle), and repaints at least the damage the buffer was handed with and what
  changed; a rendering that is abandoned may leave anything in its buffer.
\<close>

type_synonym 'c picture = "rat \<Rightarrow> rat \<Rightarrow> 'c"

definition frame_reports :: "pixel_size \<Rightarrow> flutter_rect list \<Rightarrow> rat \<Rightarrow> rat \<Rightarrow> bool" where
  "frame_reports extent frame_damage x y \<longleftrightarrow> (\<exists>r\<in>set frame_damage. flutter_covers r x y \<or>
     clip (damage_empty (uint (ps_width extent)) (uint (ps_height extent))) r = ClipInvalid)"

inductive painted_step ::
  "('f, 'b) output_buffer_broker \<Rightarrow> (output_id \<Rightarrow> 'c picture) \<Rightarrow> (output_id \<Rightarrow> nat \<Rightarrow> 'c picture) \<Rightarrow>
   ('f, 'b) output_buffer_broker \<Rightarrow> (output_id \<Rightarrow> 'c picture) \<Rightarrow> (output_id \<Rightarrow> nat \<Rightarrow> 'c picture) \<Rightarrow> bool" where
  paint_begin: "(\<And>out i. contents' out i \<noteq> contents out i \<Longrightarrow>
      \<exists>slot. slot_at b out i = Some slot \<and> state slot = Rendering) \<Longrightarrow>
    painted_step b scene contents (begin_transaction b) scene contents'"
| paint_authorize: "painted_step b scene contents (fst (authorize b req now)) scene contents"
| paint_cancel: "painted_step b scene contents (cancel_authorizations b views) scene contents"
| paint_expire: "painted_step b scene contents (fst (expire_authorizations b now)) scene contents"
| paint_acquire: "painted_step b scene contents (fst (acquire b view extent)) scene contents"
| paint_refused: "mark_ready_with_feedback b view fb frame_damage buffer_damage fd rendered sampled = (b', False) \<Longrightarrow>
    painted_step b scene contents b' scene contents"
| paint_ready: "mark_ready_with_feedback b view fb frame_damage buffer_damage fd rendered sampled = (b', True) \<Longrightarrow>
    find (\<lambda>pool. pool_render_view_id pool = view) (pools b) = Some pool \<Longrightarrow>
    position (\<lambda>slot. framebuffer slot = fb) (slots pool) = Some index \<Longrightarrow>
    out = pool_output_id pool \<Longrightarrow>
    (\<And>x y. scene' x y \<noteq> scene out x y \<Longrightarrow> frame_reports (pool_size pool) frame_damage x y) \<Longrightarrow>
    (\<And>x y. (\<exists>r\<in>set (write_flutter (damage (slots pool ! index)) []). flutter_covers r x y) \<or>
       scene' x y \<noteq> scene out x y \<Longrightarrow> repainted x y) \<Longrightarrow>
    painted_step b scene contents b' (scene(out := scene'))
      (contents(out := (contents out)(index := \<lambda>x y.
         if repainted x y then scene' x y else contents out index x y)))"
| paint_finish: "painted_step b scene contents (fst (finish_transaction b)) scene contents"
| paint_publish: "publish b frame = Inr b' \<Longrightarrow> painted_step b scene contents b' scene contents"
| paint_release: "release_output b out' index' = Inr b' \<Longrightarrow> painted_step b scene contents b' scene contents"
| paint_retain: "retain_output b out' index' = Inr b' \<Longrightarrow> painted_step b scene contents b' scene contents"
| paint_tag: "tag_next_frame_for_screenshot b out' sid = Inr b' \<Longrightarrow> painted_step b scene contents b' scene contents"
| paint_cancel_shot: "painted_step b scene contents (cancel_screenshot_frame b sid) scene contents"

inductive painted_run ::
  "output_pool_descriptor list \<Rightarrow> ('f, 'b) output_buffer_broker \<Rightarrow> (output_id \<Rightarrow> 'c picture) \<Rightarrow>
     (output_id \<Rightarrow> nat \<Rightarrow> 'c picture) \<Rightarrow> bool" for ds where
  painted_new: "broker_new ds = Inr b \<Longrightarrow> painted_run ds b scene contents"
| painted_next: "painted_run ds b scene contents \<Longrightarrow> painted_step b scene contents b' scene' contents' \<Longrightarrow>
    painted_run ds b' scene' contents'"

lemma painted_step_broker: "painted_step b scene contents b' scene' contents' \<Longrightarrow> broker_step b b'"
proof (induction rule: painted_step.induct)
  case (paint_refused b view fb frame_damage buffer_damage fd rendered sampled b' scene contents)
  then show ?case
    using step_ready [of b view fb frame_damage buffer_damage fd rendered sampled] by simp
next
  case (paint_ready b view fb frame_damage buffer_damage fd rendered sampled b')
  then show ?case
    using step_ready [of b view fb frame_damage buffer_damage fd rendered sampled] by simp
qed (auto intro: broker_step.intros)

lemma painted_run_broker: "painted_run ds b scene contents \<Longrightarrow> broker_run ds b"
  by (induction rule: painted_run.induct) (auto intro: run_new run_step painted_step_broker)

text \<open>Outside its repair history a buffer shows the newest scene.\<close>

definition pool_synced :: "'c picture \<Rightarrow> (nat \<Rightarrow> 'c picture) \<Rightarrow> damage_rect \<Rightarrow> damage_region list \<Rightarrow> bool" where
  "pool_synced scene contents box ds \<longleftrightarrow> (\<forall>i<length ds. \<forall>x y.
     covers box x y \<and> \<not> region_covers (ds ! i) x y \<longrightarrow> contents i x y = scene x y)"

definition in_sync ::
  "('f, 'b) output_buffer_broker \<Rightarrow> (output_id \<Rightarrow> 'c picture) \<Rightarrow> (output_id \<Rightarrow> nat \<Rightarrow> 'c picture) \<Rightarrow> bool" where
  "in_sync b scene contents \<longleftrightarrow> (\<forall>pool\<in>set (pools b). pool_synced (scene (pool_output_id pool))
     (contents (pool_output_id pool)) (pool_bounds pool) (map damage (slots pool)))"

definition damage_view :: "('f, 'b) output_buffer_pool \<Rightarrow> output_id \<times> damage_rect \<times> damage_region list" where
  "damage_view pool = (pool_output_id pool, pool_bounds pool, map damage (slots pool))"

lemma in_sync_view: "in_sync b scene contents \<longleftrightarrow> (\<forall>(out, box, ds)\<in>damage_view ` set (pools b).
    pool_synced (scene out) (contents out) box ds)"
  by (auto simp: in_sync_def damage_view_def)

lemma in_sync_same:
  "in_sync b scene contents \<Longrightarrow> map damage_view (pools b') = map damage_view (pools b) \<Longrightarrow> in_sync b' scene contents"
  unfolding in_sync_view using arg_cong [of _ _ set] by (simp only: list.set_map [symmetric])

lemma map_update_first_found:
  "(\<And>x. find P xs = Some x \<Longrightarrow> key (f x) = key x) \<Longrightarrow> map key (update_first P f xs) = map key xs"
  by (induction xs) auto

lemma set_slot_view:
  assumes "slot_at b out index = Some slot" "damage slot' = damage slot"
  shows "map damage_view (pools (set_slot b out index slot')) = map damage_view (pools b)"
  using assms unfolding set_slot_def slot_at_Some
  by (auto simp: damage_view_def pool_bounds_def map_list_update_same intro!: map_update_first_found)

lemma acquire_view: "map damage_view (pools (fst (acquire b view extent))) = map damage_view (pools b)"
proof -
  obtain b' r where a: "acquire b view extent = (b', r)"
    by fastforce
  from a show ?thesis
  proof (cases rule: acquire_cases)
    case (acquired pool authorization index)
    then show ?thesis
      by (auto simp: a damage_view_def pool_bounds_def acquired_slot_def map_list_update_same
          intro!: map_update_first_found)
  qed (simp add: a)
qed

lemma finish_pool_view: "pool_inv pool \<Longrightarrow> damage_view (fst (finish_pool txn pool)) = damage_view pool"
  by (rule finish_pool_cases [of pool txn])
    (auto simp: damage_view_def pool_bounds_def map_list_update_same)

lemma finish_transaction_view:
  assumes "broker_inv b"
  shows "map damage_view (pools (fst (finish_transaction b))) = map damage_view (pools b)"
  using assms by (simp add: finish_transaction_def Let_def finish_pool_view broker_inv_def)

lemma ownership_views:
  "publish b frame = Inr b' \<Longrightarrow> map damage_view (pools b') = map damage_view (pools b)"
  "release_output b out index = Inr b' \<Longrightarrow> map damage_view (pools b') = map damage_view (pools b)"
  "retain_output b out index = Inr b' \<Longrightarrow> map damage_view (pools b') = map damage_view (pools b)"
  "tag_next_frame_for_screenshot b out sid = Inr b' \<Longrightarrow> map damage_view (pools b') = map damage_view (pools b)"
  "map damage_view (pools (cancel_screenshot_frame b sid)) = map damage_view (pools b)"
  by (auto simp: publish_def release_output_def retain_output_def tag_next_frame_for_screenshot_def set_slot_view
      cancel_screenshot_frame_def damage_view_def pool_bounds_def split: option.splits if_splits)

lemma authorization_views:
  "map damage_view (pools (fst (authorize b req now))) = map damage_view (pools b)"
  "map damage_view (pools (cancel_authorizations b views)) = map damage_view (pools b)"
  "map damage_view (pools (fst (expire_authorizations b now))) = map damage_view (pools b)"
  by (auto simp: authorize_def cancel_authorizations_def expire_authorizations_def damage_view_def pool_bounds_def
      intro!: map_update_first split: option.splits)

lemma begin_in_sync:
  assumes inv: "broker_inv b" and sync: "in_sync b scene contents"
    and keep: "\<And>out i. contents' out i \<noteq> contents out i \<Longrightarrow> \<exists>slot. slot_at b out i = Some slot \<and> state slot = Rendering"
  shows "in_sync (begin_transaction b) scene contents'"
  unfolding in_sync_def pool_synced_def
proof (intro ballI allI impI)
  fix pool' i x y
  assume "pool' \<in> set (pools (begin_transaction b))"
  then obtain pool where pool: "pool \<in> set (pools b)" "pool' = pool\<lparr>slots := map abandon_rendering (slots pool)\<rparr>"
    by (auto simp: begin_transaction_def)
  assume i: "i < length (map damage (slots pool'))"
    and c: "covers (pool_bounds pool') x y \<and> \<not> region_covers (map damage (slots pool') ! i) x y"
  have box: "pool_bounds pool' = pool_bounds pool"
    by (simp add: pool pool_bounds_def)
  let ?slot = "slots pool ! i"
  have slot: "slot_inv (pool_bounds pool) ?slot"
    using inv pool i by (simp add: broker_inv_def pool_inv_def)
  have "state ?slot \<noteq> Rendering"
  proof
    assume r: "state ?slot = Rendering"
    then have "output_refs ?slot = 0" "region_inv (damage ?slot)" "bounds (damage ?slot) = pool_bounds pool"
      using slot by (auto simp: slot_inv_def busy_def)
    then have "region_covers (map damage (slots pool') ! i) x y \<longleftrightarrow> covers (pool_bounds pool) x y"
      using r i pool set_full_correct(3) [of "damage ?slot"] by (simp add: abandon_rendering_def damage_invalidate_def)
    then show False
      using c box by simp
  qed
  moreover have "slot_at b (pool_output_id pool) i = Some ?slot"
    using find_key [of pool_output_id "pools b" pool] inv pool(1) i by (simp add: slot_at_Some broker_inv_def pool(2))
  ultimately have "contents' (pool_output_id pool) i = contents (pool_output_id pool) i"
    using keep [of "pool_output_id pool" i] by auto
  moreover have "map damage (slots pool') ! i = damage ?slot"
    using \<open>state ?slot \<noteq> Rendering\<close> i pool by (simp add: abandon_rendering_def)
  ultimately show "contents' (pool_output_id pool') i x y = scene (pool_output_id pool') x y"
    using sync pool i c box by (simp add: in_sync_def pool_synced_def)
qed
lemma flutter_covers_as_flutter: "flutter_covers (as_flutter r) x y \<longleftrightarrow> covers r x y"
  by (simp add: flutter_covers_def as_flutter_def covers_def)

lemma written_damage_covers: "(\<exists>r\<in>set (write_flutter d []). flutter_covers r x y) \<longleftrightarrow> region_covers d x y"
  by (simp add: write_flutter_def region_covers_def flutter_covers_as_flutter)

lemma frame_region_covers:
  assumes "frame_reports extent frame_damage x y"
    and "covers (bounds (damage_empty (uint (ps_width extent)) (uint (ps_height extent)))) x y"
  shows "region_covers (damage_of_rects extent frame_damage) x y"
  using replace_from_flutter_correct [OF damage_empty_inv [OF uint_u32 uint_u32], of "ps_width extent" "ps_height extent" frame_damage]
    assms unfolding frame_reports_def damage_of_rects_def by blast

lemma ready_in_sync:
  assumes inv: "broker_inv b" and sync: "in_sync b scene contents"
    and ready: "mark_ready_with_feedback b view fb frame_damage buffer_damage fd rendered sampled = (b', True)"
    and pool: "find (\<lambda>pool. pool_render_view_id pool = view) (pools b) = Some pool"
    and index: "position (\<lambda>slot. framebuffer slot = fb) (slots pool) = Some index"
    and changed: "\<And>x y. scene' x y \<noteq> scene (pool_output_id pool) x y \<Longrightarrow> frame_reports (pool_size pool) frame_damage x y"
    and repaint: "\<And>x y. (\<exists>r\<in>set (write_flutter (damage (slots pool ! index)) []). flutter_covers r x y) \<or>
       scene' x y \<noteq> scene (pool_output_id pool) x y \<Longrightarrow> repainted x y"
  shows "in_sync b' (scene(pool_output_id pool := scene'))
      (contents(pool_output_id pool := (contents (pool_output_id pool))(index := \<lambda>x y.
         if repainted x y then scene' x y else contents (pool_output_id pool) index x y)))"
    (is "in_sync b' ?scene ?contents")
  unfolding in_sync_def
proof
  let ?f = "\<lambda>pool. mark_slot_ready pool index frame_damage buffer_damage fd rendered sampled (transaction b)"
  have b': "b' = b\<lparr>pools := update_first (\<lambda>pool. pool_render_view_id pool = view) ?f (pools b)\<rparr>"
    and rendering: "state (slots pool ! index) = Rendering"
    using ready pool index by (auto elim!: mark_ready_cases)
  have i: "index < length (slots pool)"
    using position_Some [OF index] by simp
  have mem: "pool \<in> set (pools b)" "pool_inv pool"
    using broker_pool [OF inv pool] by simp_all
  have dist: "distinct (map pool_output_id (pools b))"
    using inv by (simp add: broker_inv_def)
  have old: "contents (pool_output_id pool) j x y = scene (pool_output_id pool) x y"
    if "j < length (slots pool)" "covers (pool_bounds pool) x y" "\<not> region_covers (damage (slots pool ! j)) x y" for j x y
    using sync mem(1) that by (simp add: in_sync_def pool_synced_def)
  fix pool'
  assume pool': "pool' \<in> set (pools b')"
  show "pool_synced (?scene (pool_output_id pool')) (?contents (pool_output_id pool')) (pool_bounds pool')
      (map damage (slots pool'))"
  proof (cases "pool_output_id pool' = pool_output_id pool")
    case False
    have "find (\<lambda>y. pool_output_id y = pool_output_id pool) (pools b') = Some (?f pool)"
      unfolding b' using find_update_first_key [OF pool, of pool_output_id ?f] dist by simp
    have "pool' \<in> set (pools b)"
      using pool' False pool unfolding b' by (auto dest!: update_first_member)
    then show ?thesis
      using sync False by (simp add: in_sync_def)
  next
    case True
    have "find (\<lambda>y. pool_output_id y = pool_output_id pool) (pools b') = Some (?f pool)"
      unfolding b' using find_update_first_key [OF pool, of pool_output_id ?f] dist by simp
    moreover have "map pool_output_id (pools b') = map pool_output_id (pools b)"
      unfolding b' by (simp add: map_update_first)
    ultimately have eq: "pool' = ?f pool"
      using find_key [of pool_output_id "pools b'" pool'] pool' dist True by simp
    show ?thesis
      unfolding pool_synced_def
    proof (intro allI impI)
      fix j x y
      assume j: "j < length (map damage (slots pool'))"
        and c: "covers (pool_bounds pool') x y \<and> \<not> region_covers (map damage (slots pool') ! j) x y"
      note res = mark_slot_ready_slots [OF i refl, where frame_damage = frame_damage and buffer_damage = buffer_damage
          and fd = fd and rendered = rendered and fb = sampled and txn = "transaction b"]
      have jl: "j < length (slots pool)"
        using j by (simp add: eq res(1))
      have box: "covers (pool_bounds pool) x y"
        using c by (simp add: eq)
      show "?contents (pool_output_id pool') j x y = ?scene (pool_output_id pool') x y"
      proof (cases "j = index")
        case True
        have "contents (pool_output_id pool) index x y = scene' x y" if "\<not> repainted x y"
          using repaint [of x y] old [OF i box] that unfolding written_damage_covers by metis
        then show ?thesis
          by (simp add: \<open>pool_output_id pool' = pool_output_id pool\<close> True)
      next
        case False
        have d: "damage (slots pool' ! j) = damage_union (damage (slots pool ! j)) (damage_of_rects (pool_size pool) frame_damage)"
          using False by (simp add: eq res(2) [OF jl])
        have s: "region_inv (damage (slots pool ! j))" "bounds (damage (slots pool ! j)) = pool_bounds pool"
          using mem(2) jl by (simp_all add: pool_inv_def slot_inv_def)
        have "\<not> region_covers (damage_union (damage (slots pool ! j)) (damage_of_rects (pool_size pool) frame_damage)) x y"
          using c j by (simp add: d [symmetric])
        then have n: "\<not> region_covers (damage (slots pool ! j)) x y"
          "\<not> region_covers (damage_of_rects (pool_size pool) frame_damage) x y"
          using damage_union_correct [OF s(1) damage_of_rects_inv(1), of "pool_size pool" frame_damage] s(2)
          by (auto simp: pool_bounds_def damage_of_rects_inv(2))
        then have "scene' x y = scene (pool_output_id pool) x y"
          using changed [of x y] frame_region_covers [of "pool_size pool" frame_damage x y] box
          by (auto simp: pool_bounds_def)
        then show ?thesis
          using old [OF jl box n(1)] False by (simp add: \<open>pool_output_id pool' = pool_output_id pool\<close>)
      qed
    qed
  qed
qed

lemma painted_step_in_sync:
  "painted_step b scene contents b' scene' contents' \<Longrightarrow> broker_inv b \<Longrightarrow> in_sync b scene contents \<Longrightarrow>
   in_sync b' scene' contents'"
proof (induction rule: painted_step.induct)
  case (paint_begin contents' contents b scene)
  then show ?case
    by (intro begin_in_sync)
next
  case (paint_refused b view fb frame_damage buffer_damage fd rendered sampled b' scene contents)
  then show ?case
    by (auto elim!: mark_ready_cases)
next
  case (paint_ready b view fb frame_damage buffer_damage fd rendered sampled b' pool index out scene' scene repainted contents)
  show ?case
    unfolding paint_ready(4)
    by (rule ready_in_sync [OF paint_ready(7,8,1-3)]) (use paint_ready(4-6) in auto)
qed (auto intro: in_sync_same authorization_views acquire_view finish_transaction_view ownership_views)

lemma collect_pools_pool_of:
  "collect_pools generation outs views fbs ds = Inr ps \<Longrightarrow> \<forall>pool\<in>set ps. \<exists>d. pool = pool_of d"
  by (induction generation outs views fbs ds arbitrary: ps rule: collect_pools.induct)
    (auto simp: result_simps split: if_splits option.splits)

lemma broker_new_full:
  assumes "broker_new ds = Inr b" "pool \<in> set (pools b)" "slot \<in> set (slots pool)" "covers (pool_bounds pool) x y"
  shows "region_covers (damage slot) x y"
proof -
  obtain d where d: "pool = pool_of d"
    using assms(1,2) collect_pools_pool_of by (auto simp: broker_new_def result_simps split: if_splits) blast
  let ?d = "damage_empty (uint (ps_width (opd_size d))) (uint (ps_height (opd_size d)))"
  have "damage slot = set_full ?d"
    using assms(3) by (auto simp: d pool_of_def initial_slot_def damage_full_def)
  then show ?thesis
    using assms(4) set_full_correct(3) [OF damage_empty_inv [OF uint_u32 uint_u32]]
    by (simp add: d pool_of_def pool_bounds_def)
qed

text \<open>C4: Along every history of a broker and whatever the engine paints within its contract, each buffer
  shows the newest scene at every point outside the repair history it keeps, and a frame that is ready or
  pending publication shows it everywhere.\<close>

theorem buffers_show_scene_outside_damage:
  assumes "painted_run ds b scene contents" and "pool \<in> set (pools b)" and "index < length (slots pool)"
    and "covers (pool_bounds pool) x y"
    and "state (slots pool ! index) \<in> {Ready, Pending} \<or> \<not> region_covers (damage (slots pool ! index)) x y"
  shows "contents (pool_output_id pool) index x y = scene (pool_output_id pool) x y"
proof -
  have inv: "broker_inv b"
    by (rule broker_run_inv [OF painted_run_broker [OF assms(1)]])
  have "in_sync b scene contents"
    using assms(1)
  proof (induction rule: painted_run.induct)
    case (painted_new b scene contents)
    have "region_covers (damage slot) x y" if "pool \<in> set (pools b)" "slot \<in> set (slots pool)"
      "covers (pool_bounds pool) x y" for pool slot x y
      by (rule broker_new_full [OF painted_new that])
    then show ?case
      by (auto simp: in_sync_def pool_synced_def)
  next
    case (painted_next b scene contents b' scene' contents')
    then show ?case
      using painted_step_in_sync broker_run_inv [OF painted_run_broker [OF painted_next(1)]] by blast
  qed
  moreover have "\<not> region_covers (damage (slots pool ! index)) x y"
  proof -
    have "slot_inv (pool_bounds pool) (slots pool ! index)"
      using inv assms(2,3) by (simp add: broker_inv_def pool_inv_def)
    then show ?thesis
      using assms(5) by (auto simp: slot_inv_def is_empty_def region_covers_def as_slice_def)
  qed
  ultimately show ?thesis
    using assms(2-4) by (simp add: in_sync_def pool_synced_def)
qed
lemma sample_ready:
  "mark_ready_with_feedback (fst (acquire (fst (authorize (begin_transaction sample_broker) sample_request 0)) (-1)
     \<lparr>ps_width = 100, ps_height = 50\<rparr>)) (-1) 12 [] [] None None [] = (sample_rendered, True)"
  "\<exists>pool. find (\<lambda>pool. pool_render_view_id pool = -1) (pools (fst (acquire (fst (authorize
     (begin_transaction sample_broker) sample_request 0)) (-1) \<lparr>ps_width = 100, ps_height = 50\<rparr>))) = Some pool \<and>
     position (\<lambda>slot. framebuffer slot = 12) (slots pool) = Some 1 \<and> pool_output_id pool = 7"
  "\<exists>pool. pools sample_rendered = [pool] \<and> pool_output_id pool = 7 \<and> 1 < length (slots pool) \<and>
     state (slots pool ! 1) = Ready \<and> pool_bounds pool = bounds (damage_empty 100 50)"
  by (simp_all add: sample_rendered_def mark_ready_with_feedback_def acquire_def authorize_def
      target_available_def begin_transaction_def abandon_rendering_def sample_broker_def sample_request_def sample_tick_def
      pool_of_def sample_pool_def initial_slot_def slot_acquirable_def acquired_slot_def mark_slot_ready_def
      Let_def max_one_word pool_bounds_def)

lemma buffers_show_scene_outside_damage_witness:
  "\<exists>contents. painted_run [sample_pool] sample_rendered (\<lambda>out x y. 0 :: nat) contents \<and> contents 7 1 20 30 = 0"
proof -
  let ?scene = "(\<lambda>out x y. 0) :: output_id \<Rightarrow> nat picture"
    and ?contents = "(\<lambda>out i x y. 9) :: output_id \<Rightarrow> nat \<Rightarrow> nat picture"
  let ?b = "fst (acquire (fst (authorize (begin_transaction sample_broker) sample_request 0)) (-1)
     \<lparr>ps_width = 100, ps_height = 50\<rparr>)"
  have "broker_new [sample_pool] = Inr sample_broker"
    by (simp add: broker_new_def sample_broker_def sample_pool_def)
  note run0 = painted_next [OF painted_new [OF this, of ?scene ?contents] paint_begin [of ?contents ?contents]]
  have run: "painted_run [sample_pool] ?b ?scene ?contents"
    by (rule painted_next [OF painted_next [OF run0 paint_authorize] paint_acquire]) simp
  obtain pool where pool: "find (\<lambda>pool. pool_render_view_id pool = -1) (pools ?b) = Some pool"
    "position (\<lambda>slot. framebuffer slot = 12) (slots pool) = Some 1" "7 = pool_output_id pool"
    using sample_ready(2) by auto
  obtain contents where run': "painted_run [sample_pool] sample_rendered (?scene(7 := \<lambda>x y. 0)) contents"
    using painted_next [OF run paint_ready [OF sample_ready(1) pool, of "\<lambda>x y. 0" ?scene "\<lambda>x y. True" ?contents]]
    by auto
  obtain pool' where pool': "pools sample_rendered = [pool']" "pool_output_id pool' = 7" "1 < length (slots pool')"
     "state (slots pool' ! 1) = Ready" "pool_bounds pool' = bounds (damage_empty 100 50)"
    using sample_ready(3) by auto
  have "covers (pool_bounds pool') 20 30"
    unfolding pool'(5) by (simp add: damage_empty_def covers_def)
  then have "contents (pool_output_id pool') 1 20 30 = (?scene(7 := \<lambda>x y. 0)) (pool_output_id pool') 20 30"
    using pool' by (intro buffers_show_scene_outside_damage [OF run']) simp_all
  moreover have "?scene(7 := \<lambda>x y. 0) = ?scene"
    by (rule ext) simp
  ultimately show ?thesis
    using run' pool'(2) by auto
qed

end
