(* ===== verification/Output_Frames.thy ===== *)
theory Output_Frames
  imports Output_Broker
begin

text \<open>
  The parts of the output scheduler that concern one output
  (\<open>compositor/src/bin/deniald/output_scheduler.rs\<close>): the ready and in-flight frame of a pipeline, the
  fence of a native buffer, the presentation watchdog, the retries of a DPMS wake; and the damage clips a
  plane commit carries (\<open>compositor/src/volition/mod.rs\<close>).
\<close>

section \<open>Damage clips of a plane\<close>

type_synonym plane_clip = "int \<times> int \<times> int \<times> int"

definition MAX_PLANE_DAMAGE_CLIPS :: nat where "MAX_PLANE_DAMAGE_CLIPS = 32"

definition bounding_clip :: "plane_clip \<Rightarrow> plane_clip \<Rightarrow> plane_clip" where
  "bounding_clip a b = (case (a, b) of ((al, atop, ar, ab), (bl, bt, br, bb)) \<Rightarrow>
     (min al bl, min atop bt, max ar br, max ab bb))"

definition proper_clip :: "plane_clip \<Rightarrow> bool" where
  "proper_clip c \<longleftrightarrow> (case c of (l, t, r, b) \<Rightarrow> l < r \<and> t < b)"

text \<open>The first \<open>len\<close> entries of the fixed array.\<close>

definition plane_damage_new :: "plane_clip list \<Rightarrow> plane_clip list" where
  "plane_damage_new clips0 =
     (let clips = filter proper_clip clips0; kept = take MAX_PLANE_DAMAGE_CLIPS clips
      in case drop MAX_PLANE_DAMAGE_CLIPS clips of
           [] \<Rightarrow> kept
         | extra # rest \<Rightarrow> [foldl bounding_clip (foldl bounding_clip extra kept) rest])"

section \<open>The frames of a pipeline\<close>

definition PRESENTATION_STALL_TIMEOUT :: duration where "PRESENTATION_STALL_TIMEOUT = 2 * 1000000000"
definition DPMS_WAKE_TOPOLOGY_GRACE :: duration where "DPMS_WAKE_TOPOLOGY_GRACE = 5 * 1000000000"
definition DPMS_WAKE_RETRY_INTERVAL :: duration where "DPMS_WAKE_RETRY_INTERVAL = 16 * 1000000"
definition DPMS_WAKE_RECOVERY_TIMEOUT :: duration where "DPMS_WAKE_RECOVERY_TIMEOUT = DPMS_WAKE_TOPOLOGY_GRACE"
definition ELAPSED_READY_TARGET_TOLERANCE :: duration where "ELAPSED_READY_TARGET_TOLERANCE = 1000000"

record commit_id =
  stream :: nat
  commit_frame :: nat

record 'b output_frame =
  of_index :: nat
  of_screenshot_request_id :: "u64 option"
  of_request :: output_frame_request
  of_submitted_at :: instant
  of_damage :: "plane_clip list"
  of_feedback :: "'b list"

definition ready_target_elapsed :: "'b output_frame \<Rightarrow> instant \<Rightarrow> bool" where
  "ready_target_elapsed frame shown_at \<longleftrightarrow>
     (if of_screenshot_request_id frame \<noteq> None then False
      else
        let tolerance = min ELAPSED_READY_TARGET_TOLERANCE (ft_interval (ofr_tick (of_request frame)) div 4)
        in saturating_duration_since (ft_presentation_target (ofr_tick (of_request frame))) shown_at \<le> tolerance)"

record 'b scheduled_frame =
  sf_commit :: commit_id
  sf_frame :: "'b output_frame"

datatype 'b in_flight_frame = Scheduled "'b scheduled_frame" | Submitted "'b output_frame"

datatype 'b completion_retirement = Retired "'b output_frame" | Deferred | Stale

record 'b output_pipeline_frames =
  ready :: "'b output_frame option"
  in_flight :: "'b in_flight_frame option"

definition output_pipeline_frames_default :: "'b output_pipeline_frames" where
  "output_pipeline_frames_default = \<lparr>ready = None, in_flight = None\<rparr>"

definition frames_render_available :: "'b output_pipeline_frames \<Rightarrow> bool" where
  "frames_render_available fs \<longleftrightarrow> ready fs = None"

definition install_ready ::
  "'b output_pipeline_frames \<Rightarrow> 'b output_frame \<Rightarrow> string + 'b output_pipeline_frames" where
  "install_ready fs frame =
     (if ready fs \<noteq> None then Inl ''an output successor is already ready''
      else Inr (fs\<lparr>ready := Some frame\<rparr>))"

definition schedule_ready ::
  "'b output_pipeline_frames \<Rightarrow> commit_id \<Rightarrow> string + 'b output_pipeline_frames" where
  "schedule_ready fs commit =
     (if in_flight fs \<noteq> None then Inl ''an output generation is already in Volition or KMS''
      else case ready fs of
        None \<Rightarrow> Inl ''an output successor is not ready''
      | Some frame \<Rightarrow>
          Inr (fs\<lparr>ready := None, in_flight := Some (Scheduled \<lparr>sf_commit = commit, sf_frame = frame\<rparr>)\<rparr>))"

definition scheduled_commit :: "'b output_pipeline_frames \<Rightarrow> commit_id option" where
  "scheduled_commit fs =
     (case in_flight fs of Some (Scheduled frame) \<Rightarrow> Some (sf_commit frame) | _ \<Rightarrow> None)"

definition acknowledge_submission ::
  "'b output_pipeline_frames \<Rightarrow> commit_id \<Rightarrow> instant \<Rightarrow> string + nat \<times> 'b output_pipeline_frames" where
  "acknowledge_submission fs commit submitted =
     (case in_flight fs of
        Some (Scheduled scheduled) \<Rightarrow>
          if sf_commit scheduled = commit
          then Inr (of_index (sf_frame scheduled),
            fs\<lparr>in_flight := Some (Submitted ((sf_frame scheduled)\<lparr>of_submitted_at := submitted\<rparr>))\<rparr>)
          else Inl ''Volition submission does not match the scheduled output generation''
      | _ \<Rightarrow> Inl ''Volition submission does not match the scheduled output generation'')"

definition submitted_frame :: "'b output_pipeline_frames \<Rightarrow> 'b output_frame option" where
  "submitted_frame fs = (case in_flight fs of Some (Submitted frame) \<Rightarrow> Some frame | _ \<Rightarrow> None)"

definition retire_completion ::
  "'b output_pipeline_frames \<Rightarrow> 'b output_pipeline_frames \<times> 'b completion_retirement" where
  "retire_completion fs =
     (case in_flight fs of
        Some (Scheduled _) \<Rightarrow> (fs, Deferred)
      | Some (Submitted frame) \<Rightarrow> (fs\<lparr>in_flight := None\<rparr>, Retired frame)
      | None \<Rightarrow> (fs, Stale))"

definition take_ready :: "'b output_pipeline_frames \<Rightarrow> 'b output_pipeline_frames \<times> 'b output_frame option" where
  "take_ready fs = (fs\<lparr>ready := None\<rparr>, ready fs)"

definition has_work :: "'b output_pipeline_frames \<Rightarrow> bool" where
  "has_work fs \<longleftrightarrow> ready fs \<noteq> None \<or> in_flight fs \<noteq> None"

definition presentation_stall_age :: "instant \<Rightarrow> instant \<Rightarrow> duration option" where
  "presentation_stall_age submitted now =
     (let elapsed = saturating_duration_since now submitted
      in if PRESENTATION_STALL_TIMEOUT \<le> elapsed then Some elapsed else None)"

definition presentation_watchdog_remaining :: "instant \<Rightarrow> instant \<Rightarrow> duration" where
  "presentation_watchdog_remaining submitted now =
     PRESENTATION_STALL_TIMEOUT - saturating_duration_since now submitted"

section \<open>The fence of a buffer\<close>

record 'f ready_fence_slot =
  slot_fence :: "'f option"
  users :: nat
  token :: u64
  signaled :: bool
  discard_users_on_signal :: nat

definition ready_fence_slot_default :: "'f ready_fence_slot" where
  "ready_fence_slot_default = \<lparr>slot_fence = None, users = 0, token = 0, signaled = False, discard_users_on_signal = 0\<rparr>"

definition fence_available :: "'f ready_fence_slot \<Rightarrow> bool" where
  "fence_available slot \<longleftrightarrow> users slot = 0 \<and> slot_fence slot = None \<and> token slot = 0 \<and> \<not> signaled slot \<and>
     discard_users_on_signal slot = 0"

definition claim :: "'f ready_fence_slot \<Rightarrow> 'f option \<Rightarrow> nat \<Rightarrow> u64 \<Rightarrow> string + 'f ready_fence_slot" where
  "claim slot fd n tok =
     (if n = 0 \<or> tok = 0 \<or> \<not> fence_available slot
      then Inl ''Flutter fence slot is already claimed or has no users''
      else Inr (slot\<lparr>signaled := fd = None, slot_fence := fd, users := n, token := tok\<rparr>))"

definition mark_signaled :: "'f ready_fence_slot \<Rightarrow> u64 \<Rightarrow> 'f ready_fence_slot \<times> bool" where
  "mark_signaled slot tok =
     (if tok = 0 \<or> tok \<noteq> token slot \<or> users slot = 0 then (slot, False)
      else (slot\<lparr>signaled := True\<rparr>, True))"

definition discard_user_when_signaled :: "'f ready_fence_slot \<Rightarrow> string + 'f ready_fence_slot" where
  "discard_user_when_signaled slot =
     (if signaled slot \<or> users slot \<le> discard_users_on_signal slot
      then Inl ''Flutter fence discard does not reference a pending GPU user''
      else Inr (slot\<lparr>discard_users_on_signal := discard_users_on_signal slot + 1\<rparr>))"

definition release_user :: "'f ready_fence_slot \<Rightarrow> string + 'f ready_fence_slot" where
  "release_user slot =
     (if users slot = 0 then Inl ''Flutter frame has no pending fence user''
      else
        let slot' = slot\<lparr>users := users slot - 1\<rparr>
        in Inr (if users slot' = 0
                then slot'\<lparr>slot_fence := None, token := 0, signaled := False, discard_users_on_signal := 0\<rparr>
                else slot'))"

text \<open>The token counter: \<open>fetch_add\<close> until the value is not zero. It returns the token and the counter.\<close>

function next_ready_fence_token :: "u64 \<Rightarrow> u64 \<times> u64" where
  "next_ready_fence_token counter =
     (if counter \<noteq> 0 then (counter, counter + 1) else next_ready_fence_token (counter + 1))"
  by pat_completeness auto

termination
  by (relation "measure (\<lambda>counter. if counter = 0 then 1 else 0)") auto

declare next_ready_fence_token.simps [simp del]

section \<open>Waking an output\<close>

record wake_modeset =
  retry_at :: instant
  failure_started_at :: "instant option"

record wake_failure_disposition =
  first_failure :: bool
  recovery_required :: bool

definition wake_modeset_new :: "instant \<Rightarrow> wake_modeset" where
  "wake_modeset_new now = \<lparr>retry_at = now, failure_started_at = None\<rparr>"

definition record_failure :: "wake_modeset \<Rightarrow> instant \<Rightarrow> wake_modeset \<times> wake_failure_disposition" where
  "record_failure wake now =
     (let first_failure = failure_started_at wake = None;
          failed_since = (case failure_started_at wake of None \<Rightarrow> now | Some t \<Rightarrow> t)
      in (wake\<lparr>failure_started_at := Some failed_since, retry_at := now + int DPMS_WAKE_RETRY_INTERVAL\<rparr>,
          \<lparr>first_failure = first_failure,
           recovery_required = DPMS_WAKE_RECOVERY_TIMEOUT \<le> saturating_duration_since now failed_since\<rparr>))"

section \<open>The clips cover the damage\<close>

definition in_clip :: "int \<Rightarrow> int \<Rightarrow> plane_clip \<Rightarrow> bool" where
  "in_clip x y c \<longleftrightarrow> (case c of (l, t, r, b) \<Rightarrow> l \<le> x \<and> x < r \<and> t \<le> y \<and> y < b)"

lemma in_clip_proper: "in_clip x y c \<Longrightarrow> proper_clip c"
  by (auto simp: in_clip_def proper_clip_def)

lemma in_bounding_clip: "in_clip x y a \<or> in_clip x y b \<Longrightarrow> in_clip x y (bounding_clip a b)"
  by (auto simp: in_clip_def bounding_clip_def split: prod.splits)

lemma bounding_clip_proper: "proper_clip a \<Longrightarrow> proper_clip b \<Longrightarrow> proper_clip (bounding_clip a b)"
  by (auto simp: proper_clip_def bounding_clip_def split: prod.splits)

lemma in_foldl_bounding: "in_clip x y c \<or> (\<exists>d\<in>set ds. in_clip x y d) \<Longrightarrow> in_clip x y (foldl bounding_clip c ds)"
proof (induction ds arbitrary: c)
  case (Cons d ds)
  have "in_clip x y (bounding_clip c d) \<or> (\<exists>e\<in>set ds. in_clip x y e)"
    using Cons.prems in_bounding_clip by (metis set_ConsD)
  then show ?case
    using Cons.IH by simp
qed simp

lemma foldl_bounding_proper: "proper_clip c \<Longrightarrow> list_all proper_clip ds \<Longrightarrow> proper_clip (foldl bounding_clip c ds)"
  by (induction ds arbitrary: c) (auto simp: bounding_clip_proper)

lemma foldl_bounding_within:
  "foldl bounding_clip (l, t, r, b) ds = (l', t', r', b') \<Longrightarrow>
     l' \<in> fst ` insert (l, t, r, b) (set ds) \<and> t' \<in> (fst \<circ> snd) ` insert (l, t, r, b) (set ds) \<and>
     r' \<in> (fst \<circ> snd \<circ> snd) ` insert (l, t, r, b) (set ds) \<and> b' \<in> (snd \<circ> snd \<circ> snd) ` insert (l, t, r, b) (set ds)"
proof (induction ds arbitrary: l t r b)
  case (Cons d ds)
  obtain l2 t2 r2 b2 where d: "d = (l2, t2, r2, b2)"
    by (cases d)
  show ?case
    using Cons.IH [of "min l l2" "min t t2" "max r r2" "max b b2"] Cons.prems
    by (simp add: d bounding_clip_def) (auto simp: min_def max_def split: if_splits)
qed simp

text \<open>C39: The damage a plane commit carries fits the fixed array of clips, consists of proper rectangles, covers
  every point of the damage it was made from, and its edges are edges of that damage: it covers too much only
  when there are too many clips, and then never beyond the bounding box.\<close>

theorem plane_damage_covers:
  assumes "result = plane_damage_new clips"
  shows "length result \<le> MAX_PLANE_DAMAGE_CLIPS \<and> list_all proper_clip result \<and>
    (\<forall>x y. (\<exists>c\<in>set clips. in_clip x y c) \<longrightarrow> (\<exists>c\<in>set result. in_clip x y c)) \<and>
    (\<forall>(l, t, r, b)\<in>set result. l \<in> fst ` set clips \<and> t \<in> (fst \<circ> snd) ` set clips \<and>
       r \<in> (fst \<circ> snd \<circ> snd) ` set clips \<and> b \<in> (snd \<circ> snd \<circ> snd) ` set clips)"
proof -
  let ?clips = "filter proper_clip clips"
  have cover: "\<exists>c\<in>set ?clips. in_clip x y c" if "\<exists>c\<in>set clips. in_clip x y c" for x y
  proof -
    from that obtain c where "c \<in> set clips" "in_clip x y c"
      by blast
    then have "c \<in> set ?clips"
      using in_clip_proper by simp
    then show ?thesis
      using \<open>in_clip x y c\<close> by (rule bexI [rotated])
  qed
  show ?thesis
  proof (cases "drop MAX_PLANE_DAMAGE_CLIPS ?clips")
    case Nil
    then have r: "result = ?clips" "length ?clips \<le> MAX_PLANE_DAMAGE_CLIPS"
      using assms by (simp_all add: plane_damage_new_def Let_def)
    have "l \<in> fst ` set clips \<and> t \<in> (fst \<circ> snd) ` set clips \<and>
        r \<in> (fst \<circ> snd \<circ> snd) ` set clips \<and> b \<in> (snd \<circ> snd \<circ> snd) ` set clips" if "(l, t, r, b) \<in> set clips" for l t r b
      using that by force
    then show ?thesis
      using r cover by (auto simp: list_all_iff)
  next
    case (Cons extra rest)
    let ?kept = "take MAX_PLANE_DAMAGE_CLIPS ?clips"
    have r: "result = [foldl bounding_clip extra (?kept @ rest)]"
      using assms Cons by (simp add: plane_damage_new_def Let_def)
    have all: "set ?clips = insert extra (set (?kept @ rest))"
      using arg_cong [OF append_take_drop_id [of MAX_PLANE_DAMAGE_CLIPS ?clips], of set] unfolding Cons by auto
    have "list_all proper_clip (extra # ?kept @ rest)"
      using all by (auto simp: list_all_iff)
    then have proper: "proper_clip (foldl bounding_clip extra (?kept @ rest))"
      by (intro foldl_bounding_proper) simp_all
    obtain l t r b where extra: "extra = (l, t, r, b)"
      by (cases extra)
    obtain l' t' r' b' where f: "foldl bounding_clip (l, t, r, b) (?kept @ rest) = (l', t', r', b')"
      by (cases "foldl bounding_clip (l, t, r, b) (?kept @ rest)")
    have sub: "insert (l, t, r, b) (set (?kept @ rest)) \<subseteq> set clips"
      using all extra by auto
    show ?thesis
    proof (intro conjI)
      show "\<forall>x y. (\<exists>c\<in>set clips. in_clip x y c) \<longrightarrow> (\<exists>c\<in>set result. in_clip x y c)"
        using cover in_foldl_bounding [of _ _ extra "?kept @ rest"] unfolding all r by (metis insertE list.set_intros(1))
      show "\<forall>(l, t, r, b)\<in>set result. l \<in> fst ` set clips \<and> t \<in> (fst \<circ> snd) ` set clips \<and>
          r \<in> (fst \<circ> snd \<circ> snd) ` set clips \<and> b \<in> (snd \<circ> snd \<circ> snd) ` set clips"
      proof -
        note w = foldl_bounding_within [OF f]
        have "l' \<in> fst ` set clips" "t' \<in> (fst \<circ> snd) ` set clips"
            "r' \<in> (fst \<circ> snd \<circ> snd) ` set clips" "b' \<in> (snd \<circ> snd \<circ> snd) ` set clips"
          by (rule subsetD [OF image_mono [OF sub]], use w in blast)+
        then show ?thesis
          unfolding r extra f by simp
      qed
    qed (use r proper in \<open>simp_all add: MAX_PLANE_DAMAGE_CLIPS_def\<close>)
  qed
qed

lemma plane_damage_covers_witness:
  "\<exists>c\<in>set (plane_damage_new [(0, 0, 4, 4), (2, 2, 2, 9)]). in_clip 1 1 c"
proof -
  have "\<exists>c\<in>set [(0, 0, 4, 4), (2, 2, 2, 9)]. in_clip 1 1 c"
    by (simp add: in_clip_def)
  then show ?thesis
    using plane_damage_covers [OF refl, of "[(0, 0, 4, 4), (2, 2, 2, 9)]"] by blast
qed

end
