(* ===== verification/Output_Scheduler.thy ===== *)
theory Output_Scheduler
  imports Output_Frames
begin

text \<open>
  The output scheduler (\<open>compositor/src/bin/deniald/output_scheduler.rs\<close>) over the buffer broker: it
  publishes the frames the engine rendered, hands them to the commit engine, retires page flips, and
  parks and wakes outputs. What it asks of the kernel, of the commit engine and of the Wayland frontend
  is a parameter of the operation that asks; an error is returned at once and ends the event loop, so
  that the state behind it is not modelled. The audit counters are left out.
\<close>

section \<open>State\<close>

record ('b, 'p) output_pipeline =
  op_output_id :: output_id
  op_scanout_index :: nat
  scanning :: nat
  scanning_screenshot_request_id :: "u64 option"
  frames :: "'b output_pipeline_frames"
  powering_off :: bool
  op_wake :: "wake_modeset option"
  plane_request :: 'p

record 'f output_ready_fences =
  orf_output_id :: output_id
  orf_render_view_id :: render_view_id
  orf_configuration_generation :: u64
  orf_size :: pixel_size
  fence_slots :: "'f ready_fence_slot list"

record presented_output =
  po_id :: output_id
  po_observed_at :: instant
  po_presented_at :: "duration option"
  po_sequence :: "u64 option"
  po_timeline_target :: instant

record page_flip_completion =
  pf_crtc :: u32
  pf_observed_at :: instant
  pf_presented_at :: "duration option"
  pf_sequence :: "u64 option"

record output_swapchain =
  sw_output_id :: output_id
  sw_render_view_id :: render_view_id
  sw_configuration_generation :: u64
  sw_size :: pixel_size
  sw_buffers :: "u32 list"
  sw_current :: nat

record ('f, 'b, 'p) output_scheduler =
  pipelines :: "('b, 'p) output_pipeline list"
  presented_outputs :: "presented_output list"
  ready_fences :: "'f output_ready_fences list"
  parked :: "(output_id \<times> nat) list"
  presented_frames :: u64

text \<open>What the scheduler shares with the rest of the compositor.\<close>

record ('f, 'b) scheduler_env =
  broker :: "('f, 'b) output_buffer_broker"
  pending :: "u32 set"
  completed_page_flips :: "page_flip_completion list"
  recovery_requested :: bool
  swapchains :: "output_swapchain list"
  next_token :: u64

record ready_fence_signal =
  rs_output :: output_id
  rs_index :: nat
  rs_token :: u64

datatype submission = Queued | Backpressured

datatype volition_event =
    VolSubmitted u64 commit_id instant
  | VolStalled u64 commit_id
  | VolFailed u64 commit_id

section \<open>Small steps\<close>

text \<open>\<open>Vec::swap_remove\<close>.\<close>

definition swap_remove :: "nat \<Rightarrow> 'a list \<Rightarrow> 'a list" where
  "swap_remove i xs = butlast (xs[i := last xs])"

definition for_output :: "output_swapchain list \<Rightarrow> output_id \<Rightarrow> output_swapchain option" where
  "for_output natives out = find (\<lambda>pool. sw_output_id pool = out) natives"

definition present :: "output_swapchain list \<Rightarrow> output_id \<Rightarrow> nat \<Rightarrow> string + output_swapchain list" where
  "present natives out index =
     (case for_output natives out of
        None \<Rightarrow> Inl ''presented output has no native buffer pool''
      | Some pool \<Rightarrow>
          if length (sw_buffers pool) \<le> index then Inl ''presented output buffer exceeds its native pool''
          else Inr (update_first (\<lambda>pool. sw_output_id pool = out) (\<lambda>pool. pool\<lparr>sw_current := index\<rparr>) natives))"

text \<open>The output and the CRTC of the scanout a pipeline drives.\<close>

definition scanout_output :: "'m scanout list \<Rightarrow> ('b, 'p) output_pipeline \<Rightarrow> output_id option" where
  "scanout_output scanouts p = map_option sc_id (get_at scanouts (op_scanout_index p))"

definition scanout_crtc :: "'m scanout list \<Rightarrow> ('b, 'p) output_pipeline \<Rightarrow> u32 option" where
  "scanout_crtc scanouts p = map_option sc_crtc (get_at scanouts (op_scanout_index p))"

definition set_fence :: "('f, 'b, 'p) output_scheduler \<Rightarrow> nat \<Rightarrow> nat \<Rightarrow> 'f ready_fence_slot \<Rightarrow> ('f, 'b, 'p) output_scheduler" where
  "set_fence sch pool index slot =
     sch\<lparr>ready_fences := (ready_fences sch)[pool := (ready_fences sch ! pool)
       \<lparr>fence_slots := (fence_slots (ready_fences sch ! pool))[index := slot]\<rparr>]\<rparr>"

definition set_pipeline :: "('f, 'b, 'p) output_scheduler \<Rightarrow> nat \<Rightarrow> ('b, 'p) output_pipeline \<Rightarrow> ('f, 'b, 'p) output_scheduler" where
  "set_pipeline sch i p = sch\<lparr>pipelines := (pipelines sch)[i := p]\<rparr>"

definition fence_pool :: "('f, 'b, 'p) output_scheduler \<Rightarrow> output_id \<Rightarrow> nat option" where
  "fence_pool sch out = position (\<lambda>pool. orf_output_id pool = out) (ready_fences sch)"

section \<open>Construction\<close>

fun new_pipelines ::
  "('m scanout \<Rightarrow> pixel_size \<Rightarrow> string + 'p) \<Rightarrow> output_swapchain list \<Rightarrow> (nat \<times> 'm scanout) list \<Rightarrow>
     string + ('b, 'p) output_pipeline list" where
  "new_pipelines plane_commit natives [] = Inr []"
| "new_pipelines plane_commit natives ((index, sc) # rest) =
     (if \<not> sc_powered sc then new_pipelines plane_commit natives rest
      else and_then (ok_or (for_output natives (sc_id sc)) ''output scheduler has no native framebuffer pool'') (\<lambda>pool.
        and_then (plane_commit sc (sw_size pool)) (\<lambda>req.
          and_then (new_pipelines plane_commit natives rest) (\<lambda>ps.
            Inr (\<lparr>op_output_id = sc_id sc, op_scanout_index = index, scanning = sw_current pool,
                  scanning_screenshot_request_id = None, frames = output_pipeline_frames_default,
                  powering_off = False, op_wake = None, plane_request = req\<rparr> # ps)))))"

fun new_parked :: "output_swapchain list \<Rightarrow> 'm scanout list \<Rightarrow> string + (output_id \<times> nat) list" where
  "new_parked natives [] = Inr []"
| "new_parked natives (sc # scs) =
     (if sc_powered sc then new_parked natives scs
      else and_then (ok_or (for_output natives (sc_id sc)) ''powered-off output has no native framebuffer pool'') (\<lambda>pool.
        and_then (new_parked natives scs) (\<lambda>rest. Inr ((sc_id sc, sw_current pool) # rest))))"

definition fences_of_pool :: "output_swapchain \<Rightarrow> 'f output_ready_fences" where
  "fences_of_pool pool =
     \<lparr>orf_output_id = sw_output_id pool, orf_render_view_id = sw_render_view_id pool,
      orf_configuration_generation = sw_configuration_generation pool, orf_size = sw_size pool,
      fence_slots = replicate (length (sw_buffers pool)) ready_fence_slot_default\<rparr>"

definition scheduler_new ::
  "('m scanout \<Rightarrow> pixel_size \<Rightarrow> string + 'p) \<Rightarrow> 'm scanout list \<Rightarrow> ('f, 'b) scheduler_env \<Rightarrow>
     string + ('f, 'b, 'p) output_scheduler \<times> ('f, 'b) scheduler_env" where
  "scheduler_new plane_commit scanouts env =
     and_then (new_pipelines plane_commit (swapchains env) (enumerate 0 scanouts)) (\<lambda>ps.
       and_then (new_parked (swapchains env) scanouts) (\<lambda>park.
         Inr (\<lparr>pipelines = ps, presented_outputs = [], ready_fences = map fences_of_pool (swapchains env),
               parked = park, presented_frames = 0\<rparr>,
              env\<lparr>pending := {}, completed_page_flips := []\<rparr>)))"

section \<open>Publication of rendered frames\<close>

definition discard_ready_frame ::
  "('f, 'b) output_buffer_broker \<Rightarrow> output_id \<Rightarrow> 'f ready_fence_slot list \<Rightarrow> 'b output_frame \<Rightarrow>
     string + ('f, 'b) output_buffer_broker \<times> 'f ready_fence_slot list" where
  "discard_ready_frame b out fences frame =
     (case get_at fences (of_index frame) of
        None \<Rightarrow> Inl ''discarded Flutter frame exceeds the fence pool''
      | Some slot \<Rightarrow>
          if signaled slot
          then and_then (release_output b out (of_index frame)) (\<lambda>b'.
            and_then (release_user slot) (\<lambda>slot'. Inr (b', fences[of_index frame := slot'])))
          else and_then (discard_user_when_signaled slot) (\<lambda>slot'.
            Inr (b, fences[of_index frame := slot'])))"

text \<open>Discarding a frame of the scheduler: its fences are those of the output's pool.\<close>

definition discard_frame ::
  "('f, 'b, 'p) output_scheduler \<Rightarrow> ('f, 'b) scheduler_env \<Rightarrow> output_id \<Rightarrow> 'b output_frame \<Rightarrow> string \<Rightarrow>
     string + ('f, 'b, 'p) output_scheduler \<times> ('f, 'b) scheduler_env" where
  "discard_frame sch env out frame lost =
     (case fence_pool sch out of
        None \<Rightarrow> Inl lost
      | Some pool \<Rightarrow>
          and_then (discard_ready_frame (broker env) out (fence_slots (ready_fences sch ! pool)) frame) (\<lambda>(b, fences).
            Inr (sch\<lparr>ready_fences := (ready_fences sch)[pool := (ready_fences sch ! pool)\<lparr>fence_slots := fences\<rparr>]\<rparr>,
                 env\<lparr>broker := b\<rparr>)))"

definition metadata_matches :: "'f output_ready_fences \<Rightarrow> ('f, 'b) ready_output_frame \<Rightarrow> bool" where
  "metadata_matches pool frame \<longleftrightarrow>
     \<not> (rof_configuration_generation frame = 0 \<or>
        rof_configuration_generation frame \<noteq> orf_configuration_generation pool \<or>
        rof_render_view_id frame \<noteq> orf_render_view_id pool \<or>
        \<not> matches_size (rof_damage frame) (uint (ps_width (orf_size pool))) (uint (ps_height (orf_size pool))) \<or>
        (case get_at (fence_slots pool) (rof_index frame) of None \<Rightarrow> True | Some slot \<Rightarrow> \<not> fence_available slot) \<or>
        ft_output (ofr_tick (rof_request frame)) \<noteq> rof_output_id frame \<or>
        ft_presentation_target (ofr_tick (rof_request frame)) \<noteq>
          ft_render_deadline (ofr_tick (rof_request frame)) + int (ft_interval (ofr_tick (rof_request frame))))"

definition output_frame_of :: "('f, 'b) ready_output_frame \<Rightarrow> instant \<Rightarrow> 'b output_frame" where
  "output_frame_of frame now =
     \<lparr>of_index = rof_index frame, of_screenshot_request_id = rof_screenshot_request_id frame,
      of_request = rof_request frame, of_submitted_at = now,
      of_damage = plane_damage_new (kms_clips (rof_damage frame)), of_feedback = rof_feedback frame\<rparr>"

text \<open>
  \<open>dup\<close> duplicates a file descriptor, which may fail; the result holds the watch of the fence, when
  there is one. The two \<open>expect\<close>s of the source are the errors of \<open>claim\<close> and \<open>install_ready\<close>.
\<close>

definition publish_ready ::
  "('f \<Rightarrow> string + 'f) \<Rightarrow> instant \<Rightarrow> ('f, 'b, 'p) output_scheduler \<Rightarrow> ('f, 'b) scheduler_env \<Rightarrow>
     ('f, 'b) ready_output_frame \<Rightarrow>
     string + ('f, 'b, 'p) output_scheduler \<times> ('f, 'b) scheduler_env \<times> ('f \<times> ready_fence_signal) option" where
  "publish_ready dup now sch env frame =
     (let out = rof_output_id frame; index = rof_index frame in
      and_then (ok_or (fence_pool sch out) ''Flutter published a frame for an unknown output'') (\<lambda>pool.
        if \<not> metadata_matches (ready_fences sch ! pool) frame
        then Inl ''Flutter output metadata does not match its native pool''
        else if (case find (\<lambda>p. op_output_id p = out) (pipelines sch) of
             None \<Rightarrow> False | Some p \<Rightarrow> \<not> frames_render_available (frames p))
        then Inl ''cannot replace an unconsumed Flutter output frame''
        else
          let (tok, counter) = next_ready_fence_token (next_token env)
          in and_then (case rof_fence frame of None \<Rightarrow> Inr None
              | Some fd \<Rightarrow> and_then (dup fd) (\<lambda>fd'. Inr (Some (fd', \<lparr>rs_output = out, rs_index = index, rs_token = tok\<rparr>))))
            (\<lambda>watch. and_then (publish (broker env) frame) (\<lambda>b.
              and_then (claim (fence_slots (ready_fences sch ! pool) ! index) (rof_fence frame) 1 tok) (\<lambda>slot.
                let env' = env\<lparr>broker := b, next_token := counter\<rparr>
                in case position (\<lambda>p. op_output_id p = out \<and> \<not> powering_off p) (pipelines sch) of
                  Some i \<Rightarrow>
                    and_then (install_ready (frames (pipelines sch ! i)) (output_frame_of frame now)) (\<lambda>fs.
                      Inr (set_pipeline (set_fence sch pool index slot) i ((pipelines sch ! i)\<lparr>frames := fs\<rparr>), env', watch))
                | None \<Rightarrow>
                    if signaled slot
                    then and_then (release_output b out index) (\<lambda>b'. and_then (release_user slot) (\<lambda>slot'.
                      Inr (set_fence sch pool index slot', env'\<lparr>broker := b'\<rparr>, watch)))
                    else and_then (discard_user_when_signaled slot) (\<lambda>slot'.
                      Inr (set_fence sch pool index slot', env', watch)))))))"

section \<open>Acknowledgements\<close>

fun release_discards ::
  "nat \<Rightarrow> ('f, 'b) output_buffer_broker \<Rightarrow> output_id \<Rightarrow> nat \<Rightarrow> 'f ready_fence_slot \<Rightarrow>
     string + ('f, 'b) output_buffer_broker \<times> 'f ready_fence_slot" where
  "release_discards 0 b out index slot = Inr (b, slot)"
| "release_discards (Suc n) b out index slot =
     and_then (release_output b out index) (\<lambda>b'. and_then (release_user slot) (\<lambda>slot'.
       release_discards n b' out index slot'))"

definition acknowledge_signal ::
  "('f, 'b, 'p) output_scheduler \<Rightarrow> ('f, 'b) scheduler_env \<Rightarrow> ready_fence_signal \<Rightarrow>
     string + ('f, 'b, 'p) output_scheduler \<times> ('f, 'b) scheduler_env" where
  "acknowledge_signal sch env signal =
     (case fence_pool sch (rs_output signal) of
        None \<Rightarrow> Inr (sch, env)
      | Some pool \<Rightarrow>
          (case get_at (fence_slots (ready_fences sch ! pool)) (rs_index signal) of
             None \<Rightarrow> Inr (sch, env)
           | Some slot \<Rightarrow>
               (case mark_signaled slot (rs_token signal) of
                  (slot', False) \<Rightarrow> Inr (sch, env)
                | (slot', True) \<Rightarrow>
                    and_then (release_discards (discard_users_on_signal slot') (broker env) (rs_output signal)
                        (rs_index signal) (slot'\<lparr>discard_users_on_signal := 0\<rparr>)) (\<lambda>(b, slot'').
                      Inr (set_fence sch pool (rs_index signal) slot'', env\<lparr>broker := b\<rparr>)))))"

fun acknowledge_ready_fences ::
  "('f, 'b, 'p) output_scheduler \<Rightarrow> ('f, 'b) scheduler_env \<Rightarrow> ready_fence_signal list \<Rightarrow>
     string + ('f, 'b, 'p) output_scheduler \<times> ('f, 'b) scheduler_env" where
  "acknowledge_ready_fences sch env [] = Inr (sch, env)"
| "acknowledge_ready_fences sch env (signal # signals) =
     and_then (acknowledge_signal sch env signal) (\<lambda>(sch', env').
       acknowledge_ready_fences sch' env' signals)"

definition event_instance :: "volition_event \<Rightarrow> u64" where
  "event_instance event =
     (case event of VolSubmitted instance commit submitted \<Rightarrow> instance
      | VolStalled instance commit \<Rightarrow> instance | VolFailed instance commit \<Rightarrow> instance)"

definition acknowledge_submitted ::
  "'m scanout list \<Rightarrow> ('f, 'b, 'p) output_scheduler \<Rightarrow> ('f, 'b) scheduler_env \<Rightarrow> commit_id \<Rightarrow> instant \<Rightarrow>
     string + ('f, 'b, 'p) output_scheduler \<times> ('f, 'b) scheduler_env" where
  "acknowledge_submitted scanouts sch env commit submitted =
     and_then (ok_or (position (\<lambda>p. scheduled_commit (frames p) = Some commit) (pipelines sch))
         ''Volition accepted a commit with no pending output frame'') (\<lambda>i.
       let p = pipelines sch ! i in
       and_then (acknowledge_submission (frames p) commit submitted) (\<lambda>(index, fs).
         and_then (ok_or (fence_pool sch (op_output_id p)) ''submitted output lost its render-fence pool'') (\<lambda>_.
           and_then (ok_or (scanout_crtc scanouts p) ''index out of bounds'') (\<lambda>crtc.
             Inr (set_pipeline sch i (p\<lparr>frames := fs\<rparr>), env\<lparr>pending := insert crtc (pending env)\<rparr>)))))"

text \<open>The first stall is kept; a failure of the commit engine is an error.\<close>

fun acknowledge_volition_events ::
  "u64 \<Rightarrow> 'm scanout list \<Rightarrow> ('f, 'b, 'p) output_scheduler \<Rightarrow> ('f, 'b) scheduler_env \<Rightarrow> commit_id option \<Rightarrow>
     volition_event list \<Rightarrow> string + ('f, 'b, 'p) output_scheduler \<times> ('f, 'b) scheduler_env \<times> commit_id option" where
  "acknowledge_volition_events instance scanouts sch env stalled [] = Inr (sch, env, stalled)"
| "acknowledge_volition_events instance scanouts sch env stalled (event # events) =
     (if event_instance event \<noteq> instance
      then acknowledge_volition_events instance scanouts sch env stalled events
      else case event of
        VolSubmitted _ commit submitted \<Rightarrow>
          and_then (acknowledge_submitted scanouts sch env commit submitted) (\<lambda>(sch', env').
            acknowledge_volition_events instance scanouts sch' env' stalled events)
      | VolStalled _ commit \<Rightarrow>
          acknowledge_volition_events instance scanouts sch env
            (case stalled of None \<Rightarrow> Some commit | Some _ \<Rightarrow> stalled) events
      | VolFailed _ commit \<Rightarrow> Inl ''Volition lookahead failed'')"

section \<open>Submission\<close>

text \<open>
  The frame that wakes an output: \<open>accepted\<close> says whether the kernel takes the modeset, \<open>now\<close> and \<open>submitted\<close>
  are the two readings of the clock, in front of the modeset and behind it.
\<close>

definition submit_wake ::
  "instant \<Rightarrow> instant \<Rightarrow> bool \<Rightarrow> 'm scanout list \<Rightarrow> nat \<Rightarrow> nat \<Rightarrow> commit_id \<Rightarrow> ('f, 'b, 'p) output_scheduler \<Rightarrow>
     ('f, 'b) scheduler_env \<Rightarrow> output_id list \<Rightarrow> wake_modeset \<Rightarrow>
     string + ('f, 'b, 'p) output_scheduler \<times> ('f, 'b) scheduler_env \<times> output_id list" where
  "submit_wake now submitted accepted scanouts i pool commit sch env direct wake =
     (let p = pipelines sch ! i in
      if now < retry_at wake then Inr (sch, env, direct)
      else
        and_then (ok_or (get_at scanouts (op_scanout_index p)) ''DPMS wake pipeline references a missing scanout'') (\<lambda>sc.
          and_then (ok_or (for_output (swapchains env) (op_output_id p)) ''DPMS wake output lost its native buffer pool'') (\<lambda>_.
            if \<not> accepted
            then (case record_failure wake now of (wake', disposition) \<Rightarrow>
              Inr (set_pipeline sch i (p\<lparr>op_wake := Some wake'\<rparr>),
                   env\<lparr>recovery_requested := recovery_requested env \<or> recovery_required disposition\<rparr>, direct))
            else
              and_then (schedule_ready (frames p) commit) (\<lambda>fs.
                and_then (acknowledge_submission fs commit submitted) (\<lambda>(_, fs').
                  and_then (release_user (fence_slots (ready_fences sch ! pool) ! commit_frame commit)) (\<lambda>slot.
                    Inr (set_fence (set_pipeline sch i (p\<lparr>frames := fs', op_wake := None\<rparr>)) pool (commit_frame commit) slot,
                         env\<lparr>pending := insert (sc_crtc sc) (pending env)\<rparr>, direct @ [op_output_id p])))))))"

definition submit_pipeline ::
  "(nat \<Rightarrow> instant \<times> instant) \<Rightarrow> (nat \<Rightarrow> bool) \<Rightarrow>
     (commit_id \<Rightarrow> 'p \<Rightarrow> u32 \<Rightarrow> plane_clip list \<Rightarrow> instant \<Rightarrow> string + submission) \<Rightarrow>
     'm scanout list \<Rightarrow> nat \<Rightarrow> ('f, 'b, 'p) output_scheduler \<times> ('f, 'b) scheduler_env \<times> output_id list \<Rightarrow>
     string + ('f, 'b, 'p) output_scheduler \<times> ('f, 'b) scheduler_env \<times> output_id list" where
  "submit_pipeline clock accepted submit scanouts i = (\<lambda>(sch, env, direct).
     let p = pipelines sch ! i in
     if powering_off p \<or> in_flight (frames p) \<noteq> None then Inr (sch, env, direct)
     else case ready (frames p) of
       None \<Rightarrow> Inr (sch, env, direct)
     | Some frame \<Rightarrow>
         and_then (ok_or (fence_pool sch (op_output_id p)) ''output pipeline lost its render-fence pool'') (\<lambda>pool.
           and_then (ok_or (get_at (fence_slots (ready_fences sch ! pool)) (of_index frame))
               ''ready frame exceeds its output fence pool'') (\<lambda>slot.
             if \<not> signaled slot then Inr (sch, env, direct)
             else
               and_then (ok_or (Option.bind (for_output (swapchains env) (op_output_id p))
                   (\<lambda>chain. get_at (sw_buffers chain) (of_index frame)))
                   ''ready frame exceeds its native output pool'') (\<lambda>fb.
                 let commit = \<lparr>stream = i, commit_frame = of_index frame\<rparr>
                 in case op_wake p of
                      Some wake \<Rightarrow> submit_wake (fst (clock i)) (snd (clock i)) (accepted i) scanouts i pool commit sch env direct wake
                    | None \<Rightarrow>
                        and_then (submit commit (plane_request p) fb (of_damage frame)
                            (ft_presentation_target (ofr_tick (of_request frame)))) (\<lambda>result.
                          case result of
                            Backpressured \<Rightarrow> Inr (sch, env, direct)
                          | Queued \<Rightarrow>
                              and_then (schedule_ready (frames p) commit) (\<lambda>fs.
                                and_then (release_user slot) (\<lambda>slot'.
                                  Inr (set_fence (set_pipeline sch i (p\<lparr>frames := fs\<rparr>)) pool (of_index frame) slot',
                                       env, direct))))))))"

fun submit_each ::
  "(nat \<Rightarrow> instant \<times> instant) \<Rightarrow> (nat \<Rightarrow> bool) \<Rightarrow>
     (commit_id \<Rightarrow> 'p \<Rightarrow> u32 \<Rightarrow> plane_clip list \<Rightarrow> instant \<Rightarrow> string + submission) \<Rightarrow>
     'm scanout list \<Rightarrow> nat list \<Rightarrow> ('f, 'b, 'p) output_scheduler \<times> ('f, 'b) scheduler_env \<times> output_id list \<Rightarrow>
     string + ('f, 'b, 'p) output_scheduler \<times> ('f, 'b) scheduler_env \<times> output_id list" where
  "submit_each clock accepted submit scanouts [] st = Inr st"
| "submit_each clock accepted submit scanouts (i # is) st =
     and_then (submit_pipeline clock accepted submit scanouts i st) (submit_each clock accepted submit scanouts is)"

text \<open>The outputs whose wake was submitted are reported to the frontend as powered.\<close>

definition submit_ready ::
  "(nat \<Rightarrow> instant \<times> instant) \<Rightarrow> (nat \<Rightarrow> bool) \<Rightarrow>
     (commit_id \<Rightarrow> 'p \<Rightarrow> u32 \<Rightarrow> plane_clip list \<Rightarrow> instant \<Rightarrow> string + submission) \<Rightarrow>
     'm scanout list \<Rightarrow> ('f, 'b, 'p) output_scheduler \<Rightarrow> ('f, 'b) scheduler_env \<Rightarrow>
     string + ('f, 'b, 'p) output_scheduler \<times> ('f, 'b) scheduler_env \<times> output_id list" where
  "submit_ready clock accepted submit scanouts sch env =
     submit_each clock accepted submit scanouts [0..<length (pipelines sch)] (sch, env, [])"

section \<open>Availability\<close>

definition render_available :: "('f, 'b, 'p) output_scheduler \<Rightarrow> output_id \<Rightarrow> bool" where
  "render_available sch out \<longleftrightarrow>
     list_ex (\<lambda>p. op_output_id p = out \<and> \<not> powering_off p \<and> frames_render_available (frames p)) (pipelines sch)"

definition ready_handoff_available :: "('f, 'b, 'p) output_scheduler \<Rightarrow> output_id \<Rightarrow> bool" where
  "ready_handoff_available sch out \<longleftrightarrow>
     (case find (\<lambda>p. op_output_id p = out) (pipelines sch) of
        None \<Rightarrow> True | Some p \<Rightarrow> powering_off p \<or> frames_render_available (frames p))"

definition framebuffer_index_for_output :: "'m scanout list \<Rightarrow> ('f, 'b, 'p) output_scheduler \<Rightarrow> output_id \<Rightarrow> nat option" where
  "framebuffer_index_for_output scanouts sch out =
     map_option scanning (find (\<lambda>p. \<not> powering_off p \<and> scanout_output scanouts p = Some out) (pipelines sch))"

definition screenshot_framebuffer_for_output ::
  "'m scanout list \<Rightarrow> ('f, 'b, 'p) output_scheduler \<Rightarrow> output_id \<Rightarrow> u64 \<Rightarrow> nat option" where
  "screenshot_framebuffer_for_output scanouts sch out request_id =
     map_option scanning (find (\<lambda>p. \<not> powering_off p \<and> scanout_output scanouts p = Some out \<and>
       scanning_screenshot_request_id p = Some request_id) (pipelines sch))"

definition has_submitted :: "('f, 'b, 'p) output_scheduler \<Rightarrow> bool" where
  "has_submitted sch \<longleftrightarrow> list_ex (\<lambda>p. submitted_frame (frames p) \<noteq> None) (pipelines sch)"

definition has_pending_scanout_work :: "('f, 'b, 'p) output_scheduler \<Rightarrow> bool" where
  "has_pending_scanout_work sch \<longleftrightarrow> list_ex (\<lambda>p. has_work (frames p)) (pipelines sch)"

section \<open>The presentation watchdog\<close>

record presentation_stall =
  ps_scanout_index :: nat
  ps_framebuffer_index :: nat
  ps_pending_frames :: nat
  ps_elapsed :: duration

definition pipeline_stall :: "instant \<Rightarrow> ('b, 'p) output_pipeline \<Rightarrow> presentation_stall option" where
  "pipeline_stall now p =
     Option.bind (submitted_frame (frames p)) (\<lambda>frame.
       map_option (\<lambda>elapsed. \<lparr>ps_scanout_index = op_scanout_index p, ps_framebuffer_index = of_index frame,
           ps_pending_frames = 1, ps_elapsed = elapsed\<rparr>)
         (presentation_stall_age (of_submitted_at frame) now))"

fun find_map :: "('a \<Rightarrow> 'b option) \<Rightarrow> 'a list \<Rightarrow> 'b option" where
  "find_map f [] = None"
| "find_map f (x # xs) = (case f x of None \<Rightarrow> find_map f xs | Some y \<Rightarrow> Some y)"

definition presentation_stall_of :: "('f, 'b, 'p) output_scheduler \<Rightarrow> instant \<Rightarrow> presentation_stall option" where
  "presentation_stall_of sch now = find_map (pipeline_stall now) (pipelines sch)"

definition limit_presentation_watchdog ::
  "('f, 'b, 'p) output_scheduler \<Rightarrow> instant \<Rightarrow> duration \<Rightarrow> duration" where
  "limit_presentation_watchdog sch now timeout =
     foldl min timeout (map (\<lambda>frame. presentation_watchdog_remaining (of_submitted_at frame) now)
       (List.map_filter (\<lambda>p. submitted_frame (frames p)) (pipelines sch)))"

section \<open>Page flips\<close>

text \<open>
  One completion of the queue, already taken from it. \<open>sampled\<close> is the frontend's answer to a presented
  frame (without a frontend it always succeeds). The second component of the result is the error that
  ends the pass after the frontend has been told what was presented.
\<close>

definition drop_elapsed_successor ::
  "page_flip_completion \<Rightarrow> nat \<Rightarrow> ('f, 'b, 'p) output_scheduler \<Rightarrow> ('f, 'b) scheduler_env \<Rightarrow>
     string + ('f, 'b, 'p) output_scheduler \<times> ('f, 'b) scheduler_env" where
  "drop_elapsed_successor completion i sch env =
     (let p = pipelines sch ! i in
      case ready (frames p) of
        None \<Rightarrow> Inr (sch, env)
      | Some frame \<Rightarrow>
          if ready_target_elapsed frame (pf_observed_at completion)
          then discard_frame (set_pipeline sch i (p\<lparr>frames := fst (take_ready (frames p))\<rparr>)) env
                 (op_output_id p) frame ''elapsed output successor lost its render-fence pool''
          else Inr (sch, env))"

definition handle_completion ::
  "(presented_output \<Rightarrow> 'b list \<Rightarrow> string + unit) \<Rightarrow> 'm scanout list \<Rightarrow> page_flip_completion \<Rightarrow>
     ('f, 'b, 'p) output_scheduler \<Rightarrow> ('f, 'b) scheduler_env \<Rightarrow>
     string + (('f, 'b, 'p) output_scheduler \<times> ('f, 'b) scheduler_env) \<times> string option" where
  "handle_completion sampled scanouts completion sch env =
     (case position (\<lambda>p. scanout_crtc scanouts p = Some (pf_crtc completion)) (pipelines sch) of
        None \<Rightarrow> Inr ((sch, env), None)
      | Some i \<Rightarrow>
          let p = pipelines sch ! i in
          (case retire_completion (frames p) of
             (_, Deferred) \<Rightarrow>
               Inr ((sch, env\<lparr>completed_page_flips := completed_page_flips env @ [completion]\<rparr>), None)
           | (_, Stale) \<Rightarrow> Inr ((sch, env), None)
           | (fs, Retired shown) \<Rightarrow>
               let p' = p\<lparr>frames := fs, scanning := of_index shown,
                          scanning_screenshot_request_id := of_screenshot_request_id shown\<rparr>;
                   sch' = set_pipeline sch i p';
                   env' = env\<lparr>pending := pending env - {pf_crtc completion}\<rparr>
               in case release_output (broker env') (op_output_id p) (scanning p) of
                    Inl e \<Rightarrow> Inr ((sch', env'), Some e)
                  | Inr b \<Rightarrow>
                      and_then (present (swapchains env') (op_output_id p) (of_index shown)) (\<lambda>natives.
                        and_then (drop_elapsed_successor completion i sch' (env'\<lparr>broker := b, swapchains := natives\<rparr>))
                          (\<lambda>(sch2, env2).
                            and_then (ok_or (scanout_output scanouts p) ''index out of bounds'') (\<lambda>out.
                              let shown_now = \<lparr>po_id = out, po_observed_at = pf_observed_at completion,
                                    po_presented_at = pf_presented_at completion, po_sequence = pf_sequence completion,
                                    po_timeline_target = ft_presentation_target (ofr_tick (of_request shown))\<rparr>
                              in and_then (sampled shown_now (of_feedback shown)) (\<lambda>_.
                                   Inr ((sch2\<lparr>presented_outputs := presented_outputs sch2 @ [shown_now],
                                              presented_frames := u64_saturating_add (presented_frames sch2) 1\<rparr>, env2),
                                        None)))))))"

text \<open>The completions queued when the pass began, and only those.\<close>

fun handle_completions_loop ::
  "(presented_output \<Rightarrow> 'b list \<Rightarrow> string + unit) \<Rightarrow> 'm scanout list \<Rightarrow> nat \<Rightarrow>
     ('f, 'b, 'p) output_scheduler \<Rightarrow> ('f, 'b) scheduler_env \<Rightarrow>
     string + (('f, 'b, 'p) output_scheduler \<times> ('f, 'b) scheduler_env) \<times> string option" where
  "handle_completions_loop sampled scanouts 0 sch env = Inr ((sch, env), None)"
| "handle_completions_loop sampled scanouts (Suc n) sch env =
     (case completed_page_flips env of
        [] \<Rightarrow> Inl ''counted page-flip completion disappeared''
      | completion # rest \<Rightarrow>
          and_then (handle_completion sampled scanouts completion sch (env\<lparr>completed_page_flips := rest\<rparr>))
            (\<lambda>((sch', env'), failed). case failed of
               Some e \<Rightarrow> Inr ((sch', env'), Some e)
             | None \<Rightarrow> handle_completions_loop sampled scanouts n sch' env'))"

definition handle_completions_inner ::
  "(presented_output \<Rightarrow> 'b list \<Rightarrow> string + unit) \<Rightarrow> (presented_output list \<Rightarrow> string + unit) \<Rightarrow>
     'm scanout list \<Rightarrow> ('f, 'b, 'p) output_scheduler \<Rightarrow> ('f, 'b) scheduler_env \<Rightarrow>
     string + ('f, 'b, 'p) output_scheduler \<times> ('f, 'b) scheduler_env" where
  "handle_completions_inner sampled shown scanouts sch env =
     (let sch0 = sch\<lparr>presented_outputs := []\<rparr> in
      if completed_page_flips env = [] then Inr (sch0, env)
      else
        and_then (handle_completions_loop sampled scanouts (length (completed_page_flips env)) sch0 env)
          (\<lambda>((sch', env'), failed).
            and_then (shown (presented_outputs sch')) (\<lambda>_.
              case failed of Some e \<Rightarrow> Inl e | None \<Rightarrow> Inr (sch', env'))))"

section \<open>Power\<close>

definition pipeline_of_output :: "'m scanout list \<Rightarrow> ('f, 'b, 'p) output_scheduler \<Rightarrow> output_id \<Rightarrow> nat option" where
  "pipeline_of_output scanouts sch out = position (\<lambda>p. scanout_output scanouts p = Some out) (pipelines sch)"

definition begin_power_off ::
  "('f, 'b, 'p) output_scheduler \<Rightarrow> ('f, 'b) scheduler_env \<Rightarrow> output_id \<Rightarrow> 'm scanout list \<Rightarrow>
     string + ('f, 'b, 'p) output_scheduler \<times> ('f, 'b) scheduler_env \<times> bool" where
  "begin_power_off sch env out scanouts =
     (case pipeline_of_output scanouts sch out of
        None \<Rightarrow> Inr (sch, env, False)
      | Some i \<Rightarrow>
          let p = (pipelines sch ! i)\<lparr>powering_off := True\<rparr>;
              sch' = set_pipeline sch i (p\<lparr>frames := fst (take_ready (frames p))\<rparr>)
          in and_then (case snd (take_ready (frames p)) of
                 None \<Rightarrow> Inr (sch', env)
               | Some frame \<Rightarrow> discard_frame sch' env out frame ''power-off output lost its render-fence pool'')
               (\<lambda>(sch2, env2). Inr (sch2, env2, in_flight (frames p) \<noteq> None)))"

definition cancel_power_off :: "('f, 'b, 'p) output_scheduler \<Rightarrow> output_id \<Rightarrow> 'm scanout list \<Rightarrow> ('f, 'b, 'p) output_scheduler" where
  "cancel_power_off sch out scanouts =
     (case pipeline_of_output scanouts sch out of
        None \<Rightarrow> sch | Some i \<Rightarrow> set_pipeline sch i ((pipelines sch ! i)\<lparr>powering_off := False\<rparr>))"

definition power_on_pending :: "('f, 'b, 'p) output_scheduler \<Rightarrow> output_id \<Rightarrow> bool" where
  "power_on_pending sch out \<longleftrightarrow>
     (case find (\<lambda>p. op_output_id p = out) (pipelines sch) of None \<Rightarrow> False | Some p \<Rightarrow> op_wake p \<noteq> None)"

definition power_off ::
  "('f, 'b, 'p) output_scheduler \<Rightarrow> ('f, 'b) scheduler_env \<Rightarrow> output_id \<Rightarrow> 'm scanout list \<Rightarrow>
     string + ('f, 'b, 'p) output_scheduler \<times> ('f, 'b) scheduler_env" where
  "power_off sch env out scanouts =
     (case pipeline_of_output scanouts sch out of
        None \<Rightarrow> Inr (sch, env)
      | Some i \<Rightarrow>
          let p = pipelines sch ! i in
          if in_flight (frames p) \<noteq> None then Inl ''cannot power off an output with pending scanout work''
          else
            let sch' = sch\<lparr>pipelines := remove_at i (pipelines sch)\<rparr>
            in and_then (case ready (frames p) of
                   None \<Rightarrow> Inr (sch', env)
                 | Some frame \<Rightarrow> discard_frame sch' env out frame ''power-off output lost its render-fence pool'')
                 (\<lambda>(sch2, env2). Inr (sch2\<lparr>parked := parked sch2 @ [(out, scanning p)]\<rparr>, env2)))"

definition stable_framebuffer_index :: "('f, 'b, 'p) output_scheduler \<Rightarrow> output_id \<Rightarrow> nat option" where
  "stable_framebuffer_index sch out =
     (case find (\<lambda>p. op_output_id p = out) (pipelines sch) of
        Some p \<Rightarrow> Some (scanning p)
      | None \<Rightarrow> find_map (\<lambda>(candidate, index). if candidate = out then Some index else None) (parked sch))"

definition scanning_framebuffer_index :: "('f, 'b, 'p) output_scheduler \<Rightarrow> output_id \<Rightarrow> 'm scanout list \<Rightarrow> nat option" where
  "scanning_framebuffer_index sch out scanouts =
     map_option scanning (find (\<lambda>p. scanout_output scanouts p = Some out) (pipelines sch))"

definition power_on ::
  "('m scanout \<Rightarrow> pixel_size \<Rightarrow> string + 'p) \<Rightarrow> instant \<Rightarrow> ('f, 'b, 'p) output_scheduler \<Rightarrow> output_swapchain list \<Rightarrow>
     nat \<Rightarrow> nat \<Rightarrow> 'm scanout list \<Rightarrow> string + ('f, 'b, 'p) output_scheduler" where
  "power_on plane_commit now sch natives scanout_index framebuffer_index scanouts =
     and_then (ok_or (get_at scanouts scanout_index) ''DPMS wake references a missing scanout'') (\<lambda>sc.
       if list_ex (\<lambda>p. op_scanout_index p = scanout_index) (pipelines sch) then Inr sch
       else
         and_then (ok_or (position (\<lambda>entry. entry = (sc_id sc, framebuffer_index)) (parked sch))
             ''DPMS wake disagrees with the parked output buffer'') (\<lambda>slot.
           and_then (ok_or (for_output natives (sc_id sc)) ''DPMS wake output has no native framebuffer pool'') (\<lambda>pool.
             if sw_current pool \<noteq> framebuffer_index then Inl ''DPMS wake pool disagrees with scheduler scanout''
             else
               and_then (plane_commit sc (sw_size pool)) (\<lambda>req.
                 Inr (sch\<lparr>parked := swap_remove slot (parked sch),
                         pipelines := pipelines sch @ [\<lparr>op_output_id = sc_id sc, op_scanout_index = scanout_index,
                           scanning = framebuffer_index, scanning_screenshot_request_id = None,
                           frames = output_pipeline_frames_default, powering_off = False,
                           op_wake = Some (wake_modeset_new now), plane_request = req\<rparr>]\<rparr>)))))"

definition prepare_reconfiguration ::
  "('f, 'b, 'p) output_scheduler \<Rightarrow> 'm scanout list \<Rightarrow> ('f, 'b) scheduler_env \<Rightarrow> string + ('f, 'b) scheduler_env" where
  "prepare_reconfiguration sch scanouts env =
     (if has_pending_scanout_work sch then Inl ''cannot converge outputs while a frame is ready or submitted''
      else if length (pipelines sch) \<noteq> length (filter sc_powered scanouts)
      then Inl ''output scheduler topology no longer matches KMS scanouts''
      else Inr (env\<lparr>pending := {}, completed_page_flips := []\<rparr>))"

end
