(* ===== verification/Output_Ownership.thy ===== *)
theory Output_Ownership
  imports Output_Scheduler "HOL-Library.Multiset"
begin

text \<open>
  Who owns a native buffer. The broker counts the output owners of a buffer; the owners are the scanout
  of a pipeline, its ready and its in-flight frame, a parked output, a discarded frame the GPU still works
  on, and the leases of screen captures. The theory proves that every operation of the output scheduler
  keeps the two in balance, that no count underflows, and that a buffer with an owner is never handed to
  the engine.
\<close>

section \<open>The reference counts of the broker\<close>

definition refs_of :: "('f, 'b) output_buffer_broker \<Rightarrow> output_id \<Rightarrow> nat \<Rightarrow> nat" where
  "refs_of b out i = (case slot_at b out i of None \<Rightarrow> 0 | Some slot \<Rightarrow> output_refs slot)"

definition set_ref :: "(output_id \<Rightarrow> nat \<Rightarrow> nat) \<Rightarrow> output_id \<Rightarrow> nat \<Rightarrow> nat \<Rightarrow> output_id \<Rightarrow> nat \<Rightarrow> nat" where
  "set_ref r out i n = r(out := (r out)(i := n))"

lemma set_ref_apply [simp]: "set_ref r out i n out' i' = (if out' = out \<and> i' = i then n else r out' i')"
  by (simp add: set_ref_def)

lemma set_ref_simps [simp]:
  "set_ref (set_ref r out i n) out i m = set_ref r out i m"
  by (simp_all add: set_ref_def)

lemma set_ref_id [simp]: "n = r out i \<Longrightarrow> set_ref r out i n = r"
  by (simp add: set_ref_def)

definition refs_view :: "('f, 'b) output_buffer_broker \<Rightarrow> (output_id \<times> nat list) list" where
  "refs_view b = map (\<lambda>pool. (pool_output_id pool, map output_refs (slots pool))) (pools b)"

lemma refs_of_view:
  "refs_of b out i = (case map_of (refs_view b) out of None \<Rightarrow> 0 | Some rs \<Rightarrow> if i < length rs then rs ! i else 0)"
proof -
  have "map_of (map (\<lambda>pool. (pool_output_id pool, map output_refs (slots pool))) ps) out =
      map_option (\<lambda>pool. map output_refs (slots pool)) (find (\<lambda>pool. pool_output_id pool = out) ps)"
    for ps :: "('a, 'b) output_buffer_pool list"
    by (induction ps) auto
  then show ?thesis
    by (auto simp: refs_of_def refs_view_def slot_at_def get_at_def split: option.splits bind_splits)
qed

lemma refs_of_cong: "refs_view b' = refs_view b \<Longrightarrow> refs_of b' = refs_of b"
  by (intro ext) (simp add: refs_of_view)

lemma slot_at_set_slot:
  assumes "slot_at b out i = Some s"
  shows "slot_at (set_slot b out i s') = (slot_at b)(out := (slot_at b out)(i := Some s'))"
proof -
  have f: "find (\<lambda>pool. pool_output_id pool = out')
      (update_first (\<lambda>pool. pool_output_id pool = out) (\<lambda>pool. pool\<lparr>slots := (slots pool)[i := s']\<rparr>) ps) =
    (if out' = out then map_option (\<lambda>pool. pool\<lparr>slots := (slots pool)[i := s']\<rparr>) (find (\<lambda>pool. pool_output_id pool = out') ps)
     else find (\<lambda>pool. pool_output_id pool = out') ps)" for out' and ps :: "('a, 'b) output_buffer_pool list"
    by (induction ps) auto
  show ?thesis
    using assms by (intro ext) (auto simp: slot_at_def set_slot_def f get_at_def nth_list_update
        split: option.splits bind_splits if_splits)
qed

lemma refs_of_set_slot:
  "slot_at b out i = Some s \<Longrightarrow>
     refs_of (set_slot b out i s') = set_ref (refs_of b) out i (output_refs s')"
  by (intro ext) (auto simp: refs_of_def slot_at_set_slot)

lemma release_output_refs:
  assumes "0 < refs_of b out i"
  obtains b' where "release_output b out i = Inr b'"
    "refs_of b' = set_ref (refs_of b) out i (refs_of b out i - 1)"
proof -
  obtain s where s: "slot_at b out i = Some s" "output_refs s > 0" "refs_of b out i = output_refs s"
    using assms by (auto simp: refs_of_def split: option.splits)
  then show ?thesis
    by (intro that) (auto simp: release_output_def refs_of_set_slot)
qed

lemma retain_output_refs:
  "retain_output b out i = Inr b' \<Longrightarrow>
     refs_of b' = set_ref (refs_of b) out i (refs_of b out i + 1)"
  by (auto simp: retain_output_def refs_of_set_slot refs_of_def split: option.splits if_splits)

lemma publish_refs:
  assumes "publish b frame = Inr b'"
  shows "refs_of b (rof_output_id frame) (rof_index frame) = 0"
    "refs_of b' = set_ref (refs_of b) (rof_output_id frame) (rof_index frame) 1"
  using assms by (auto simp: publish_def refs_of_set_slot refs_of_def split: option.splits if_splits)

lemma update_first_view:
  "(\<And>pool. P pool \<Longrightarrow> pool_output_id (g pool) = pool_output_id pool \<and> map output_refs (slots (g pool)) = map output_refs (slots pool)) \<Longrightarrow>
     map (\<lambda>pool. (pool_output_id pool, map output_refs (slots pool))) (update_first P g ps) =
     map (\<lambda>pool. (pool_output_id pool, map output_refs (slots pool))) ps"
  by (induction ps) auto

lemma render_steps_keep_refs [simp]:
  "refs_of (begin_transaction b) = refs_of b"
  "refs_of (fst (authorize b req now)) = refs_of b"
  "refs_of (cancel_authorizations b views) = refs_of b"
  "refs_of (fst (expire_authorizations b now)) = refs_of b"
  "refs_of (cancel_screenshot_frame b sid) = refs_of b"
proof -
  show "refs_of (begin_transaction b) = refs_of b"
    by (rule refs_of_cong) (auto simp: begin_transaction_def refs_view_def abandon_rendering_def)
  show "refs_of (fst (authorize b req now)) = refs_of b"
    by (rule refs_of_cong) (auto simp: authorize_def refs_view_def update_first_view split: option.splits)
  show "refs_of (cancel_authorizations b views) = refs_of b"
    by (rule refs_of_cong) (auto simp: cancel_authorizations_def refs_view_def)
  show "refs_of (fst (expire_authorizations b now)) = refs_of b"
    by (rule refs_of_cong) (auto simp: expire_authorizations_def refs_view_def)
  show "refs_of (cancel_screenshot_frame b sid) = refs_of b"
    by (rule refs_of_cong) (auto simp: cancel_screenshot_frame_def refs_view_def)
qed

lemma tag_keeps_refs: "tag_next_frame_for_screenshot b out sid = Inr b' \<Longrightarrow> refs_of b' = refs_of b"
  by (rule refs_of_cong) (auto simp: tag_next_frame_for_screenshot_def refs_view_def split: if_splits)

lemma acquire_keeps_refs [simp]: "refs_of (fst (acquire b view extent)) = refs_of b"
proof (rule refs_of_cong)
  have "map output_refs ((slots pool)[i := acquired_slot b out a (slots pool ! i)]) = map output_refs (slots pool)"
    for pool :: "('a, 'b) output_buffer_pool" and out a i
    by (rule map_list_update_same) (simp add: acquired_slot_def)
  then show "refs_view (fst (acquire b view extent)) = refs_view b"
    by (auto simp: acquire_def refs_view_def split: option.splits intro!: update_first_view)
qed

lemma mark_ready_keeps_refs [simp]:
  "refs_of (fst (mark_ready_with_feedback b view fb frame_damage buffer_damage fd rendered sampled)) = refs_of b"
proof (rule refs_of_cong)
  have "map output_refs (slots (mark_slot_ready pool i frame_damage buffer_damage fd rendered sampled (transaction b))) =
      map output_refs (slots pool)" for pool :: "('a, 'b) output_buffer_pool" and i
    by (simp add: mark_slot_ready_def Let_def map_list_update_same)
      (auto intro!: nth_equalityI simp: nth_enumerate_eq)
  then show "refs_view (fst (mark_ready_with_feedback b view fb frame_damage buffer_damage fd rendered sampled)) = refs_view b"
    by (auto simp: mark_ready_with_feedback_def refs_view_def split: option.splits intro!: update_first_view)
qed

lemma finish_keeps_refs [simp]: "refs_of (fst (finish_transaction b)) = refs_of b"
proof (rule refs_of_cong)
  have "pool_output_id (fst (finish_pool txn pool)) = pool_output_id pool \<and>
      map output_refs (slots (fst (finish_pool txn pool))) = map output_refs (slots pool)"
    for pool :: "('a, 'b) output_buffer_pool" and txn
    by (auto simp: finish_pool_def Let_def map_list_update_same split: option.splits)
  then show "refs_view (fst (finish_transaction b)) = refs_view b"
    by (simp add: finish_transaction_def refs_view_def Let_def comp_def)
qed

section \<open>The owners of a buffer\<close>

type_synonym buffer = "output_id \<times> nat"

fun frame_buffer :: "output_id \<Rightarrow> 'b output_frame option \<Rightarrow> buffer multiset" where
  "frame_buffer out None = {#}"
| "frame_buffer out (Some frame) = {#(out, of_index frame)#}"

definition in_flight_frame_of :: "'b output_pipeline_frames \<Rightarrow> 'b output_frame option" where
  "in_flight_frame_of fs = (case in_flight fs of
     None \<Rightarrow> None | Some (Scheduled scheduled) \<Rightarrow> Some (sf_frame scheduled) | Some (Submitted frame) \<Rightarrow> Some frame)"

definition pipeline_owners :: "('b, 'p) output_pipeline \<Rightarrow> buffer multiset" where
  "pipeline_owners p = add_mset (op_output_id p, scanning p)
     (frame_buffer (op_output_id p) (ready (frames p)) + frame_buffer (op_output_id p) (in_flight_frame_of (frames p)))"

definition pipeline_ready :: "('b, 'p) output_pipeline \<Rightarrow> buffer multiset" where
  "pipeline_ready p = frame_buffer (op_output_id p) (ready (frames p))"

definition frame_owners :: "('f, 'b, 'p) output_scheduler \<Rightarrow> buffer multiset" where
  "frame_owners sch = sum_list (map pipeline_owners (pipelines sch)) + mset (parked sch)"

definition ready_users :: "('f, 'b, 'p) output_scheduler \<Rightarrow> buffer multiset" where
  "ready_users sch = sum_list (map pipeline_ready (pipelines sch))"

definition fence_of :: "('f, 'b, 'p) output_scheduler \<Rightarrow> output_id \<Rightarrow> nat \<Rightarrow> 'f ready_fence_slot option" where
  "fence_of sch out i =
     (case fence_pool sch out of None \<Rightarrow> None | Some pool \<Rightarrow> get_at (fence_slots (ready_fences sch ! pool)) i)"

definition discards :: "('f, 'b, 'p) output_scheduler \<Rightarrow> output_id \<Rightarrow> nat \<Rightarrow> nat" where
  "discards sch out i = (case fence_of sch out i of None \<Rightarrow> 0 | Some slot \<Rightarrow> discard_users_on_signal slot)"

text \<open>
  The count of every buffer is the number of its owners. \<open>L\<close> are the owners outside the scheduler: the
  leases of screen captures, and, within an operation, a frame that has been taken from its pipeline.
\<close>

definition ledger :: "buffer multiset \<Rightarrow> ('f, 'b, 'p) output_scheduler \<Rightarrow> ('f, 'b) output_buffer_broker \<Rightarrow> bool" where
  "ledger L sch b \<longleftrightarrow> (\<forall>out i. refs_of b out i = count (frame_owners sch + L) (out, i) + discards sch out i)"

text \<open>
  A fence has one user for every ready frame and one for every discarded frame that waits for its signal;
  a fence without users is back in its initial state. \<open>E\<close> are ready frames that have been taken.
\<close>

definition fence_ok :: "nat \<Rightarrow> 'f ready_fence_slot \<Rightarrow> bool" where
  "fence_ok n slot \<longleftrightarrow> users slot = n + discard_users_on_signal slot \<and>
     (signaled slot \<longrightarrow> discard_users_on_signal slot = 0) \<and>
     (users slot = 0 \<longrightarrow> fence_available slot) \<and> (users slot \<noteq> 0 \<longrightarrow> token slot \<noteq> 0)"

fun fence_entry_ok :: "nat \<Rightarrow> 'f ready_fence_slot option \<Rightarrow> bool" where
  "fence_entry_ok n None \<longleftrightarrow> n = 0"
| "fence_entry_ok n (Some slot) \<longleftrightarrow> fence_ok n slot"

definition fences_ok :: "buffer multiset \<Rightarrow> ('f, 'b, 'p) output_scheduler \<Rightarrow> bool" where
  "fences_ok E sch \<longleftrightarrow> (\<forall>out i. fence_entry_ok (count (ready_users sch + E) (out, i)) (fence_of sch out i))"

definition outputs_ok :: "output_id list \<Rightarrow> ('f, 'b, 'p) output_scheduler \<Rightarrow> bool" where
  "outputs_ok ids sch \<longleftrightarrow> (\<forall>p\<in>set (pipelines sch). get_at ids (op_scanout_index p) = Some (op_output_id p))"

text \<open>Every owned buffer exists, and the fences have the shape of the native pools.\<close>

definition owners_ok :: "buffer multiset \<Rightarrow> ('f, 'b, 'p) output_scheduler \<Rightarrow> bool" where
  "owners_ok L sch \<longleftrightarrow> (\<forall>out i. (out, i) \<in># frame_owners sch + L \<longrightarrow> fence_of sch out i \<noteq> None)"

definition shapes_ok :: "('f, 'b, 'p) output_scheduler \<Rightarrow> output_swapchain list \<Rightarrow> bool" where
  "shapes_ok sch natives \<longleftrightarrow> map (\<lambda>pool. (orf_output_id pool, length (fence_slots pool))) (ready_fences sch) =
     map (\<lambda>pool. (sw_output_id pool, length (sw_buffers pool))) natives"

definition sched_inv ::
  "output_id list \<Rightarrow> buffer multiset \<Rightarrow> buffer multiset \<Rightarrow> ('f, 'b, 'p) output_scheduler \<Rightarrow>
     ('f, 'b) scheduler_env \<Rightarrow> bool" where
  "sched_inv ids E L sch env \<longleftrightarrow> ledger L sch (broker env) \<and> fences_ok E sch \<and> outputs_ok ids sch \<and>
     owners_ok L sch \<and> shapes_ok sch (swapchains env)"

section \<open>Updates\<close>

lemma sum_list_update:
  "i < length xs \<Longrightarrow> sum_list (map f (xs[i := y])) + f (xs ! i) = sum_list (map f xs) + (f y :: 'a :: comm_monoid_add)"
proof (induction xs arbitrary: i)
  case (Cons x xs)
  then show ?case
    by (cases i) (simp_all add: ac_simps)
qed simp

lemma sum_list_remove:
  "i < length xs \<Longrightarrow> sum_list (map f (remove_at i xs)) + f (xs ! i) = sum_list (map f xs :: 'a :: comm_monoid_add list)"
proof (induction xs arbitrary: i)
  case (Cons x xs)
  then show ?case
    by (cases i) (simp_all add: remove_at_def ac_simps)
qed simp

lemma mset_swap_remove: "i < length xs \<Longrightarrow> add_mset (xs ! i) (mset (swap_remove i xs)) = mset xs"
proof -
  assume i: "i < length xs"
  obtain ys z where xs: "xs = ys @ [z]"
    using i by (cases xs rule: rev_cases) auto
  show ?thesis
  proof (cases "i < length ys")
    case True
    then show ?thesis
      by (simp add: xs swap_remove_def list_update_append nth_append mset_update)
  qed (use i in \<open>auto simp: xs swap_remove_def list_update_append nth_append not_less less_Suc_eq\<close>)
qed

lemma set_pipeline_fields [simp]:
  "ready_fences (set_pipeline sch i p) = ready_fences sch" "parked (set_pipeline sch i p) = parked sch"
  "pipelines (set_pipeline sch i p) = (pipelines sch)[i := p]"
  "fence_of (set_pipeline sch i p) = fence_of sch" "discards (set_pipeline sch i p) = discards sch"
  "fence_pool (set_pipeline sch i p) = fence_pool sch"
  by (auto simp: set_pipeline_def fence_of_def discards_def fence_pool_def fun_eq_iff split: option.splits)

lemma set_fence_fields [simp]:
  "pipelines (set_fence sch k j s) = pipelines sch" "parked (set_fence sch k j s) = parked sch"
  "frame_owners (set_fence sch k j s) = frame_owners sch" "ready_users (set_fence sch k j s) = ready_users sch"
  by (auto simp: set_fence_def frame_owners_def ready_users_def)

lemma frame_owners_set_pipeline:
  "i < length (pipelines sch) \<Longrightarrow>
     frame_owners (set_pipeline sch i p) + pipeline_owners (pipelines sch ! i) = frame_owners sch + pipeline_owners p"
  using sum_list_update [of i "pipelines sch" pipeline_owners p] by (simp add: frame_owners_def ac_simps)

lemma ready_users_set_pipeline:
  "i < length (pipelines sch) \<Longrightarrow>
     ready_users (set_pipeline sch i p) + pipeline_ready (pipelines sch ! i) = ready_users sch + pipeline_ready p"
  using sum_list_update [of i "pipelines sch" pipeline_ready p] by (simp add: ready_users_def)

lemma outputs_ok_set_pipeline:
  "outputs_ok ids sch \<Longrightarrow> i < length (pipelines sch) \<Longrightarrow> op_output_id p = op_output_id (pipelines sch ! i) \<Longrightarrow>
     op_scanout_index p = op_scanout_index (pipelines sch ! i) \<Longrightarrow> outputs_ok ids (set_pipeline sch i p)"
  unfolding outputs_ok_def
  by (auto dest!: set_update_subset_insert [THEN subsetD] simp: nth_mem)

lemma position_update_key:
  "(\<And>x. key (f x) = key x) \<Longrightarrow> position (\<lambda>x. key x = k) (xs[i := f (xs ! i)]) = position (\<lambda>x. key x = k) xs"
proof (induction xs arbitrary: i)
  case (Cons x xs)
  then show ?case
    by (cases i) simp_all
qed simp

lemma fence_pool_set_fence [simp]: "fence_pool (set_fence sch k j s) = fence_pool sch"
  unfolding fence_pool_def set_fence_def
  by (rule ext, simp, rule position_update_key [where f = "\<lambda>pool. pool\<lparr>fence_slots := (fence_slots pool)[j := s]\<rparr>"]) simp

lemma fence_of_set_fence:
  assumes "fence_pool sch out = Some k" "j < length (fence_slots (ready_fences sch ! k))"
  shows "fence_of (set_fence sch k j s) = (fence_of sch)(out := (fence_of sch out)(j := Some s))"
proof -
  have k: "k < length (ready_fences sch)" "orf_output_id (ready_fences sch ! k) = out"
    using assms(1) by (auto simp: fence_pool_def dest!: position_Some)
  have other: "k' \<noteq> k" if "fence_pool sch out' = Some k'" "out' \<noteq> out" for out' k'
    using that k by (auto simp: fence_pool_def dest!: position_Some)
  have slots: "fence_slots (ready_fences (set_fence sch k j s) ! k') =
      (if k' = k then (fence_slots (ready_fences sch ! k))[j := s] else fence_slots (ready_fences sch ! k'))" for k'
    using k(1) by (simp add: set_fence_def)
  have "fence_of (set_fence sch k j s) out' j' = ((fence_of sch)(out := (fence_of sch out)(j := Some s))) out' j'" for out' j'
  proof (cases "out' = out")
    case True
    then show ?thesis
      using assms by (simp add: fence_of_def slots get_at_def)
  next
    case False
    then show ?thesis
      using other by (auto simp: fence_of_def slots split: option.splits)
  qed
  then show ?thesis
    by (intro ext)
qed

lemma fence_of_at:
  assumes "fence_pool sch out = Some k"
  shows "fence_of sch out j = get_at (fence_slots (ready_fences sch ! k)) j"
  using assms by (simp add: fence_of_def)

lemma shapes_ok_set_pipeline [simp]: "shapes_ok (set_pipeline sch i p) natives = shapes_ok sch natives"
  by (simp add: shapes_ok_def)

lemma shapes_ok_set_fence [simp]: "shapes_ok (set_fence sch k j s) natives = shapes_ok sch natives"
proof -
  have "map (\<lambda>pool. (orf_output_id pool, length (fence_slots pool))) (ready_fences (set_fence sch k j s)) =
      map (\<lambda>pool. (orf_output_id pool, length (fence_slots pool))) (ready_fences sch)"
    by (simp add: set_fence_def map_list_update_same)
  then show ?thesis
    by (simp add: shapes_ok_def)
qed

lemma sched_inv_env:
  "sched_inv ids E L sch env \<Longrightarrow> broker env' = broker env \<Longrightarrow> swapchains env' = swapchains env \<Longrightarrow>
     sched_inv ids E L sch env'"
  by (simp add: sched_inv_def)

lemma sched_inv_cong:
  assumes "pipelines sch' = pipelines sch" "ready_fences sch' = ready_fences sch" "parked sch' = parked sch"
  shows "sched_inv ids E L sch' env = sched_inv ids E L sch env"
proof -
  have "fence_pool sch' = fence_pool sch"
    by (simp add: fence_pool_def assms fun_eq_iff)
  then have "fence_of sch' = fence_of sch"
    by (simp add: fence_of_def assms fun_eq_iff cong: option.case_cong)
  moreover from this have "discards sch' = discards sch"
    by (simp add: discards_def fun_eq_iff)
  moreover have "frame_owners sch' = frame_owners sch" "ready_users sch' = ready_users sch"
    by (simp_all add: frame_owners_def ready_users_def assms)
  ultimately show ?thesis
    by (simp add: sched_inv_def ledger_def fences_ok_def outputs_ok_def owners_ok_def shapes_ok_def assms)
qed

lemma sched_inv_set_pipeline:
  assumes inv: "sched_inv ids E L sch env" and i: "i < length (pipelines sch)"
    and same: "op_output_id p = op_output_id (pipelines sch ! i)" "op_scanout_index p = op_scanout_index (pipelines sch ! i)"
    and owners: "pipeline_owners p + L' = pipeline_owners (pipelines sch ! i) + L"
    and readies: "pipeline_ready p + E' = pipeline_ready (pipelines sch ! i) + E"
  shows "sched_inv ids E' L' (set_pipeline sch i p) env"
proof -
  have "frame_owners (set_pipeline sch i p) + L' + pipeline_owners (pipelines sch ! i) =
      frame_owners sch + (pipeline_owners p + L')"
    using frame_owners_set_pipeline [OF i, of p] by (simp add: ac_simps)
  then have fo: "frame_owners (set_pipeline sch i p) + L' = frame_owners sch + L"
    unfolding owners by (simp add: ac_simps)
  have "ready_users (set_pipeline sch i p) + E' + pipeline_ready (pipelines sch ! i) =
      ready_users sch + (pipeline_ready p + E')"
    using ready_users_set_pipeline [OF i, of p] by (simp add: ac_simps)
  then have ru: "ready_users (set_pipeline sch i p) + E' = ready_users sch + E"
    unfolding readies by (simp add: ac_simps)
  show ?thesis
    using inv outputs_ok_set_pipeline [OF _ i same]
    unfolding sched_inv_def ledger_def fences_ok_def owners_ok_def fo ru by simp
qed

lemma sched_inv_set_fence:
  assumes inv: "sched_inv ids E L sch env" and k: "fence_pool sch out = Some k"
    and s: "fence_of sch out j = Some s" and ok: "fence_ok (count (ready_users sch + E') (out, j)) s'"
    and refs: "refs_of (broker env') = set_ref (refs_of (broker env)) out j
      (count (frame_owners sch + L') (out, j) + discard_users_on_signal s')"
    and E': "\<And>x. x \<noteq> (out, j) \<Longrightarrow> count E' x = count E x" and L': "\<And>x. x \<noteq> (out, j) \<Longrightarrow> count L' x = count L x"
    and natives: "swapchains env' = swapchains env"
  shows "sched_inv ids E' L' (set_fence sch k j s') env'"
proof -
  have j: "j < length (fence_slots (ready_fences sch ! k))"
    using k s by (simp add: fence_of_def)
  note f = fence_of_set_fence [OF k j, of s']
  have "ledger L' (set_fence sch k j s') (broker env')"
    using inv L' by (auto simp: sched_inv_def ledger_def discards_def f refs)
  moreover have "fences_ok E' (set_fence sch k j s')"
    using inv ok E' by (simp add: sched_inv_def fences_ok_def f)
  moreover have "owners_ok L' (set_fence sch k j s')"
  proof -
    have "fence_of (set_fence sch k j s') out' i' \<noteq> None" if "(out', i') \<in># frame_owners sch + L'" for out' i'
    proof (cases "(out', i') = (out, j)")
      case False
      then have "count (frame_owners sch + L) (out', i') = count (frame_owners sch + L') (out', i')"
        using L' by simp
      then have "(out', i') \<in># frame_owners sch + L"
        using that by (metis count_eq_zero_iff)
      then have "fence_of sch out' i' \<noteq> None"
        using inv unfolding sched_inv_def owners_ok_def by blast
      then show ?thesis
        using False by (auto simp: f)
    qed (simp add: f)
    then show ?thesis
      by (simp add: owners_ok_def)
  qed
  moreover have "outputs_ok ids (set_fence sch k j s')" "shapes_ok (set_fence sch k j s') (swapchains env')"
    using inv by (simp_all add: sched_inv_def outputs_ok_def natives)
  ultimately show ?thesis
    by (simp add: sched_inv_def)
qed

lemma discard_ready_frame_set_fence:
  "k < length (ready_fences sch) \<Longrightarrow>
     sch\<lparr>ready_fences := (ready_fences sch)[k := (ready_fences sch ! k)\<lparr>fence_slots := (fence_slots (ready_fences sch ! k))[j := s]\<rparr>]\<rparr> =
     set_fence sch k j s"
  by (simp add: set_fence_def)

lemma fence_of_ready:
  assumes "fences_ok E sch" "(out, i) \<in># ready_users sch + E"
  obtains k s where "fence_pool sch out = Some k" "k < length (ready_fences sch)" "fence_of sch out i = Some s"
    "i < length (fence_slots (ready_fences sch ! k))" "fence_slots (ready_fences sch ! k) ! i = s"
    "fence_ok (count (ready_users sch + E) (out, i)) s"
proof -
  have "0 < count (ready_users sch + E) (out, i)"
    using assms(2) by (metis count_greater_zero_iff)
  then obtain s where s: "fence_of sch out i = Some s" "fence_ok (count (ready_users sch + E) (out, i)) s"
    using assms(1) unfolding fences_ok_def
    by (metis fence_entry_ok.elims(2) less_numeral_extra(3))
  then obtain k where k: "fence_pool sch out = Some k" "i < length (fence_slots (ready_fences sch ! k))"
      "fence_slots (ready_fences sch ! k) ! i = s"
    by (auto simp: fence_of_def split: option.splits)
  moreover have "k < length (ready_fences sch)"
    using k(1) by (auto simp: fence_pool_def dest!: position_Some)
  ultimately show ?thesis
    using s that by blast
qed

text \<open>A discarded frame gives its buffer back, at once or when the GPU has finished.\<close>

lemma discard_frame_ok:
  assumes inv: "sched_inv ids (add_mset (out, of_index frame) E) (add_mset (out, of_index frame) L) sch env"
  obtains sch' env' where "discard_frame sch env out frame lost = Inr (sch', env')" "sched_inv ids E L sch' env'"
    "pipelines sch' = pipelines sch" "parked sch' = parked sch" "env' = env\<lparr>broker := broker env'\<rparr>"
    "presented_outputs sch' = presented_outputs sch" "presented_frames sch' = presented_frames sch"
proof -
  let ?i = "of_index frame" and ?b = "broker env"
  obtain k s where k: "fence_pool sch out = Some k" "k < length (ready_fences sch)" "fence_of sch out ?i = Some s"
      "?i < length (fence_slots (ready_fences sch ! k))" "fence_slots (ready_fences sch ! k) ! ?i = s"
      "fence_ok (Suc (count (ready_users sch + E) (out, ?i))) s"
    using inv by (auto simp: sched_inv_def elim!: fence_of_ready [where out = out and i = ?i])
  have refs: "refs_of ?b out ?i = Suc (count (frame_owners sch + L) (out, ?i)) + discard_users_on_signal s"
    using inv k(3) by (simp add: sched_inv_def ledger_def discards_def)
  show ?thesis
  proof (cases "signaled s")
    case True
    have d: "discard_users_on_signal s = 0" "users s = Suc (count (ready_users sch + E) (out, ?i))"
      using k(6) True by (auto simp: fence_ok_def)
    obtain b' where b': "release_output ?b out ?i = Inr b'"
        "refs_of b' = set_ref (refs_of ?b) out ?i (refs_of ?b out ?i - 1)"
      by (rule release_output_refs [of ?b out ?i]) (use refs in simp)
    obtain s' where s': "release_user s = Inr s'" "fence_ok (count (ready_users sch + E) (out, ?i)) s'"
        "discard_users_on_signal s' = 0"
      using k(6) d True by (auto simp: release_user_def Let_def fence_ok_def fence_available_def)
    show ?thesis
    proof (rule that [of "set_fence sch k ?i s'" "env\<lparr>broker := b'\<rparr>"])
      show "sched_inv ids E L (set_fence sch k ?i s') (env\<lparr>broker := b'\<rparr>)"
        by (rule sched_inv_set_fence [OF inv k(1,3) s'(2)]) (auto simp: s' b'(2) refs d(1))
    qed (simp_all add: discard_frame_def k discard_ready_frame_def get_at_def True b'(1) s'(1)
        discard_ready_frame_set_fence, simp_all add: set_fence_def)
  next
    case False
    define s' where "s' = s\<lparr>discard_users_on_signal := discard_users_on_signal s + 1\<rparr>"
    have s': "discard_user_when_signaled s = Inr s'" "fence_ok (count (ready_users sch + E) (out, ?i)) s'"
        "discard_users_on_signal s' = discard_users_on_signal s + 1"
      using k(6) False by (auto simp: discard_user_when_signaled_def fence_ok_def s'_def)
    show ?thesis
    proof (rule that [of "set_fence sch k ?i s'" env])
      show "sched_inv ids E L (set_fence sch k ?i s') env"
        by (rule sched_inv_set_fence [OF inv k(1,3) s'(2)]) (auto simp: s' refs fun_eq_iff)
    qed (simp_all add: discard_frame_def k discard_ready_frame_def get_at_def False s'(1)
        discard_ready_frame_set_fence, simp_all add: set_fence_def)
  qed
qed

section \<open>Acknowledgements\<close>

text \<open>The users a signal frees are released together with the output owners they stand for.\<close>

lemma release_discards_ok:
  assumes "n \<le> refs_of b out i" "n \<le> users s" "token s \<noteq> 0"
    and "discard_users_on_signal s = 0"
  obtains b' s' where "release_discards n b out i s = Inr (b', s')"
    "refs_of b' = set_ref (refs_of b) out i (refs_of b out i - n)"
    "users s' = users s - n" "discard_users_on_signal s' = 0"
    "if n < users s \<or> n = 0 then s' = s\<lparr>users := users s - n\<rparr> else fence_available s'"
  using assms
proof (induction n arbitrary: b s thesis)
  case 0
  show ?case
    by (rule 0(1) [of b s]) (use 0 in simp_all)
next
  case (Suc n)
  obtain b1 where b1: "release_output b out i = Inr b1"
      "refs_of b1 = set_ref (refs_of b) out i (refs_of b out i - 1)"
    by (rule release_output_refs [of b out i]) (use Suc.prems in simp)
  show ?case
  proof (cases "users s = 1")
    case True
    then have n: "n = 0"
      using Suc.prems by simp
    show ?thesis
      by (rule Suc.prems(1) [of b1 "s\<lparr>users := 0, slot_fence := None, token := 0, signaled := False,
          discard_users_on_signal := 0\<rparr>"])
        (simp_all add: n b1 release_user_def True Let_def fence_available_def fun_upd_def)
  next
    case False
    define s1 where "s1 = s\<lparr>users := users s - 1\<rparr>"
    have s1: "release_user s = Inr s1" "users s1 = users s - 1"
      using False Suc.prems by (simp_all add: release_user_def Let_def s1_def)
    obtain b' s' where r: "release_discards n b1 out i s1 = Inr (b', s')"
      "refs_of b' = set_ref (refs_of b1) out i (refs_of b1 out i - n)"
      "users s' = users s1 - n" "discard_users_on_signal s' = 0"
      "if n < users s1 \<or> n = 0 then s' = s1\<lparr>users := users s1 - n\<rparr> else fence_available s'"
      by (rule Suc.IH [of b1 s1], erule (4) that) (use Suc.prems False in \<open>auto simp: b1 s1 s1_def\<close>)
    show ?thesis
    proof (rule Suc.prems(1) [of b' s'])
      show "release_discards (Suc n) b out i s = Inr (b', s')"
        by (simp add: b1 s1 r)
      show "if Suc n < users s \<or> Suc n = 0 then s' = s\<lparr>users := users s - Suc n\<rparr> else fence_available s'"
        using r(5) False Suc.prems(3) by (auto simp: s1_def split: if_splits)
    qed (use r b1 s1 in \<open>simp_all add: diff_commute\<close>)
  qed
qed

lemma signaled_fence_ok:
  assumes "fence_ok n s" "users s \<noteq> 0" "users s' = users s - discard_users_on_signal s" "discard_users_on_signal s' = 0"
    and "if discard_users_on_signal s < users s \<or> discard_users_on_signal s = 0
      then s' = s\<lparr>signaled := True, discard_users_on_signal := 0, users := users s - discard_users_on_signal s\<rparr>
      else fence_available s'"
  shows "fence_ok n s'"
proof (cases "discard_users_on_signal s < users s \<or> discard_users_on_signal s = 0")
  case True
  then show ?thesis
    using assms by (auto simp: fence_ok_def)
next
  case False
  then show ?thesis
    using assms by (auto simp: fence_ok_def)
qed

lemma fence_at:
  assumes "fence_pool sch out = Some k" "get_at (fence_slots (ready_fences sch ! k)) i = Some s" "fences_ok E sch"
  shows "fence_of sch out i = Some s" "fence_ok (count (ready_users sch + E) (out, i)) s"
proof -
  show f: "fence_of sch out i = Some s"
    using assms by (simp add: fence_of_def)
  then show "fence_ok (count (ready_users sch + E) (out, i)) s"
    using assms(3) by (metis fences_ok_def fence_entry_ok.simps(2))
qed

lemma acknowledge_signal_ok:
  assumes inv: "sched_inv ids E L sch env"
  obtains sch' env' where "acknowledge_signal sch env signal = Inr (sch', env')" "sched_inv ids E L sch' env'"
    "pipelines sch' = pipelines sch" "parked sch' = parked sch" "env' = env\<lparr>broker := broker env'\<rparr>"
proof (cases "fence_pool sch (rs_output signal)")
  case None
  then show ?thesis
    using inv by (intro that [of sch env]) (simp_all add: acknowledge_signal_def)
next
  case k: (Some k)
  let ?out = "rs_output signal" and ?i = "rs_index signal"
  show ?thesis
  proof (cases "get_at (fence_slots (ready_fences sch ! k)) ?i")
    case None
    then show ?thesis
      using inv by (intro that [of sch env]) (simp_all add: acknowledge_signal_def k get_at_def)
  next
    case s: (Some s)
    note f = fence_at [OF k s, of E]
    have ok: "fence_of sch ?out ?i = Some s" "fence_ok (count (ready_users sch + E) (?out, ?i)) s"
      using f inv by (simp_all add: sched_inv_def)
    show ?thesis
    proof (cases "rs_token signal = 0 \<or> rs_token signal \<noteq> token s \<or> users s = 0")
      case True
      then show ?thesis
        using inv by (intro that [of sch env]) (simp_all add: acknowledge_signal_def k s mark_signaled_def)
    next
      case False
      let ?d = "discard_users_on_signal s"
      let ?s1 = "s\<lparr>signaled := True, discard_users_on_signal := 0\<rparr>"
      have refs: "refs_of (broker env) ?out ?i = count (frame_owners sch + L) (?out, ?i) + ?d"
        using inv ok(1) by (simp add: sched_inv_def ledger_def discards_def)
      have d: "users s = count (ready_users sch + E) (?out, ?i) + ?d"
        using ok(2) by (simp add: fence_ok_def)
      obtain b' s' where r: "release_discards ?d (broker env) ?out ?i ?s1 = Inr (b', s')"
        "refs_of b' = set_ref (refs_of (broker env)) ?out ?i (refs_of (broker env) ?out ?i - ?d)"
        "users s' = users ?s1 - ?d" "discard_users_on_signal s' = 0"
        "if ?d < users ?s1 \<or> ?d = 0 then s' = ?s1\<lparr>users := users ?s1 - ?d\<rparr> else fence_available s'"
        by (rule release_discards_ok [of ?d "broker env" ?out ?i ?s1]) (use False refs d in auto)
      have s': "fence_ok (count (ready_users sch + E) (?out, ?i)) s'"
        by (rule signaled_fence_ok [OF ok(2)]) (use r(3-5) False in auto)
      show ?thesis
      proof (rule that [of "set_fence sch k ?i s'" "env\<lparr>broker := b'\<rparr>"])
        show "acknowledge_signal sch env signal = Inr (set_fence sch k ?i s', env\<lparr>broker := b'\<rparr>)"
          using False r(1) by (simp add: acknowledge_signal_def k s mark_signaled_def)
        show "sched_inv ids E L (set_fence sch k ?i s') (env\<lparr>broker := b'\<rparr>)"
          by (rule sched_inv_set_fence [OF inv k ok(1) s']) (auto simp: r(2,4) refs)
      qed simp_all
    qed
  qed
qed

lemma acknowledge_ready_fences_ok:
  assumes "sched_inv ids E L sch env"
  shows "\<exists>sch' env'. acknowledge_ready_fences sch env signals = Inr (sch', env') \<and> sched_inv ids E L sch' env'"
  using assms
proof (induction signals arbitrary: sch env)
  case (Cons signal signals)
  obtain sch1 env1 where "acknowledge_signal sch env signal = Inr (sch1, env1)" "sched_inv ids E L sch1 env1"
    using acknowledge_signal_ok [OF Cons.prems] by metis
  then show ?case
    using Cons.IH by auto
qed simp

lemma pipeline_owners_frames:
  "pipeline_owners (p\<lparr>frames := fs\<rparr>) = add_mset (op_output_id p, scanning p)
     (frame_buffer (op_output_id p) (ready fs) + frame_buffer (op_output_id p) (in_flight_frame_of fs))"
  "pipeline_ready (p\<lparr>frames := fs\<rparr>) = frame_buffer (op_output_id p) (ready fs)"
  by (simp_all add: pipeline_owners_def pipeline_ready_def)

lemma acknowledge_submission_owners:
  "acknowledge_submission fs commit submitted = Inr (i, fs') \<Longrightarrow> ready fs' = ready fs \<and>
     frame_buffer out (in_flight_frame_of fs') = frame_buffer out (in_flight_frame_of fs)"
  by (auto simp: acknowledge_submission_def in_flight_frame_of_def
      split: option.splits in_flight_frame.splits if_splits)

lemma acknowledge_submitted_inv:
  assumes inv: "sched_inv ids E L sch env"
    and ack: "acknowledge_submitted scanouts sch env commit submitted = Inr (sch', env')"
  shows "sched_inv ids E L sch' env'"
proof -
  obtain i index fs where i: "position (\<lambda>p. scheduled_commit (frames p) = Some commit) (pipelines sch) = Some i"
    "acknowledge_submission (frames (pipelines sch ! i)) commit submitted = Inr (index, fs)"
    "sch' = set_pipeline sch i ((pipelines sch ! i)\<lparr>frames := fs\<rparr>)" "broker env' = broker env"
    "swapchains env' = swapchains env"
    using ack by (auto simp: acknowledge_submitted_def result_simps Let_def)
  have "i < length (pipelines sch)"
    using position_Some [OF i(1)] by simp
  moreover note acknowledge_submission_owners [OF i(2), of "op_output_id (pipelines sch ! i)"]
  ultimately show ?thesis
    unfolding i(3) using inv i(4,5)
    by (intro sched_inv_env [where env = env and env' = env'] sched_inv_set_pipeline)
      (auto simp: pipeline_owners_frames pipeline_owners_def pipeline_ready_def)
qed

lemma acknowledge_volition_events_inv:
  "sched_inv ids E L sch env \<Longrightarrow>
     acknowledge_volition_events instance scanouts sch env stalled events = Inr (sch', env', stalled') \<Longrightarrow>
     sched_inv ids E L sch' env'"
proof (induction "instance" scanouts sch env stalled events rule: acknowledge_volition_events.induct)
  case (2 inst scanouts sch env stalled event events)
  then show ?case
    by (auto simp: result_simps split: if_splits volition_event.splits dest: acknowledge_submitted_inv)
qed simp

section \<open>Submission\<close>

lemma release_ready_user:
  assumes "fence_ok (Suc n) s" "signaled s"
  shows "\<exists>s'. release_user s = Inr s' \<and> fence_ok n s' \<and> discard_users_on_signal s' = 0"
  using assms by (auto simp: release_user_def Let_def fence_ok_def fence_available_def)

lemma ready_frame_fence:
  assumes inv: "sched_inv ids E L sch env" and i: "i < length (pipelines sch)"
    and p: "p = pipelines sch ! i" "ready (frames p) = Some frame"
  shows "(op_output_id p, of_index frame) \<in># ready_users sch"
proof -
  have "pipelines sch ! i \<in> set (pipelines sch)"
    using i by simp
  then have "pipeline_ready (pipelines sch ! i) \<subseteq># ready_users sch"
    unfolding ready_users_def by (metis in_set_conv_decomp map_append list.simps(9) sum_list.append
        sum_list.Cons mset_subset_eq_add_left mset_subset_eq_add_right subset_mset.order_trans)
  then show ?thesis
    using p by (auto simp: pipeline_ready_def dest: mset_subset_eqD)
qed

text \<open>A ready frame goes to the commit engine and gives its fence back.\<close>

lemma schedule_inv:
  assumes inv: "sched_inv ids E L sch env" and i: "i < length (pipelines sch)"
    and p: "p = pipelines sch ! i" "ready (frames p) = Some frame" "in_flight (frames p) = None"
    and fs: "ready fs = None" "frame_buffer (op_output_id p) (in_flight_frame_of fs) = {#(op_output_id p, of_index frame)#}"
    and same: "op_output_id p' = op_output_id p" "op_scanout_index p' = op_scanout_index p" "scanning p' = scanning p"
      "frames p' = fs"
    and k: "fence_pool sch (op_output_id p) = Some k"
      "get_at (fence_slots (ready_fences sch ! k)) (of_index frame) = Some s" "signaled s"
  obtains s' where "release_user s = Inr s'"
    "sched_inv ids E L (set_fence (set_pipeline sch i p') k (of_index frame) s') env"
proof -
  let ?x = "(op_output_id p, of_index frame)"
  have inv1: "sched_inv ids (add_mset ?x E) L (set_pipeline sch i p') env"
    using p fs same by (intro sched_inv_set_pipeline [OF inv i])
      (auto simp: pipeline_owners_def pipeline_ready_def in_flight_frame_of_def)
  have f: "get_at (fence_slots (ready_fences (set_pipeline sch i p') ! k)) (of_index frame) = Some s"
      "fence_pool (set_pipeline sch i p') (op_output_id p) = Some k" "fences_ok (add_mset ?x E) (set_pipeline sch i p')"
    using k inv1 by (simp_all add: sched_inv_def)
  have ok: "fence_of sch (op_output_id p) (of_index frame) = Some s"
      "fence_ok (Suc (count (ready_users (set_pipeline sch i p') + E) ?x)) s"
    using fence_at [OF f(2,1,3)] by simp_all
  obtain s' where s': "release_user s = Inr s'" "fence_ok (count (ready_users (set_pipeline sch i p') + E) ?x) s'"
      "discard_users_on_signal s' = 0"
    using release_ready_user [OF ok(2) k(3)] by auto
  have refs: "refs_of (broker env) (op_output_id p) (of_index frame) =
      count (frame_owners (set_pipeline sch i p') + L) ?x"
    using inv1 ok k(3) by (auto simp: sched_inv_def ledger_def discards_def fence_ok_def)
  show ?thesis
  proof (rule that [OF s'(1)])
    show "sched_inv ids E L (set_fence (set_pipeline sch i p') k (of_index frame) s') env"
      by (rule sched_inv_set_fence [OF inv1 _ _ s'(2)]) (use k ok s' refs in auto)
  qed
qed

lemma schedule_ready_frame:
  assumes "ready fs = Some frame" "in_flight fs = None"
  obtains fs' where "schedule_ready fs commit = Inr fs'" "ready fs' = None"
    "in_flight fs' = Some (Scheduled \<lparr>sf_commit = commit, sf_frame = frame\<rparr>)"
proof
  let ?fs' = "fs\<lparr>ready := None, in_flight := Some (Scheduled \<lparr>sf_commit = commit, sf_frame = frame\<rparr>)\<rparr>"
  show "schedule_ready fs commit = Inr ?fs'"
    by (simp add: schedule_ready_def assms)
qed simp_all

lemma submit_wake_inv:
  assumes inv: "sched_inv ids E L sch env" and i: "i < length (pipelines sch)"
    and p: "p = pipelines sch ! i" "ready (frames p) = Some frame" "in_flight (frames p) = None"
    and k: "fence_pool sch (op_output_id p) = Some k"
      "get_at (fence_slots (ready_fences sch ! k)) (of_index frame) = Some s" "signaled s"
    and commit: "commit_frame commit = of_index frame"
    and submitted: "submit_wake now submitted_at accepted scanouts i k commit sch env direct wake = Inr (sch', env', direct')"
  shows "sched_inv ids E L sch' env' \<and> length (pipelines sch') = length (pipelines sch)"
proof -
  obtain fs where fs: "schedule_ready (frames p) commit = Inr fs" "ready fs = None"
      "in_flight fs = Some (Scheduled \<lparr>sf_commit = commit, sf_frame = frame\<rparr>)"
    by (rule schedule_ready_frame [OF p(2,3)])
  define fs' where "fs' = fs\<lparr>in_flight := Some (Submitted (frame\<lparr>of_submitted_at := submitted_at\<rparr>))\<rparr>"
  have fs': "acknowledge_submission fs commit submitted_at = Inr (of_index frame, fs')"
    using fs by (simp add: acknowledge_submission_def fs'_def)
  obtain s' where s': "release_user s = Inr s'"
      "sched_inv ids E L (set_fence (set_pipeline sch i (p\<lparr>frames := fs', op_wake := None\<rparr>)) k (of_index frame) s') env"
    by (rule schedule_inv [OF inv i p _ _ _ _ _ _ k, of fs' "p\<lparr>frames := fs', op_wake := None\<rparr>"])
      (use fs in \<open>simp_all add: in_flight_frame_of_def fs'_def\<close>)
  have retry: "sched_inv ids E L (set_pipeline sch i (p\<lparr>op_wake := w\<rparr>)) env" for w
    by (rule sched_inv_set_pipeline [OF inv i]) (simp_all add: p(1) pipeline_owners_def pipeline_ready_def)
  have slot: "fence_slots (ready_fences sch ! k) ! of_index frame = s"
    using k(2) by simp
  consider "(sch', env') = (sch, env)"
    | w where "sch' = set_pipeline sch i (p\<lparr>op_wake := w\<rparr>)" "broker env' = broker env" "swapchains env' = swapchains env"
    | "sch' = set_fence (set_pipeline sch i (p\<lparr>frames := fs', op_wake := None\<rparr>)) k (of_index frame) s'"
      "broker env' = broker env" "swapchains env' = swapchains env"
    using submitted unfolding submit_wake_def Let_def p(1) [symmetric]
    by (auto simp: result_simps fs(1) fs' s'(1) slot commit split: if_splits prod.splits)
  then show ?thesis
    using inv s'(2) retry by cases (auto intro: sched_inv_env)
qed

lemma submit_pipeline_inv:
  assumes inv: "sched_inv ids E L sch env" and i: "i < length (pipelines sch)"
    and submitted: "submit_pipeline clock accepted submit scanouts i (sch, env, direct) = Inr (sch', env', direct')"
  shows "sched_inv ids E L sch' env' \<and> length (pipelines sch') = length (pipelines sch)"
proof -
  define p where p: "p = pipelines sch ! i"
  note run = submitted [unfolded submit_pipeline_def prod.case Let_def p [symmetric]]
  consider "(sch', env') = (sch, env)" | frame where "ready (frames p) = Some frame" "in_flight (frames p) = None"
    using run by (cases "ready (frames p)") (auto split: if_splits)
  then show ?thesis
  proof cases
    case 2
    from run 2 consider k s where "fence_pool sch (op_output_id p) = Some k"
        "get_at (fence_slots (ready_fences sch ! k)) (of_index frame) = Some s" | "(sch', env') = (sch, env)"
      by (auto simp: result_simps split: if_splits simp del: get_at_Some)
    then show ?thesis
    proof cases
      case 1
      let ?commit = "\<lparr>stream = i, commit_frame = of_index frame\<rparr>"
      obtain fs where fs: "schedule_ready (frames p) ?commit = Inr fs" "ready fs = None"
          "in_flight fs = Some (Scheduled \<lparr>sf_commit = ?commit, sf_frame = frame\<rparr>)"
        by (rule schedule_ready_frame [OF 2])
      show ?thesis
      proof (cases "signaled s \<and> \<not> powering_off p")
        case True
        obtain s' where s': "release_user s = Inr s'"
            "sched_inv ids E L (set_fence (set_pipeline sch i (p\<lparr>frames := fs\<rparr>)) k (of_index frame) s') env"
          by (rule schedule_inv [OF inv i p 2 _ _ _ _ _ _ 1, of fs "p\<lparr>frames := fs\<rparr>"])
            (use fs True in \<open>simp_all add: in_flight_frame_of_def\<close>)
        show ?thesis
        proof (cases "op_wake p")
          case None
          consider "(sch', env') = (sch, env)"
            | "sch' = set_fence (set_pipeline sch i (p\<lparr>frames := fs\<rparr>)) k (of_index frame) s'" "env' = env"
            using run by (auto simp: result_simps 1 2 None True fs(1) s'(1) simp del: get_at_Some split: submission.splits)
              (metis submission.exhaust)
          then show ?thesis
            using inv s'(2) by cases auto
        next
          case (Some wake)
          then have "submit_wake (fst (clock i)) (snd (clock i)) (accepted i) scanouts i k ?commit sch env direct wake = Inr (sch', env', direct')"
            using run by (auto simp: result_simps 1 2 True simp del: get_at_Some)
          then show ?thesis
            using True by (intro submit_wake_inv [OF inv i p 2 1]) auto
        qed
      qed (use run inv in \<open>auto simp: 1 2 split: if_splits simp del: get_at_Some\<close>)
    qed (use inv in auto)
  qed (use inv in auto)
qed

lemma submit_each_inv:
  "sched_inv ids E L sch env \<Longrightarrow> list_all (\<lambda>i. i < length (pipelines sch)) is \<Longrightarrow>
     submit_each clock accepted submit scanouts is (sch, env, direct) = Inr (sch', env', direct') \<Longrightarrow>
     sched_inv ids E L sch' env'"
proof (induction "is" arbitrary: sch env direct)
  case (Cons i "is")
  obtain sch1 env1 direct1 where first: "submit_pipeline clock accepted submit scanouts i (sch, env, direct) = Inr (sch1, env1, direct1)"
    and rest: "submit_each clock accepted submit scanouts is (sch1, env1, direct1) = Inr (sch', env', direct')"
    using Cons.prems(3) by (simp only: submit_each.simps and_then_eq_Inr) (metis prod_cases3)
  have "sched_inv ids E L sch1 env1 \<and> length (pipelines sch1) = length (pipelines sch)"
    by (rule submit_pipeline_inv [OF Cons.prems(1) _ first]) (use Cons.prems(2) in simp)
  then show ?case
    using Cons.IH [OF _ _ rest] Cons.prems(2) by simp
qed simp

lemma submit_ready_inv:
  "sched_inv ids E L sch env \<Longrightarrow>
     submit_ready clock accepted submit scanouts sch env = Inr (sch', env', direct) \<Longrightarrow> sched_inv ids E L sch' env'"
  unfolding submit_ready_def by (erule submit_each_inv) (auto simp: list_all_iff)

section \<open>Page flips\<close>

definition retires :: "('b, 'p) output_pipeline \<Rightarrow> ('b, 'p) output_pipeline \<Rightarrow> bool" where
  "retires p p' \<longleftrightarrow> op_scanout_index p' = op_scanout_index p \<and>
     (in_flight (frames p') = in_flight (frames p) \<or>
      in_flight (frames p') = None \<and> submitted_frame (frames p) \<noteq> None)"

lemma retires_refl [simp]: "retires p p"
  by (simp add: retires_def)

lemma retires_trans: "retires p q \<Longrightarrow> retires q r \<Longrightarrow> retires p r"
  by (auto simp: retires_def submitted_frame_def)

lemma retires_all_refl [simp]: "list_all2 retires ps ps"
  by (simp add: list.rel_refl)

lemma retires_all_trans: "list_all2 retires ps qs \<Longrightarrow> list_all2 retires qs rs \<Longrightarrow> list_all2 retires ps rs"
  by (rule list_all2_trans [OF retires_trans])

lemma retires_update: "retires (ps ! i) q \<Longrightarrow> list_all2 retires ps (ps[i := q])"
  by (cases "i < length ps") (auto simp: list_all2_conv_all_nth nth_list_update list_update_beyond)

text \<open>The pipeline a page flip belongs to, and whether its frame still waits for the acknowledgement of its submission.\<close>

definition flip_pipeline :: "'m scanout list \<Rightarrow> ('f, 'b, 'p) output_scheduler \<Rightarrow> page_flip_completion \<Rightarrow> ('b, 'p) output_pipeline option" where
  "flip_pipeline scanouts sch completion = find (\<lambda>p. scanout_crtc scanouts p = Some (pf_crtc completion)) (pipelines sch)"

definition flip_early :: "'m scanout list \<Rightarrow> ('f, 'b, 'p) output_scheduler \<Rightarrow> page_flip_completion \<Rightarrow> bool" where
  "flip_early scanouts sch completion \<longleftrightarrow>
     (case flip_pipeline scanouts sch completion of None \<Rightarrow> False | Some p \<Rightarrow> scheduled_commit (frames p) \<noteq> None)"

definition flip_unseen :: "'m scanout list \<Rightarrow> ('f, 'b, 'p) output_scheduler \<Rightarrow> page_flip_completion \<Rightarrow> bool" where
  "flip_unseen scanouts sch completion \<longleftrightarrow>
     (case flip_pipeline scanouts sch completion of None \<Rightarrow> False | Some p \<Rightarrow> submitted_frame (frames p) \<noteq> None)"

lemma flip_pipeline_retires:
  assumes "list_all2 retires (pipelines sch) (pipelines sch')"
  shows "rel_option retires (flip_pipeline scanouts sch c) (flip_pipeline scanouts sch' c)"
  using assms unfolding flip_pipeline_def
proof (induction rule: list_all2_induct)
  case (Cons p ps q qs)
  then have "scanout_crtc scanouts q = scanout_crtc scanouts p"
    by (simp add: scanout_crtc_def retires_def)
  then show ?case
    using Cons by simp
qed simp

lemma flip_retires:
  assumes "list_all2 retires (pipelines sch) (pipelines sch')"
  shows "flip_early scanouts sch' c = flip_early scanouts sch c" "flip_unseen scanouts sch' c \<Longrightarrow> flip_unseen scanouts sch c"
  using flip_pipeline_retires [OF assms, of scanouts c]
  by (auto simp: flip_early_def flip_unseen_def retires_def scheduled_commit_def submitted_frame_def
      split: option.splits in_flight_frame.splits elim!: option.rel_cases)

lemma position_find: "position P xs = Some i \<Longrightarrow> find P xs = Some (xs ! i)"
  using position_Some [of P xs i] by (auto simp: find_Some_iff)

lemma position_retires:
  assumes "list_all2 retires ps qs" "position (\<lambda>p. scanout_crtc scanouts p = c) ps = Some i"
  shows "position (\<lambda>p. scanout_crtc scanouts p = c) qs = Some i"
  using assms
proof (induction arbitrary: i rule: list_all2_induct)
  case (Cons p ps q qs)
  then have "scanout_crtc scanouts q = scanout_crtc scanouts p"
    by (simp add: scanout_crtc_def retires_def)
  then show ?case
    using Cons by (auto split: if_splits)
qed simp

lemma take_ready_owners:
  assumes "sched_inv ids E L sch env" "i < length (pipelines sch)" "p = pipelines sch ! i" "ready (frames p) = Some frame"
    and "op_output_id p' = op_output_id p" "op_scanout_index p' = op_scanout_index p" "scanning p' = scanning p"
    and "frames p' = (frames p)\<lparr>ready := None\<rparr>"
  shows "sched_inv ids (add_mset (op_output_id p, of_index frame) E) (add_mset (op_output_id p, of_index frame) L)
    (set_pipeline sch i p') env"
  using assms by (intro sched_inv_set_pipeline) (simp_all add: pipeline_owners_def pipeline_ready_def in_flight_frame_of_def)

lemma drop_elapsed_successor_ok:
  assumes inv: "sched_inv ids E L sch env" and i: "i < length (pipelines sch)"
  obtains sch' env' where "drop_elapsed_successor completion i sch env = Inr (sch', env')" "sched_inv ids E L sch' env'"
    "env' = env\<lparr>broker := broker env'\<rparr>" "presented_outputs sch' = presented_outputs sch"
    "presented_frames sch' = presented_frames sch" "list_all2 retires (pipelines sch) (pipelines sch')"
    "map (\<lambda>p. in_flight (frames p)) (pipelines sch') = map (\<lambda>p. in_flight (frames p)) (pipelines sch)"
proof -
  let ?p = "pipelines sch ! i"
  show ?thesis
  proof (cases "\<exists>frame. ready (frames ?p) = Some frame \<and> ready_target_elapsed frame (pf_observed_at completion)")
    case True
    then obtain frame where frame: "ready (frames ?p) = Some frame" "ready_target_elapsed frame (pf_observed_at completion)"
      by auto
    let ?p' = "?p\<lparr>frames := (frames ?p)\<lparr>ready := None\<rparr>\<rparr>"
    obtain sch' env' where d: "discard_frame (set_pipeline sch i ?p') env (op_output_id ?p) frame
          ''elapsed output successor lost its render-fence pool'' = Inr (sch', env')"
        "sched_inv ids E L sch' env'" "pipelines sch' = pipelines (set_pipeline sch i ?p')"
        "env' = env\<lparr>broker := broker env'\<rparr>"
        "presented_outputs sch' = presented_outputs (set_pipeline sch i ?p')"
        "presented_frames sch' = presented_frames (set_pipeline sch i ?p')"
      by (rule discard_frame_ok [OF take_ready_owners [OF inv i refl frame(1), of ?p']]) simp_all
    show ?thesis
      by (rule that [OF _ d(2) d(4)])
        (use d in \<open>simp_all add: drop_elapsed_successor_def Let_def frame take_ready_def,
          simp_all add: set_pipeline_def map_list_update_same retires_update retires_def\<close>)
  next
    case False
    then show ?thesis
      using inv by (intro that [of sch env]) (auto simp: drop_elapsed_successor_def Let_def split: option.splits)
  qed
qed

lemma present_ok:
  assumes "shapes_ok sch natives" "fence_of sch out i \<noteq> None"
  obtains natives' where "present natives out i = Inr natives'" "shapes_ok sch natives'"
    "map (\<lambda>pool. pool\<lparr>sw_current := 0\<rparr>) natives' = map (\<lambda>pool. pool\<lparr>sw_current := 0\<rparr>) natives"
proof -
  obtain k where k: "fence_pool sch out = Some k" "i < length (fence_slots (ready_fences sch ! k))"
    using assms(2) by (auto simp: fence_of_def get_at_def split: option.splits if_splits)
  note shape = assms(1) [unfolded shapes_ok_def]
  have len: "length natives = length (ready_fences sch)"
    using arg_cong [OF shape, of length] by simp
  have nth: "orf_output_id (ready_fences sch ! j) = sw_output_id (natives ! j) \<and>
      length (fence_slots (ready_fences sch ! j)) = length (sw_buffers (natives ! j))" if "j < length natives" for j
    using arg_cong [OF shape, of "\<lambda>xs. xs ! j"] that len by simp
  have kp: "k < length natives" "sw_output_id (natives ! k) = out" "\<forall>j<k. sw_output_id (natives ! j) \<noteq> out"
    using k(1) nth len by (auto simp: fence_pool_def dest!: position_Some)
  then have find: "for_output natives out = Some (natives ! k)"
    by (auto simp: for_output_def find_Some_iff)
  let ?n = "update_first (\<lambda>pool. sw_output_id pool = out) (\<lambda>pool. pool\<lparr>sw_current := i\<rparr>) natives"
  have "map (\<lambda>pool. (sw_output_id pool, length (sw_buffers pool))) ?n =
      map (\<lambda>pool. (sw_output_id pool, length (sw_buffers pool))) natives"
    and keep: "map (\<lambda>pool. pool\<lparr>sw_current := 0\<rparr>) ?n = map (\<lambda>pool. pool\<lparr>sw_current := 0\<rparr>) natives"
    by (simp_all add: map_update_first)
  then show ?thesis
    using k(2) kp nth assms(1) by (intro that [of ?n]) (auto simp: present_def find shapes_ok_def)
qed

lemma release_owner_ok:
  assumes inv: "sched_inv ids E (add_mset (out, i) L) sch env"
  obtains b' where "release_output (broker env) out i = Inr b'" "sched_inv ids E L sch (env\<lparr>broker := b'\<rparr>)"
proof -
  have refs: "refs_of (broker env) out i = Suc (count (frame_owners sch + L) (out, i)) + discards sch out i"
    using inv by (simp add: sched_inv_def ledger_def)
  obtain b' where b': "release_output (broker env) out i = Inr b'"
      "refs_of b' = set_ref (refs_of (broker env)) out i (refs_of (broker env) out i - 1)"
    by (rule release_output_refs [of "broker env" out i]) (use refs in simp)
  have "ledger L sch b'"
    using inv refs by (auto simp: sched_inv_def ledger_def b'(2))
  then show ?thesis
    using inv by (intro that [OF b'(1)]) (auto simp: sched_inv_def owners_ok_def)
qed

lemma scanout_output_ids: "scanout_output scanouts p = get_at (map sc_id scanouts) (op_scanout_index p)"
  by (simp add: scanout_output_def get_at_def)

lemma owned_fence: "sched_inv ids E L sch env \<Longrightarrow> (out, i) \<in># frame_owners sch + L \<Longrightarrow> fence_of sch out i \<noteq> None"
  unfolding sched_inv_def owners_ok_def by blast

lemma pipeline_owners_subset: "i < length (pipelines sch) \<Longrightarrow> pipeline_owners (pipelines sch ! i) \<subseteq># frame_owners sch"
proof -
  assume i: "i < length (pipelines sch)"
  have "pipeline_owners (pipelines sch ! i) \<subseteq># sum_list (map pipeline_owners (pipelines sch))"
    using sum_list_remove [OF i, of pipeline_owners] by (metis mset_subset_eq_add_right)
  then show ?thesis
    by (simp add: frame_owners_def subset_mset.add_increasing2)
qed

text \<open>
  A page flip moves the scanout of its pipeline to the frame that was submitted and gives the previous
  buffer back. Nothing in it can fail but the frontend.
\<close>

lemma handle_completion_inv:
  assumes inv: "sched_inv ids E L sch env" and ids: "map sc_id scanouts = ids"
    and frontend: "\<And>shown feedback. sampled shown feedback = Inr ()"
  obtains sch' env' where "handle_completion sampled scanouts completion sch env = Inr ((sch', env'), None)"
    "sched_inv ids E L sch' env'"
    "completed_page_flips env' = completed_page_flips env @ (if flip_early scanouts sch completion then [completion] else [])"
    "list_all2 retires (pipelines sch) (pipelines sch')" "\<not> flip_unseen scanouts sch' completion"
proof (cases "position (\<lambda>p. scanout_crtc scanouts p = Some (pf_crtc completion)) (pipelines sch)")
  case None
  then have not_found: "flip_pipeline scanouts sch completion = None"
    by (simp add: flip_pipeline_def position_None find_None_iff)
  show ?thesis
    using inv not_found by (intro that [of sch env]) (simp_all add: handle_completion_def None flip_early_def flip_unseen_def)
next
  case pos: (Some i)
  let ?p = "pipelines sch ! i"
  have i: "i < length (pipelines sch)"
    using position_Some [OF pos] by simp
  have found: "flip_pipeline scanouts sch completion = Some ?p"
    unfolding flip_pipeline_def by (rule position_find [OF pos])
  show ?thesis
  proof (cases "in_flight (frames ?p)")
    case None
    then show ?thesis
      using inv by (intro that [of sch env]) (simp_all add: handle_completion_def pos retire_completion_def
        flip_early_def flip_unseen_def found scheduled_commit_def submitted_frame_def)
  next
    case (Some flying)
    show ?thesis
    proof (cases flying)
      case (Scheduled scheduled)
      let ?env = "env\<lparr>completed_page_flips := completed_page_flips env @ [completion]\<rparr>"
      have "sched_inv ids E L sch ?env"
        by (rule sched_inv_env [OF inv]) simp_all
      then show ?thesis
        by (intro that [of sch ?env]) (simp_all add: handle_completion_def pos retire_completion_def Some Scheduled
          flip_early_def flip_unseen_def found scheduled_commit_def submitted_frame_def)
    next
      case (Submitted shown)
      let ?p' = "?p\<lparr>frames := (frames ?p)\<lparr>in_flight := None\<rparr>, scanning := of_index shown,
          scanning_screenshot_request_id := of_screenshot_request_id shown\<rparr>"
      let ?sch1 = "set_pipeline sch i ?p'" and ?env1 = "env\<lparr>pending := pending env - {pf_crtc completion}\<rparr>"
      have inv1: "sched_inv ids E (add_mset (op_output_id ?p, scanning ?p) L) ?sch1 ?env1"
        by (rule sched_inv_env [OF sched_inv_set_pipeline [OF inv i]])
          (simp_all add: pipeline_owners_def pipeline_ready_def in_flight_frame_of_def Some Submitted)
      obtain b' where b': "release_output (broker ?env1) (op_output_id ?p) (scanning ?p) = Inr b'"
          "sched_inv ids E L ?sch1 (?env1\<lparr>broker := b'\<rparr>)"
        by (rule release_owner_ok [OF inv1])
      have "(op_output_id ?p, of_index shown) \<in># frame_owners ?sch1 + L"
        using pipeline_owners_subset [of i ?sch1] i by (auto simp: pipeline_owners_def dest: mset_subset_eqD)
      then have f: "fence_of ?sch1 (op_output_id ?p) (of_index shown) \<noteq> None"
        by (rule owned_fence [OF b'(2)])
      obtain natives' where natives': "present (swapchains env) (op_output_id ?p) (of_index shown) = Inr natives'"
          "shapes_ok ?sch1 natives'"
        by (rule present_ok [OF _ f, of "swapchains env"]) (use b'(2) in \<open>simp add: sched_inv_def\<close>)
      let ?env2 = "?env1\<lparr>broker := b', swapchains := natives'\<rparr>"
      have inv2: "sched_inv ids E L ?sch1 ?env2"
        using b'(2) natives'(2) by (simp add: sched_inv_def)
      obtain sch2 env2 where d: "drop_elapsed_successor completion i ?sch1 ?env2 = Inr (sch2, env2)"
          "sched_inv ids E L sch2 env2" "env2 = ?env2\<lparr>broker := broker env2\<rparr>"
          "list_all2 retires (pipelines ?sch1) (pipelines sch2)"
          "map (\<lambda>p. in_flight (frames p)) (pipelines sch2) = map (\<lambda>p. in_flight (frames p)) (pipelines ?sch1)"
        by (rule drop_elapsed_successor_ok [OF inv2]) (use i in simp)
      have retired: "list_all2 retires (pipelines sch) (pipelines sch2)"
        by (rule retires_all_trans [OF _ d(4)])
          (simp add: retires_update retires_def submitted_frame_def Some Submitted)
      have "length (pipelines sch2) = length (pipelines sch)"
        using list_all2_lengthD [OF retired] by simp
      moreover have none: "in_flight (frames (pipelines sch2 ! i)) = None"
        using arg_cong [OF d(5), of "\<lambda>xs. xs ! i"] i calculation by simp
      ultimately have seen: "\<not> flip_unseen scanouts sch2 completion"
        using position_retires [OF retired pos] by (simp add: flip_unseen_def flip_pipeline_def position_find submitted_frame_def)
      have flips: "completed_page_flips env2 = completed_page_flips env"
        using arg_cong [OF d(3), of completed_page_flips] by simp
      obtain out where out: "scanout_output scanouts ?p = Some out"
        using inv i ids by (auto simp: sched_inv_def outputs_ok_def scanout_output_ids)
      let ?shown = "\<lparr>po_id = out, po_observed_at = pf_observed_at completion,
          po_presented_at = pf_presented_at completion, po_sequence = pf_sequence completion,
          po_timeline_target = ft_presentation_target (ofr_tick (of_request shown))\<rparr>"
      let ?sch3 = "sch2\<lparr>presented_outputs := presented_outputs sch2 @ [?shown],
          presented_frames := u64_saturating_add (presented_frames sch2) 1\<rparr>"
      have "handle_completion sampled scanouts completion sch env = Inr ((?sch3, env2), None)"
        using b'(1) natives'(1) d(1)
        by (simp add: handle_completion_def pos retire_completion_def Some Submitted Let_def out frontend)
      moreover have "sched_inv ids E L ?sch3 env2"
        using d(2) by (subst sched_inv_cong [where sch = sch2]) simp_all
      ultimately show ?thesis
        using flips retired seen
        by (intro that [of ?sch3 env2])
          (auto simp: flip_early_def flip_unseen_def flip_pipeline_def scheduled_commit_def Some Submitted
            position_find [OF pos])
    qed
  qed
qed

lemma handle_completions_loop_inv:
  assumes frontend: "\<And>shown feedback. sampled shown feedback = Inr ()"
  shows "sched_inv (map sc_id scanouts) E L sch env \<Longrightarrow> completed_page_flips env = flips @ kept \<Longrightarrow>
    \<exists>sch' env'. handle_completions_loop sampled scanouts (length flips) sch env = Inr ((sch', env'), None) \<and>
      sched_inv (map sc_id scanouts) E L sch' env' \<and>
      completed_page_flips env' = kept @ filter (flip_early scanouts sch) flips \<and>
      list_all2 retires (pipelines sch) (pipelines sch') \<and> (\<forall>c\<in>set flips. \<not> flip_unseen scanouts sch' c)"
proof (induction flips arbitrary: sch env kept)
  case Nil
  then show ?case
    by simp
next
  case (Cons completion flips)
  let ?env = "env\<lparr>completed_page_flips := flips @ kept\<rparr>"
  have inv: "sched_inv (map sc_id scanouts) E L sch ?env"
    by (rule sched_inv_env [OF Cons.prems(1)]) simp_all
  obtain sch1 env1 where first: "handle_completion sampled scanouts completion sch ?env = Inr ((sch1, env1), None)"
      "sched_inv (map sc_id scanouts) E L sch1 env1"
      "completed_page_flips env1 = flips @ kept @ (if flip_early scanouts sch completion then [completion] else [])"
      "list_all2 retires (pipelines sch) (pipelines sch1)" "\<not> flip_unseen scanouts sch1 completion"
    by (rule handle_completion_inv [where sampled = sampled and completion = completion, OF inv refl frontend]) auto
  have early: "flip_early scanouts sch1 = flip_early scanouts sch"
    by (rule ext) (rule flip_retires [OF first(4)])
  obtain sch' env' where rest: "handle_completions_loop sampled scanouts (length flips) sch1 env1 = Inr ((sch', env'), None)"
      "sched_inv (map sc_id scanouts) E L sch' env'"
      "completed_page_flips env' = (kept @ (if flip_early scanouts sch completion then [completion] else [])) @
         filter (flip_early scanouts sch) flips"
      "list_all2 retires (pipelines sch1) (pipelines sch')" "\<forall>c\<in>set flips. \<not> flip_unseen scanouts sch' c"
    using Cons.IH [OF first(2,3)] unfolding early by blast
  have "\<not> flip_unseen scanouts sch' completion"
    using flip_retires(2) [OF rest(4)] first(5) by blast
  then show ?case
    using first(1) rest retires_all_trans [OF first(4) rest(4)] Cons.prems(2)
    by (intro exI [of _ sch'] exI [of _ env']) simp
qed

section \<open>Publication\<close>

lemma guard_eq_Inr: "(if c then Inl e else r) = Inr x \<longleftrightarrow> \<not> c \<and> r = Inr x"
  by simp

lemma available_fence: "fence_ok n slot \<Longrightarrow> fence_available slot \<Longrightarrow> n = 0"
  unfolding fence_ok_def fence_available_def by linarith

lemma next_ready_fence_token_nonzero: "fst (next_ready_fence_token counter) \<noteq> 0"
proof (cases "counter = 0")
  case True
  then show ?thesis
    by (subst next_ready_fence_token.simps) (subst next_ready_fence_token.simps, simp)
qed (subst next_ready_fence_token.simps, simp)

lemma publish_ready_inv:
  assumes inv: "sched_inv ids E L sch env"
    and published: "publish_ready dup now sch env frame = Inr (sch', env', watch)"
  shows "sched_inv ids E L sch' env'"
proof -
  let ?out = "rof_output_id frame" and ?i = "rof_index frame"
  let ?x = "(?out, ?i)" and ?tok = "fst (next_ready_fence_token (next_token env))"
  obtain k where k: "fence_pool sch ?out = Some k"
    using published by (auto simp: publish_ready_def result_simps Let_def)
  let ?pool = "ready_fences sch ! k"
  let ?env = "\<lambda>b. env\<lparr>broker := b, next_token := snd (next_ready_fence_token (next_token env))\<rparr>"
  let ?rest = "\<lambda>b slot w. (case position (\<lambda>p. op_output_id p = ?out \<and> \<not> powering_off p) (pipelines sch) of
        Some i \<Rightarrow> and_then (install_ready (frames (pipelines sch ! i)) (output_frame_of frame now)) (\<lambda>fs.
          Inr (set_pipeline (set_fence sch k ?i slot) i ((pipelines sch ! i)\<lparr>frames := fs\<rparr>), ?env b, w))
      | None \<Rightarrow> if signaled slot
          then and_then (release_output b ?out ?i) (\<lambda>b'. and_then (release_user slot) (\<lambda>slot'.
            Inr (set_fence sch k ?i slot', (?env b)\<lparr>broker := b'\<rparr>, w)))
          else and_then (discard_user_when_signaled slot) (\<lambda>slot'.
            Inr (set_fence sch k ?i slot', ?env b, w)))"
  have "\<exists>b slot w. metadata_matches ?pool frame \<and> publish (broker env) frame = Inr b \<and>
      claim (fence_slots ?pool ! ?i) (rof_fence frame) 1 ?tok = Inr slot \<and> ?rest b slot w = Inr (sch', env', watch)"
    using published unfolding publish_ready_def Let_def case_prod_unfold k ok_or_simps and_then_Inr
    by (simp only: and_then_eq_Inr guard_eq_Inr not_not) (elim exE conjE, intro exI conjI, (rule TrueI | assumption)+)
  then obtain b slot w where run: "metadata_matches ?pool frame" "publish (broker env) frame = Inr b"
      "claim (fence_slots ?pool ! ?i) (rof_fence frame) 1 ?tok = Inr slot" and rest: "?rest b slot w = Inr (sch', env', watch)"
    by (elim exE conjE) (rule that)
  obtain s where s: "get_at (fence_slots ?pool) ?i = Some s" "fence_available s"
    using run(1) by (auto simp: metadata_matches_def split: option.splits)
  have f: "fence_of sch ?out ?i = Some s" "fence_ok (count (ready_users sch + E) ?x) s"
    using fence_at [OF k s(1), of E] inv by (simp_all add: sched_inv_def)
  have none: "count (ready_users sch + E) ?x = 0"
    by (rule available_fence [OF f(2) s(2)])
  have refs: "refs_of (broker env) ?out ?i = 0" "refs_of b = set_ref (refs_of (broker env)) ?out ?i 1"
    using publish_refs [OF run(2)] by simp_all
  have free: "count (frame_owners sch + L) ?x = 0"
    using inv refs(1) by (simp add: sched_inv_def ledger_def)
  have slot: "slot = s\<lparr>signaled := rof_fence frame = None, slot_fence := rof_fence frame, users := 1, token := ?tok\<rparr>"
    using run(3) s by (auto simp: claim_def split: if_splits)
  have ok: "fence_ok 1 slot" "discard_users_on_signal slot = 0"
    using s(2) next_ready_fence_token_nonzero by (auto simp: slot fence_ok_def fence_available_def)
  show ?thesis
  proof (cases "position (\<lambda>p. op_output_id p = ?out \<and> \<not> powering_off p) (pipelines sch)")
    case (Some i)
    let ?p = "pipelines sch ! i"
    have i: "i < length (pipelines sch)" "op_output_id ?p = ?out"
      using position_Some [OF Some] by simp_all
    obtain fs where fs: "install_ready (frames ?p) (output_frame_of frame now) = Inr fs"
        "sch' = set_pipeline (set_fence sch k ?i slot) i (?p\<lparr>frames := fs\<rparr>)" "broker env' = b" "swapchains env' = swapchains env"
      using rest Some by (auto simp: result_simps)
    have "sched_inv ids (add_mset ?x E) (add_mset ?x L) (set_fence sch k ?i slot) env'"
      by (rule sched_inv_set_fence [OF inv k f(1)]) (use none free ok refs fs in auto)
    then show ?thesis
      unfolding fs(2) using i fs(1)
      by (elim sched_inv_set_pipeline)
        (auto simp: pipeline_owners_def pipeline_ready_def install_ready_def in_flight_frame_of_def output_frame_of_def
          split: if_splits)
  next
    case None
    show ?thesis
    proof (cases "signaled slot")
      case True
      then obtain b' slot' where r: "release_output b ?out ?i = Inr b'" "release_user slot = Inr slot'"
          "sch' = set_fence sch k ?i slot'" "broker env' = b'" "swapchains env' = swapchains env"
        using rest None by (auto simp: result_simps)
      have b': "refs_of b' = set_ref (refs_of (broker env)) ?out ?i 0"
        by (rule release_output_refs [of b ?out ?i]) (use refs r(1) in auto)
      have "fence_ok 0 slot'" "discard_users_on_signal slot' = 0"
        using release_ready_user [of 0 slot] ok(1) True r(2) by auto
      then show ?thesis
        unfolding r(3) by (intro sched_inv_set_fence [OF inv k f(1)]) (use none free b' r in auto)
    next
      case False
      then obtain slot' where r: "discard_user_when_signaled slot = Inr slot'" "sch' = set_fence sch k ?i slot'" "broker env' = b"
          "swapchains env' = swapchains env"
        using rest None by (auto simp: result_simps)
      then have "fence_ok 0 slot'" "discard_users_on_signal slot' = 1"
        using ok False by (auto simp: discard_user_when_signaled_def fence_ok_def split: if_splits)
      then show ?thesis
        unfolding r(2) by (intro sched_inv_set_fence [OF inv k f(1)]) (use none free refs r in auto)
    qed
  qed
qed

section \<open>Power\<close>

lemma sched_inv_fields:
  assumes "frame_owners sch' + L' = frame_owners sch + L" "ready_users sch' + E' = ready_users sch + E"
    and "ready_fences sch' = ready_fences sch" "outputs_ok ids sch'"
  shows "sched_inv ids E L sch env \<Longrightarrow> sched_inv ids E' L' sch' env"
proof -
  have "fence_pool sch' = fence_pool sch"
    by (simp add: fence_pool_def assms fun_eq_iff)
  then have f: "fence_of sch' = fence_of sch"
    by (simp add: fence_of_def assms fun_eq_iff cong: option.case_cong)
  moreover from this have d: "discards sch' = discards sch"
    by (simp add: discards_def fun_eq_iff)
  assume "sched_inv ids E L sch env"
  then show ?thesis
    unfolding sched_inv_def ledger_def fences_ok_def owners_ok_def shapes_ok_def assms(1,2,3) f d
    using assms(4) by blast
qed

text \<open>A pipeline that is removed leaves its buffers to the caller; a parked output takes one of them.\<close>

lemma remove_pipeline_inv:
  assumes inv: "sched_inv ids E L sch env" and i: "i < length (pipelines sch)"
  shows "sched_inv ids (E + pipeline_ready (pipelines sch ! i)) (L + pipeline_owners (pipelines sch ! i))
    (sch\<lparr>pipelines := remove_at i (pipelines sch)\<rparr>) env"
proof (rule sched_inv_fields [OF _ _ _ _ inv])
  have "set (remove_at i (pipelines sch)) \<subseteq> set (pipelines sch)"
    by (auto simp: remove_at_def dest: in_set_takeD in_set_dropD)
  then show "outputs_ok ids (sch\<lparr>pipelines := remove_at i (pipelines sch)\<rparr>)"
    using inv by (auto simp: sched_inv_def outputs_ok_def)
qed (use sum_list_remove [OF i, of pipeline_owners] sum_list_remove [OF i, of pipeline_ready] in
    \<open>simp_all add: frame_owners_def ready_users_def ac_simps\<close>)

lemma park_inv:
  "sched_inv ids E (add_mset (out, i) L) sch env \<Longrightarrow> sched_inv ids E L (sch\<lparr>parked := parked sch @ [(out, i)]\<rparr>) env"
  by (rule sched_inv_fields) (auto simp: frame_owners_def ready_users_def sched_inv_def outputs_ok_def)

lemma pipeline_of_output_id:
  assumes "pipeline_of_output scanouts sch out = Some i" "sched_inv (map sc_id scanouts) E L sch env"
  shows "i < length (pipelines sch)" "op_output_id (pipelines sch ! i) = out"
proof -
  show i: "i < length (pipelines sch)"
    using position_Some [OF assms(1) [unfolded pipeline_of_output_def]] by simp
  have "get_at (map sc_id scanouts) (op_scanout_index (pipelines sch ! i)) = Some out"
    using position_Some [OF assms(1) [unfolded pipeline_of_output_def]] unfolding scanout_output_ids by blast
  moreover have "get_at (map sc_id scanouts) (op_scanout_index (pipelines sch ! i)) = Some (op_output_id (pipelines sch ! i))"
    using assms(2) i unfolding sched_inv_def outputs_ok_def by (metis nth_mem)
  ultimately show "op_output_id (pipelines sch ! i) = out"
    by (metis option.inject)
qed

lemma begin_power_off_inv:
  assumes inv: "sched_inv (map sc_id scanouts) E L sch env"
  obtains sch' env' submitted where "begin_power_off sch env out scanouts = Inr (sch', env', submitted)"
    "sched_inv (map sc_id scanouts) E L sch' env'"
proof (cases "pipeline_of_output scanouts sch out")
  case None
  then show ?thesis
    using inv by (intro that [of sch env False]) (simp_all add: begin_power_off_def)
next
  case pos: (Some i)
  note i = pipeline_of_output_id [OF pos inv]
  let ?p = "pipelines sch ! i"
  let ?p' = "?p\<lparr>powering_off := True, frames := (frames ?p)\<lparr>ready := None\<rparr>\<rparr>"
  show ?thesis
  proof (cases "ready (frames ?p)")
    case None
    have "sched_inv (map sc_id scanouts) E L (set_pipeline sch i ?p') env"
      by (rule sched_inv_set_pipeline [OF inv i(1)])
        (simp_all add: None pipeline_owners_def pipeline_ready_def in_flight_frame_of_def)
    then show ?thesis
      using None by (intro that) (auto simp: begin_power_off_def pos Let_def take_ready_def)
  next
    case (Some frame)
    obtain sch' env' where "discard_frame (set_pipeline sch i ?p') env (op_output_id ?p) frame
        ''power-off output lost its render-fence pool'' = Inr (sch', env')" "sched_inv (map sc_id scanouts) E L sch' env'"
      by (rule discard_frame_ok [OF take_ready_owners [OF inv i(1) refl Some, of ?p']]) simp_all
    then show ?thesis
      using Some i(2) by (intro that) (auto simp: begin_power_off_def pos Let_def take_ready_def)
  qed
qed

lemma cancel_power_off_inv:
  assumes inv: "sched_inv (map sc_id scanouts) E L sch env"
  shows "sched_inv (map sc_id scanouts) E L (cancel_power_off sch out scanouts) env"
  using inv pipeline_of_output_id [OF _ inv, of out]
  by (auto simp: cancel_power_off_def pipeline_owners_def pipeline_ready_def in_flight_frame_of_def
      split: option.splits intro!: sched_inv_set_pipeline [OF inv])

lemma power_off_inv:
  assumes inv: "sched_inv (map sc_id scanouts) E L sch env"
    and idle: "\<And>i. pipeline_of_output scanouts sch out = Some i \<Longrightarrow> in_flight (frames (pipelines sch ! i)) = None"
  obtains sch' env' where "power_off sch env out scanouts = Inr (sch', env')" "sched_inv (map sc_id scanouts) E L sch' env'"
proof (cases "pipeline_of_output scanouts sch out")
  case None
  then show ?thesis
    using inv by (intro that [of sch env]) (simp_all add: power_off_def)
next
  case pos: (Some i)
  note i = pipeline_of_output_id [OF pos inv]
  let ?p = "pipelines sch ! i" and ?sch1 = "sch\<lparr>pipelines := remove_at i (pipelines sch)\<rparr>"
  note removed = remove_pipeline_inv [OF inv i(1)]
  show ?thesis
  proof (cases "ready (frames ?p)")
    case None
    have "sched_inv (map sc_id scanouts) E (add_mset (out, scanning ?p) L) ?sch1 env"
      using removed None idle [OF pos] by (simp add: pipeline_owners_def pipeline_ready_def in_flight_frame_of_def i(2))
    note park = park_inv [OF this]
    show ?thesis
      by (rule that [OF _ park]) (simp add: power_off_def pos idle Let_def None)
  next
    case (Some frame)
    have "sched_inv (map sc_id scanouts) (add_mset (out, of_index frame) E)
        (add_mset (out, of_index frame) (add_mset (out, scanning ?p) L)) ?sch1 env"
      using removed Some idle [OF pos]
      by (simp add: pipeline_owners_def pipeline_ready_def in_flight_frame_of_def i(2) add_mset_commute)
    then obtain sch' env' where d: "discard_frame ?sch1 env out frame ''power-off output lost its render-fence pool'' =
          Inr (sch', env')" "sched_inv (map sc_id scanouts) E (add_mset (out, scanning ?p) L) sch' env'"
      by (rule discard_frame_ok)
    show ?thesis
      by (rule that [OF _ park_inv [OF d(2)]]) (simp add: power_off_def pos idle Let_def Some d(1))
  qed
qed

lemma power_on_inv:
  assumes inv: "sched_inv (map sc_id scanouts) E L sch env"
    and on: "power_on plane_commit now sch natives scanout_index framebuffer_index scanouts = Inr sch'"
  shows "sched_inv (map sc_id scanouts) E L sch' env"
proof -
  consider "sch' = sch" | slot sc req where "scanout_index < length scanouts" "scanouts ! scanout_index = sc"
      "position (\<lambda>entry. entry = (sc_id sc, framebuffer_index)) (parked sch) = Some slot"
      "sch' = sch\<lparr>parked := swap_remove slot (parked sch),
         pipelines := pipelines sch @ [\<lparr>op_output_id = sc_id sc, op_scanout_index = scanout_index,
           scanning = framebuffer_index, scanning_screenshot_request_id = None,
           frames = output_pipeline_frames_default, powering_off = False,
           op_wake = Some (wake_modeset_new now), plane_request = req\<rparr>]\<rparr>"
    using on unfolding power_on_def
    by (cases "list_ex (\<lambda>p. op_scanout_index p = scanout_index) (pipelines sch)")
      (simp_all only: and_then_eq_Inr ok_or_eq_Inr guard_eq_Inr if_True if_False get_at_Some sum.inject simp_thms,
       blast, metis)
  then show ?thesis
  proof cases
    case 2
    let ?p = "\<lparr>op_output_id = sc_id sc, op_scanout_index = scanout_index,
      scanning = framebuffer_index, scanning_screenshot_request_id = None,
      frames = output_pipeline_frames_default :: 'b output_pipeline_frames, powering_off = False,
      op_wake = Some (wake_modeset_new now), plane_request = req\<rparr>"
    have p: "pipeline_owners ?p = {#(sc_id sc, framebuffer_index)#}" "pipeline_ready ?p = {#}"
      by (simp_all add: pipeline_owners_def pipeline_ready_def output_pipeline_frames_default_def in_flight_frame_of_def)
    have "slot < length (parked sch)" "parked sch ! slot = (sc_id sc, framebuffer_index)"
      using position_Some [OF 2(3)] by simp_all
    then have parked: "mset (parked sch) = add_mset (sc_id sc, framebuffer_index) (mset (swap_remove slot (parked sch)))"
      using mset_swap_remove [of slot "parked sch"] by simp
    have "frame_owners sch' + L = frame_owners sch + L" "ready_users sch' + E = ready_users sch + E"
      unfolding 2(4) frame_owners_def ready_users_def parked by (simp_all add: p)
    moreover have "outputs_ok (map sc_id scanouts) sch'"
      using inv 2(1,2) by (auto simp: 2(4) sched_inv_def outputs_ok_def)
    ultimately show ?thesis
      by (intro sched_inv_fields [OF _ _ _ _ inv]) (simp_all add: 2(4))
  qed (use inv in simp)
qed

section \<open>Construction\<close>

text \<open>The broker and the scheduler are built from the same native pools, one for every scanout.\<close>

definition pools_match :: "output_pool_descriptor list \<Rightarrow> output_swapchain list \<Rightarrow> bool" where
  "pools_match ds natives \<longleftrightarrow>
     map (\<lambda>d. (opd_output_id d, opd_initial_scanout d, length (opd_framebuffers d))) ds =
     map (\<lambda>pool. (sw_output_id pool, sw_current pool, length (sw_buffers pool))) natives"

lemma collect_pools_members:
  "collect_pools generation outs views fbs ds = Inr ps \<Longrightarrow>
     ps = map pool_of ds \<and> (\<forall>d\<in>set ds. opd_initial_scanout d < length (opd_framebuffers d))"
  by (induction generation outs views fbs ds arbitrary: ps rule: collect_pools.induct)
    (auto simp: result_simps split: if_splits option.splits)

lemma find_distinct_key:
  "distinct (map key xs) \<Longrightarrow> find (\<lambda>x. key x = k) xs = Some x \<longleftrightarrow> x \<in> set xs \<and> key x = k"
  using find_key [of key xs x] by (auto simp: find_Some_iff in_set_conv_nth)

lemma broker_new_refs:
  assumes "broker_new ds = Inr b"
  shows "refs_of b out i = (if \<exists>d\<in>set ds. opd_output_id d = out \<and> opd_initial_scanout d = i then 1 else 0)"
    and "distinct (map opd_output_id ds)" "\<forall>d\<in>set ds. opd_initial_scanout d < length (opd_framebuffers d)"
proof -
  have b: "set (pools b) = pool_of ` set ds" "pools b = sort_key pool_render_view_id (map pool_of ds)"
    and d: "\<forall>d\<in>set ds. opd_initial_scanout d < length (opd_framebuffers d)"
    using assms by (auto simp: broker_new_def result_simps split: if_splits dest!: collect_pools_members)
  have ids: "pool_output_id \<circ> pool_of = opd_output_id"
    by (auto simp: pool_of_def fun_eq_iff)
  have "distinct (map pool_output_id (pools b))"
    using broker_new_inv [OF assms] by (simp add: broker_inv_def)
  then have key: "find (\<lambda>pool. pool_output_id pool = out) (pools b) = Some pool \<longleftrightarrow>
      pool \<in> set (pools b) \<and> pool_output_id pool = out" for pool
    by (rule find_distinct_key)
  have "mset (map pool_output_id (pools b)) = mset (map opd_output_id ds)"
    unfolding b(2) by (simp only: mset_map mset_sort image_mset.compositionality ids)
  then show distinct: "distinct (map opd_output_id ds)"
    using \<open>distinct (map pool_output_id (pools b))\<close> by (metis mset_eq_imp_distinct_iff)
  show "\<forall>d\<in>set ds. opd_initial_scanout d < length (opd_framebuffers d)"
    by (rule d)
  show "refs_of b out i = (if \<exists>d\<in>set ds. opd_output_id d = out \<and> opd_initial_scanout d = i then 1 else 0)"
  proof (cases "\<exists>e\<in>set ds. opd_output_id e = out")
    case True
    then obtain e where e: "e \<in> set ds" "opd_output_id e = out"
      by auto
    then have "find (\<lambda>pool. pool_output_id pool = out) (pools b) = Some (pool_of e)"
      unfolding key using b by (auto simp: pool_of_def)
    moreover have "e' = e" if "e' \<in> set ds" "opd_output_id e' = out" for e'
      using that e distinct by (auto simp: distinct_map inj_on_def)
    moreover have "(case get_at (slots (pool_of e)) i of None \<Rightarrow> 0 | Some slot \<Rightarrow> output_refs slot) =
        (if i = opd_initial_scanout e \<and> i < length (opd_framebuffers e) then 1 else 0)"
      by (simp add: get_at_def pool_of_def initial_slot_def nth_enumerate_eq)
    ultimately have "refs_of b out i = (if i = opd_initial_scanout e \<and> i < length (opd_framebuffers e) then 1 else 0)"
      by (simp add: refs_of_def slot_at_def)
    moreover have "(\<exists>d\<in>set ds. opd_output_id d = out \<and> opd_initial_scanout d = i) \<longleftrightarrow> opd_initial_scanout e = i"
      using e \<open>\<And>e'. e' \<in> set ds \<Longrightarrow> opd_output_id e' = out \<Longrightarrow> e' = e\<close> by blast
    ultimately show ?thesis
      using e(1) d by auto
  next
    case False
    then have "find (\<lambda>pool. pool_output_id pool = out) (pools b) = None"
      using b by (auto simp: find_None_iff pool_of_def)
    then show ?thesis
      using False by (auto simp: refs_of_def slot_at_def)
  qed
qed

text \<open>The buffer an output shows when the scheduler starts.\<close>

definition shown_buffer :: "output_swapchain list \<Rightarrow> output_id \<Rightarrow> buffer" where
  "shown_buffer natives out = (out, sw_current (the (for_output natives out)))"

lemma new_pipelines_owners:
  "new_pipelines plane_commit natives (enumerate n scs) = Inr ps \<Longrightarrow>
     sum_list (map pipeline_owners ps) = mset (map (\<lambda>sc. shown_buffer natives (sc_id sc)) (filter sc_powered scs)) \<and>
     sum_list (map pipeline_ready ps) = {#} \<and>
     (\<forall>p\<in>set ps. n \<le> op_scanout_index p \<and> op_scanout_index p < n + length scs \<and>
        sc_id (scs ! (op_scanout_index p - n)) = op_output_id p)"
proof (induction scs arbitrary: n ps)
  case (Cons sc scs)
  show ?case
  proof (cases "sc_powered sc")
    case True
    then obtain pool req rest where r: "for_output natives (sc_id sc) = Some pool"
        "new_pipelines plane_commit natives (enumerate (Suc n) scs) = Inr rest"
        "ps = \<lparr>op_output_id = sc_id sc, op_scanout_index = n, scanning = sw_current pool,
                  scanning_screenshot_request_id = None, frames = output_pipeline_frames_default,
                  powering_off = False, op_wake = None, plane_request = req\<rparr> # rest"
      using Cons.prems by (auto simp: result_simps)
    show ?thesis
      using Cons.IH [OF r(2)] True r(1)
      by (auto simp: r(3) pipeline_owners_def pipeline_ready_def output_pipeline_frames_default_def
          in_flight_frame_of_def shown_buffer_def nth_Cons' Suc_diff_le)
  next
    case False
    then have "new_pipelines plane_commit natives (enumerate (Suc n) scs) = Inr ps"
      using Cons.prems by simp
    then show ?thesis
      using Cons.IH [of "Suc n" ps] False by (auto simp: nth_Cons' Suc_diff_le)
  qed
qed simp

lemma new_parked_owners:
  "new_parked natives scs = Inr ps \<Longrightarrow>
     ps = map (\<lambda>sc. shown_buffer natives (sc_id sc)) (filter (\<lambda>sc. \<not> sc_powered sc) scs)"
  by (induction scs arbitrary: ps) (auto simp: result_simps shown_buffer_def split: if_splits)

lemma mset_filter_split: "mset (map g (filter sc_powered scs)) + mset (map g (filter (\<lambda>sc. \<not> sc_powered sc) scs)) = mset (map g scs)"
  by (induction scs) auto

lemma distinct_count_mset: "distinct xs \<Longrightarrow> count (mset xs) x = (if x \<in> set xs then 1 else 0)"
  by (simp add: distinct_count_atmost_1)

lemma fence_of_new:
  "fence_of \<lparr>pipelines = ps, presented_outputs = shown, ready_fences = map fences_of_pool natives, parked = park,
       presented_frames = n\<rparr> out i =
     (case for_output natives out of None \<Rightarrow> None
      | Some pool \<Rightarrow> if i < length (sw_buffers pool) then Some ready_fence_slot_default else None)"
proof -
  have pos: "position (\<lambda>pool. orf_output_id pool = out) (map fences_of_pool natives) = position (\<lambda>pool. sw_output_id pool = out) natives"
    by (induction natives) (auto simp: fences_of_pool_def)
  show ?thesis
  proof (cases "position (\<lambda>pool. sw_output_id pool = out) natives")
    case None
    then have "for_output natives out = None"
      by (auto simp: for_output_def find_None_iff position_None)
    then show ?thesis
      using None by (simp add: fence_of_def fence_pool_def pos)
  next
    case (Some k)
    then have "for_output natives out = Some (natives ! k)" "k < length natives"
      using position_find [OF Some] position_Some [OF Some] by (simp_all add: for_output_def)
    then show ?thesis
      using Some by (simp add: fence_of_def fence_pool_def pos get_at_def fences_of_pool_def)
  qed
qed

lemma scheduler_new_inv:
  assumes new: "scheduler_new plane_commit scanouts env = Inr (sch, env')"
    and broker: "broker_new ds = Inr (broker env)" and same: "pools_match ds (swapchains env)"
    and scs: "mset (map sc_id scanouts) = mset (map sw_output_id (swapchains env))"
  shows "sched_inv (map sc_id scanouts) {#} {#} sch env'"
proof -
  let ?natives = "swapchains env"
  obtain ps park where r: "new_pipelines plane_commit ?natives (enumerate 0 scanouts) = Inr ps"
      "new_parked ?natives scanouts = Inr park"
      "sch = \<lparr>pipelines = ps, presented_outputs = [], ready_fences = map fences_of_pool ?natives,
        parked = park, presented_frames = 0\<rparr>" "env' = env\<lparr>pending := {}, completed_page_flips := []\<rparr>"
    using new by (auto simp: scheduler_new_def result_simps)
  note ps = new_pipelines_owners [OF r(1)] and park = new_parked_owners [OF r(2)]
  note ds = broker_new_refs [OF broker]
  have eq: "map (\<lambda>d. (opd_output_id d, opd_initial_scanout d)) ds = map (\<lambda>pool. (sw_output_id pool, sw_current pool)) ?natives"
    using arg_cong [OF same [unfolded pools_match_def], of "map (\<lambda>(a, b, c). (a, b))"] by (simp add: comp_def)
  have "map opd_output_id ds = map sw_output_id ?natives"
    using arg_cong [OF eq, of "map fst"] by (simp add: comp_def)
  then have distinct: "distinct (map sw_output_id ?natives)"
    using ds(2) by simp
  have find: "for_output ?natives out = Some pool \<longleftrightarrow> pool \<in> set ?natives \<and> sw_output_id pool = out" for out pool
    unfolding for_output_def by (rule find_distinct_key [OF distinct])
  have self: "for_output ?natives (sw_output_id pool) = Some pool" if "pool \<in> set ?natives" for pool
    using find that by simp
  have "frame_owners sch = mset (map (\<lambda>sc. shown_buffer ?natives (sc_id sc)) scanouts)"
    using ps mset_filter_split [of "\<lambda>sc. shown_buffer ?natives (sc_id sc)" scanouts] by (simp only: frame_owners_def r(3) park output_scheduler.select_convs)
  also have "\<dots> = image_mset (shown_buffer ?natives) (mset (map sc_id scanouts))"
    by (simp add: image_mset.compositionality comp_def)
  also have "\<dots> = mset (map (\<lambda>pool. shown_buffer ?natives (sw_output_id pool)) ?natives)"
    unfolding scs by (simp add: image_mset.compositionality comp_def)
  also have "map (\<lambda>pool. shown_buffer ?natives (sw_output_id pool)) ?natives =
      map (\<lambda>pool. (sw_output_id pool, sw_current pool)) ?natives"
    by (simp add: shown_buffer_def self)
  finally have owners: "frame_owners sch = mset (map (\<lambda>pool. (sw_output_id pool, sw_current pool)) ?natives)" .
  have "distinct (map (\<lambda>pool. (sw_output_id pool, sw_current pool)) ?natives)"
    using distinct by (auto simp: distinct_map inj_on_def)
  note once = distinct_count_mset [OF this]
  have count: "count (frame_owners sch) (out, i) =
      (if \<exists>d\<in>set ds. opd_output_id d = out \<and> opd_initial_scanout d = i then 1 else 0)" for out i
    unfolding owners once unfolding eq [symmetric] by auto
  have fence: "fence_of sch out i = (case for_output ?natives out of None \<Rightarrow> None
      | Some pool \<Rightarrow> if i < length (sw_buffers pool) then Some ready_fence_slot_default else None)" for out i
    by (simp add: r(3) fence_of_new)
  have len: "i < length (sw_buffers pool)" if "(out, i) \<in># frame_owners sch" "for_output ?natives out = Some pool" for out i pool
  proof -
    have "pool \<in> set ?natives" "sw_output_id pool = out"
      using that(2) find by simp_all
    moreover have "(out, i) \<in> set (map (\<lambda>pool. (sw_output_id pool, sw_current pool)) ?natives)"
      using that(1) by (simp add: owners)
    ultimately have i: "i = sw_current pool"
      using distinct by (auto simp: distinct_map inj_on_def)
    have "(sw_output_id pool, sw_current pool, length (sw_buffers pool)) \<in>
        set (map (\<lambda>d. (opd_output_id d, opd_initial_scanout d, length (opd_framebuffers d))) ds)"
      unfolding same [unfolded pools_match_def] using \<open>pool \<in> set ?natives\<close> by force
    then show ?thesis
      using ds(3) i by auto
  qed
  have "ledger {#} sch (broker env')"
    by (auto simp: ledger_def count discards_def fence r(4) ds(1) ready_fence_slot_default_def split: option.splits)
  moreover have "fences_ok {#} sch"
  proof -
    have "ready_users sch = {#}"
      using ps by (simp add: ready_users_def r(3))
    then show ?thesis
      by (auto simp: fences_ok_def fence ready_fence_slot_default_def fence_ok_def fence_available_def split: option.splits)
  qed
  moreover have "outputs_ok (map sc_id scanouts) sch"
    using ps by (auto simp: outputs_ok_def r(3))
  moreover have "owners_ok {#} sch"
  proof -
    have "for_output ?natives out \<noteq> None" if "(out, i) \<in># frame_owners sch" for out i
      using that find by (fastforce simp: owners)
    then show ?thesis
      using len by (fastforce simp: owners_ok_def fence split: option.splits)
  qed
  moreover have "shapes_ok sch (swapchains env')"
    by (simp add: shapes_ok_def r fences_of_pool_def comp_def)
  ultimately show ?thesis
    by (simp add: sched_inv_def)
qed

end
