(* ===== verification/Output_Runs.thy ===== *)
theory Output_Runs
  imports Output_Ownership
begin

text \<open>
  The histories of the output scheduler (\<open>compositor/src/bin/deniald/output_scheduler.rs\<close>) together with the
  buffer broker: the ownership of every native buffer along every interleaving of the engine, the scheduler,
  the kernel and the screen captures, and the pass over the page flips.
\<close>

section \<open>The pools stay well-formed\<close>

text \<open>The scheduler only publishes and releases; both keep the invariant of the pools.\<close>

lemma discard_frame_broker:
  "discard_frame sch env out frame lost = Inr (sch', env') \<Longrightarrow> broker_inv (broker env) \<Longrightarrow> broker_inv (broker env')"
  by (auto simp: discard_frame_def discard_ready_frame_def result_simps split: option.splits if_splits
      dest: release_output_inv)

lemma release_discards_broker:
  "release_discards n b out i s = Inr (b', s') \<Longrightarrow> broker_inv b \<Longrightarrow> broker_inv b'"
  by (induction n b out i s rule: release_discards.induct) (auto simp: result_simps dest: release_output_inv)

lemma acknowledge_signal_broker:
  "acknowledge_signal sch env signal = Inr (sch', env') \<Longrightarrow> broker_inv (broker env) \<Longrightarrow> broker_inv (broker env')"
  by (auto simp: acknowledge_signal_def result_simps split: option.splits prod.splits bool.splits
      dest: release_discards_broker)

lemma acknowledge_ready_fences_broker:
  "acknowledge_ready_fences sch env signals = Inr (sch', env') \<Longrightarrow> broker_inv (broker env) \<Longrightarrow> broker_inv (broker env')"
  by (induction sch env signals rule: acknowledge_ready_fences.induct)
    (auto simp: result_simps dest: acknowledge_signal_broker)

lemma acknowledge_volition_events_broker:
  "acknowledge_volition_events inst scanouts sch env stalled events = Inr (sch', env', stalled') \<Longrightarrow>
     broker env' = broker env"
  by (induction inst scanouts sch env stalled events rule: acknowledge_volition_events.induct)
    (auto simp: result_simps acknowledge_submitted_def Let_def split: if_splits volition_event.splits)

lemma submit_wake_broker:
  "submit_wake now submitted accepted scanouts i k commit sch env direct wake = Inr st' \<Longrightarrow> broker (fst (snd st')) = broker env"
  by (auto simp: submit_wake_def result_simps Let_def split: if_splits prod.splits)

lemma submission_case_Inr:
  "(case r of Queued \<Rightarrow> x | Backpressured \<Rightarrow> y) = Inr z \<longleftrightarrow> r = Queued \<and> x = Inr z \<or> r = Backpressured \<and> y = Inr z"
  by (cases r) simp_all

lemma submit_each_broker:
  "submit_each clock accepted submit scanouts is st = Inr st' \<Longrightarrow> broker (fst (snd st')) = broker (fst (snd st))"
proof (induction clock accepted submit scanouts "is" st rule: submit_each.induct)
  case (2 clock accepted submit scanouts i "is" st)
  obtain st1 where st1: "submit_pipeline clock accepted submit scanouts i st = Inr st1"
      "submit_each clock accepted submit scanouts is st1 = Inr st'"
    using 2(2) by (auto simp: result_simps)
  have "broker (fst (snd st1)) = broker (fst (snd st))"
    using st1(1) unfolding submit_pipeline_def case_prod_unfold Let_def
    by (auto simp: result_simps submission_case_Inr split: if_splits option.splits dest: submit_wake_broker)
  then show ?case
    using 2(1) [OF st1(2)] by simp
qed simp

lemma handle_completion_broker:
  assumes "handle_completion sampled scanouts completion sch env = Inr ((sch', env'), failed)" "broker_inv (broker env)"
  shows "broker_inv (broker env')"
proof -
  have drop: "broker_inv (broker env2)"
    if "drop_elapsed_successor completion i sch1 env1 = Inr (sch2, env2)" "broker_inv (broker env1)" for i sch1 env1 sch2 env2
    using that by (auto simp: drop_elapsed_successor_def Let_def split: option.splits if_splits dest: discard_frame_broker)
  show ?thesis
    using assms unfolding handle_completion_def Let_def
    by (auto simp: result_simps split: option.splits completion_retirement.splits prod.splits sum.splits
        dest!: drop dest: release_output_inv)
qed

lemma handle_completions_loop_broker:
  "handle_completions_loop sampled scanouts n sch env = Inr ((sch', env'), failed) \<Longrightarrow> broker_inv (broker env) \<Longrightarrow>
     broker_inv (broker env')"
proof (induction sampled scanouts n sch env rule: handle_completions_loop.induct)
  case (2 sampled scanouts n sch env)
  obtain completion rest where flips: "completed_page_flips env = completion # rest"
    using 2(2) by (cases "completed_page_flips env") simp_all
  let ?env = "env\<lparr>completed_page_flips := rest\<rparr>"
  obtain sch1 env1 failed1 where first: "handle_completion sampled scanouts completion sch ?env = Inr ((sch1, env1), failed1)"
    and rest: "(case failed1 of Some e \<Rightarrow> Inr ((sch1, env1), Some e) | None \<Rightarrow>
      handle_completions_loop sampled scanouts n sch1 env1) = Inr ((sch', env'), failed)"
    using 2(2) by (auto simp: flips result_simps)
  have env1: "broker_inv (broker env1)"
    by (rule handle_completion_broker [OF first]) (simp add: 2(3))
  show ?case
  proof (cases failed1)
    case None
    have "handle_completions_loop sampled scanouts n sch1 env1 = Inr ((sch', env'), failed)"
      using rest None by simp
    then show ?thesis
      by (intro 2(1) [OF flips]) (use None env1 in simp_all)
  qed (use rest env1 in simp)
qed simp

lemma handle_completions_broker:
  "handle_completions_inner sampled shown scanouts sch env = Inr (sch', env') \<Longrightarrow> broker_inv (broker env) \<Longrightarrow>
     broker_inv (broker env')"
  by (auto simp: handle_completions_inner_def result_simps Let_def split: if_splits option.splits
      dest: handle_completions_loop_broker)

lemma publish_ready_broker:
  "publish_ready dup now sch env frame = Inr (sch', env', watch) \<Longrightarrow> broker_inv (broker env) \<Longrightarrow> broker_inv (broker env')"
  unfolding publish_ready_def Let_def case_prod_unfold
  by (auto simp: result_simps split: if_splits option.splits )
    (blast intro: publish_inv release_output_inv)+

lemma power_broker:
  "begin_power_off sch env out scanouts = Inr (sch', env', submitted) \<Longrightarrow> broker_inv (broker env) \<Longrightarrow> broker_inv (broker env')"
  "power_off sch env out scanouts = Inr (sch', env') \<Longrightarrow> broker_inv (broker env) \<Longrightarrow> broker_inv (broker env')"
  by (auto simp: begin_power_off_def power_off_def result_simps Let_def split: option.splits if_splits
      dest: discard_frame_broker)

section \<open>Every history of the scheduler\<close>

text \<open>What the engine does to the buffers between two operations of the scheduler.\<close>

inductive render_step :: "('f, 'b) output_buffer_broker \<Rightarrow> ('f, 'b) output_buffer_broker \<Rightarrow> bool" where
  render_begin: "render_step b (begin_transaction b)"
| render_authorize: "render_step b (fst (authorize b req now))"
| render_cancel: "render_step b (cancel_authorizations b views)"
| render_expire: "render_step b (fst (expire_authorizations b now))"
| render_acquire: "render_step b (fst (acquire b view extent))"
| render_ready: "render_step b (fst (mark_ready_with_feedback b view fb frame_damage buffer_damage fd rendered sampled))"
| render_finish: "render_step b (fst (finish_transaction b))"
| render_tag: "tag_next_frame_for_screenshot b out sid = Inr b' \<Longrightarrow> render_step b b'"
| render_cancel_shot: "render_step b (cancel_screenshot_frame b sid)"

lemma render_step_inv: "render_step b b' \<Longrightarrow> broker_inv b \<Longrightarrow> broker_inv b'"
  by (induction rule: render_step.induct)
    (auto intro: begin_transaction_inv authorize_inv cancel_authorizations_inv expire_authorizations_inv
      acquire_inv mark_ready_inv finish_transaction_inv tag_screenshot_inv cancel_screenshot_inv)

lemma render_step_refs: "render_step b b' \<Longrightarrow> refs_of b' = refs_of b"
  by (induction rule: render_step.induct) (simp_all add: tag_keeps_refs)

text \<open>
  A run of the scheduler with the leases held outside it. Page flips and the pending CRTCs may change at
  any time: they are what the kernel reports. The scanouts \<open>scs\<close> keep their outputs as long as the
  scheduler lives (their power may change); a new topology makes a new scheduler.
\<close>

inductive outputs_run ::
  "'m scanout list \<Rightarrow> ('f, 'b, 'p) output_scheduler \<Rightarrow> ('f, 'b) scheduler_env \<Rightarrow> buffer multiset \<Rightarrow> bool" for scs where
  run_start: "broker_new ds = Inr (broker env) \<Longrightarrow> pools_match ds (swapchains env) \<Longrightarrow>
    mset (map sc_id scs) = mset (map sw_output_id (swapchains env)) \<Longrightarrow>
    scheduler_new plane_commit scs env = Inr (sch, env') \<Longrightarrow> outputs_run scs sch env' {#}"
| run_kernel: "outputs_run scs sch env L \<Longrightarrow> broker env' = broker env \<Longrightarrow> swapchains env' = swapchains env \<Longrightarrow>
    outputs_run scs sch env' L"
| run_render: "outputs_run scs sch env L \<Longrightarrow> render_step (broker env) b \<Longrightarrow> outputs_run scs sch (env\<lparr>broker := b\<rparr>) L"
| run_retain: "outputs_run scs sch env L \<Longrightarrow> retain_output (broker env) out i = Inr b \<Longrightarrow>
    outputs_run scs sch (env\<lparr>broker := b\<rparr>) (add_mset (out, i) L)"
| run_release: "outputs_run scs sch env (add_mset (out, i) L) \<Longrightarrow> release_output (broker env) out i = Inr b \<Longrightarrow>
    outputs_run scs sch (env\<lparr>broker := b\<rparr>) L"
| run_publish: "outputs_run scs sch env L \<Longrightarrow> publish_ready dup now sch env frame = Inr (sch', env', watch) \<Longrightarrow>
    outputs_run scs sch' env' L"
| run_fences: "outputs_run scs sch env L \<Longrightarrow> acknowledge_ready_fences sch env signals = Inr (sch', env') \<Longrightarrow>
    outputs_run scs sch' env' L"
| run_events: "outputs_run scs sch env L \<Longrightarrow> map sc_id (scanouts :: 'm scanout list) = map sc_id scs \<Longrightarrow>
    acknowledge_volition_events inst scanouts sch env None events = Inr (sch', env', stalled) \<Longrightarrow> outputs_run scs sch' env' L"
| run_submit: "outputs_run scs sch env L \<Longrightarrow> map sc_id (scanouts :: 'm scanout list) = map sc_id scs \<Longrightarrow>
    submit_ready clock accepted submit scanouts sch env = Inr (sch', env', direct) \<Longrightarrow> outputs_run scs sch' env' L"
| run_flips: "outputs_run scs sch env L \<Longrightarrow> map sc_id (scanouts :: 'm scanout list) = map sc_id scs \<Longrightarrow>
    handle_completions_inner sampled shown scanouts sch env = Inr (sch', env') \<Longrightarrow> outputs_run scs sch' env' L"
| run_begin_off: "outputs_run scs sch env L \<Longrightarrow> map sc_id (scanouts :: 'm scanout list) = map sc_id scs \<Longrightarrow>
    begin_power_off sch env out scanouts = Inr (sch', env', submitted) \<Longrightarrow> outputs_run scs sch' env' L"
| run_off: "outputs_run scs sch env L \<Longrightarrow> map sc_id (scanouts :: 'm scanout list) = map sc_id scs \<Longrightarrow>
    power_off sch env out scanouts = Inr (sch', env') \<Longrightarrow> outputs_run scs sch' env' L"
| run_cancel_off: "outputs_run scs sch env L \<Longrightarrow> map sc_id (scanouts :: 'm scanout list) = map sc_id scs \<Longrightarrow>
    outputs_run scs (cancel_power_off sch out scanouts) env L"
| run_on: "outputs_run scs sch env L \<Longrightarrow> map sc_id (scanouts :: 'm scanout list) = map sc_id scs \<Longrightarrow>
    power_on plane_commit now sch (swapchains env) scanout_index framebuffer_index scanouts = Inr sch' \<Longrightarrow>
    outputs_run scs sch' env L"

lemma handle_completion_frontend:
  "handle_completion sampled scanouts completion sch env = Inr r \<Longrightarrow>
     handle_completion (\<lambda>_ _. Inr ()) scanouts completion sch env = Inr r"
  unfolding handle_completion_def Let_def
  by (auto simp: result_simps split: option.splits prod.splits completion_retirement.splits sum.splits)

lemma handle_completions_loop_frontend:
  "handle_completions_loop sampled scanouts n sch env = Inr r \<Longrightarrow>
     handle_completions_loop (\<lambda>_ _. Inr ()) scanouts n sch env = Inr r"
proof (induction sampled scanouts n sch env rule: handle_completions_loop.induct)
  case (2 sampled scanouts n sch env)
  obtain completion rest where flips: "completed_page_flips env = completion # rest"
    using 2(2) by (cases "completed_page_flips env") simp_all
  obtain sch1 env1 failed1 where first:
      "handle_completion sampled scanouts completion sch (env\<lparr>completed_page_flips := rest\<rparr>) = Inr ((sch1, env1), failed1)"
    and rest: "(case failed1 of Some e \<Rightarrow> Inr ((sch1, env1), Some e) | None \<Rightarrow>
      handle_completions_loop sampled scanouts n sch1 env1) = Inr r"
    using 2(2) by (auto simp: flips result_simps)
  show ?case
    using rest handle_completion_frontend [OF first] 2(1) [OF flips]
    by (cases failed1) (auto simp: flips)
qed simp

lemma handle_completions_inv:
  assumes inv: "sched_inv (map sc_id scanouts) E L sch env"
    and run: "handle_completions_inner sampled shown scanouts sch env = Inr (sch', env')"
  shows "sched_inv (map sc_id scanouts) E L sch' env'"
proof -
  let ?sch = "sch\<lparr>presented_outputs := []\<rparr>"
  have inv0: "sched_inv (map sc_id scanouts) E L ?sch env"
    using inv by (subst sched_inv_cong [where sch = sch]) simp_all
  show ?thesis
  proof (cases "completed_page_flips env = []")
    case True
    then show ?thesis
      using run inv0 by (auto simp: handle_completions_inner_def)
  next
    case False
    then obtain failed where "handle_completions_loop sampled scanouts (length (completed_page_flips env)) ?sch env =
        Inr ((sch', env'), failed)"
      using run by (auto simp: handle_completions_inner_def Let_def result_simps split: option.splits)
    from handle_completions_loop_frontend [OF this] show ?thesis
      using handle_completions_loop_inv [where sampled = "\<lambda>_ _. Inr ()", OF _ inv0, of "completed_page_flips env" "[]"]
      by auto
  qed
qed

lemma retain_inv:
  assumes inv: "sched_inv ids E L sch env" and retain: "retain_output (broker env) out i = Inr b"
  shows "sched_inv ids E (add_mset (out, i) L) sch (env\<lparr>broker := b\<rparr>)"
proof -
  have "refs_of (broker env) out i \<noteq> 0"
    using retain by (auto simp: retain_output_def refs_of_def split: option.splits if_splits)
  then have "count (frame_owners sch + L) (out, i) \<noteq> 0 \<or> discards sch out i \<noteq> 0"
    using inv by (simp add: sched_inv_def ledger_def)
  then have "fence_of sch out i \<noteq> None"
    using owned_fence [OF inv, of out i] by (metis count_inI discards_def option.simps(4))
  then have "owners_ok (add_mset (out, i) L) sch"
    using inv unfolding sched_inv_def owners_ok_def by auto
  moreover have "ledger (add_mset (out, i) L) sch b"
    using inv by (auto simp: sched_inv_def ledger_def retain_output_refs [OF retain])
  ultimately show ?thesis
    using inv by (simp add: sched_inv_def)
qed

lemma outputs_run_inv:
  "outputs_run scs sch env L \<Longrightarrow> sched_inv (map sc_id scs) {#} L sch env \<and> broker_inv (broker env)"
proof (induction rule: outputs_run.induct)
  case (run_start ds env plane_commit sch env')
  moreover have "broker env' = broker env"
    using run_start(4) by (auto simp: scheduler_new_def result_simps)
  ultimately show ?case
    using scheduler_new_inv broker_new_inv by metis
next
  case (run_render sch env L b)
  then show ?case
    by (auto simp: sched_inv_def ledger_def render_step_refs intro: render_step_inv)
next
  case (run_release sch env out i L b)
  obtain b' where "release_output (broker env) out i = Inr b'" "sched_inv (map sc_id scs) {#} L sch (env\<lparr>broker := b'\<rparr>)"
    by (rule release_owner_ok) (use run_release in blast)
  then show ?case
    using run_release by (auto intro: release_output_inv)
next
  case (run_fences sch env L signals sch' env')
  then show ?case
    using acknowledge_ready_fences_ok [of "map sc_id scs" "{#}" L sch env signals]
    by (auto intro: acknowledge_ready_fences_broker)
next
  case (run_events sch env L scanouts inst events sch' env' stalled)
  then show ?case
    by (auto intro: acknowledge_volition_events_inv simp: acknowledge_volition_events_broker)
next
  case (run_submit sch env L scanouts clock accepted submit sch' env' direct)
  then show ?case
    using submit_each_broker [of clock accepted submit scanouts _ "(sch, env, [])" "(sch', env', direct)"]
    by (auto intro: submit_ready_inv simp: submit_ready_def)
next
  case (run_flips sch env L scanouts sampled shown sch' env')
  then show ?case
    using handle_completions_inv [of scanouts] handle_completions_broker by metis
next
  case (run_begin_off sch env L scanouts out sch' env' submitted)
  obtain sch1 env1 submitted1 where "begin_power_off sch env out scanouts = Inr (sch1, env1, submitted1)"
      "sched_inv (map sc_id scanouts) {#} L sch1 env1"
    by (rule begin_power_off_inv [where scanouts = scanouts and out = out]) (use run_begin_off in auto)
  then show ?case
    using run_begin_off power_broker(1) by auto
next
  case (run_off sch env L scanouts out sch' env')
  have "in_flight (frames (pipelines sch ! i)) = None" if "pipeline_of_output scanouts sch out = Some i" for i
    using run_off.hyps(3) that by (auto simp: power_off_def Let_def split: if_splits)
  then obtain sch1 env1 where "power_off sch env out scanouts = Inr (sch1, env1)" "sched_inv (map sc_id scanouts) {#} L sch1 env1"
    using power_off_inv [of scanouts "{#}" L sch env out] run_off by metis
  then show ?case
    using run_off power_broker(2) by auto
next
  case (run_cancel_off sch env L scanouts out)
  then show ?case
    using cancel_power_off_inv [of scanouts] by metis
next
  case (run_on sch env L scanouts plane_commit now scanout_index framebuffer_index sch')
  then show ?case
    using power_on_inv [of scanouts] by metis
next
  case (run_retain sch env L out i b)
  then show ?case
    by (auto intro: retain_inv retain_output_inv)
next
  case (run_publish sch env L dup now frame sch' env' watch)
  then show ?case
    by (auto intro: publish_ready_inv publish_ready_broker)
next
  case (run_kernel sch env L env')
  then show ?case
    by (auto intro: sched_inv_env)
qed

section \<open>Ownership\<close>

text \<open>C2: In every history of the scheduler the output count of every buffer is the number of its owners: the
  pipelines that scan it out, hold it ready or have it in flight, the parked outputs, the discarded frames the
  GPU still works on, and the leases outside the scheduler. The users of its fence are the ready frames and the
  discarded ones, and a fence without users is free for the next frame.\<close>

theorem buffer_owners_balance:
  assumes "outputs_run scs sch env L"
  shows "(\<forall>out i. refs_of (broker env) out i = count (frame_owners sch) (out, i) + count L (out, i) + discards sch out i) \<and>
    (\<forall>out i. fence_entry_ok (count (ready_users sch) (out, i)) (fence_of sch out i))"
  using outputs_run_inv [OF assms] by (simp add: sched_inv_def ledger_def fences_ok_def)

definition sample_native :: output_swapchain where
  "sample_native = \<lparr>sw_output_id = 7, sw_render_view_id = -1, sw_configuration_generation = 1,
     sw_size = \<lparr>ps_width = 100, ps_height = 50\<rparr>, sw_buffers = [21, 22, 23], sw_current = 0\<rparr>"

definition sample_env :: "(nat, nat) scheduler_env" where
  "sample_env = \<lparr>broker = sample_broker, pending = {}, completed_page_flips = [], recovery_requested = False,
     swapchains = [sample_native], next_token = 1\<rparr>"

definition sample_outputs :: "(nat, nat, unit) output_scheduler" where
  "sample_outputs = \<lparr>pipelines = [\<lparr>op_output_id = 7, op_scanout_index = 0, scanning = 0,
       scanning_screenshot_request_id = None, frames = output_pipeline_frames_default, powering_off = False,
       op_wake = None, plane_request = ()\<rparr>],
     presented_outputs = [], ready_fences = [fences_of_pool sample_native], parked = [], presented_frames = 0\<rparr>"

lemma sample_outputs_run: "outputs_run [sample_scanout] sample_outputs sample_env {#}"
proof (rule run_start [where ds = "[sample_pool]" and env = sample_env and plane_commit = "\<lambda>_ _. Inr ()"])
  show "broker_new [sample_pool] = Inr (broker sample_env)"
    by (simp add: broker_new_def sample_broker_def sample_pool_def sample_env_def)
  show "pools_match [sample_pool] (swapchains sample_env)"
    by (simp add: pools_match_def sample_pool_def sample_env_def sample_native_def)
  show "mset (map sc_id [sample_scanout]) = mset (map sw_output_id (swapchains sample_env))"
    by (simp add: sample_scanout_def sample_env_def sample_native_def)
  show "scheduler_new (\<lambda>_ _. Inr ()) [sample_scanout] sample_env = Inr (sample_outputs, sample_env)"
    by (simp add: scheduler_new_def sample_env_def sample_outputs_def sample_scanout_def sample_native_def for_output_def)
qed

lemma buffer_owners_balance_witness: "refs_of sample_broker 7 0 = 1 \<and> refs_of sample_broker 7 1 = 0"
  using conjunct1 [OF buffer_owners_balance [OF sample_outputs_run], rule_format, of 7 0]
    conjunct1 [OF buffer_owners_balance [OF sample_outputs_run], rule_format, of 7 1]
  by (simp add: sample_env_def sample_outputs_def frame_owners_def pipeline_owners_def output_pipeline_frames_default_def
      in_flight_frame_of_def discards_def fence_of_def fence_pool_def fences_of_pool_def sample_native_def
      ready_fence_slot_default_def get_at_def)

lemma acquired_free:
  assumes inv: "sched_inv ids {#} L sch env" "broker_inv (broker env)"
    and acquired: "acquire (broker env) view extent = (b', Inr fb)"
  shows "\<exists>pool\<in>set (pools (broker env)). \<exists>i<length (slots pool). pool_render_view_id pool = view \<and>
    framebuffer (slots pool ! i) = fb \<and> (pool_output_id pool, i) \<notin># frame_owners sch + L \<and>
    discards sch (pool_output_id pool) i = 0"
  using acquired
proof (cases rule: acquire_cases)
  case (acquired pool authorization index)
  have pool: "pool \<in> set (pools (broker env))" "pool_render_view_id pool = view"
    using broker_pool [OF inv(2) acquired(1)] by auto
  have i: "index < length (slots pool)" "output_refs (slots pool ! index) = 0"
    using position_Some [OF acquired(3)] by (auto simp: slot_acquirable_def)
  have "find (\<lambda>p. pool_output_id p = pool_output_id pool) (pools (broker env)) = Some pool"
    using inv(2) pool(1) by (intro find_key) (auto simp: broker_inv_def)
  then have "refs_of (broker env) (pool_output_id pool) index = 0"
    using i by (simp add: refs_of_def slot_at_def get_at_def)
  then have "count (frame_owners sch + L) (pool_output_id pool, index) + discards sch (pool_output_id pool) index = 0"
    using inv(1) by (simp add: sched_inv_def ledger_def)
  then show ?thesis
    using pool i(1) acquired(4) by (auto simp: not_in_iff)
qed simp

text \<open>C1: In every history, the buffer the broker hands to the engine is on no screen, waits for no screen, is
  kept by no parked output, no screen capture and no unfinished GPU work: the engine never draws into a buffer
  somebody still reads.\<close>

theorem engine_never_draws_into_owned_buffer:
  assumes "outputs_run scs sch env L" and "acquire (broker env) view extent = (b', Inr fb)"
  shows "\<exists>pool\<in>set (pools (broker env)). \<exists>i<length (slots pool). pool_render_view_id pool = view \<and>
    framebuffer (slots pool ! i) = fb \<and> (pool_output_id pool, i) \<notin># frame_owners sch + L \<and>
    discards sch (pool_output_id pool) i = 0"
  using outputs_run_inv [OF assms(1)] assms(2) by (blast intro: acquired_free)

lemma engine_never_draws_into_owned_buffer_witness:
  "\<exists>pool\<in>set (pools (fst (authorize sample_broker sample_request 0))). \<exists>i<length (slots pool).
     framebuffer (slots pool ! i) = 12 \<and> (pool_output_id pool, i) \<notin># frame_owners sample_outputs"
proof -
  let ?env = "sample_env\<lparr>broker := fst (authorize sample_broker sample_request 0)\<rparr>"
  have run: "outputs_run [sample_scanout] sample_outputs ?env {#}"
    using run_render [OF sample_outputs_run render_authorize] by (simp add: sample_env_def)
  have b: "broker ?env = fst (authorize sample_broker sample_request 0)"
    by simp
  have "acquire (broker ?env) (-1) \<lparr>ps_width = 100, ps_height = 50\<rparr> =
      (fst (acquire (broker ?env) (-1) \<lparr>ps_width = 100, ps_height = 50\<rparr>), Inr 12)"
    unfolding b sample_authorize fst_conv
    by (simp add: acquire_def sample_broker_def sample_pool_def pool_of_def initial_slot_def slot_acquirable_def)
  from engine_never_draws_into_owned_buffer [OF run this] show ?thesis
    by auto
qed

text \<open>C3: One pass over the page flips ends although it queues again what it defers, and it succeeds when the
  frontend does: afterwards the queue holds, in their order, exactly the flips whose frame still waited for the
  acknowledgement of its submission, and of no other flip is the frame still submitted.\<close>

theorem page_flip_pass_settles:
  assumes "outputs_run scs sch env L" and "map sc_id scanouts = map sc_id scs"
    and "\<And>presented feedback. sampled presented feedback = Inr ()" and "\<And>all. shown all = Inr ()"
  shows "\<exists>sch' env'. handle_completions_inner sampled shown scanouts sch env = Inr (sch', env') \<and>
    completed_page_flips env' = filter (flip_early scanouts sch) (completed_page_flips env) \<and>
    list_all (\<lambda>completion. \<not> flip_unseen scanouts sch' completion) (completed_page_flips env)"
proof (cases "completed_page_flips env = []")
  case True
  then show ?thesis
    by (simp add: handle_completions_inner_def Let_def)
next
  case False
  let ?sch = "sch\<lparr>presented_outputs := []\<rparr>"
  have "sched_inv (map sc_id scanouts) {#} L ?sch env"
    using outputs_run_inv [OF assms(1)] assms(2) by (subst sched_inv_cong [where sch = sch]) simp_all
  moreover have "flip_early scanouts ?sch = flip_early scanouts sch"
    by (simp add: fun_eq_iff flip_early_def flip_pipeline_def)
  ultimately show ?thesis
    using handle_completions_loop_inv [where sampled = sampled and scanouts = scanouts and flips = "completed_page_flips env"
        and kept = "[]" and sch = ?sch and env = env and E = "{#}" and L = L] assms(3,4) False
    by (force simp: handle_completions_inner_def list_all_iff)
qed

definition sample_flip :: page_flip_completion where
  "sample_flip = \<lparr>pf_crtc = 1, pf_observed_at = 5, pf_presented_at = None, pf_sequence = None\<rparr>"

lemma page_flip_pass_settles_witness:
  "\<exists>(sch' :: (nat, nat, unit) output_scheduler) env'.
     handle_completions_inner (\<lambda>_ _. Inr ()) (\<lambda>_. Inr ()) [sample_scanout] sample_outputs
       (sample_env\<lparr>completed_page_flips := [sample_flip]\<rparr>) = Inr (sch', env') \<and> completed_page_flips env' = []"
proof -
  have run: "outputs_run [sample_scanout] sample_outputs (sample_env\<lparr>completed_page_flips := [sample_flip]\<rparr>) {#}"
    by (rule run_kernel [OF sample_outputs_run]) simp_all
  have "\<not> flip_early [sample_scanout] sample_outputs sample_flip"
    by (simp add: flip_early_def flip_pipeline_def scanout_crtc_def get_at_def sample_outputs_def sample_scanout_def
        sample_flip_def scheduled_commit_def output_pipeline_frames_default_def)
  then show ?thesis
    using page_flip_pass_settles [OF run refl, of "\<lambda>_ _. Inr ()" "\<lambda>_. Inr ()"] by auto
qed

end
