(* ===== verification/Idle_Policy.thy ===== *)
theory Idle_Policy
  imports Dispatch_Deadline
begin

unbundle bit_operations_syntax

text \<open>
  The inactivity policy (\<open>compositor/src/bin/deniald/idle_policy.rs\<close>): the configuration packet
  the Flutter shell sends and its decoder, the power button debouncer, and the policy that turns
  elapsed idle time into lock, display-off and suspend actions. The encoder of the packet is the
  shell's \<open>setIdlePolicy\<close> (\<open>dart_shell/lib/src/platform/denial_bridge.dart\<close>).
\<close>

section \<open>Configuration packets\<close>

datatype suspend_mode = SystemDefault | S2Idle | Shallow | Deep

fun suspend_mode_decode :: "u8 \<Rightarrow> suspend_mode option" where
  "suspend_mode_decode value =
     (if value = 0 then Some SystemDefault
      else if value = 1 then Some S2Idle
      else if value = 2 then Some Shallow
      else if value = 3 then Some Deep
      else None)"

fun kernel_value :: "suspend_mode \<Rightarrow> string option" where
  "kernel_value SystemDefault = None"
| "kernel_value S2Idle = Some ''s2idle''"
| "kernel_value Shallow = Some ''shallow''"
| "kernel_value Deep = Some ''deep''"

record idle_power_request =
  req_output :: output_id
  req_powered :: bool

record idle_policy_configuration =
  lock_timeout :: "duration option"
  dpms_timeout :: "duration option"
  suspend_timeout :: "duration option"
  suspend_mode :: suspend_mode

definition idle_policy_configuration_default :: idle_policy_configuration where
  "idle_policy_configuration_default =
     \<lparr>lock_timeout = None, dpms_timeout = None, suspend_timeout = None,
      suspend_mode = SystemDefault\<rparr>"

record idle_policy_actions =
  power_requests :: "idle_power_request list"
  act_lock :: bool
  act_suspend :: bool

definition idle_policy_actions_default :: idle_policy_actions where
  "idle_policy_actions_default = \<lparr>power_requests = [], act_lock = False, act_suspend = False\<rparr>"

datatype idle_policy_packet_error =
    InvalidSize nat
  | UnsupportedVersion u8
  | InvalidFlags u8
  | InvalidSuspendMode u8
  | NonZeroReservedBytes
  | ZeroTimeout string
  | TimeoutTooLarge string nat
  | TimeoutAfterSuspend string

datatype display_power_packet_error = InvalidPacket

abbreviation LEGACY_PACKET_BYTES :: nat where "LEGACY_PACKET_BYTES \<equiv> 8"
abbreviation PACKET_BYTES :: nat where "PACKET_BYTES \<equiv> 32"
abbreviation LEGACY_CONFIGURATION_PACKET_VERSION :: u8 where
  "LEGACY_CONFIGURATION_PACKET_VERSION \<equiv> 1"
abbreviation PACKET_VERSION :: u8 where "PACKET_VERSION \<equiv> 2"
abbreviation LOCK_ENABLED :: u8 where "LOCK_ENABLED \<equiv> 1"
abbreviation DPMS_ENABLED :: u8 where "DPMS_ENABLED \<equiv> 2"
abbreviation SUSPEND_ENABLED :: u8 where "SUSPEND_ENABLED \<equiv> 4"
abbreviation ENABLED_MASK :: u8 where "ENABLED_MASK \<equiv> LOCK_ENABLED OR DPMS_ENABLED OR SUSPEND_ENABLED"
abbreviation DISPLAY_POWER_OFF :: u8 where "DISPLAY_POWER_OFF \<equiv> 1"

text \<open>Seven days, in nanoseconds; \<open>Duration::from_millis\<close>.\<close>

definition MAX_TIMEOUT :: duration where
  "MAX_TIMEOUT = 7 * 24 * 60 * 60 * 1000000000"

definition duration_from_millis :: "nat \<Rightarrow> duration" where
  "duration_from_millis ms = ms * 1000000"

text \<open>\<open>u64::from_le_bytes\<close>, as a natural number, and the little-endian bytes of a number.\<close>

fun from_le_bytes :: "u8 list \<Rightarrow> nat" where
  "from_le_bytes [] = 0"
| "from_le_bytes (b # bs) = unat b + 256 * from_le_bytes bs"

fun to_le_bytes :: "nat \<Rightarrow> nat \<Rightarrow> u8 list" where
  "to_le_bytes 0 n = []"
| "to_le_bytes (Suc k) n = of_nat (n mod 256) # to_le_bytes k (n div 256)"

definition decode_display_power_off :: "u8 list \<Rightarrow> display_power_packet_error + unit" where
  "decode_display_power_off packet =
     (if packet = [DISPLAY_POWER_OFF] then Inr () else Inl InvalidPacket)"

definition decode_timeout :: "string \<Rightarrow> nat \<Rightarrow> idle_policy_packet_error + duration" where
  "decode_timeout action milliseconds =
     (let timeout = duration_from_millis milliseconds
      in if MAX_TIMEOUT < timeout then Inl (TimeoutTooLarge action milliseconds)
         else Inr timeout)"

definition decode_packet_timeout :: "string \<Rightarrow> u8 list \<Rightarrow> idle_policy_packet_error + duration" where
  "decode_packet_timeout action bytes =
     (let milliseconds = from_le_bytes bytes
      in if milliseconds = 0 then Inl (ZeroTimeout action)
         else decode_timeout action milliseconds)"

text \<open>The suspend mode of a full packet: its version decides which bytes are reserved.\<close>

definition decode_suspend_mode :: "u8 list \<Rightarrow> idle_policy_packet_error + suspend_mode" where
  "decode_suspend_mode packet =
     (let version = packet ! 0
      in if version = LEGACY_CONFIGURATION_PACKET_VERSION then
           if list_ex (\<lambda>byte. byte \<noteq> 0) (take 6 (drop 2 packet)) then Inl NonZeroReservedBytes
           else Inr SystemDefault
         else if version = PACKET_VERSION then
           if list_ex (\<lambda>byte. byte \<noteq> 0) (take 5 (drop 3 packet)) then Inl NonZeroReservedBytes
           else ok_or (suspend_mode_decode (packet ! 2)) (InvalidSuspendMode (packet ! 2))
         else Inl (UnsupportedVersion version))"

definition decode_configuration ::
  "u8 list \<Rightarrow> idle_policy_packet_error + idle_policy_configuration" where
  "decode_configuration packet =
     (if length packet = LEGACY_PACKET_BYTES then
        (let milliseconds = from_le_bytes packet
         in if milliseconds = 0 then Inr idle_policy_configuration_default
            else and_then (decode_timeout ''display power-off'' milliseconds) (\<lambda>timeout.
              Inr (idle_policy_configuration_default\<lparr>dpms_timeout := Some timeout\<rparr>)))
      else if length packet \<noteq> PACKET_BYTES then Inl (InvalidSize (length packet))
      else and_then (decode_suspend_mode packet) (\<lambda>mode.
        let flags = packet ! 1
        in if flags AND NOT ENABLED_MASK \<noteq> 0 then Inl (InvalidFlags flags)
           else and_then (decode_packet_timeout ''lock'' (take 8 (drop 8 packet))) (\<lambda>lock.
             and_then (decode_packet_timeout ''display power-off'' (take 8 (drop 16 packet))) (\<lambda>dpms.
               and_then (decode_packet_timeout ''suspend'' (take 8 (drop 24 packet))) (\<lambda>suspend.
                 if suspend < lock then Inl (TimeoutAfterSuspend ''lock'')
                 else if suspend < dpms then Inl (TimeoutAfterSuspend ''display power-off'')
                 else Inr
                   \<lparr>lock_timeout = (if flags AND LOCK_ENABLED \<noteq> 0 then Some lock else None),
                    dpms_timeout = (if flags AND DPMS_ENABLED \<noteq> 0 then Some dpms else None),
                    suspend_timeout =
                      (if flags AND SUSPEND_ENABLED \<noteq> 0 then Some suspend else None),
                    suspend_mode = mode\<rparr>)))))"

section \<open>The shell's encoder\<close>

text \<open>
  \<open>setIdlePolicy\<close> sends nothing when a timeout is not positive or exceeds the suspend timeout.
  Dart's durations are integers of milliseconds here.
\<close>

fun wireValue :: "suspend_mode \<Rightarrow> u8" where
  "wireValue SystemDefault = 0"
| "wireValue S2Idle = 1"
| "wireValue Shallow = 2"
| "wireValue Deep = 3"

definition setIdlePolicy ::
  "bool \<Rightarrow> int \<Rightarrow> bool \<Rightarrow> int \<Rightarrow> bool \<Rightarrow> int \<Rightarrow> suspend_mode \<Rightarrow> u8 list option" where
  "setIdlePolicy lockEnabled lockMs dpmsEnabled dpmsMs suspendEnabled suspendMs mode =
     (if lockMs \<le> 0 \<or> dpmsMs \<le> 0 \<or> suspendMs \<le> 0 \<or> suspendMs < lockMs \<or> suspendMs < dpmsMs
      then None
      else let flags = (if lockEnabled then 1 else 0) OR (if dpmsEnabled then 2 else 0) OR
             (if suspendEnabled then 4 else 0)
        in Some ([2, flags, wireValue mode, 0, 0, 0, 0, 0] @ to_le_bytes 8 (nat lockMs) @
             to_le_bytes 8 (nat dpmsMs) @ to_le_bytes 8 (nat suspendMs)))"

section \<open>The power button\<close>

record power_button =
  held_devices :: "string set"
  toggle_pending :: bool

definition power_button_default :: power_button where
  "power_button_default = \<lparr>held_devices = {}, toggle_pending = False\<rparr>"

definition note_key :: "power_button \<Rightarrow> string \<Rightarrow> bool \<Rightarrow> power_button" where
  "note_key b device pressed =
     (if pressed then
        if device \<notin> held_devices b
        then b\<lparr>held_devices := insert device (held_devices b),
               toggle_pending := \<not> toggle_pending b\<rparr>
        else b
      else b\<lparr>held_devices := held_devices b - {device}\<rparr>)"

definition remove_device :: "power_button \<Rightarrow> string \<Rightarrow> power_button" where
  "remove_device b device = b\<lparr>held_devices := held_devices b - {device}\<rparr>"

definition take_toggle :: "power_button \<Rightarrow> power_button \<times> bool" where
  "take_toggle b = (b\<lparr>toggle_pending := False\<rparr>, toggle_pending b)"

section \<open>The policy\<close>

record idle_policy =
  configuration :: idle_policy_configuration
  last_activity :: instant
  inhibited :: bool
  lock_triggered :: bool
  dpms_triggered :: bool
  suspend_triggered :: bool
  blanked_outputs :: "output_id set"
  manually_blanked :: bool

text \<open>The default policy starts disabled; \<open>now\<close> is the clock at its creation.\<close>

definition idle_policy_default :: "instant \<Rightarrow> idle_policy" where
  "idle_policy_default now =
     \<lparr>configuration = idle_policy_configuration_default, last_activity = now, inhibited = False,
      lock_triggered = False, dpms_triggered = False, suspend_triggered = False,
      blanked_outputs = {}, manually_blanked = False\<rparr>"

definition reset_idle_interval :: "idle_policy \<Rightarrow> instant \<Rightarrow> idle_policy" where
  "reset_idle_interval p now =
     p\<lparr>last_activity := now, lock_triggered := False, dpms_triggered := False,
       suspend_triggered := False\<rparr>"

definition wake_blanked_outputs :: "idle_policy \<Rightarrow> idle_policy \<times> idle_power_request list" where
  "wake_blanked_outputs p =
     (p\<lparr>manually_blanked := False, blanked_outputs := {}\<rparr>,
      map (\<lambda>output. \<lparr>req_output = output, req_powered = True\<rparr>) (set_iter (blanked_outputs p)))"

text \<open>
  The loop shared by \<open>blank_now\<close> and \<open>evaluate\<close>: a powered output that is not yet in the blanked
  set enters it and is asked to power off.
\<close>

fun blank_outputs ::
  "output_id set \<Rightarrow> (output_id \<times> bool) list \<Rightarrow> output_id set \<times> idle_power_request list" where
  "blank_outputs blanked [] = (blanked, [])"
| "blank_outputs blanked ((output, powered) # outputs) =
     (if powered \<and> output \<notin> blanked then
        (case blank_outputs (insert output blanked) outputs of (blanked', requests) \<Rightarrow>
           (blanked', \<lparr>req_output = output, req_powered = False\<rparr> # requests))
      else blank_outputs blanked outputs)"

definition blank_now ::
  "idle_policy \<Rightarrow> (output_id \<times> bool) list \<Rightarrow> idle_policy \<times> idle_power_request list" where
  "blank_now p outputs =
     (case blank_outputs (blanked_outputs p) outputs of (blanked, requests) \<Rightarrow>
        (p\<lparr>blanked_outputs := blanked,
           manually_blanked := manually_blanked p \<or> requests \<noteq> []\<rparr>, requests))"

definition toggle_now ::
  "idle_policy \<Rightarrow> (output_id \<times> bool) list \<Rightarrow> instant \<Rightarrow> idle_policy \<times> idle_policy_actions" where
  "toggle_now p0 outputs now =
     (let p = reset_idle_interval p0 now
      in if list_ex snd outputs then
           (case blank_now p outputs of (p', requests) \<Rightarrow>
              (p', idle_policy_actions_default\<lparr>power_requests := requests, act_lock := True\<rparr>))
         else
           (p\<lparr>blanked_outputs := {}, manually_blanked := False\<rparr>,
            idle_policy_actions_default\<lparr>power_requests :=
              map (\<lambda>(output, _). \<lparr>req_output = output, req_powered = True\<rparr>) outputs\<rparr>))"

definition configure ::
  "idle_policy \<Rightarrow> idle_policy_configuration \<Rightarrow> instant \<Rightarrow> idle_policy \<times> idle_power_request list" where
  "configure p config now =
     (if configuration p = config then (p, [])
      else let p' = reset_idle_interval (p\<lparr>configuration := config\<rparr>) now
        in if dpms_timeout config = None then wake_blanked_outputs p' else (p', []))"

definition note_activity ::
  "idle_policy \<Rightarrow> instant \<Rightarrow> idle_policy \<times> idle_power_request list" where
  "note_activity p now = wake_blanked_outputs (reset_idle_interval p now)"

text \<open>\<open>Option::is_some_and\<close> on a timeout: it is configured and has elapsed.\<close>

definition timeout_elapsed :: "duration option \<Rightarrow> duration \<Rightarrow> bool" where
  "timeout_elapsed timeout elapsed =
     (case timeout of None \<Rightarrow> False | Some t \<Rightarrow> t \<le> elapsed)"

text \<open>The three threshold checks of \<open>evaluate\<close>, in the code's order.\<close>

definition evaluate_lock ::
  "duration \<Rightarrow> idle_policy \<times> idle_policy_actions \<Rightarrow> idle_policy \<times> idle_policy_actions" where
  "evaluate_lock elapsed = (\<lambda>(p, a).
     if \<not> lock_triggered p \<and> timeout_elapsed (lock_timeout (configuration p)) elapsed
     then (p\<lparr>lock_triggered := True\<rparr>, a\<lparr>act_lock := True\<rparr>) else (p, a))"

definition evaluate_dpms ::
  "duration \<Rightarrow> (output_id \<times> bool) list \<Rightarrow> idle_policy \<times> idle_policy_actions \<Rightarrow>
     idle_policy \<times> idle_policy_actions" where
  "evaluate_dpms elapsed outputs = (\<lambda>(p, a).
     if \<not> dpms_triggered p \<and> timeout_elapsed (dpms_timeout (configuration p)) elapsed
     then (case blank_outputs (blanked_outputs p) outputs of (blanked, requests) \<Rightarrow>
        (p\<lparr>dpms_triggered := True, blanked_outputs := blanked\<rparr>,
         a\<lparr>power_requests := power_requests a @ requests\<rparr>))
     else (p, a))"

definition evaluate_suspend ::
  "duration \<Rightarrow> idle_policy \<times> idle_policy_actions \<Rightarrow> idle_policy \<times> idle_policy_actions" where
  "evaluate_suspend elapsed = (\<lambda>(p, a).
     if power_requests a = [] \<and> \<not> suspend_triggered p \<and>
        timeout_elapsed (suspend_timeout (configuration p)) elapsed
     then (p\<lparr>suspend_triggered := True\<rparr>, a\<lparr>act_suspend := True\<rparr>) else (p, a))"

definition evaluate ::
  "idle_policy \<Rightarrow> instant \<Rightarrow> bool \<Rightarrow> (output_id \<times> bool) list \<Rightarrow>
     idle_policy \<times> idle_policy_actions" where
  "evaluate p now inhibit outputs =
     (if inhibit then
        (let p1 = (if inhibited p then p else reset_idle_interval (p\<lparr>inhibited := True\<rparr>) now)
         in if manually_blanked p1 then (p1, idle_policy_actions_default)
            else (case wake_blanked_outputs p1 of (p2, requests) \<Rightarrow>
              (p2, idle_policy_actions_default\<lparr>power_requests := requests\<rparr>)))
      else
        (let p1 = (if inhibited p then reset_idle_interval (p\<lparr>inhibited := False\<rparr>) now else p);
             p2 = p1\<lparr>blanked_outputs := {output \<in> blanked_outputs p1. output \<in> fst ` set outputs}\<rparr>;
             elapsed = saturating_duration_since now (last_activity p2)
         in evaluate_suspend elapsed (evaluate_dpms elapsed outputs
              (evaluate_lock elapsed (p2, idle_policy_actions_default)))))"

fun earlier :: "duration option \<Rightarrow> duration option \<Rightarrow> duration option" where
  "earlier (Some current) (Some candidate) = Some (min current candidate)"
| "earlier current candidate = (case current of None \<Rightarrow> candidate | Some c \<Rightarrow> Some c)"

definition next_deadline :: "idle_policy \<Rightarrow> instant option" where
  "next_deadline p =
     (if inhibited p then None
      else let d0 = None;
               d1 = (if \<not> lock_triggered p then earlier d0 (lock_timeout (configuration p)) else d0);
               d2 = (if \<not> dpms_triggered p then earlier d1 (dpms_timeout (configuration p)) else d1);
               d3 = (if \<not> suspend_triggered p
                     then earlier d2 (suspend_timeout (configuration p)) else d2)
        in map_option (\<lambda>timeout. last_activity p + int timeout) d3)"

definition limit_dispatch_timeout :: "idle_policy \<Rightarrow> instant \<Rightarrow> duration \<Rightarrow> duration" where
  "limit_dispatch_timeout p now timeout =
     (case next_deadline p of None \<Rightarrow> timeout
      | Some deadline \<Rightarrow> min timeout (saturating_duration_since deadline now))"

definition note_external_power_request :: "idle_policy \<Rightarrow> output_id \<Rightarrow> bool \<Rightarrow> idle_policy" where
  "note_external_power_request p output powered =
     p\<lparr>blanked_outputs := blanked_outputs p - {output}\<rparr>"

definition note_power_failure :: "idle_policy \<Rightarrow> output_id \<Rightarrow> instant \<Rightarrow> idle_policy" where
  "note_power_failure p output now = p\<lparr>blanked_outputs := blanked_outputs p - {output}\<rparr>"

section \<open>Packet lemmas\<close>

lemma length_to_le_bytes [simp]: "length (to_le_bytes k n) = k"
  by (induction k arbitrary: n) auto

lemma from_to_le_bytes: "from_le_bytes (to_le_bytes k n) = n mod 256 ^ k"
proof (induction k arbitrary: n)
  case (Suc k)
  have "unat (of_nat (n mod 256) :: u8) = n mod 256"
    by (simp add: unat_of_nat take_bit_eq_mod)
  then show ?case
    using Suc.IH by (simp add: mod_mult2_eq)
qed simp

lemma from_le_bytes_bound: "from_le_bytes bs < 256 ^ length bs"
proof (induction bs)
  case (Cons b bs)
  have "unat b < 256"
    using unsigned_less [of b, where ?'a = nat] by simp
  then show ?case
    using Cons.IH by simp
qed simp

lemma decode_packet_timeout_to_le_bytes:
  assumes "0 < ms" and "ms \<le> 604800000"
  shows "decode_packet_timeout action (to_le_bytes 8 ms) = Inr (duration_from_millis ms)"
  using assms
  by (simp add: decode_packet_timeout_def decode_timeout_def from_to_le_bytes
      duration_from_millis_def MAX_TIMEOUT_def del: to_le_bytes.simps)

lemma decode_packet_timeout_too_large:
  assumes "604800000 < ms" and "ms < 2 ^ 64"
  shows "decode_packet_timeout action (to_le_bytes 8 ms) = Inl (TimeoutTooLarge action ms)"
  using assms
  by (simp add: decode_packet_timeout_def decode_timeout_def from_to_le_bytes
      duration_from_millis_def MAX_TIMEOUT_def del: to_le_bytes.simps)

lemma decode_timeout_Inr:
  "decode_timeout action ms = Inr t \<longleftrightarrow> t = duration_from_millis ms \<and> t \<le> MAX_TIMEOUT"
  by (auto simp: decode_timeout_def Let_def)

lemma decode_packet_timeout_Inr:
  "decode_packet_timeout action bytes = Inr t \<Longrightarrow> 0 < t \<and> t \<le> MAX_TIMEOUT"
  by (auto simp: decode_packet_timeout_def Let_def decode_timeout_Inr duration_from_millis_def
      split: if_splits)

text \<open>What every accepted configuration satisfies.\<close>

definition timeout_ok :: "duration option \<Rightarrow> bool" where
  "timeout_ok timeout = (case timeout of None \<Rightarrow> True | Some t \<Rightarrow> 0 < t \<and> t \<le> MAX_TIMEOUT)"

definition configuration_ok :: "idle_policy_configuration \<Rightarrow> bool" where
  "configuration_ok c \<longleftrightarrow>
     timeout_ok (lock_timeout c) \<and> timeout_ok (dpms_timeout c) \<and> timeout_ok (suspend_timeout c) \<and>
     (case (lock_timeout c, suspend_timeout c) of (Some l, Some s) \<Rightarrow> l \<le> s | _ \<Rightarrow> True) \<and>
     (case (dpms_timeout c, suspend_timeout c) of (Some d, Some s) \<Rightarrow> d \<le> s | _ \<Rightarrow> True)"

lemma decode_configuration_ok:
  assumes "decode_configuration packet = Inr c"
  shows "configuration_ok c"
proof (cases "length packet = LEGACY_PACKET_BYTES")
  case True
  with assms show ?thesis
    by (auto simp: decode_configuration_def Let_def configuration_ok_def timeout_ok_def
        idle_policy_configuration_default_def decode_timeout_Inr duration_from_millis_def
        result_simps split: if_splits)
next
  case False
  with assms obtain lock dpms suspend flags where
      t: "decode_packet_timeout ''lock'' (take 8 (drop 8 packet)) = Inr lock"
         "decode_packet_timeout ''display power-off'' (take 8 (drop 16 packet)) = Inr dpms"
         "decode_packet_timeout ''suspend'' (take 8 (drop 24 packet)) = Inr suspend"
      and o: "lock \<le> suspend" "dpms \<le> suspend"
      and c: "lock_timeout c = (if flags AND LOCK_ENABLED \<noteq> 0 then Some lock else None)"
         "dpms_timeout c = (if flags AND DPMS_ENABLED \<noteq> 0 then Some dpms else None)"
         "suspend_timeout c = (if flags AND SUSPEND_ENABLED \<noteq> 0 then Some suspend else None)"
    by (auto simp: decode_configuration_def Let_def result_simps split: if_splits)
  show ?thesis
    using t [THEN decode_packet_timeout_Inr] o by (simp add: configuration_ok_def timeout_ok_def c)
qed

section \<open>Blanking lemmas\<close>

lemma fst_blank_outputs:
  "fst (blank_outputs blanked outputs) = blanked \<union> {oid. (oid, True) \<in> set outputs}"
proof (induction outputs arbitrary: blanked)
  case (Cons x outputs)
  then show ?case
    by (cases x) (auto simp: case_prod_unfold)
qed simp

lemma blank_outputs_mem:
  "r \<in> set (snd (blank_outputs blanked outputs)) \<longleftrightarrow>
     \<not> req_powered r \<and> (req_output r, True) \<in> set outputs \<and> req_output r \<notin> blanked"
proof (induction outputs arbitrary: blanked)
  case (Cons x outputs)
  obtain oid powered where x: "x = (oid, powered)"
    by (cases x)
  show ?case
  proof (cases "powered \<and> oid \<notin> blanked")
    case True
    have "r = \<lparr>req_output = oid, req_powered = False\<rparr> \<longleftrightarrow> \<not> req_powered r \<and> req_output r = oid"
      by (cases r) auto
    with True show ?thesis
      using Cons.IH [of "insert oid blanked"] by (auto simp: x case_prod_unfold)
  next
    case False
    then show ?thesis
      using Cons.IH [of blanked] by (auto simp: x)
  qed
qed simp

lemma finite_blank_outputs:
  "finite blanked \<Longrightarrow> finite (fst (blank_outputs blanked outputs))"
proof -
  have "{oid. (oid, True) \<in> set outputs} \<subseteq> fst ` set outputs"
    by force
  then have "finite {oid. (oid, True) \<in> set outputs}"
    by (rule finite_subset) simp
  then show "finite blanked \<Longrightarrow> finite (fst (blank_outputs blanked outputs))"
    by (simp only: fst_blank_outputs finite_Un)
qed

lemma set_wake_requests:
  "finite (blanked_outputs p) \<Longrightarrow> set (snd (wake_blanked_outputs p)) =
     (\<lambda>o'. \<lparr>req_output = o', req_powered = True\<rparr>) ` blanked_outputs p"
  by (simp add: wake_blanked_outputs_def)

section \<open>Evaluation lemmas\<close>

text \<open>The policy an uninhibited evaluation starts from: the interval restarts when inhibition ends.\<close>

definition uninhibited :: "idle_policy \<Rightarrow> instant \<Rightarrow> idle_policy" where
  "uninhibited p now =
     (if inhibited p then reset_idle_interval (p\<lparr>inhibited := False\<rparr>) now else p)"

lemma uninhibited_id [simp]: "\<not> inhibited p \<Longrightarrow> uninhibited p now = p"
  by (simp add: uninhibited_def)

lemma uninhibited_configuration [simp]: "configuration (uninhibited p now) = configuration p"
  by (simp add: uninhibited_def reset_idle_interval_def)

lemma evaluate_lock_eq:
  "evaluate_lock e (p, a) =
     (p\<lparr>lock_triggered := lock_triggered p \<or> timeout_elapsed (lock_timeout (configuration p)) e\<rparr>,
      a\<lparr>act_lock := act_lock a \<or>
          \<not> lock_triggered p \<and> timeout_elapsed (lock_timeout (configuration p)) e\<rparr>)"
  by (cases p; cases a) (simp add: evaluate_lock_def)

definition dpms_due :: "idle_policy \<Rightarrow> duration \<Rightarrow> bool" where
  "dpms_due p e \<longleftrightarrow> \<not> dpms_triggered p \<and> timeout_elapsed (dpms_timeout (configuration p)) e"

lemma evaluate_dpms_eq:
  "evaluate_dpms e outputs (p, a) =
     (p\<lparr>dpms_triggered := dpms_triggered p \<or> timeout_elapsed (dpms_timeout (configuration p)) e,
        blanked_outputs := (if dpms_due p e then fst (blank_outputs (blanked_outputs p) outputs)
          else blanked_outputs p)\<rparr>,
      a\<lparr>power_requests := power_requests a @
          (if dpms_due p e then snd (blank_outputs (blanked_outputs p) outputs) else [])\<rparr>)"
  by (cases p; cases a) (simp add: evaluate_dpms_def dpms_due_def split: prod.splits)

lemma evaluate_suspend_eq:
  "evaluate_suspend e (p, a) =
     (p\<lparr>suspend_triggered := suspend_triggered p \<or>
          power_requests a = [] \<and> timeout_elapsed (suspend_timeout (configuration p)) e\<rparr>,
      a\<lparr>act_suspend := act_suspend a \<or> power_requests a = [] \<and> \<not> suspend_triggered p \<and>
          timeout_elapsed (suspend_timeout (configuration p)) e\<rparr>)"
  by (cases p; cases a) (auto simp: evaluate_suspend_def)

text \<open>
  The normal form of an uninhibited evaluation: \<open>live_blanked\<close> is the blanked set cut down to the
  connected outputs, \<open>blank_due\<close> the power-off requests the display threshold issues.
\<close>

definition live_blanked :: "idle_policy \<Rightarrow> (output_id \<times> bool) list \<Rightarrow> output_id set" where
  "live_blanked p outputs = {oid \<in> blanked_outputs p. oid \<in> fst ` set outputs}"

definition blank_due ::
  "idle_policy \<Rightarrow> duration \<Rightarrow> (output_id \<times> bool) list \<Rightarrow> output_id set \<times> idle_power_request list"
  where
  "blank_due p e outputs =
     (if dpms_due p e then blank_outputs (live_blanked p outputs) outputs
      else (live_blanked p outputs, []))"

lemma evaluate_uninhibited_eq:
  assumes "p1 = uninhibited p now" and "e = saturating_duration_since now (last_activity p1)"
  shows "evaluate p now False outputs =
    (p1\<lparr>lock_triggered := lock_triggered p1 \<or> timeout_elapsed (lock_timeout (configuration p)) e,
        dpms_triggered := dpms_triggered p1 \<or> timeout_elapsed (dpms_timeout (configuration p)) e,
        suspend_triggered := suspend_triggered p1 \<or> snd (blank_due p1 e outputs) = [] \<and>
          timeout_elapsed (suspend_timeout (configuration p)) e,
        blanked_outputs := fst (blank_due p1 e outputs)\<rparr>,
     \<lparr>power_requests = snd (blank_due p1 e outputs),
      act_lock = (\<not> lock_triggered p1 \<and> timeout_elapsed (lock_timeout (configuration p)) e),
      act_suspend = (snd (blank_due p1 e outputs) = [] \<and> \<not> suspend_triggered p1 \<and>
        timeout_elapsed (suspend_timeout (configuration p)) e)\<rparr>)"
proof -
  have "configuration p1 = configuration p"
    using assms by simp
  then show ?thesis
    using assms
    by (simp add: evaluate_def Let_def uninhibited_def [symmetric] evaluate_lock_eq
        evaluate_dpms_eq evaluate_suspend_eq idle_policy_actions_default_def blank_due_def
        dpms_due_def live_blanked_def)
qed

lemma blank_due_requests:
  assumes "r \<in> set (snd (blank_due p e outputs))"
  shows "\<not> req_powered r \<and> (req_output r, True) \<in> set outputs \<and>
     req_output r \<in> fst (blank_due p e outputs)"
proof -
  from assms have due: "dpms_due p e"
    by (simp add: blank_due_def split: if_splits)
  with assms show ?thesis
    by (simp add: blank_due_def blank_outputs_mem fst_blank_outputs)
qed

lemma live_blanked_subset: "live_blanked p outputs \<subseteq> blanked_outputs p"
  by (auto simp: live_blanked_def)

lemma blank_due_finite:
  assumes "finite (blanked_outputs p)"
  shows "finite (fst (blank_due p e outputs))"
proof -
  have live: "finite (live_blanked p outputs)"
    using live_blanked_subset assms by (rule finite_subset)
  then have "finite (fst (blank_outputs (live_blanked p outputs) outputs))"
    by (rule finite_blank_outputs)
  with live show ?thesis
    by (simp only: blank_due_def split: if_split) simp
qed

lemma blank_due_idle [simp]: "\<not> dpms_due p e \<Longrightarrow> snd (blank_due p e outputs) = []"
  by (simp add: blank_due_def)

lemma evaluate_inhibited_eq:
  assumes "p1 = (if inhibited p then p else reset_idle_interval (p\<lparr>inhibited := True\<rparr>) now)"
  shows "evaluate p now True outputs =
    (if manually_blanked p then (p1, idle_policy_actions_default)
     else (p1\<lparr>blanked_outputs := {}\<rparr>,
       idle_policy_actions_default\<lparr>power_requests := snd (wake_blanked_outputs p)\<rparr>))"
  using assms
  by (simp add: evaluate_def wake_blanked_outputs_def reset_idle_interval_def)

section \<open>Deadline lemmas\<close>

definition pending_lock :: "idle_policy \<Rightarrow> duration option" where
  "pending_lock p = (if lock_triggered p then None else lock_timeout (configuration p))"

definition pending_dpms :: "idle_policy \<Rightarrow> duration option" where
  "pending_dpms p = (if dpms_triggered p then None else dpms_timeout (configuration p))"

definition pending_suspend :: "idle_policy \<Rightarrow> duration option" where
  "pending_suspend p = (if suspend_triggered p then None else suspend_timeout (configuration p))"

lemmas pending_defs = pending_lock_def pending_dpms_def pending_suspend_def

lemma earlier_None [simp]: "earlier a None = a" "earlier None b = b"
  by (cases a; simp) (cases b; simp)

declare earlier.simps(2,3) [simp del]

lemma earlier_eq_None: "earlier a b = None \<longleftrightarrow> a = None \<and> b = None"
  by (cases a; cases b) auto




lemma timeout_elapsed_pending:
  "\<not> lock_triggered p \<and> timeout_elapsed (lock_timeout (configuration p)) e \<longleftrightarrow>
     (\<exists>t. pending_lock p = Some t \<and> t \<le> e)"
  "dpms_due p e \<longleftrightarrow> (\<exists>t. pending_dpms p = Some t \<and> t \<le> e)"
  "\<not> suspend_triggered p \<and> timeout_elapsed (suspend_timeout (configuration p)) e \<longleftrightarrow>
     (\<exists>t. pending_suspend p = Some t \<and> t \<le> e)"
  by (auto simp: pending_defs timeout_elapsed_def dpms_due_def split: option.splits)

text \<open>The triggered flags stay meaningful: a flag is only ever set under a configured timeout.\<close>

definition triggered_ok :: "idle_policy \<Rightarrow> bool" where
  "triggered_ok p \<longleftrightarrow>
     (lock_triggered p \<longrightarrow> lock_timeout (configuration p) \<noteq> None) \<and>
     (dpms_triggered p \<longrightarrow> dpms_timeout (configuration p) \<noteq> None) \<and>
     (suspend_triggered p \<longrightarrow> suspend_timeout (configuration p) \<noteq> None)"

text \<open>An evaluation before every pending threshold does nothing but forget dead outputs.\<close>

lemma evaluate_before_pending:
  assumes "\<not> inhibited p" and "e = saturating_duration_since now (last_activity p)"
    and "\<And>u. pending_lock p = Some u \<or> pending_dpms p = Some u \<or> pending_suspend p = Some u \<Longrightarrow> e < u"
  shows "evaluate p now False outputs =
    (p\<lparr>blanked_outputs := live_blanked p outputs\<rparr>, idle_policy_actions_default)"
proof -
  have l: "\<not> (\<not> lock_triggered p \<and> timeout_elapsed (lock_timeout (configuration p)) e)"
    and d: "\<not> dpms_due p e"
    and s: "\<not> (\<not> suspend_triggered p \<and> timeout_elapsed (suspend_timeout (configuration p)) e)"
    using assms(3) unfolding timeout_elapsed_pending by (meson not_le)+
  from d have d': "dpms_triggered p \<or> timeout_elapsed (dpms_timeout (configuration p)) e
      \<longleftrightarrow> dpms_triggered p"
    by (auto simp: dpms_due_def)
  show ?thesis
    using assms(1,2) l d s d'
    by (cases p) (auto simp: evaluate_uninhibited_eq [OF refl refl] blank_due_def
        idle_policy_actions_default_def)
qed

section \<open>Runs\<close>

datatype idle_event =
    EvActivity instant
  | EvEvaluate instant bool "(output_id \<times> bool) list"
  | EvConfigure idle_policy_configuration instant
  | EvBlank "(output_id \<times> bool) list"
  | EvToggle "(output_id \<times> bool) list" instant
  | EvExternal output_id bool
  | EvFailure output_id instant

abbreviation requests_only :: "idle_power_request list \<Rightarrow> idle_policy_actions" where
  "requests_only rs \<equiv> \<lparr>power_requests = rs, act_lock = False, act_suspend = False\<rparr>"

fun idle_step :: "idle_policy \<Rightarrow> idle_event \<Rightarrow> idle_policy \<times> idle_policy_actions" where
  "idle_step p (EvActivity now) = map_prod id requests_only (note_activity p now)"
| "idle_step p (EvEvaluate now inhibit outputs) = evaluate p now inhibit outputs"
| "idle_step p (EvConfigure config now) = map_prod id requests_only (configure p config now)"
| "idle_step p (EvBlank outputs) = map_prod id requests_only (blank_now p outputs)"
| "idle_step p (EvToggle outputs now) = toggle_now p outputs now"
| "idle_step p (EvExternal oid powered) =
     (note_external_power_request p oid powered, requests_only [])"
| "idle_step p (EvFailure oid now) = (note_power_failure p oid now, requests_only [])"

fun idle_run :: "idle_policy \<Rightarrow> idle_event list \<Rightarrow> idle_policy \<times> idle_policy_actions list" where
  "idle_run p [] = (p, [])"
| "idle_run p (ev # evs) =
     (case idle_step p ev of (p', a) \<Rightarrow> (case idle_run p' evs of (q, as) \<Rightarrow> (q, a # as)))"

lemma snd_idle_run_Cons [simp]:
  "snd (idle_run p (ev # evs)) = snd (idle_step p ev) # snd (idle_run (fst (idle_step p ev)) evs)"
  by (simp add: case_prod_unfold)

lemma fst_idle_run_Cons [simp]:
  "fst (idle_run p (ev # evs)) = fst (idle_run (fst (idle_step p ev)) evs)"
  by (simp add: case_prod_unfold)

declare idle_run.simps(2) [simp del]

section \<open>Lemmas for the properties\<close>



lemma evaluate_uninhibited_idem:
  "evaluate (uninhibited p now) now False outputs = evaluate p now False outputs"
proof -
  have "uninhibited (uninhibited p now) now = uninhibited p now"
    by (simp add: uninhibited_def reset_idle_interval_def)
  then show ?thesis
    by (simp add: evaluate_uninhibited_eq [OF refl refl])
qed

lemma evaluate_after_inhibition:
  assumes "inhibited p" and "configuration_ok (configuration p)"
  shows "snd (evaluate p now False outputs) = idle_policy_actions_default \<and>
    last_activity (fst (evaluate p now False outputs)) = now"
proof -
  let ?q = "uninhibited p now"
  have q: "\<not> inhibited ?q" "last_activity ?q = now"
    using assms(1) by (simp_all add: uninhibited_def reset_idle_interval_def)
  have "0 < u" if "pending_lock ?q = Some u \<or> pending_dpms ?q = Some u \<or> pending_suspend ?q = Some u"
    for u
    using that assms(2)
    by (auto simp: pending_defs configuration_ok_def timeout_ok_def split: if_splits option.splits)
  then have "evaluate ?q now False outputs =
      (?q\<lparr>blanked_outputs := live_blanked ?q outputs\<rparr>, idle_policy_actions_default)"
    using q by (intro evaluate_before_pending [where e = 0]) auto
  then show ?thesis
    using q(2) by (simp add: evaluate_uninhibited_idem)
qed

text \<open>Events that neither restart the interval nor change the configuration.\<close>

fun keeps_interval :: "idle_event \<Rightarrow> bool" where
  "keeps_interval (EvEvaluate now inhibit outputs) = (\<not> inhibit)"
| "keeps_interval (EvExternal oid powered) = True"
| "keeps_interval (EvFailure oid now) = True"
| "keeps_interval ev = False"

lemma keeps_interval_step:
  assumes "keeps_interval ev" and "\<not> inhibited p"
  shows "\<not> inhibited (fst (idle_step p ev))"
    and "lock_triggered (fst (idle_step p ev)) \<longleftrightarrow>
      lock_triggered p \<or> act_lock (snd (idle_step p ev))"
    and "suspend_triggered (fst (idle_step p ev)) \<longleftrightarrow>
      suspend_triggered p \<or> act_suspend (snd (idle_step p ev))"
    and "act_lock (snd (idle_step p ev)) \<Longrightarrow> \<not> lock_triggered p"
    and "act_suspend (snd (idle_step p ev)) \<Longrightarrow> \<not> suspend_triggered p"
  using assms
  by (cases ev; auto simp: evaluate_uninhibited_eq [OF refl refl]
      note_external_power_request_def note_power_failure_def)+

lemma keeps_interval_blank:
  assumes "keeps_interval ev" and "\<not> inhibited p"
  shows "dpms_triggered p \<Longrightarrow> dpms_triggered (fst (idle_step p ev))"
    and "power_requests (snd (idle_step p ev)) \<noteq> [] \<Longrightarrow> \<not> dpms_triggered p \<and> dpms_triggered (fst (idle_step p ev))"
proof -
  have "dpms_triggered p \<longrightarrow> dpms_triggered (fst (evaluate p now False outputs))"
    "power_requests (snd (evaluate p now False outputs)) \<noteq> [] \<longrightarrow>
       \<not> dpms_triggered p \<and> dpms_triggered (fst (evaluate p now False outputs))" for now outputs
    using assms(2) by (auto simp: evaluate_uninhibited_eq [OF refl refl] blank_due_def dpms_due_def split: if_splits)
  then show "dpms_triggered p \<Longrightarrow> dpms_triggered (fst (idle_step p ev))"
    "power_requests (snd (idle_step p ev)) \<noteq> [] \<Longrightarrow> \<not> dpms_triggered p \<and> dpms_triggered (fst (idle_step p ev))"
    using assms(1) by (cases ev; simp add: note_external_power_request_def note_power_failure_def)+
qed

lemma keeps_interval_run:
  assumes "\<forall>ev\<in>set evs. keeps_interval ev" and "\<not> inhibited p"
  shows "length (filter act_lock (snd (idle_run p evs))) \<le> (if lock_triggered p then 0 else 1)"
    and "length (filter act_suspend (snd (idle_run p evs))) \<le> (if suspend_triggered p then 0 else 1)"
    and "length (filter (\<lambda>a. power_requests a \<noteq> []) (snd (idle_run p evs))) \<le> (if dpms_triggered p then 0 else 1)"
  using assms
proof (induction evs arbitrary: p)
  case (Cons ev evs)
  {
    case 1
    then show ?case
      using Cons.IH(1) [of "fst (idle_step p ev)"] keeps_interval_step [of ev p] by auto
  next
    case 2
    then show ?case
      using Cons.IH(2) [of "fst (idle_step p ev)"] keeps_interval_step [of ev p] by auto
  next
    case 3
    then show ?case
      using Cons.IH(3) [of "fst (idle_step p ev)"] keeps_interval_step(1) [of ev p] keeps_interval_blank [of ev p] by (auto split: if_splits)
  }
qed auto

text \<open>What is asked of the outputs meanwhile: each at most once, and only to switch off.\<close>

lemma blank_requests:
  "distinct (map req_output (snd (blank_outputs blanked outputs))) \<and>
     (\<forall>r\<in>set (snd (blank_outputs blanked outputs)). \<not> req_powered r \<and> req_output r \<notin> blanked)"
  by (induction blanked outputs rule: blank_outputs.induct) (auto split: prod.splits)

lemma keeps_interval_requests:
  assumes "keeps_interval ev" "\<not> inhibited p"
  shows "distinct (map req_output (power_requests (snd (idle_step p ev)))) \<and>
    (\<forall>r\<in>set (power_requests (snd (idle_step p ev))). \<not> req_powered r)"
  using assms blank_requests by (cases ev) (auto simp: evaluate_uninhibited_eq [OF refl refl] blank_due_def)

lemma keeps_interval_run_requests:
  assumes "\<forall>ev\<in>set evs. keeps_interval ev" and "\<not> inhibited p"
  shows "\<forall>a\<in>set (snd (idle_run p evs)). distinct (map req_output (power_requests a)) \<and> (\<forall>r\<in>set (power_requests a). \<not> req_powered r)"
  using assms
proof (induction evs arbitrary: p)
  case (Cons ev evs)
  then show ?case
    using Cons.IH [of "fst (idle_step p ev)"] keeps_interval_step(1) [of ev p] keeps_interval_requests [of ev p] by auto
qed simp

text \<open>Only the power button's toggle switches on outputs the policy did not blank itself.\<close>

fun is_toggle :: "idle_event \<Rightarrow> bool" where
  "is_toggle (EvToggle outputs now) = True"
| "is_toggle ev = False"

lemma set_iter_subset: "set (set_iter A) \<subseteq> A"
  by (cases "finite A") (auto simp: set_iter_def)

lemma wake_request_blanked:
  "r \<in> set (snd (wake_blanked_outputs p)) \<Longrightarrow> req_powered r \<and> req_output r \<in> blanked_outputs p"
  using set_iter_subset [of "blanked_outputs p"] by (auto simp: wake_blanked_outputs_def)

lemma blanked_wake [simp]: "blanked_outputs (fst (wake_blanked_outputs p)) = {}"
  by (simp add: wake_blanked_outputs_def)

lemma blanked_reset [simp]: "blanked_outputs (reset_idle_interval p now) = blanked_outputs p"
  by (simp add: reset_idle_interval_def)

lemma blank_outputs_unowned:
  assumes "oid \<notin> blanked"
    and "\<lparr>req_output = oid, req_powered = False\<rparr> \<notin> set (snd (blank_outputs blanked outputs))"
  shows "oid \<notin> fst (blank_outputs blanked outputs)"
  using assms by (auto simp: fst_blank_outputs blank_outputs_mem)

lemma blank_due_unowned:
  assumes "oid \<notin> blanked_outputs p"
    and "\<lparr>req_output = oid, req_powered = False\<rparr> \<notin> set (snd (blank_due p e outputs))"
  shows "oid \<notin> fst (blank_due p e outputs)"
proof -
  have "oid \<notin> live_blanked p outputs"
    using assms(1) live_blanked_subset by blast
  then show ?thesis
    using assms(2) blank_outputs_unowned by (auto simp: blank_due_def split: if_splits)
qed

lemma power_on_not_blanked:
  "\<lparr>req_output = oid, req_powered = True\<rparr> \<in> set (snd (wake_blanked_outputs p)) \<Longrightarrow>
     oid \<in> blanked_outputs p"
  "\<lparr>req_output = oid, req_powered = True\<rparr> \<notin> set (snd (blank_outputs blanked outputs))"
  "\<lparr>req_output = oid, req_powered = True\<rparr> \<notin> set (snd (blank_due p e outputs))"
  using wake_request_blanked [of "\<lparr>req_output = oid, req_powered = True\<rparr>" p]
    blank_due_requests [of "\<lparr>req_output = oid, req_powered = True\<rparr>"]
  by (auto simp: blank_outputs_mem)

lemma unowned_evaluate:
  assumes "oid \<notin> blanked_outputs p"
    and "\<lparr>req_output = oid, req_powered = False\<rparr> \<notin>
      set (power_requests (snd (evaluate p now inhibit outputs)))"
  shows "\<lparr>req_output = oid, req_powered = True\<rparr> \<notin>
      set (power_requests (snd (evaluate p now inhibit outputs))) \<and>
    oid \<notin> blanked_outputs (fst (evaluate p now inhibit outputs))"
proof (cases inhibit)
  case True
  with assms(1) show ?thesis
    using power_on_not_blanked(1) [of oid p]
    by (auto simp: evaluate_inhibited_eq [OF refl] idle_policy_actions_default_def)
next
  case False
  let ?p = "uninhibited p now" and ?e = "saturating_duration_since now
    (last_activity (uninhibited p now))"
  have "oid \<notin> blanked_outputs ?p"
    using assms(1) by (simp add: uninhibited_def)
  then show ?thesis
    using False assms(2) blank_due_unowned [of oid ?p ?e outputs] power_on_not_blanked(3)
    by (simp add: evaluate_uninhibited_eq [OF refl refl])
qed

lemma unowned_step:
  assumes "\<not> is_toggle ev" and "oid \<notin> blanked_outputs p"
    and "\<lparr>req_output = oid, req_powered = False\<rparr> \<notin> set (power_requests (snd (idle_step p ev)))"
  shows "\<lparr>req_output = oid, req_powered = True\<rparr> \<notin> set (power_requests (snd (idle_step p ev))) \<and>
    oid \<notin> blanked_outputs (fst (idle_step p ev))"
proof (cases ev)
  case (EvActivity now)
  then show ?thesis
    using assms(2) power_on_not_blanked(1) [of oid "reset_idle_interval p now"]
    by (auto simp: note_activity_def)
next
  case (EvEvaluate now inhibit outputs)
  then show ?thesis
    using assms(2,3) unowned_evaluate by simp
next
  case (EvConfigure config now)
  then show ?thesis
    using assms(2) power_on_not_blanked(1) [of oid
      "reset_idle_interval (p\<lparr>configuration := config\<rparr>) now"]
    by (auto simp: configure_def Let_def)
next
  case (EvBlank outputs)
  then show ?thesis
    using assms(2,3) power_on_not_blanked(2) blank_outputs_unowned [of oid "blanked_outputs p" outputs]
    by (simp add: blank_now_def case_prod_unfold)
next
  case (EvExternal o' powered)
  then show ?thesis
    using assms(2) by (simp add: note_external_power_request_def)
next
  case (EvFailure o' now)
  then show ?thesis
    using assms(2) by (simp add: note_power_failure_def)
qed (use assms(1) in simp)

section \<open>Properties\<close>

text \<open>
  C40: Every configuration packet the shell's encoder sends decodes in the compositor to exactly the timeouts, enabled
  actions and suspend mode that were encoded, when the suspend timeout is within the seven-day limit; a longer one,
  which the encoder does not refuse, is rejected for the first timeout beyond the limit.
\<close>

theorem idle_packet_roundtrip:
  assumes "setIdlePolicy lockEnabled lockMs dpmsEnabled dpmsMs suspendEnabled suspendMs mode =
      Some packet"
    and "suspendMs < 2 ^ 63"
  shows "decode_configuration packet =
    (if suspendMs \<le> 604800000
     then Inr
       \<lparr>lock_timeout = (if lockEnabled then Some (duration_from_millis (nat lockMs)) else None),
        dpms_timeout = (if dpmsEnabled then Some (duration_from_millis (nat dpmsMs)) else None),
        suspend_timeout =
          (if suspendEnabled then Some (duration_from_millis (nat suspendMs)) else None),
        suspend_mode = mode\<rparr>
     else Inl (if 604800000 < lockMs then TimeoutTooLarge ''lock'' (nat lockMs)
       else if 604800000 < dpmsMs then TimeoutTooLarge ''display power-off'' (nat dpmsMs)
       else TimeoutTooLarge ''suspend'' (nat suspendMs)))"
proof -
  from assms(1) have pos: "0 < nat lockMs" "0 < nat dpmsMs" "0 < nat suspendMs"
      and le: "nat lockMs \<le> nat suspendMs" "nat dpmsMs \<le> nat suspendMs"
      and packet: "packet = [2, (if lockEnabled then 1 else 0) OR (if dpmsEnabled then 2 else 0) OR
        (if suspendEnabled then 4 else 0), wireValue mode, 0, 0, 0, 0, 0] @
        to_le_bytes 8 (nat lockMs) @ to_le_bytes 8 (nat dpmsMs) @ to_le_bytes 8 (nat suspendMs)"
    by (auto simp: setIdlePolicy_def Let_def simp del: to_le_bytes.simps split: if_splits)
  have mode: "decode_suspend_mode packet = Inr mode"
    by (cases mode) (simp_all add: packet decode_suspend_mode_def del: to_le_bytes.simps)
  have times: "duration_from_millis (nat lockMs) \<le> duration_from_millis (nat suspendMs)"
      "duration_from_millis (nat dpmsMs) \<le> duration_from_millis (nat suspendMs)"
    using le by (simp_all add: duration_from_millis_def)
  have timeout: "decode_packet_timeout action (to_le_bytes 8 (nat ms)) =
      (if ms \<le> 604800000 then Inr (duration_from_millis (nat ms)) else Inl (TimeoutTooLarge action (nat ms)))"
    if "0 < nat ms" "nat ms \<le> nat suspendMs" for action ms
    using that assms(2) decode_packet_timeout_to_le_bytes [of "nat ms" action] decode_packet_timeout_too_large [of "nat ms" action]
    by auto
  show ?thesis
    using mode times timeout [OF pos(1) le(1)] timeout [OF pos(2) le(2)] timeout [OF pos(3) order_refl] le
    by (cases lockEnabled; cases dpmsEnabled; cases suspendEnabled)
      (auto simp add: packet decode_configuration_def simp del: to_le_bytes.simps)
qed

theorem idle_packet_roundtrip_witness:
  "\<exists>packet. setIdlePolicy True 60000 True 120000 False 180000 S2Idle = Some packet \<and>
     decode_configuration packet = Inr
       \<lparr>lock_timeout = Some 60000000000, dpms_timeout = Some 120000000000,
        suspend_timeout = None, suspend_mode = S2Idle\<rparr>"
proof -
  obtain packet where h: "setIdlePolicy True 60000 True 120000 False 180000 S2Idle = Some packet"
    by (simp add: setIdlePolicy_def)
  show ?thesis
    using h idle_packet_roundtrip [OF h] by (simp add: duration_from_millis_def)
qed

text \<open>
  Whatever bytes arrive, an accepted configuration has only positive timeouts of at most seven
  days, and neither the lock nor the display-off timeout exceeds an enabled suspend timeout.
\<close>

theorem decode_configuration_sound:
  assumes "decode_configuration packet = Inr c"
  shows "configuration_ok c"
  using assms by (rule decode_configuration_ok)

theorem decode_configuration_sound_witness:
  "decode_configuration [1, 0, 0, 0, 0, 0, 0, 0] = Inr
     (idle_policy_configuration_default\<lparr>dpms_timeout := Some 1000000\<rparr>) \<and>
   configuration_ok (idle_policy_configuration_default\<lparr>dpms_timeout := Some 1000000\<rparr>)"
proof -
  have h: "decode_configuration [1, 0, 0, 0, 0, 0, 0, 0] = Inr
      (idle_policy_configuration_default\<lparr>dpms_timeout := Some 1000000\<rparr>)"
    by (simp add: decode_configuration_def decode_timeout_def duration_from_millis_def
        MAX_TIMEOUT_def)
  show ?thesis
    using h decode_configuration_sound [OF h] by simp
qed


definition idle_example :: idle_policy where
  "idle_example = (idle_policy_default 100)\<lparr>configuration :=
     idle_policy_configuration_default\<lparr>lock_timeout := Some 50, dpms_timeout := Some 70\<rparr>\<rparr>"


text \<open>
  A visible idle inhibitor never locks, suspends or blanks: it only restores outputs and stops
  the timer. When it ends, the user gets a full configured interval, whatever the clock says.
\<close>

theorem inhibitor_holds_sleep:
  assumes "configuration_ok (configuration p)"
  shows "case evaluate p now True outputs of (p', a) \<Rightarrow>
    \<not> act_lock a \<and> \<not> act_suspend a \<and> (\<forall>r\<in>set (power_requests a). req_powered r) \<and>
    next_deadline p' = None \<and>
    snd (evaluate p' later False outputs') = idle_policy_actions_default \<and>
    last_activity (fst (evaluate p' later False outputs')) = later"
proof -
  define p' a where "p' = fst (evaluate p now True outputs)"
    and "a = snd (evaluate p now True outputs)"
  have p': "inhibited p'" "configuration p' = configuration p"
    by (simp_all add: p'_def evaluate_inhibited_eq [OF refl] reset_idle_interval_def)
  have a: "\<not> act_lock a" "\<not> act_suspend a" "\<forall>r\<in>set (power_requests a). req_powered r"
    using wake_request_blanked [of _ p]
    by (simp_all add: a_def evaluate_inhibited_eq [OF refl] idle_policy_actions_default_def)
  have "next_deadline p' = None"
    using p' by (simp add: next_deadline_def)
  moreover have "snd (evaluate p' later False outputs') = idle_policy_actions_default \<and>
      last_activity (fst (evaluate p' later False outputs')) = later"
    using p' assms by (intro evaluate_after_inhibition) simp_all
  ultimately show ?thesis
    using a by (simp add: p'_def a_def case_prod_unfold)
qed

theorem inhibitor_holds_sleep_witness:
  "configuration_ok (configuration idle_example) \<and>
   \<not> act_lock (snd (evaluate idle_example 1000 True [(1, True)]))"
proof -
  have h: "configuration_ok (configuration idle_example)"
    by (simp add: idle_example_def configuration_ok_def timeout_ok_def MAX_TIMEOUT_def
        idle_policy_configuration_default_def idle_policy_default_def)
  show ?thesis
    using h inhibitor_holds_sleep [OF h, of 1000 "[(1, True)]"] by (simp add: case_prod_unfold)
qed

text \<open>
  C35: Within one idle interval, however often the policy is evaluated and whatever power requests
  or failures arrive in between, the session is locked at most once, suspended at most once, and at
  most one evaluation blanks the screens: it asks each output at most once, and only to switch off.
\<close>

theorem idle_actions_fire_once:
  assumes "\<not> inhibited p" and "\<forall>ev\<in>set evs. keeps_interval ev"
  shows "length (filter act_lock (snd (idle_run p evs))) \<le> 1 \<and>
    length (filter act_suspend (snd (idle_run p evs))) \<le> 1 \<and>
    length (filter (\<lambda>a. power_requests a \<noteq> []) (snd (idle_run p evs))) \<le> 1 \<and>
    (\<forall>a\<in>set (snd (idle_run p evs)). distinct (map req_output (power_requests a)) \<and> (\<forall>r\<in>set (power_requests a). \<not> req_powered r))"
  using keeps_interval_run [OF assms(2,1)] keeps_interval_run_requests [OF assms(2,1)] by (auto split: if_splits)

theorem idle_actions_fire_once_witness:
  "\<not> inhibited idle_example \<and>
   length (filter act_lock (snd (idle_run idle_example
     [EvEvaluate 150 False [(1, True)], EvExternal 1 False, EvEvaluate 300 False [(1, True)]]))) \<le> 1"
proof -
  have h: "\<not> inhibited idle_example"
    by (simp add: idle_example_def idle_policy_default_def)
  show ?thesis
    using h idle_actions_fire_once [OF h, of "[EvEvaluate 150 False [(1, True)], EvExternal 1 False,
      EvEvaluate 300 False [(1, True)]]"] by simp
qed

text \<open>
  An output that an external client powered explicitly is not revived by the policy: after
  the request is noted, no activity, evaluation, configuration change, screen-off request or
  power failure makes the policy switch that output on unless the policy itself asked to switch
  it off in between. Only the power button's toggle may.
\<close>

theorem external_choice_respected:
  assumes "\<forall>ev\<in>set evs. \<not> is_toggle ev"
    and "\<forall>a\<in>set (snd (idle_run (note_external_power_request p oid powered) evs)).
      \<lparr>req_output = oid, req_powered = False\<rparr> \<notin> set (power_requests a)"
  shows "\<forall>a\<in>set (snd (idle_run (note_external_power_request p oid powered) evs)).
      \<lparr>req_output = oid, req_powered = True\<rparr> \<notin> set (power_requests a)"
proof -
  have run: "\<forall>a\<in>set (snd (idle_run q evs)). \<lparr>req_output = oid, req_powered = True\<rparr> \<notin>
      set (power_requests a)"
    if "oid \<notin> blanked_outputs q" and "\<forall>ev\<in>set evs. \<not> is_toggle ev" and
      "\<forall>a\<in>set (snd (idle_run q evs)). \<lparr>req_output = oid, req_powered = False\<rparr> \<notin>
        set (power_requests a)" for q evs
    using that
  proof (induction evs arbitrary: q)
    case (Cons ev evs)
    then show ?case
      using unowned_step [of ev oid q] Cons.IH [of "fst (idle_step q ev)"] by simp
  qed simp
  show ?thesis
    by (rule run [OF _ assms]) (simp add: note_external_power_request_def)
qed

theorem external_choice_respected_witness:
  "\<lparr>req_output = 1, req_powered = True\<rparr> \<notin> set (power_requests
     (snd (idle_run (note_external_power_request idle_example 1 False) [EvActivity 120]) ! 0))"
proof -
  let ?run = "snd (idle_run (note_external_power_request idle_example 1 False) [EvActivity 120])"
  have "\<forall>a\<in>set ?run. \<lparr>req_output = 1, req_powered = True\<rparr> \<notin> set (power_requests a)"
  proof (rule external_choice_respected)
    show "\<forall>ev\<in>set [EvActivity 120]. \<not> is_toggle ev"
      by simp
    show "\<forall>a\<in>set ?run. \<lparr>req_output = 1, req_powered = False\<rparr> \<notin> set (power_requests a)"
      by (simp add: note_activity_def wake_blanked_outputs_def reset_idle_interval_def
          note_external_power_request_def idle_example_def idle_policy_default_def)
  qed
  then show ?thesis
    by simp
qed

text \<open>
  Switching the screens off with the power button locks the session, asks every powered output
  the policy has not blanked yet to switch off, switches none on, and is not undone by an idle
  inhibitor at any later evaluation.
\<close>

theorem power_button_screen_off:
  assumes "(oid, True) \<in> set outputs" and "oid \<notin> blanked_outputs p"
  shows "case toggle_now p outputs now of (p', a) \<Rightarrow>
    act_lock a \<and>
    (\<forall>r. r \<in> set (power_requests a) \<longleftrightarrow>
      \<not> req_powered r \<and> (req_output r, True) \<in> set outputs \<and> req_output r \<notin> blanked_outputs p) \<and>
    power_requests (snd (evaluate p' later True outputs')) = []"
proof -
  let ?b = "blank_outputs (blanked_outputs p) outputs"
  have any: "list_ex snd outputs"
    using assms(1) by (force simp: list_ex_iff)
  have "\<lparr>req_output = oid, req_powered = False\<rparr> \<in> set (snd ?b)"
    using assms by (simp add: blank_outputs_mem)
  then have ne: "snd ?b \<noteq> []"
    by auto
  show ?thesis
    using any ne
    by (simp add: toggle_now_def Let_def blank_now_def case_prod_unfold blank_outputs_mem
        evaluate_inhibited_eq [OF refl] idle_policy_actions_default_def)
qed

theorem power_button_screen_off_witness:
  "act_lock (snd (toggle_now idle_example [(7, True)] 200)) \<and>
   power_requests (snd (evaluate (fst (toggle_now idle_example [(7, True)] 200)) 300 True [])) = []"
  using power_button_screen_off [of 7 "[(7, True)]" idle_example 300 "[]" 200]
  by (simp add: case_prod_unfold idle_example_def idle_policy_default_def)

section \<open>The idle policy as a limiter of the event loop's sleep\<close>

definition idle_due :: "idle_policy \<Rightarrow> instant \<Rightarrow> bool" where
  "idle_due p = deadline_reached (next_deadline p)"

lemma limit_dispatch_timeout_deadline: "limit_dispatch_timeout p = until_deadline (next_deadline p)"
  by (intro ext) (simp add: limit_dispatch_timeout_def until_deadline_def)

interpretation idle: dispatch_limiter idle_due limit_dispatch_timeout
  unfolding limit_dispatch_timeout_deadline [abs_def] idle_due_def [abs_def] by (rule deadline_limiter)

end
