(* ===== verification/Dpms.thy ===== *)
theory Dpms
  imports Output_Runs Idle_Policy
begin

text \<open>
  Display power (\<open>compositor/src/bin/deniald/dpms.rs\<close>): the guard that holds back the removal of outputs
  whose connector is asleep, the queue of power requests, and the batch that turns outputs off and on
  through the output scheduler. The atomic KMS calls are parameters: \<open>clear\<close> disables a CRTC, \<open>restore\<close>
  lights it again. What the frontend is told is the list of notes. An error is returned at once.
\<close>

section \<open>The topology guard\<close>

record dpms_topology_guard =
  parked_outputs :: "output_id set"
  waking_outputs :: "output_id set"
  wake_grace_until :: "instant option"
  deferred_removal :: bool

definition dpms_topology_guard_default :: dpms_topology_guard where
  "dpms_topology_guard_default =
     \<lparr>parked_outputs = {}, waking_outputs = {}, wake_grace_until = None, deferred_removal = False\<rparr>"

record deferred_dpms_topology =
  missing_outputs :: nat
  grace_until :: "instant option"
  first_observation :: bool

definition note_powered_off :: "dpms_topology_guard \<Rightarrow> output_id \<Rightarrow> dpms_topology_guard" where
  "note_powered_off g out =
     (let waking = waking_outputs g - {out}
      in g\<lparr>waking_outputs := waking, parked_outputs := insert out (parked_outputs g),
           wake_grace_until := (if waking = {} then None else wake_grace_until g)\<rparr>)"

definition note_wake :: "dpms_topology_guard \<Rightarrow> output_id \<Rightarrow> instant \<Rightarrow> dpms_topology_guard" where
  "note_wake g out now =
     g\<lparr>parked_outputs := parked_outputs g - {out}, waking_outputs := insert out (waking_outputs g),
       wake_grace_until := Some (now + int DPMS_WAKE_TOPOLOGY_GRACE)\<rparr>"

definition expire_wake_grace :: "dpms_topology_guard \<Rightarrow> instant \<Rightarrow> dpms_topology_guard" where
  "expire_wake_grace g now =
     (case wake_grace_until g of
        None \<Rightarrow> g
      | Some deadline \<Rightarrow>
          if deadline \<le> now
          then g\<lparr>waking_outputs := {}, wake_grace_until := None, deferred_removal := False\<rparr>
          else g)"

definition cancel_guard :: "dpms_topology_guard \<Rightarrow> dpms_topology_guard" where
  "cancel_guard g = dpms_topology_guard_default"

definition defer_missing_outputs ::
  "dpms_topology_guard \<Rightarrow> instant \<Rightarrow> output_id list \<Rightarrow> output_id list \<Rightarrow>
     dpms_topology_guard \<times> deferred_dpms_topology option" where
  "defer_missing_outputs g0 now current0 observed0 =
     (let g = expire_wake_grace g0 now;
          current = set current0; observed = set observed0;
          missing = filter (\<lambda>out. out \<notin> observed) (set_iter current)
      in if missing = [] then (g\<lparr>deferred_removal := False\<rparr>, None)
         else if list_ex (\<lambda>out. out \<notin> current) (set_iter observed) \<or>
            list_ex (\<lambda>out. out \<notin> parked_outputs g \<and> out \<notin> waking_outputs g) missing
         then (cancel_guard g, None)
         else
           (g\<lparr>deferred_removal := True\<rparr>,
            Some \<lparr>missing_outputs = length missing,
              grace_until = (if list_ex (\<lambda>out. out \<in> waking_outputs g) missing then wake_grace_until g else None),
              first_observation = \<not> deferred_removal g\<rparr>))"

definition service_deadline :: "dpms_topology_guard \<Rightarrow> instant \<Rightarrow> dpms_topology_guard \<times> bool" where
  "service_deadline g now =
     (if (case wake_grace_until g of None \<Rightarrow> True | Some deadline \<Rightarrow> now < deadline) then (g, False)
      else (g\<lparr>waking_outputs := {}, wake_grace_until := None, deferred_removal := False\<rparr>, deferred_removal g))"

definition guard_limit_dispatch :: "dpms_topology_guard \<Rightarrow> instant \<Rightarrow> duration \<Rightarrow> duration" where
  "guard_limit_dispatch g now timeout =
     (if \<not> deferred_removal g then timeout
      else case wake_grace_until g of
        None \<Rightarrow> timeout | Some deadline \<Rightarrow> min timeout (saturating_duration_since deadline now))"

section \<open>Power requests\<close>

datatype power_note = PowerApplied output_id bool | PowerFailed output_id

record power_events =
  pe_idle :: idle_policy
  pe_requests :: "output_id \<rightharpoonup> bool"
  pe_guard :: dpms_topology_guard
  pe_notes :: "power_note list"
  pe_topology_dirty :: bool
  pe_output_control_dirty :: bool

definition collect_output_power_requests :: "power_events \<Rightarrow> (output_id \<times> bool) list \<Rightarrow> power_events" where
  "collect_output_power_requests =
     foldl (\<lambda>ev (out, powered). ev\<lparr>pe_idle := note_external_power_request (pe_idle ev) out powered,
       pe_requests := (pe_requests ev)(out \<mapsto> powered)\<rparr>)"

definition queue_idle_power_requests :: "power_events \<Rightarrow> idle_power_request list \<Rightarrow> power_events" where
  "queue_idle_power_requests =
     foldl (\<lambda>ev req. ev\<lparr>pe_requests := (pe_requests ev)(req_output req \<mapsto> req_powered req)\<rparr>)"

text \<open>What the power button sees: a queued request is already the effective state.\<close>

definition effective_outputs :: "power_events \<Rightarrow> 'm scanout list \<Rightarrow> (output_id \<times> bool) list" where
  "effective_outputs ev scanouts =
     map (\<lambda>sc. (sc_id sc, case pe_requests ev (sc_id sc) of None \<Rightarrow> sc_powered sc | Some powered \<Rightarrow> powered)) scanouts"

text \<open>The second component is set when the session must be locked.\<close>

definition synchronize_power_button ::
  "'m scanout list \<Rightarrow> power_button \<Rightarrow> power_events \<Rightarrow> instant \<Rightarrow> power_button \<times> power_events \<times> bool" where
  "synchronize_power_button scanouts button ev now =
     (case take_toggle button of
        (button', False) \<Rightarrow> (button', ev, False)
      | (button', True) \<Rightarrow>
          (case toggle_now (pe_idle ev) (effective_outputs ev scanouts) now of (policy, actions) \<Rightarrow>
             (button', queue_idle_power_requests (ev\<lparr>pe_idle := policy\<rparr>) (power_requests actions), act_lock actions)))"

definition actual_outputs :: "'m scanout list \<Rightarrow> (output_id \<times> bool) list" where
  "actual_outputs = map (\<lambda>sc. (sc_id sc, sc_powered sc))"

definition synchronize_idle_dpms ::
  "'m scanout list \<Rightarrow> bool \<Rightarrow> power_events \<Rightarrow> instant \<Rightarrow> power_events \<times> bool \<times> bool" where
  "synchronize_idle_dpms scanouts inhibit ev now =
     (case evaluate (pe_idle ev) now inhibit (actual_outputs scanouts) of (policy, actions) \<Rightarrow>
        (queue_idle_power_requests (ev\<lparr>pe_idle := policy\<rparr>) (power_requests actions), act_lock actions, act_suspend actions))"

definition synchronize_idle_dpms_configuration ::
  "idle_policy_configuration option \<Rightarrow> power_events \<Rightarrow> instant \<Rightarrow> power_events" where
  "synchronize_idle_dpms_configuration config ev now =
     (case config of
        None \<Rightarrow> ev
      | Some c \<Rightarrow> (case configure (pe_idle ev) c now of (policy, requests) \<Rightarrow>
          queue_idle_power_requests (ev\<lparr>pe_idle := policy\<rparr>) requests))"

definition synchronize_requested_dpms_off :: "bool \<Rightarrow> 'm scanout list \<Rightarrow> power_events \<Rightarrow> power_events" where
  "synchronize_requested_dpms_off requested scanouts ev =
     (if \<not> requested then ev
      else case blank_now (pe_idle ev) (actual_outputs scanouts) of (policy, requests) \<Rightarrow>
        queue_idle_power_requests (ev\<lparr>pe_idle := policy\<rparr>) requests)"

section \<open>The batch\<close>

definition tell :: "power_events \<Rightarrow> power_note \<Rightarrow> power_events" where
  "tell ev n = ev\<lparr>pe_notes := pe_notes ev @ [n]\<rparr>"

definition fail_request :: "instant \<Rightarrow> power_events \<Rightarrow> output_id \<Rightarrow> power_events" where
  "fail_request now ev out = tell (ev\<lparr>pe_idle := note_power_failure (pe_idle ev) out now\<rparr>) (PowerFailed out)"

type_synonym targets = "(output_id \<times> nat) list"

definition classify_request ::
  "instant \<Rightarrow> 'm scanout list \<Rightarrow> ('f, 'b, 'p) output_scheduler \<times> power_events \<times> targets \<times> targets \<Rightarrow> output_id \<times> bool \<Rightarrow>
     ('f, 'b, 'p) output_scheduler \<times> power_events \<times> targets \<times> targets" where
  "classify_request now scanouts = (\<lambda>(sch, ev, off, on) (out, powered).
     case position (\<lambda>sc. sc_id sc = out) scanouts of
       None \<Rightarrow> (sch, fail_request now ev out, off, on)
     | Some i \<Rightarrow>
         if sc_powered (scanouts ! i) = powered then
           (let sch' = (if powered then cancel_power_off sch out scanouts else sch)
            in (sch', if \<not> powered \<or> \<not> power_on_pending sch' out then tell ev (PowerApplied out powered) else ev, off, on))
         else if powered then (sch, ev, off, on @ [(out, i)])
         else (sch, ev, off @ [(out, i)], on))"

fun begin_power_offs ::
  "'m scanout list \<Rightarrow> targets \<Rightarrow> ('f, 'b, 'p) output_scheduler \<Rightarrow> ('f, 'b) scheduler_env \<Rightarrow>
     string + ('f, 'b, 'p) output_scheduler \<times> ('f, 'b) scheduler_env \<times> bool" where
  "begin_power_offs scanouts [] sch env = Inr (sch, env, False)"
| "begin_power_offs scanouts ((out, i) # rest) sch env =
     and_then (begin_power_off sch env out scanouts) (\<lambda>(sch', env', waiting).
       and_then (begin_power_offs scanouts rest sch' env') (\<lambda>(sch'', env'', waiting').
         Inr (sch'', env'', waiting \<or> waiting')))"

fun off_targets ::
  "'m scanout list \<Rightarrow> ('f, 'b, 'p) output_scheduler \<Rightarrow> targets \<Rightarrow> string + (output_id \<times> nat \<times> nat) list" where
  "off_targets scanouts sch [] = Inr []"
| "off_targets scanouts sch ((out, i) # rest) =
     and_then (ok_or (scanning_framebuffer_index sch out scanouts) ''DPMS power-off output has no scheduler framebuffer'') (\<lambda>fb.
       and_then (off_targets scanouts sch rest) (\<lambda>ts. Inr ((out, i, fb) # ts)))"

text \<open>The CRTCs that were cleared, and whether one refused.\<close>

fun clear_targets ::
  "(nat \<Rightarrow> string + unit) \<Rightarrow> (output_id \<times> nat \<times> nat) list \<Rightarrow> (output_id \<times> nat \<times> nat) list \<times> (nat \<times> string) option" where
  "clear_targets clear [] = ([], None)"
| "clear_targets clear ((out, i, fb) # rest) =
     (case clear i of
        Inl e \<Rightarrow> ([], Some (i, e))
      | Inr _ \<Rightarrow> (case clear_targets clear rest of (cleared, failure) \<Rightarrow> ((out, i, fb) # cleared, failure)))"

text \<open>The outputs whose framebuffer could not be lit again.\<close>

fun rollback_cleared ::
  "output_swapchain list \<Rightarrow> (nat \<Rightarrow> u32 \<Rightarrow> string + unit) \<Rightarrow> (output_id \<times> nat \<times> nat) list \<Rightarrow> string + (nat \<times> string) list" where
  "rollback_cleared natives restore [] = Inr []"
| "rollback_cleared natives restore ((out, i, fb) # rest) =
     and_then (ok_or (for_output natives out) ''DPMS rollback output has no physical buffer pool'') (\<lambda>pool.
       and_then (ok_or (get_at (sw_buffers pool) fb) ''DPMS rollback framebuffer exceeds its output pool'') (\<lambda>framebuffer.
         and_then (rollback_cleared natives restore rest) (\<lambda>failures.
           case restore i framebuffer of Inl e \<Rightarrow> Inr ((i, e) # failures) | Inr _ \<Rightarrow> Inr failures)))"

type_synonym ('m, 'f, 'b, 'p) power_state =
  "('f, 'b, 'p) output_scheduler \<times> ('f, 'b) scheduler_env \<times> 'm scanout list \<times> power_events"

fun finish_power_offs ::
  "(output_id \<times> nat \<times> nat) list \<Rightarrow> ('m, 'f, 'b, 'p) power_state \<Rightarrow> string + ('m, 'f, 'b, 'p) power_state" where
  "finish_power_offs [] st = Inr st"
| "finish_power_offs ((out, i, fb) # rest) (sch, env, scanouts, ev) =
     and_then (power_off sch env out scanouts) (\<lambda>(sch', env').
       finish_power_offs rest
         (sch', env'\<lparr>pending := pending env' - {sc_crtc (scanouts ! i)}\<rparr>,
          scanouts[i := (scanouts ! i)\<lparr>sc_powered := False\<rparr>],
          tell (ev\<lparr>pe_guard := note_powered_off (pe_guard ev) out, pe_output_control_dirty := True\<rparr>) (PowerApplied out False)))"

fun power_ons ::
  "('m scanout \<Rightarrow> pixel_size \<Rightarrow> string + 'p) \<Rightarrow> instant \<Rightarrow> targets \<Rightarrow> ('m, 'f, 'b, 'p) power_state \<Rightarrow>
     string + ('m, 'f, 'b, 'p) power_state" where
  "power_ons plane_commit now [] st = Inr st"
| "power_ons plane_commit now ((out, i) # rest) (sch, env, scanouts, ev) =
     and_then (ok_or (stable_framebuffer_index sch out) ''DPMS wake output has no parked framebuffer'') (\<lambda>fb.
       and_then (power_on plane_commit now sch (swapchains env) i fb scanouts) (\<lambda>sch'.
         power_ons plane_commit now rest
           (sch', env, scanouts[i := (scanouts ! i)\<lparr>sc_powered := True\<rparr>],
            ev\<lparr>pe_guard := note_wake (pe_guard ev) out now, pe_topology_dirty := True, pe_output_control_dirty := True\<rparr>)))"

text \<open>The outputs to turn off, once their pipelines have stopped; the result says what has to wait.\<close>

definition apply_power_offs ::
  "instant \<Rightarrow> (nat \<Rightarrow> string + unit) \<Rightarrow> (nat \<Rightarrow> u32 \<Rightarrow> string + unit) \<Rightarrow> targets \<Rightarrow> ('m, 'f, 'b, 'p) power_state \<Rightarrow>
     string + ('m, 'f, 'b, 'p) power_state \<times> (output_id \<rightharpoonup> bool) \<times> bool" where
  "apply_power_offs now clear restore off = (\<lambda>(sch0, env0, scanouts, ev).
     and_then (begin_power_offs scanouts off sch0 env0) (\<lambda>(sch, env, waiting).
       if waiting then Inr ((sch, env, scanouts, ev), map_of (map (\<lambda>(out, i). (out, False)) off), False)
       else if off = [] then Inr ((sch, env, scanouts, ev), Map.empty, False)
       else
         and_then (off_targets scanouts sch off) (\<lambda>targets.
           case clear_targets clear targets of
             (cleared, Some failed) \<Rightarrow>
               and_then (rollback_cleared (swapchains env) restore cleared) (\<lambda>failures.
                 Inr ((foldl (\<lambda>s (out, i). cancel_power_off s out scanouts) sch off,
                       env\<lparr>recovery_requested := recovery_requested env \<or> failures \<noteq> []\<rparr>, scanouts,
                       foldl (\<lambda>e (out, i). fail_request now e out) ev off), Map.empty, False))
           | (cleared, None) \<Rightarrow>
               and_then (finish_power_offs targets (sch, env, scanouts, ev)) (\<lambda>st. Inr (st, Map.empty, True)))))"

definition apply_output_power_requests ::
  "('m scanout \<Rightarrow> pixel_size \<Rightarrow> string + 'p) \<Rightarrow> instant \<Rightarrow> (nat \<Rightarrow> string + unit) \<Rightarrow> (nat \<Rightarrow> u32 \<Rightarrow> string + unit) \<Rightarrow>
     (bool \<Rightarrow> string + unit) \<Rightarrow> ('m, 'f, 'b, 'p) power_state \<Rightarrow> string + ('m, 'f, 'b, 'p) power_state \<times> bool" where
  "apply_output_power_requests plane_commit now clear restore visible = (\<lambda>(sch0, env0, scanouts0, ev0).
     case foldl (classify_request now scanouts0) (sch0, ev0\<lparr>pe_requests := Map.empty\<rparr>, [], []) (map_iter (pe_requests ev0)) of
       (sch1, ev1, off, on) \<Rightarrow>
         and_then (apply_power_offs now clear restore off (sch1, env0, scanouts0, ev1)) (\<lambda>(st, deferred, changed).
           and_then (power_ons plane_commit now on st) (\<lambda>(sch, env, scanouts, ev).
             and_then (visible (list_ex sc_powered scanouts)) (\<lambda>_.
               Inr ((sch, env, scanouts, ev\<lparr>pe_requests := deferred\<rparr>), changed \<or> on \<noteq> [])))))"

section \<open>The guard wakes the loop in time\<close>

definition guard_due :: "dpms_topology_guard \<Rightarrow> instant \<Rightarrow> bool" where
  "guard_due g t \<longleftrightarrow> deferred_removal g \<and> deadline_reached (wake_grace_until g) t"

interpretation guard: dispatch_limiter guard_due guard_limit_dispatch
proof -
  have "guard_limit_dispatch = (\<lambda>g. until_deadline (if deferred_removal g then wake_grace_until g else None))"
    by (intro ext) (simp add: guard_limit_dispatch_def until_deadline_def)
  moreover have "guard_due = (\<lambda>g. deadline_reached (if deferred_removal g then wake_grace_until g else None))"
    by (intro ext) (simp add: guard_due_def deadline_reached_def)
  ultimately show "dispatch_limiter guard_due guard_limit_dispatch"
    using deadline_limiter [of "\<lambda>g :: dpms_topology_guard. if deferred_removal g then wake_grace_until g else None"] by simp
qed

lemma guard_due_served: "guard_due g t \<longleftrightarrow> snd (service_deadline g t)"
  by (auto simp: guard_due_def service_deadline_def deadline_reached_def split: option.splits)

text \<open>An output counts as asleep while it is parked, or waking within the grace.\<close>

definition asleep :: "dpms_topology_guard \<Rightarrow> instant \<Rightarrow> output_id \<Rightarrow> bool" where
  "asleep g now out \<longleftrightarrow> out \<in> parked_outputs g \<or> out \<in> waking_outputs g \<and> \<not> deadline_reached (wake_grace_until g) now"

text \<open>C36: The removal of outputs is held back exactly when some output is missing, no new output has appeared
  and every missing output is asleep: parked, or waking within its grace. It is remembered exactly then, and a
  removal that is remembered is taken up again at the end of the grace.\<close>

theorem removal_held_back_only_while_asleep:
  assumes "defer_missing_outputs g now current observed = (g', deferred)"
  shows "(deferred \<noteq> None \<longleftrightarrow> set current - set observed \<noteq> {} \<and> set observed \<subseteq> set current \<and>
      (\<forall>out\<in>set current - set observed. asleep g now out)) \<and>
    (deferred_removal g' \<longleftrightarrow> deferred \<noteq> None) \<and>
    (\<forall>t. deferred \<noteq> None \<and> deadline_reached (wake_grace_until g') t \<longrightarrow> snd (service_deadline g' t))"
proof -
  let ?g = "expire_wake_grace g now"
  let ?missing = "filter (\<lambda>out. out \<notin> set observed) (set_iter (set current))"
  have missing: "set ?missing = set current - set observed"
    by auto
  have asleep: "asleep g now out \<longleftrightarrow> out \<in> parked_outputs ?g \<or> out \<in> waking_outputs ?g" for out
    by (auto simp: asleep_def expire_wake_grace_def deadline_reached_def split: option.splits)
  have new: "list_ex (\<lambda>out. out \<notin> set current) (set_iter (set observed)) \<longleftrightarrow> \<not> set observed \<subseteq> set current"
    by (auto simp: list_ex_iff)
  have awake: "list_ex (\<lambda>out. out \<notin> parked_outputs ?g \<and> out \<notin> waking_outputs ?g) ?missing \<longleftrightarrow>
      \<not> (\<forall>out\<in>set current - set observed. asleep g now out)"
    using missing by (auto simp: list_ex_iff asleep)
  have empty: "?missing = [] \<longleftrightarrow> set current - set observed = {}"
    using missing by (metis set_empty)
  have held: "deferred \<noteq> None \<longleftrightarrow> set current - set observed \<noteq> {} \<and> set observed \<subseteq> set current \<and>
      (\<forall>out\<in>set current - set observed. asleep g now out)"
    and remembered: "deferred_removal g' \<longleftrightarrow> deferred \<noteq> None"
    using assms unfolding defer_missing_outputs_def Let_def new awake empty
    by (auto simp: cancel_guard_def dpms_topology_guard_default_def split: if_splits)
  have "snd (service_deadline g' t)" if "deferred \<noteq> None" "deadline_reached (wake_grace_until g') t" for t
    using that remembered by (simp flip: guard_due_served add: guard_due_def)
  then show ?thesis
    using held remembered by blast
qed

lemma removal_held_back_only_while_asleep_witness:
  "snd (service_deadline (fst (defer_missing_outputs (note_wake dpms_topology_guard_default 7 0) 10 [7, 8] [8])) 6000000000)"
proof -
  let ?g = "note_wake dpms_topology_guard_default 7 0"
  have grace: "wake_grace_until (fst (defer_missing_outputs ?g 10 [7, 8] [8])) = Some 5000000000"
    and held: "snd (defer_missing_outputs ?g 10 [7, 8] [8]) \<noteq> None"
    by (simp_all add: defer_missing_outputs_def note_wake_def dpms_topology_guard_default_def expire_wake_grace_def
        DPMS_WAKE_TOPOLOGY_GRACE_def set_iter_def Let_def sorted_list_of_set.sorted_key_list_of_set_insert_remove)
  show ?thesis
    using removal_held_back_only_while_asleep [OF surjective_pairing, of ?g 10 "[7, 8]" "[8]"] held
    by (auto simp: grace deadline_reached_def)
qed

section \<open>A batch of power requests\<close>

text \<open>An output is powered exactly when it has a pipeline, and it has one at most.\<close>

definition power_ok :: "'m scanout list \<Rightarrow> ('f, 'b, 'p) output_scheduler \<Rightarrow> bool" where
  "power_ok scanouts sch \<longleftrightarrow> distinct (map op_scanout_index (pipelines sch)) \<and>
     (\<forall>i<length scanouts. sc_powered (scanouts ! i) \<longleftrightarrow> i \<in> op_scanout_index ` set (pipelines sch))"

fun power_inv :: "'m scanout list \<Rightarrow> buffer multiset \<Rightarrow> ('m, 'f, 'b, 'p) power_state \<Rightarrow> bool" where
  "power_inv scs L (sch, env, scanouts, ev) \<longleftrightarrow> outputs_run scs sch env L \<and> distinct (map sc_id scs) \<and>
     map sc_id scanouts = map sc_id scs \<and> power_ok scanouts sch"

lemma indices_set_pipeline:
  "op_scanout_index p = op_scanout_index (pipelines sch ! i) \<Longrightarrow>
     map op_scanout_index (pipelines (set_pipeline sch i p)) = map op_scanout_index (pipelines sch)"
  by (simp add: map_list_update_same)

lemma cancel_power_off_indices [simp]:
  "map op_scanout_index (pipelines (cancel_power_off sch out scanouts)) = map op_scanout_index (pipelines sch)"
  by (auto simp: cancel_power_off_def map_list_update_same split: option.splits)

lemma discard_frame_pipelines: "discard_frame sch env out frame lost = Inr (sch', env') \<Longrightarrow> pipelines sch' = pipelines sch"
  by (auto simp: discard_frame_def result_simps split: option.splits)

lemma begin_power_off_indices:
  "begin_power_off sch env out scanouts = Inr (sch', env', w) \<Longrightarrow>
     map op_scanout_index (pipelines sch') = map op_scanout_index (pipelines sch)"
  unfolding begin_power_off_def Let_def
  by (auto simp: result_simps map_list_update_same dest!: discard_frame_pipelines split: option.splits)

lemma power_ok_cong:
  "map op_scanout_index (pipelines sch') = map op_scanout_index (pipelines sch) \<Longrightarrow> power_ok scanouts sch' = power_ok scanouts sch"
proof -
  assume same: "map op_scanout_index (pipelines sch') = map op_scanout_index (pipelines sch)"
  then have "op_scanout_index ` set (pipelines sch') = op_scanout_index ` set (pipelines sch)"
    by (metis set_map)
  then show ?thesis
    by (simp add: power_ok_def same)
qed

lemma nth_of_map_eq: "map f xs = map f ys \<Longrightarrow> i < length ys \<Longrightarrow> f (xs ! i) = f (ys ! i)"
  by (metis length_map nth_map)

lemma pipeline_of_index:
  assumes "outputs_run scs sch env L" "map sc_id scanouts = map sc_id scs" "distinct (map sc_id scs)"
    and "i < length scanouts" "sc_id (scanouts ! i) = out" "pipeline_of_output scanouts sch out = Some j"
  shows "j < length (pipelines sch)" "op_scanout_index (pipelines sch ! j) = i"
proof -
  have inv: "sched_inv (map sc_id scanouts) {#} L sch env"
    using outputs_run_inv [OF assms(1)] assms(2) by simp
  note j = pipeline_of_output_id [OF assms(6) inv]
  show "j < length (pipelines sch)"
    by (rule j)
  have "get_at (map sc_id scanouts) (op_scanout_index (pipelines sch ! j)) = Some out"
    using inv j unfolding sched_inv_def outputs_ok_def by (metis nth_mem)
  then have "op_scanout_index (pipelines sch ! j) < length scanouts"
      "map sc_id scanouts ! op_scanout_index (pipelines sch ! j) = map sc_id scanouts ! i"
    using assms(4,5) by auto
  then show "op_scanout_index (pipelines sch ! j) = i"
    using assms(2-4) by (metis length_map nth_eq_iff_index_eq)
qed

lemma no_pipeline_of_index:
  assumes "outputs_run scs sch env L" "map sc_id scanouts = map sc_id scs"
    and "i < length scanouts" "sc_id (scanouts ! i) = out" "pipeline_of_output scanouts sch out = None"
  shows "i \<notin> op_scanout_index ` set (pipelines sch)"
  using assms(3-5) by (auto simp: pipeline_of_output_def position_None scanout_output_ids get_at_def)

lemma power_off_indices:
  assumes run: "outputs_run scs sch env L" "map sc_id scanouts = map sc_id scs" "distinct (map sc_id scs)"
    and i: "i < length scanouts" "sc_id (scanouts ! i) = out"
    and off: "power_off sch env out scanouts = Inr (sch', env')" and ok: "power_ok scanouts sch"
  shows "power_ok (scanouts[i := (scanouts ! i)\<lparr>sc_powered := False\<rparr>]) sch'"
proof (cases "pipeline_of_output scanouts sch out")
  case None
  then have "sch' = sch"
    using off by (simp add: power_off_def)
  then show ?thesis
    using ok i(1) no_pipeline_of_index [OF run(1,2) i None] by (auto simp: power_ok_def nth_list_update)
next
  case (Some j)
  note j = pipeline_of_index [OF run i Some]
  have pipes: "map op_scanout_index (pipelines sch') = remove_at j (map op_scanout_index (pipelines sch))"
    using off Some unfolding power_off_def Let_def
    by (auto simp: result_simps remove_at_def take_map drop_map dest!: discard_frame_pipelines
        split: option.splits if_splits)
  have distinct: "distinct (map op_scanout_index (pipelines sch))"
    using ok by (simp add: power_ok_def)
  then have "distinct (map op_scanout_index (pipelines sch'))"
      "op_scanout_index ` set (pipelines sch') = op_scanout_index ` set (pipelines sch) - {i}"
    using remove_at_set [OF distinct, of j] j by (simp_all add: pipes flip: set_map)
  then show ?thesis
    using ok i(1) by (auto simp: power_ok_def nth_list_update)
qed

text \<open>Which outputs a phase leaves powered, and that it only adds notes.\<close>

definition power_phase :: "(nat \<Rightarrow> bool \<Rightarrow> bool) \<Rightarrow> ('m, 'f, 'b, 'p) power_state \<Rightarrow> ('m, 'f, 'b, 'p) power_state \<Rightarrow> bool" where
  "power_phase change st st' \<longleftrightarrow>
     (\<forall>j<length (fst (snd (snd st))).
        sc_powered (fst (snd (snd st')) ! j) = change j (sc_powered (fst (snd (snd st)) ! j))) \<and>
     set (pe_notes (snd (snd (snd st)))) \<subseteq> set (pe_notes (snd (snd (snd st'))))"

definition targets_ok :: "'m scanout list \<Rightarrow> targets \<Rightarrow> bool" where
  "targets_ok scs ts \<longleftrightarrow> (\<forall>(out, i)\<in>set ts. i < length scs \<and> sc_id (scs ! i) = out)"

lemma power_inv_length: "power_inv scs L (sch, env, scanouts, ev) \<Longrightarrow> length scanouts = length scs"
  by (metis length_map power_inv.simps)

lemma finish_power_offs_inv:
  "finish_power_offs ts st = Inr st' \<Longrightarrow> power_inv scs L st \<Longrightarrow> targets_ok scs (map (\<lambda>(out, i, fb). (out, i)) ts) \<Longrightarrow>
     power_inv scs L st' \<and> power_phase (\<lambda>j powered. powered \<and> j \<notin> (fst \<circ> snd) ` set ts) st st'"
proof (induction ts st rule: finish_power_offs.induct)
  case (2 out i fb rest sch env scanouts ev)
  obtain sch1 env1 where off: "power_off sch env out scanouts = Inr (sch1, env1)"
    using 2(2) by (auto simp: result_simps)
  let ?scanouts = "scanouts[i := (scanouts ! i)\<lparr>sc_powered := False\<rparr>]"
  let ?env = "env1\<lparr>pending := pending env1 - {sc_crtc (scanouts ! i)}\<rparr>"
  let ?ev = "tell (ev\<lparr>pe_guard := note_powered_off (pe_guard ev) out, pe_output_control_dirty := True\<rparr>) (PowerApplied out False)"
  have inv: "outputs_run scs sch env L" "map sc_id scanouts = map sc_id scs" "distinct (map sc_id scs)" "power_ok scanouts sch"
    using 2(3) by simp_all
  note len = power_inv_length [OF 2(3)]
  have i: "i < length scanouts" "sc_id (scanouts ! i) = out"
    using 2(4) len by (simp_all add: targets_ok_def nth_of_map_eq [OF inv(2)])
  have "outputs_run scs sch1 ?env L"
    by (rule run_kernel [OF run_off [OF inv(1,2) off]]) simp_all
  moreover have "map sc_id ?scanouts = map sc_id scs"
    using inv(2) by (simp add: map_list_update_same)
  moreover have "power_ok ?scanouts sch1"
    by (rule power_off_indices [OF inv(1-3) i off inv(4)])
  ultimately have "power_inv scs L (sch1, ?env, ?scanouts, ?ev)"
    using inv(3) by simp
  moreover have "finish_power_offs rest (sch1, ?env, ?scanouts, ?ev) = Inr st'"
    using 2(2) off by (simp add: result_simps)
  moreover have "targets_ok scs (map (\<lambda>(out, i, fb). (out, i)) rest)"
    using 2(4) by (simp add: targets_ok_def)
  ultimately have "power_inv scs L st' \<and>
      power_phase (\<lambda>j powered. powered \<and> j \<notin> (fst \<circ> snd) ` set rest) (sch1, ?env, ?scanouts, ?ev) st'"
    using 2(1) [of sch1 env1] by (simp del: power_inv.simps)
  then show ?case
    using i(1) by (auto simp: power_phase_def nth_list_update tell_def)
qed (simp add: power_phase_def)

lemma power_on_indices:
  assumes "power_on plane_commit now sch natives i fb scanouts = Inr sch'" "power_ok scanouts sch" "i < length scanouts"
  shows "power_ok (scanouts[i := (scanouts ! i)\<lparr>sc_powered := True\<rparr>]) sch'"
  using assms unfolding power_on_def
  by (auto simp: result_simps power_ok_def nth_list_update list_ex_iff split: if_splits)

lemma power_ons_inv:
  "power_ons plane_commit now ts st = Inr st' \<Longrightarrow> power_inv scs L st \<Longrightarrow> targets_ok scs ts \<Longrightarrow>
     power_inv scs L st' \<and> power_phase (\<lambda>j powered. powered \<or> j \<in> snd ` set ts) st st'"
proof (induction plane_commit now ts st rule: power_ons.induct)
  case (2 plane_commit now out i rest sch env scanouts ev)
  obtain fb sch1 where on: "power_on plane_commit now sch (swapchains env) i fb scanouts = Inr sch1"
    and step: "power_ons plane_commit now rest (sch1, env, scanouts[i := (scanouts ! i)\<lparr>sc_powered := True\<rparr>],
        ev\<lparr>pe_guard := note_wake (pe_guard ev) out now, pe_topology_dirty := True, pe_output_control_dirty := True\<rparr>) = Inr st'"
    using 2(2) by (auto simp: result_simps)
  let ?scanouts = "scanouts[i := (scanouts ! i)\<lparr>sc_powered := True\<rparr>]"
  have inv: "outputs_run scs sch env L" "map sc_id scanouts = map sc_id scs" "distinct (map sc_id scs)" "power_ok scanouts sch"
    using 2(3) by simp_all
  note len = power_inv_length [OF 2(3)]
  have i: "i < length scanouts"
    using 2(4) len by (simp add: targets_ok_def)
  have "map sc_id ?scanouts = map sc_id scs"
    using inv(2) by (simp add: map_list_update_same)
  then have "power_inv scs L (sch1, env, ?scanouts, ev')" for ev'
    using run_on [OF inv(1,2) on] inv(3) power_on_indices [OF on inv(4) i] by simp
  moreover have "targets_ok scs rest"
    using 2(4) by (simp add: targets_ok_def)
  ultimately show ?case
    using 2(1) [of sch1] step i by (auto simp: power_phase_def nth_list_update simp del: power_inv.simps)
qed (simp add: power_phase_def)

lemma begin_power_offs_inv:
  "begin_power_offs scanouts off sch env = Inr (sch', env', waiting) \<Longrightarrow> power_inv scs L (sch, env, scanouts, ev) \<Longrightarrow>
     power_inv scs L (sch', env', scanouts, ev)"
proof (induction scanouts off sch env arbitrary: sch' env' waiting rule: begin_power_offs.induct)
  case (2 scanouts out i rest sch env)
  obtain sch1 env1 w1 w2 where step: "begin_power_off sch env out scanouts = Inr (sch1, env1, w1)"
    and rest: "begin_power_offs scanouts rest sch1 env1 = Inr (sch', env', w2)"
    using 2(2) by (auto simp: result_simps)
  have "power_ok scanouts sch1"
    using 2(3) power_ok_cong [OF begin_power_off_indices [OF step], of scanouts] by simp
  then have "power_inv scs L (sch1, env1, scanouts, ev)"
    using 2(3) run_begin_off [OF _ _ step] by auto
  then show ?case
    using 2(1) [of sch1 env1] rest by blast
qed simp

lemma power_inv_cancel:
  "power_inv scs L (sch, env, scanouts, ev) \<Longrightarrow> power_inv scs L (cancel_power_off sch out scanouts, env, scanouts, ev')"
  using run_cancel_off by (auto simp: power_ok_cong [OF cancel_power_off_indices])

lemma power_inv_cancels:
  "power_inv scs L (sch, env, scanouts, ev) \<Longrightarrow>
     power_inv scs L (foldl (\<lambda>s (out, i). cancel_power_off s out scanouts) sch off, env, scanouts, ev')"
proof (induction off arbitrary: sch)
  case (Cons x off)
  from Cons.prems have "power_inv scs L (cancel_power_off sch (fst x) scanouts, env, scanouts, ev)"
    by (rule power_inv_cancel)
  from Cons.IH [OF this] show ?case
    by (simp add: case_prod_unfold)
qed simp

lemma power_inv_env:
  "power_inv scs L (sch, env, scanouts, ev) \<Longrightarrow> broker env' = broker env \<Longrightarrow> swapchains env' = swapchains env \<Longrightarrow>
     power_inv scs L (sch, env', scanouts, ev')"
  by (auto intro: run_kernel)

lemma fail_request_notes [simp]: "pe_notes (fail_request now ev out) = pe_notes ev @ [PowerFailed out]"
  by (simp add: fail_request_def tell_def)

lemma fail_requests_notes:
  "set (pe_notes (foldl (\<lambda>e (out, i). fail_request now e out) ev off)) = set (pe_notes ev) \<union> PowerFailed ` fst ` set off"
  by (induction off arbitrary: ev) auto

lemma off_targets_map: "off_targets scanouts sch off = Inr targets \<Longrightarrow> map (\<lambda>(out, i, fb). (out, i)) targets = off"
  by (induction scanouts sch off arbitrary: targets rule: off_targets.induct) (auto simp: result_simps)

lemma apply_power_offs_cases:
  assumes "apply_power_offs now clear restore off (sch, env, scanouts, ev) = Inr (st, deferred, switched)"
    and "begin_power_offs scanouts off sch env = Inr (sch1, env1, w)"
  obtains "w" "st = (sch1, env1, scanouts, ev)" "deferred = map_of (map (\<lambda>(out, i). (out, False)) off)" "\<not> switched"
    | "off = []" "st = (sch1, env1, scanouts, ev)" "\<not> switched"
    | env2 where "st = (foldl (\<lambda>s (out, i). cancel_power_off s out scanouts) sch1 off, env2, scanouts,
        foldl (\<lambda>e (out, i). fail_request now e out) ev off)" "\<not> switched" "broker env2 = broker env1" "swapchains env2 = swapchains env1"
    | targets where "off_targets scanouts sch1 off = Inr targets"
        "finish_power_offs targets (sch1, env1, scanouts, ev) = Inr st" "switched"
proof -
  note step = assms(1) [unfolded apply_power_offs_def prod.case assms(2), simplified]
  show thesis
  proof (cases "w \<or> off = []")
    case True
    then show ?thesis
      using step that(1,2) by (auto split: if_splits)
  next
    case False
    then obtain targets where targets: "off_targets scanouts sch1 off = Inr targets"
      using step by (auto simp: result_simps)
    obtain cleared failure where clear: "clear_targets clear targets = (cleared, failure)"
      by fastforce
    show ?thesis
      using step False targets clear that(3,4) by (cases failure) (auto simp: result_simps)
  qed
qed

lemma map_of_deferred: "(out, i) \<in> set off \<Longrightarrow> map_of (map (\<lambda>(out, i). (out, False)) off) out = Some False"
  by (induction off) auto

lemma apply_power_offs_inv:
  assumes "apply_power_offs now clear restore off (sch, env, scanouts, ev) = Inr (st, deferred, switched)"
    and "power_inv scs L (sch, env, scanouts, ev)" "targets_ok scs off"
  shows "power_inv scs L st \<and> power_phase (\<lambda>j powered. powered \<and> (switched \<longrightarrow> j \<notin> snd ` set off)) (sch, env, scanouts, ev) st \<and>
    (\<forall>(out, i)\<in>set off. switched \<or> deferred out = Some False \<or> PowerFailed out \<in> set (pe_notes (snd (snd (snd st)))))"
proof -
  obtain sch1 env1 w where off: "begin_power_offs scanouts off sch env = Inr (sch1, env1, w)"
    using assms(1) by (auto simp: apply_power_offs_def result_simps)
  note inv = begin_power_offs_inv [OF off assms(2)]
  consider "w" "st = (sch1, env1, scanouts, ev)" "deferred = map_of (map (\<lambda>(out, i). (out, False)) off)" "\<not> switched"
    | "off = []" "st = (sch1, env1, scanouts, ev)" "\<not> switched"
    | env2 where "st = (foldl (\<lambda>s (out, i). cancel_power_off s out scanouts) sch1 off, env2, scanouts,
        foldl (\<lambda>e (out, i). fail_request now e out) ev off)" "\<not> switched" "broker env2 = broker env1" "swapchains env2 = swapchains env1"
    | targets where "off_targets scanouts sch1 off = Inr targets"
        "finish_power_offs targets (sch1, env1, scanouts, ev) = Inr st" "switched"
    by (rule apply_power_offs_cases [OF assms(1) off]) auto
  then show ?thesis
  proof cases
    case 1
    then show ?thesis
      using inv by (auto simp: power_phase_def map_of_deferred simp del: power_inv.simps)
  next
    case 2
    then show ?thesis
      using inv by (simp add: power_phase_def del: power_inv.simps)
  next
    case 3
    have "power_inv scs L st"
      using power_inv_env [OF power_inv_cancels [OF inv] 3(3,4)] 3(1) by simp
    then show ?thesis
      using 3 by (force simp: power_phase_def fail_requests_notes simp del: power_inv.simps)
  next
    case 4
    have "snd ` set off = (fst \<circ> snd) ` set targets"
      unfolding off_targets_map [OF 4(1), symmetric] by force
    then show ?thesis
      using finish_power_offs_inv [OF 4(2) inv] assms(3) 4 by (simp add: off_targets_map power_phase_def del: power_inv.simps)
  qed
qed

text \<open>Where a request stands after the classification.\<close>

definition request_stands :: "'m scanout list \<Rightarrow> power_events \<Rightarrow> targets \<Rightarrow> targets \<Rightarrow> output_id \<Rightarrow> bool \<Rightarrow> bool" where
  "request_stands scanouts ev off on out v \<longleftrightarrow> PowerFailed out \<in> set (pe_notes ev) \<or>
     (\<exists>i<length scanouts. sc_id (scanouts ! i) = out \<and>
        (sc_powered (scanouts ! i) = v \<or> (out, i) \<in> set (if v then on else off)))"

lemma request_stands_mono:
  "request_stands scanouts ev off on out v \<Longrightarrow> set (pe_notes ev) \<subseteq> set (pe_notes ev') \<Longrightarrow> set off \<subseteq> set off' \<Longrightarrow>
     set on \<subseteq> set on' \<Longrightarrow> request_stands scanouts ev' off' on' out v"
  unfolding request_stands_def by (cases v) (auto simp: subset_iff)

definition classified :: "'m scanout list \<Rightarrow> (output_id \<times> bool) list \<Rightarrow> power_events \<Rightarrow> targets \<Rightarrow> targets \<Rightarrow> bool" where
  "classified scanouts requests ev off on \<longleftrightarrow>
     (\<forall>(out, v)\<in>set requests. request_stands scanouts ev off on out v) \<and>
     (\<forall>(out, i)\<in>set off. i < length scanouts \<and> sc_id (scanouts ! i) = out \<and> sc_powered (scanouts ! i) \<and> (out, False) \<in> set requests) \<and>
     (\<forall>(out, i)\<in>set on. i < length scanouts \<and> sc_id (scanouts ! i) = out \<and> \<not> sc_powered (scanouts ! i) \<and> (out, True) \<in> set requests)"

lemma classify_request_inv:
  assumes "classify_request now scanouts (sch, ev, off, on) req = (sch', ev', off', on')"
    and "power_inv scs L (sch, env, scanouts, ev)" "classified scanouts reqs ev off on"
  shows "power_inv scs L (sch', env, scanouts, ev')" "classified scanouts (reqs @ [req]) ev' off' on'"
proof -
  obtain out v where req: "req = (out, v)"
    by fastforce
  have "power_inv scs L (sch', env, scanouts, ev') \<and> set (pe_notes ev) \<subseteq> set (pe_notes ev') \<and> request_stands scanouts ev' off' on' out v \<and>
      (off' = off \<and> on' = on \<or> (\<exists>i<length scanouts. sc_id (scanouts ! i) = out \<and>
         (if v then \<not> sc_powered (scanouts ! i) \<and> off' = off \<and> on' = on @ [(out, i)]
          else sc_powered (scanouts ! i) \<and> off' = off @ [(out, i)] \<and> on' = on)))"
  proof (cases "position (\<lambda>sc. sc_id sc = out) scanouts")
    case None
    then show ?thesis
      using assms by (auto simp: classify_request_def req request_stands_def)
  next
    case (Some i)
    note i = position_Some [OF Some]
    have inv: "power_inv scs L (if v then cancel_power_off sch out scanouts else sch, env, scanouts, ev'')" for ev''
      using power_inv_cancel [OF assms(2), of out ev''] assms(2) by simp
    show ?thesis
    proof (cases "sc_powered (scanouts ! i) = v")
      case True
      then show ?thesis
        using assms(1) inv [of ev'] i Some
        by (auto simp: classify_request_def req request_stands_def tell_def Let_def split: if_splits simp del: power_inv.simps)
    next
      case False
      then show ?thesis
        using assms(1,2) i Some
        by (cases v) (auto simp: classify_request_def req request_stands_def simp del: power_inv.simps)
    qed
  qed
  moreover from this have "set off \<subseteq> set off'" "set on \<subseteq> set on'"
    by (auto split: if_splits)
  ultimately show "power_inv scs L (sch', env, scanouts, ev')" "classified scanouts (reqs @ [req]) ev' off' on'"
    using assms(3) by (auto simp: classified_def req intro: request_stands_mono split: if_splits)
qed

lemma classify_requests_inv:
  assumes "foldl (classify_request now scanouts) (sch, ev, [], []) reqs = (sch', ev', off, on)"
    and "power_inv scs L (sch, env, scanouts, ev)"
  shows "power_inv scs L (sch', env, scanouts, ev') \<and> classified scanouts reqs ev' off on"
  using assms(1)
proof (induction reqs arbitrary: sch' ev' off on rule: rev_induct)
  case Nil
  then show ?case
    using assms(2) by (auto simp: classified_def)
next
  case (snoc req reqs)
  obtain sch1 ev1 off1 on1 where pre: "foldl (classify_request now scanouts) (sch, ev, [], []) reqs = (sch1, ev1, off1, on1)"
    by (metis prod_cases4)
  then have "classify_request now scanouts (sch1, ev1, off1, on1) req = (sch', ev', off, on)"
    using snoc.prems by simp
  from classify_request_inv [OF this] show ?case
    using snoc.IH [OF pre] by blast
qed

text \<open>C13: A batch of power requests leaves an output powered exactly when it has one pipeline, with the ownership of
  the buffers intact, and settles every request: the output has the requested power, the request is kept for
  the next pass while a pipeline drains, or the failure is reported. No other output changes its power.\<close>

theorem power_requests_settle:
  assumes "power_inv scs L (sch, env, scanouts, ev)" "finite (dom (pe_requests ev))"
    and "apply_output_power_requests plane_commit now clear restore visible (sch, env, scanouts, ev) =
      Inr ((sch', env', scanouts', ev'), switched)"
  shows "power_inv scs L (sch', env', scanouts', ev') \<and>
    (\<forall>out v. pe_requests ev out = Some v \<longrightarrow>
       (\<exists>sc\<in>set scanouts'. sc_id sc = out \<and> sc_powered sc = v) \<or> pe_requests ev' out = Some v \<or>
       PowerFailed out \<in> set (pe_notes ev')) \<and>
    (\<forall>j<length scanouts. pe_requests ev (sc_id (scanouts ! j)) \<noteq> Some (\<not> sc_powered (scanouts ! j)) \<longrightarrow>
       sc_powered (scanouts' ! j) = sc_powered (scanouts ! j))"
proof -
  let ?reqs = "map_iter (pe_requests ev)"
  obtain sch1 ev1 off on where fold: "foldl (classify_request now scanouts) (sch, ev\<lparr>pe_requests := Map.empty\<rparr>, [], []) ?reqs = (sch1, ev1, off, on)"
    by (metis prod_cases4)
  obtain sch2 env2 scanouts2 ev2 deferred sw ev3 where
      offs: "apply_power_offs now clear restore off (sch1, env, scanouts, ev1) = Inr ((sch2, env2, scanouts2, ev2), deferred, sw)"
    and ons: "power_ons plane_commit now on (sch2, env2, scanouts2, ev2) = Inr (sch', env', scanouts', ev3)"
    and ev': "ev' = ev3\<lparr>pe_requests := deferred\<rparr>"
    using assms(3) fold by (clarsimp simp: apply_output_power_requests_def result_simps)
  have inv1: "power_inv scs L (sch1, env, scanouts, ev1)" and stands: "classified scanouts ?reqs ev1 off on"
    using classify_requests_inv [OF fold, of scs L env] assms(1) by simp_all
  have same: "map sc_id scanouts = map sc_id scs" "length scanouts = length scs"
    using assms(1) by (simp, rule power_inv_length)
  have ok: "targets_ok scs off" "targets_ok scs on"
    using stands same(2) by (auto simp: classified_def targets_ok_def nth_of_map_eq [OF same(1)])
  note phase1 = apply_power_offs_inv [OF offs inv1 ok(1)]
  then have inv2: "power_inv scs L (sch2, env2, scanouts2, ev2)"
    by simp
  note phase2 = power_ons_inv [OF ons inv2 ok(2)]
  then have inv3: "power_inv scs L (sch', env', scanouts', ev')"
    by simp
  have len: "length scanouts2 = length scanouts" "length scanouts' = length scanouts"
    using power_inv_length [OF inv2] power_inv_length [OF inv3] same(2) by simp_all
  have ids: "sc_id (scanouts' ! j) = sc_id (scanouts ! j)" if "j < length scanouts" for j
    using that inv3 same by (intro nth_of_map_eq) simp_all
  have powered: "sc_powered (scanouts' ! j) \<longleftrightarrow>
      sc_powered (scanouts ! j) \<and> (sw \<longrightarrow> j \<notin> snd ` set off) \<or> j \<in> snd ` set on" if "j < length scanouts" for j
    using phase1 phase2 that len by (simp add: power_phase_def)
  have told: "set (pe_notes ev1) \<subseteq> set (pe_notes ev2)" "set (pe_notes ev2) \<subseteq> set (pe_notes ev')"
    using phase1 phase2 by (simp_all add: power_phase_def ev')
  have off: "pe_requests ev (sc_id (scanouts ! j)) = Some False \<and> sc_powered (scanouts ! j)" if "j \<in> snd ` set off" for j
    using that stands by (auto simp: classified_def set_map_iter [OF assms(2)])
  have on: "pe_requests ev (sc_id (scanouts ! j)) = Some True \<and> \<not> sc_powered (scanouts ! j)" if "j \<in> snd ` set on" for j
    using that stands by (auto simp: classified_def set_map_iter [OF assms(2)])
  have keep: "sc_powered (scanouts' ! j) = sc_powered (scanouts ! j)"
    if "j < length scanouts" "pe_requests ev (sc_id (scanouts ! j)) \<noteq> Some (\<not> sc_powered (scanouts ! j))" for j
    using powered [OF that(1)] off [of j] on [of j] that(2) by metis
  have settled: "(\<exists>sc\<in>set scanouts'. sc_id sc = out \<and> sc_powered sc = v) \<or> pe_requests ev' out = Some v \<or>
      PowerFailed out \<in> set (pe_notes ev')" if req: "pe_requests ev out = Some v" for out v
  proof -
    have "request_stands scanouts ev1 off on out v"
      using stands req by (auto simp: classified_def set_map_iter [OF assms(2)])
    then consider "PowerFailed out \<in> set (pe_notes ev1)"
      | i where "i < length scanouts" "sc_id (scanouts ! i) = out" "sc_powered (scanouts ! i) = v"
      | i where "i < length scanouts" "sc_id (scanouts ! i) = out" "(out, i) \<in> set (if v then on else off)"
      unfolding request_stands_def by blast
    then show ?thesis
    proof cases
      case (2 i)
      then show ?thesis
        using keep [of i] ids [of i] req nth_mem [of i scanouts'] len(2) by fastforce
    next
      case (3 i)
      show ?thesis
      proof (cases "sc_powered (scanouts' ! i) = v")
        case True
        then show ?thesis
          using 3 ids [of i] nth_mem [of i scanouts'] len(2) by fastforce
      next
        case False
        have "i \<in> snd ` set (if v then on else off)"
          using 3(3) by force
        with False have "\<not> v" "\<not> sw"
          using powered [OF 3(1)] on [of i] off [of i] by (cases v; metis (full_types))+
        moreover from this have "(out, i) \<in> set off"
          using 3(3) by simp
        ultimately show ?thesis
          using phase1 told(2) by (auto simp: ev')
      qed
    qed (use told in auto)
  qed
  show ?thesis
    using inv3 keep settled by blast
qed

definition sample_power :: power_events where
  "sample_power = \<lparr>pe_idle = idle_policy_default 0, pe_requests = [7 \<mapsto> False, 9 \<mapsto> True], pe_guard = dpms_topology_guard_default,
     pe_notes = [], pe_topology_dirty = False, pe_output_control_dirty = False\<rparr>"

lemma power_requests_settle_witness:
  "\<exists>sch' env' scanouts' ev'. apply_output_power_requests (\<lambda>_ _. Inr ()) 0 (\<lambda>_. Inr ()) (\<lambda>_ _. Inr ()) (\<lambda>_. Inr ())
       (sample_outputs, sample_env, [sample_scanout], sample_power) = Inr ((sch', env', scanouts', ev'), True) \<and>
     power_inv [sample_scanout] {#} (sch', env', scanouts', ev')"
proof -
  have inv: "power_inv [sample_scanout] {#} (sample_outputs, sample_env, [sample_scanout], sample_power)"
    using sample_outputs_run by (simp add: power_ok_def sample_outputs_def sample_scanout_def)
  have reqs: "map_iter (pe_requests sample_power) = [(7, False), (9, True)]" "finite (dom (pe_requests sample_power))"
    by (simp_all add: sample_power_def map_iter_def)
  obtain sch' env' scanouts' ev' where run: "apply_output_power_requests (\<lambda>_ _. Inr ()) 0 (\<lambda>_. Inr ()) (\<lambda>_ _. Inr ()) (\<lambda>_. Inr ())
       (sample_outputs, sample_env, [sample_scanout], sample_power) = Inr ((sch', env', scanouts', ev'), True)"
    by (simp add: apply_output_power_requests_def reqs classify_request_def sample_scanout_def apply_power_offs_def
        sample_outputs_def begin_power_off_def pipeline_of_output_def scanout_output_def output_pipeline_frames_default_def
        take_ready_def scanning_framebuffer_index_def power_off_def Let_def result_simps)
  show ?thesis
    using run power_requests_settle [OF inv reqs(2) run] by blast
qed

end
