(* ===== verification/Platform_Tasks.thy ===== *)
theory Platform_Tasks
  imports Prelude "HOL-Library.Multiset" "HOL-Library.Product_Lexorder"
begin

text \<open>
  The Flutter engine's platform tasks on their way to the main thread: the quota and the batched inbox with its
  edge notification (\<open>flutter_runtime/event_pipeline.rs\<close>), the engine callback that fills it
  (\<open>renderer/handler/open_gl.rs\<close>), and the queue of timed tasks the event loop drains
  (\<open>flutter_runtime.rs\<close>, \<open>engine_session.rs\<close>, \<open>platform_dispatch.rs\<close>). Each critical section is one
  step, so the history of the two threads is an interleaving of these operations. The channel is the list of
  events that were sent and not yet processed; \<open>channel_open\<close> says that its receiving end exists. A task that the
  engine runs is a parameter, which may fail and may post further tasks.
\<close>

definition MAX_PENDING_PLATFORM_TASKS :: nat where "MAX_PENDING_PLATFORM_TASKS = 4096"
definition MAX_PLATFORM_TASKS_PER_DISPATCH :: nat where "MAX_PLATFORM_TASKS_PER_DISPATCH = 256"
definition PLATFORM_TASK_MAX_DISPATCH_TIMEOUT :: duration where "PLATFORM_TASK_MAX_DISPATCH_TIMEOUT = 100 * 1000000"

section \<open>A max-heap\<close>

text \<open>\<open>BinaryHeap\<close> of the standard library: \<open>peek\<close> is a greatest element, \<open>pop\<close> removes it.\<close>

fun heap_peek :: "('a \<Rightarrow> 'a \<Rightarrow> bool) \<Rightarrow> 'a list \<Rightarrow> 'a option" where
  "heap_peek le [] = None"
| "heap_peek le (x # xs) = (case heap_peek le xs of None \<Rightarrow> Some x | Some y \<Rightarrow> Some (if le x y then y else x))"

definition heap_push :: "'a \<Rightarrow> 'a list \<Rightarrow> 'a list" where
  "heap_push x xs = x # xs"

definition heap_pop :: "('a \<Rightarrow> 'a \<Rightarrow> bool) \<Rightarrow> 'a list \<Rightarrow> ('a \<times> 'a list) option" where
  "heap_pop le xs = map_option (\<lambda>x. (x, remove1 x xs)) (heap_peek le xs)"

section \<open>The queue of timed tasks\<close>

record scheduled_task =
  task_runner :: nat
  task_id :: u64
  target_time_nanos :: u64

record queued_platform_task =
  qt_task :: scheduled_task
  qt_order :: u64

text \<open>\<open>Ord\<close> of the queue, with both keys reversed: the earliest deadline, then the oldest arrival, is greatest.\<close>

definition queued_le :: "queued_platform_task \<Rightarrow> queued_platform_task \<Rightarrow> bool" where
  "queued_le a b \<longleftrightarrow>
     (if target_time_nanos (qt_task b) \<noteq> target_time_nanos (qt_task a)
      then target_time_nanos (qt_task b) < target_time_nanos (qt_task a)
      else qt_order b \<le> qt_order a)"

definition u64_saturating_sub :: "u64 \<Rightarrow> u64 \<Rightarrow> u64" where
  "u64_saturating_sub a b = (if b \<le> a then a - b else 0)"

definition platform_task_dispatch_timeout :: "queued_platform_task list \<Rightarrow> u64 \<Rightarrow> duration" where
  "platform_task_dispatch_timeout tasks now =
     min (case heap_peek queued_le tasks of
            None \<Rightarrow> PLATFORM_TASK_MAX_DISPATCH_TIMEOUT
          | Some queued \<Rightarrow> unat (u64_saturating_sub (target_time_nanos (qt_task queued)) now))
       PLATFORM_TASK_MAX_DISPATCH_TIMEOUT"

definition take_next_due_platform_task ::
  "queued_platform_task list \<Rightarrow> u64 \<Rightarrow> (queued_platform_task \<times> queued_platform_task list) option" where
  "take_next_due_platform_task tasks now =
     Option.bind (heap_peek queued_le tasks) (\<lambda>queued.
       if now < target_time_nanos (qt_task queued) then None else heap_pop queued_le tasks)"

section \<open>The inbox\<close>

record 'a coalesced_inbox =
  items :: "'a list"
  armed :: bool

definition inbox_new :: "'a coalesced_inbox" where
  "inbox_new = \<lparr>items = [], armed = False\<rparr>"

text \<open>\<open>push\<close> also says whether this producer has to send the edge.\<close>

definition inbox_push :: "'a coalesced_inbox \<Rightarrow> 'a \<Rightarrow> 'a coalesced_inbox \<times> bool" where
  "inbox_push b x = (b\<lparr>items := items b @ [x], armed := True\<rparr>, \<not> armed b)"

definition take_into :: "'a coalesced_inbox \<Rightarrow> 'a coalesced_inbox \<times> 'a list" where
  "take_into b = (b\<lparr>items := [], armed := False\<rparr>, items b)"

definition discard_after_failed_wakeup :: "'a coalesced_inbox \<Rightarrow> 'a coalesced_inbox" where
  "discard_after_failed_wakeup b = b\<lparr>items := [], armed := False\<rparr>"

text \<open>\<open>CoalescedWakeup\<close>: whether this caller owns the edge, and the flag.\<close>

definition wakeup_begin :: "bool \<Rightarrow> bool \<times> bool" where
  "wakeup_begin raised = (\<not> raised, True)"

definition wakeup_acknowledge :: "bool \<Rightarrow> bool" where
  "wakeup_acknowledge raised = False"

section \<open>The runtime\<close>

datatype task_event = PlatformTasksReady nat | QueueOverflow nat string

record task_runtime =
  generation :: nat
  budget :: nat
  inbox :: "scheduled_task coalesced_inbox"
  overflow_raised :: bool
  channel :: "task_event list"
  channel_open :: bool
  scheduled :: "queued_platform_task list"
  next_platform_task_order :: u64

definition task_runtime_new :: "nat \<Rightarrow> task_runtime" where
  "task_runtime_new g = \<lparr>generation = g, budget = 0, inbox = inbox_new, overflow_raised = False, channel = [],
     channel_open = True, scheduled = [], next_platform_task_order = 0\<rparr>"

text \<open>The quota; dropping a permit gives its place back.\<close>

definition try_acquire :: "nat \<Rightarrow> nat option" where
  "try_acquire used = (if used < MAX_PENDING_PLATFORM_TASKS then Some (used + 1) else None)"

definition drop_permits :: "nat \<Rightarrow> nat \<Rightarrow> nat" where
  "drop_permits used n = used - n"

definition report_queue_overflow :: "task_runtime \<Rightarrow> string \<Rightarrow> task_runtime" where
  "report_queue_overflow rt queue =
     (case wakeup_begin (overflow_raised rt) of
        (False, raised) \<Rightarrow> rt\<lparr>overflow_raised := raised\<rparr>
      | (True, raised) \<Rightarrow>
          if channel_open rt
          then rt\<lparr>overflow_raised := raised, channel := channel rt @ [QueueOverflow (generation rt) queue]\<rparr>
          else rt\<lparr>overflow_raised := wakeup_acknowledge raised\<rparr>)"

definition post_task :: "task_runtime \<Rightarrow> scheduled_task \<Rightarrow> task_runtime" where
  "post_task rt t =
     (case try_acquire (budget rt) of
        None \<Rightarrow> report_queue_overflow rt ''platform task''
      | Some used \<Rightarrow>
          (case inbox_push (inbox rt) t of
             (b, False) \<Rightarrow> rt\<lparr>budget := used, inbox := b\<rparr>
           | (b, True) \<Rightarrow>
               if channel_open rt
               then rt\<lparr>budget := used, inbox := b, channel := channel rt @ [PlatformTasksReady (generation rt)]\<rparr>
               else rt\<lparr>budget := drop_permits used (length (items b)), inbox := discard_after_failed_wakeup b\<rparr>))"

fun queue_tasks :: "scheduled_task list \<Rightarrow> u64 \<Rightarrow> queued_platform_task list \<Rightarrow> string + u64 \<times> queued_platform_task list" where
  "queue_tasks [] order tasks = Inr (order, tasks)"
| "queue_tasks (t # rest) order tasks =
     (if order = - 1 then Inl ''Flutter platform task ordering sequence exhausted''
      else queue_tasks rest (order + 1) (heap_push \<lparr>qt_task = t, qt_order = order\<rparr> tasks))"

definition receive_platform_tasks :: "task_runtime \<Rightarrow> string + task_runtime" where
  "receive_platform_tasks rt =
     (case take_into (inbox rt) of (b, batch) \<Rightarrow>
        and_then (queue_tasks batch (next_platform_task_order rt) (scheduled rt)) (\<lambda>(order, tasks).
          Inr (rt\<lparr>inbox := b, next_platform_task_order := order, scheduled := tasks\<rparr>)))"

text \<open>The two events of \<open>process_events\<close> that concern the tasks; those of another generation are ignored.\<close>

definition process_task_event :: "task_runtime \<Rightarrow> task_event \<Rightarrow> string + task_runtime" where
  "process_task_event rt ev =
     (case ev of
        PlatformTasksReady g \<Rightarrow> if g = generation rt then receive_platform_tasks rt else Inr rt
      | QueueOverflow g queue \<Rightarrow>
          if g = generation rt then Inl (''Flutter '' @ queue @ '' queue exceeded its safety limit'') else Inr rt)"

text \<open>The tasks that ran are the last component of the result.\<close>

fun run_due_loop ::
  "(scheduled_task \<Rightarrow> 'h \<Rightarrow> string + 'h \<times> scheduled_task list) \<Rightarrow> u64 \<Rightarrow> nat \<Rightarrow> task_runtime \<Rightarrow> 'h \<Rightarrow>
     string + task_runtime \<times> 'h \<times> scheduled_task list" where
  "run_due_loop run now 0 rt h = Inr (rt, h, [])"
| "run_due_loop run now (Suc n) rt h =
     (case take_next_due_platform_task (scheduled rt) now of
        None \<Rightarrow> Inr (rt, h, [])
      | Some (queued, rest) \<Rightarrow>
          and_then (run (qt_task queued) h) (\<lambda>(h', posted).
            and_then (run_due_loop run now n
                (foldl post_task (rt\<lparr>scheduled := rest, budget := drop_permits (budget rt) 1\<rparr>) posted) h')
              (\<lambda>(rt', h'', ran). Inr (rt', h'', qt_task queued # ran))))"

definition run_due_tasks ::
  "(scheduled_task \<Rightarrow> 'h \<Rightarrow> string + 'h \<times> scheduled_task list) \<Rightarrow> u64 \<Rightarrow> task_runtime \<Rightarrow> 'h \<Rightarrow>
     string + task_runtime \<times> 'h \<times> scheduled_task list" where
  "run_due_tasks run now rt h =
     (if scheduled rt = [] then Inr (rt, h, []) else run_due_loop run now MAX_PLATFORM_TASKS_PER_DISPATCH rt h)"

definition next_dispatch_timeout :: "task_runtime \<Rightarrow> u64 \<Rightarrow> duration" where
  "next_dispatch_timeout rt now =
     (if scheduled rt = [] then PLATFORM_TASK_MAX_DISPATCH_TIMEOUT else platform_task_dispatch_timeout (scheduled rt) now)"

section \<open>The order of the queue\<close>

definition queue_key :: "queued_platform_task \<Rightarrow> u64 \<times> u64" where
  "queue_key q = (target_time_nanos (qt_task q), qt_order q)"

abbreviation due_at :: "u64 \<Rightarrow> queued_platform_task \<Rightarrow> bool" where
  "due_at now q \<equiv> target_time_nanos (qt_task q) \<le> now"

lemma queued_le_key: "queued_le a b \<longleftrightarrow> queue_key b \<le> queue_key a"
  by (auto simp: queued_le_def queue_key_def less_eq_prod_def)

lemma heap_peek_None [simp]: "heap_peek le xs = None \<longleftrightarrow> xs = []"
  by (cases xs) (auto split: option.splits)

lemma heap_peek_least:
  "heap_peek queued_le xs = Some x \<Longrightarrow> x \<in> set xs \<and> (\<forall>y\<in>set xs. queue_key x \<le> queue_key y)"
proof (induction xs arbitrary: x)
  case (Cons a xs)
  show ?case
  proof (cases "heap_peek queued_le xs")
    case None
    then show ?thesis
      using Cons.prems by simp
  next
    case (Some y)
    from Cons.IH [OF this] have y: "y \<in> set xs" "\<forall>z\<in>set xs. queue_key y \<le> queue_key z"
      by simp_all
    show ?thesis
    proof (cases "queued_le a y")
      case True
      then show ?thesis
        using Cons.prems Some y True by (simp flip: queued_le_key)
    next
      case False
      then have "queue_key a \<le> queue_key y"
        by (simp add: queued_le_key)
      then have "\<forall>z\<in>set xs. queue_key a \<le> queue_key z"
        using y(2) by (blast intro: order_trans)
      then show ?thesis
        using Cons.prems Some False by simp
    qed
  qed
qed simp

lemma take_next_due_None: "take_next_due_platform_task xs now = None \<longleftrightarrow> filter (due_at now) xs = []"
proof (cases "heap_peek queued_le xs")
  case (Some x)
  have "now < target_time_nanos (qt_task y)" if "now < target_time_nanos (qt_task x)" "y \<in> set xs" for y
    using heap_peek_least [OF Some] that by (fastforce simp: queue_key_def less_eq_prod_def)
  then show ?thesis
    using heap_peek_least [OF Some] Some
    by (auto simp: take_next_due_platform_task_def heap_pop_def filter_empty_conv not_le)
qed (simp_all add: take_next_due_platform_task_def)

lemma take_next_due_Some:
  assumes "take_next_due_platform_task xs now = Some (q, rest)"
  shows "q \<in> set xs" "due_at now q" "\<forall>y\<in>set xs. queue_key q \<le> queue_key y" "rest = remove1 q xs"
  using assms heap_peek_least [of xs]
  by (auto simp: take_next_due_platform_task_def heap_pop_def bind_eq_Some_conv split: if_splits)

definition due_order :: "u64 \<Rightarrow> queued_platform_task list \<Rightarrow> queued_platform_task list" where
  "due_order now tasks = sort_key queue_key (filter (due_at now) tasks)"

lemma due_order_next:
  assumes "take_next_due_platform_task xs now = Some (q, rest)" and "inj_on queue_key (set xs)"
  shows "due_order now xs = q # due_order now rest"
proof -
  note q = take_next_due_Some [OF assms(1)]
  have "mset (filter (due_at now) xs) = mset (q # due_order now rest)"
    using q(1,2) by (simp add: due_order_def q(4) filter_remove1 flip: insert_DiffM)
  moreover have "inj_on queue_key (set (filter (due_at now) xs))"
    using assms(2) by (rule inj_on_subset) auto
  moreover have "sorted (map queue_key (q # due_order now rest))"
    using q(3) notin_set_remove1 by (fastforce simp: due_order_def q(4))
  ultimately show ?thesis
    unfolding due_order_def by (rule sort_key_inj_key_eq)
qed

lemma due_order_None: "take_next_due_platform_task xs now = None \<Longrightarrow> due_order now xs = []"
  by (simp add: take_next_due_None due_order_def)

lemma scheduled_post [simp]: "scheduled (post_task rt t) = scheduled rt"
  by (simp add: post_task_def report_queue_overflow_def split: option.splits prod.splits bool.splits)

lemma scheduled_posts [simp]: "scheduled (foldl post_task rt ts) = scheduled rt"
  by (induction ts arbitrary: rt) simp_all

lemma run_due_loop_order:
  "run_due_loop run now n rt h = Inr (rt', h', executed) \<Longrightarrow> inj_on queue_key (set (scheduled rt)) \<Longrightarrow>
     executed = map qt_task (take n (due_order now (scheduled rt))) \<and>
     mset (scheduled rt') + mset (take n (due_order now (scheduled rt))) = mset (scheduled rt)"
proof (induction run now n rt h arbitrary: rt' h' executed rule: run_due_loop.induct)
  case (2 run now n rt h)
  show ?case
  proof (cases "take_next_due_platform_task (scheduled rt) now")
    case None
    then show ?thesis
      using "2.prems" by (simp add: due_order_None)
  next
    case (Some a)
    obtain q rest where a: "a = (q, rest)"
      by fastforce
    note due = Some [unfolded a]
    obtain h1 posted executed1 where step: "run (qt_task q) h = Inr (h1, posted)"
        "run_due_loop run now n (foldl post_task (rt\<lparr>scheduled := rest, budget := drop_permits (budget rt) 1\<rparr>) posted) h1 = Inr (rt', h', executed1)"
        "executed = qt_task q # executed1"
      using "2.prems"(1) due by (auto simp: result_simps)
    note q = take_next_due_Some [OF due]
    have inj: "inj_on queue_key (set rest)"
      using "2.prems"(2) by (rule inj_on_subset) (simp add: q(4) set_remove1_subset)
    show ?thesis
      using "2.IH" [OF Some a [symmetric] step(2)] inj step(3) q(1)
      by (simp add: due_order_next [OF due "2.prems"(2)] q(4))
  qed
qed simp

section \<open>Every interleaving\<close>

text \<open>
  The producers run on the engine's threads: \<open>h\<close> of them hold a permit and have not pushed their task, \<open>s\<close> have to
  send the edge and \<open>f\<close> could not send it. The main thread processes an event or runs a task. An event of another
  generation may come at any time.
\<close>

inductive tasks_run :: "task_runtime \<Rightarrow> nat \<Rightarrow> nat \<Rightarrow> nat \<Rightarrow> bool" where
  run_new: "tasks_run (task_runtime_new g) 0 0 0"
| run_acquire: "tasks_run rt h s f \<Longrightarrow> try_acquire (budget rt) = Some used \<Longrightarrow> tasks_run (rt\<lparr>budget := used\<rparr>) (Suc h) s f"
| run_refuse: "tasks_run rt h s f \<Longrightarrow> try_acquire (budget rt) = None \<Longrightarrow> tasks_run (report_queue_overflow rt queue) h s f"
| run_push: "tasks_run rt (Suc h) s f \<Longrightarrow> inbox_push (inbox rt) t = (b, edge) \<Longrightarrow>
    tasks_run (rt\<lparr>inbox := b\<rparr>) h (if edge then Suc s else s) f"
| run_send: "tasks_run rt h (Suc s) f \<Longrightarrow> channel_open rt \<Longrightarrow>
    tasks_run (rt\<lparr>channel := channel rt @ [PlatformTasksReady (generation rt)]\<rparr>) h s f"
| run_send_fails: "tasks_run rt h (Suc s) f \<Longrightarrow> \<not> channel_open rt \<Longrightarrow> tasks_run rt h s (Suc f)"
| run_discard: "tasks_run rt h s (Suc f) \<Longrightarrow>
    tasks_run (rt\<lparr>inbox := discard_after_failed_wakeup (inbox rt),
      budget := drop_permits (budget rt) (length (items (inbox rt)))\<rparr>) h s f"
| run_foreign: "tasks_run rt h s f \<Longrightarrow> ev \<notin> range (PlatformTasksReady) \<or> ev \<noteq> PlatformTasksReady (generation rt) \<Longrightarrow>
    tasks_run (rt\<lparr>channel := channel rt @ [ev]\<rparr>) h s f"
| run_close: "tasks_run rt h s f \<Longrightarrow> tasks_run (rt\<lparr>channel_open := False\<rparr>) h s f"
| run_event: "tasks_run rt h s f \<Longrightarrow> channel rt = ev # rest \<Longrightarrow> process_task_event (rt\<lparr>channel := rest\<rparr>) ev = Inr rt' \<Longrightarrow>
    tasks_run rt' h s f"
| run_task: "tasks_run rt h s f \<Longrightarrow> take_next_due_platform_task (scheduled rt) now = Some (queued, rest) \<Longrightarrow>
    tasks_run (rt\<lparr>scheduled := rest, budget := drop_permits (budget rt) 1\<rparr>) h s f"

text \<open>The permits are exactly the tasks under way, and a waiting task has its edge on the way.\<close>

definition tasks_ok :: "task_runtime \<Rightarrow> nat \<Rightarrow> nat \<Rightarrow> nat \<Rightarrow> bool" where
  "tasks_ok rt h s f \<longleftrightarrow>
     budget rt = h + length (items (inbox rt)) + length (scheduled rt) \<and> budget rt \<le> MAX_PENDING_PLATFORM_TASKS \<and>
     (items (inbox rt) \<noteq> [] \<longrightarrow> armed (inbox rt)) \<and>
     (armed (inbox rt) \<longrightarrow> PlatformTasksReady (generation rt) \<in> set (channel rt) \<or> 0 < s \<or> 0 < f) \<and>
     distinct (map qt_order (scheduled rt)) \<and> (\<forall>q\<in>set (scheduled rt). qt_order q < next_platform_task_order rt)"

lemma next_order:
  assumes "order \<noteq> (- 1 :: u64)"
  shows "order < order + 1"
proof -
  have "unat order \<noteq> unat (- 1 :: u64)"
    using assms by (simp only: word_unat_eq_iff not_False_eq_True)
  then have "unat order + 1 < 2 ^ 64"
    using unsigned_less [of order, where ?'a = nat] by (simp add: unsigned_minus_1_eq_mask mask_eq_exp_minus_1)
  then show ?thesis
    by (simp add: word_less_nat_alt unat_word_ariths)
qed

lemma queue_tasks_ok:
  "queue_tasks ts order tasks = Inr (order', tasks') \<Longrightarrow> distinct (map qt_order tasks) \<Longrightarrow>
     \<forall>q\<in>set tasks. qt_order q < order \<Longrightarrow>
     distinct (map qt_order tasks') \<and> (\<forall>q\<in>set tasks'. qt_order q < order') \<and> length tasks' = length ts + length tasks"
proof (induction ts order tasks rule: queue_tasks.induct)
  case (2 t rest order tasks)
  have "order < order + 1"
    using "2.prems"(1) by (intro next_order) (auto split: if_splits)
  then show ?case
    using 2 by (auto simp: heap_push_def split: if_splits dest: less_trans)
qed simp

lemma receive_ok:
  assumes "receive_platform_tasks rt = Inr rt'" "distinct (map qt_order (scheduled rt))"
    "\<forall>q\<in>set (scheduled rt). qt_order q < next_platform_task_order rt"
  shows "inbox rt' = inbox_new" "budget rt' = budget rt" "generation rt' = generation rt" "channel rt' = channel rt"
    "length (scheduled rt') = length (items (inbox rt)) + length (scheduled rt)"
    "distinct (map qt_order (scheduled rt'))" "\<forall>q\<in>set (scheduled rt'). qt_order q < next_platform_task_order rt'"
  using assms queue_tasks_ok
  by (fastforce simp: receive_platform_tasks_def take_into_def inbox_new_def result_simps)+

lemma report_queue_overflow_simps [simp]:
  "budget (report_queue_overflow rt q) = budget rt" "inbox (report_queue_overflow rt q) = inbox rt"
  "generation (report_queue_overflow rt q) = generation rt" "scheduled (report_queue_overflow rt q) = scheduled rt"
  "next_platform_task_order (report_queue_overflow rt q) = next_platform_task_order rt"
  by (auto simp: report_queue_overflow_def split: prod.splits bool.splits)

lemma report_queue_overflow_channel: "set (channel rt) \<subseteq> set (channel (report_queue_overflow rt q))"
  by (auto simp: report_queue_overflow_def split: prod.splits bool.splits)

lemma tasks_run_ok: "tasks_run rt h s f \<Longrightarrow> tasks_ok rt h s f"
proof (induction rule: tasks_run.induct)
  case (run_refuse rt h s f queue)
  then show ?case
    using report_queue_overflow_channel [of rt queue] by (auto simp: tasks_ok_def)
next
  case (run_event rt h s f ev rest rt')
  show ?case
  proof (cases "ev = PlatformTasksReady (generation rt)")
    case True
    then have "receive_platform_tasks (rt\<lparr>channel := rest\<rparr>) = Inr rt'"
      using run_event.hyps(3) by (simp add: process_task_event_def)
    from receive_ok [OF this] show ?thesis
      using run_event.IH by (simp add: tasks_ok_def inbox_new_def)
  next
    case False
    then have "rt' = rt\<lparr>channel := rest\<rparr>"
      using run_event.hyps(3) by (auto simp: process_task_event_def split: task_event.splits if_splits)
    then show ?thesis
      using run_event.IH run_event.hyps(2) False by (auto simp: tasks_ok_def)
  qed
next
  case (run_task rt h s f now queued rest)
  note q = take_next_due_Some [OF run_task.hyps(2)]
  have "distinct (map qt_order rest)"
    using run_task.IH by (simp add: q(4) tasks_ok_def distinct_map distinct_remove1 inj_on_diff)
  moreover obtain n where "length (scheduled rt) = Suc n" "length rest = n"
    using length_pos_if_in_set [OF q(1)] by (cases "length (scheduled rt)") (simp_all add: q(4) length_remove1 q(1))
  ultimately show ?case
    using run_task.IH set_remove1_subset [of queued "scheduled rt"]
    by (auto simp: tasks_ok_def drop_permits_def q(4))
qed (auto simp: tasks_ok_def task_runtime_new_def inbox_new_def try_acquire_def inbox_push_def drop_permits_def
      discard_after_failed_wakeup_def split: if_splits)

text \<open>C7: In every interleaving of the engine threads, the event channel and the main thread the quota counts
  exactly the tasks under way, so it never exceeds its limit and a returned permit never underflows it, and while
  the channel is open a task waiting in the inbox has its edge in the channel or a producer about to send it.\<close>

theorem no_platform_task_without_wakeup:
  assumes "tasks_run rt holding sending failed"
  shows "budget rt = holding + length (items (inbox rt)) + length (scheduled rt) \<and>
    budget rt \<le> MAX_PENDING_PLATFORM_TASKS \<and>
    (items (inbox rt) \<noteq> [] \<and> failed = 0 \<longrightarrow> PlatformTasksReady (generation rt) \<in> set (channel rt) \<or> 0 < sending)"
  using tasks_run_ok [OF assms] by (auto simp: tasks_ok_def)

definition sample_task :: "nat \<Rightarrow> u64 \<Rightarrow> scheduled_task" where
  "sample_task n t = \<lparr>task_runner = n, task_id = 0, target_time_nanos = t\<rparr>"

lemma no_platform_task_without_wakeup_witness:
  "budget (task_runtime_new 3\<lparr>budget := 1, inbox := fst (inbox_push inbox_new (sample_task 0 5))\<rparr>) \<le> MAX_PENDING_PLATFORM_TASKS"
proof -
  let ?rt = "task_runtime_new 3\<lparr>budget := 1\<rparr>"
  have "tasks_run ?rt (Suc 0) 0 0"
    by (rule run_acquire [OF run_new]) (simp add: try_acquire_def task_runtime_new_def MAX_PENDING_PLATFORM_TASKS_def)
  from run_push [OF this surjective_pairing, of "sample_task 0 5"]
  have "tasks_run (?rt\<lparr>inbox := fst (inbox_push inbox_new (sample_task 0 5))\<rparr>) 0 (Suc 0) 0"
    by (simp add: task_runtime_new_def inbox_push_def inbox_new_def)
  then show ?thesis
    using no_platform_task_without_wakeup by blast
qed

lemma inj_on_queue_key: "distinct (map qt_order tasks) \<Longrightarrow> inj_on queue_key (set tasks)"
  by (auto simp: distinct_map inj_on_def queue_key_def)

lemma sorted_due_order: "sorted (map queue_key (due_order now tasks))"
  by (simp add: due_order_def)

text \<open>C16: A turn of the event loop runs exactly the first 256 tasks that were due when it began, the earliest
  deadline first and then the oldest arrival, keeps all others queued, and lets the loop sleep until the nearest
  deadline left, not at all when that has passed, and at most 100 ms.\<close>

theorem due_tasks_run_in_order:
  assumes "tasks_run rt holding sending failed" and "run_due_tasks run now rt h = Inr (rt', h', executed)"
  shows "executed = map qt_task (take MAX_PLATFORM_TASKS_PER_DISPATCH (due_order now (scheduled rt))) \<and>
    mset (scheduled rt') + mset (take MAX_PLATFORM_TASKS_PER_DISPATCH (due_order now (scheduled rt))) = mset (scheduled rt) \<and>
    next_dispatch_timeout rt' later = Min (insert PLATFORM_TASK_MAX_DISPATCH_TIMEOUT
      ((\<lambda>q. unat (u64_saturating_sub (target_time_nanos (qt_task q)) later)) ` set (scheduled rt')))"
proof -
  have "inj_on queue_key (set (scheduled rt))"
    using tasks_run_ok [OF assms(1)] by (simp add: tasks_ok_def inj_on_queue_key)
  then have order: "executed = map qt_task (take MAX_PLATFORM_TASKS_PER_DISPATCH (due_order now (scheduled rt))) \<and>
      mset (scheduled rt') + mset (take MAX_PLATFORM_TASKS_PER_DISPATCH (due_order now (scheduled rt))) = mset (scheduled rt)"
    using assms(2) run_due_loop_order
    by (fastforce simp: run_due_tasks_def due_order_def split: if_splits)
  have mono: "unat (u64_saturating_sub a later) \<le> unat (u64_saturating_sub b later)" if "a \<le> b" for a b
    using that by (auto simp: u64_saturating_sub_def word_le_nat_alt unat_sub not_le)
  have "next_dispatch_timeout rt' later = Min (insert PLATFORM_TASK_MAX_DISPATCH_TIMEOUT
      ((\<lambda>q. unat (u64_saturating_sub (target_time_nanos (qt_task q)) later)) ` set (scheduled rt')))"
  proof (cases "heap_peek queued_le (scheduled rt')")
    case (Some x)
    have x: "x \<in> set (scheduled rt')" "\<forall>y\<in>set (scheduled rt'). target_time_nanos (qt_task x) \<le> target_time_nanos (qt_task y)"
      using heap_peek_least [OF Some] by (auto simp: queue_key_def less_eq_prod_def)
    have "Min ((\<lambda>q. unat (u64_saturating_sub (target_time_nanos (qt_task q)) later)) ` set (scheduled rt')) =
        unat (u64_saturating_sub (target_time_nanos (qt_task x)) later)"
      using x mono by (intro Min_eqI) auto
    then show ?thesis
      using x(1) Some by (auto simp: next_dispatch_timeout_def platform_task_dispatch_timeout_def min.commute)
  qed (simp add: next_dispatch_timeout_def)
  then show ?thesis
    using order by blast
qed

definition sample_runtime :: task_runtime where
  "sample_runtime = task_runtime_new 3\<lparr>budget := 1, scheduled := [\<lparr>qt_task = sample_task 0 5, qt_order = 0\<rparr>],
     next_platform_task_order := 1\<rparr>"

lemma sample_runtime_run: "tasks_run sample_runtime 0 0 0"
proof -
  let ?b = "\<lparr>items = [sample_task 0 5], armed = True\<rparr>"
  have "tasks_run (task_runtime_new 3\<lparr>budget := 1\<rparr>) (Suc 0) 0 0"
    by (rule run_acquire [OF run_new]) (simp add: try_acquire_def task_runtime_new_def MAX_PENDING_PLATFORM_TASKS_def)
  from run_push [OF this, of "sample_task 0 5" ?b True]
  have "tasks_run (task_runtime_new 3\<lparr>budget := 1, inbox := ?b\<rparr>) 0 (Suc 0) 0"
    by (simp add: task_runtime_new_def inbox_push_def inbox_new_def)
  from run_send [OF this]
  have "tasks_run (task_runtime_new 3\<lparr>budget := 1, inbox := ?b, channel := [PlatformTasksReady 3]\<rparr>) 0 0 0"
    by (simp add: task_runtime_new_def)
  from run_event [OF this, of "PlatformTasksReady 3" "[]" sample_runtime] show ?thesis
    by (simp add: process_task_event_def receive_platform_tasks_def take_into_def inbox_new_def sample_runtime_def
        task_runtime_new_def heap_push_def)
qed

lemma run_due_loop_empty: "scheduled rt = [] \<Longrightarrow> run_due_loop run now n rt h = Inr (rt, h, [])"
  by (cases n) (simp_all add: take_next_due_platform_task_def)

lemma due_tasks_run_in_order_witness:
  "run_due_tasks (\<lambda>_ h. Inr (Suc h, [])) 10 sample_runtime 0 = Inr (sample_runtime\<lparr>budget := 0, scheduled := []\<rparr>, 1, [sample_task 0 5]) \<and>
     next_dispatch_timeout (sample_runtime\<lparr>budget := 0, scheduled := []\<rparr>) 10 = 100 * 1000000"
proof -
  have run: "run_due_tasks (\<lambda>_ h. Inr (Suc h, [])) 10 sample_runtime 0 =
      Inr (sample_runtime\<lparr>budget := 0, scheduled := []\<rparr>, 1, [sample_task 0 5])"
  proof -
    have most: "MAX_PLATFORM_TASKS_PER_DISPATCH = Suc 255"
      by (simp add: MAX_PLATFORM_TASKS_PER_DISPATCH_def)
    then show ?thesis
      unfolding run_due_tasks_def most run_due_loop.simps
      by (simp add: sample_runtime_def sample_task_def take_next_due_platform_task_def heap_pop_def
          drop_permits_def run_due_loop_empty)
  qed
  then show ?thesis
    using due_tasks_run_in_order [OF sample_runtime_run run, of 10] by (simp add: PLATFORM_TASK_MAX_DISPATCH_TIMEOUT_def)
qed

end
