(* ===== verification/Event_Loop.thy ===== *)
theory Event_Loop
  imports Frame_Scheduler Dpms Platform_Tasks
begin

text \<open>
  How long the event loop sleeps and what it finds due when it wakes
  (\<open>compositor/src/bin/deniald/flutter_event_loop.rs\<close>): the chain of the components' limits at the end of an
  iteration, and the deadlines taken at the start of the next one, the one of an output configuration that the user
  has to confirm included. Input and events that wait, the run's own
  deadline and whether the DRM device is active are fields of the state.
\<close>

section \<open>The loop\<close>

text \<open>A configuration of the outputs that is rolled back unless it is confirmed in time; what a configuration
  holds plays no part here.\<close>

record 'c active_output_confirmation =
  oc_deadline :: instant
  oc_rollback_configuration :: 'c
  oc_rollback_power :: "output_id \<rightharpoonup> bool"

record ('m, 'f, 'b, 'p, 'c) event_loop =
  el_frames :: "'m frame_scheduler"
  el_cadence :: operation_cadence
  el_idle :: idle_policy
  el_guard :: dpms_topology_guard
  el_outputs :: "('f, 'b, 'p) output_scheduler"
  el_drm_active :: bool
  el_input_pending :: bool
  el_events_pending :: bool
  el_background_event :: bool
  el_interactive_work :: bool
  el_topology_dirty :: bool
  el_deadline :: "instant option"
  el_confirmation :: "'c active_output_confirmation option"
  el_configuration :: 'c
  el_power_requests :: "output_id \<rightharpoonup> bool"
  el_geometry_reconfigure :: bool
  el_output_control_dirty :: bool

text \<open>\<open>None\<close> ends the loop at its deadline.\<close>

definition loop_timeout :: "('m, 'f, 'b, 'p, 'c) event_loop \<Rightarrow> instant \<Rightarrow> duration \<Rightarrow> duration" where
  "loop_timeout el now runtime_timeout =
     (let t1 = scheduler_limit_dispatch (el_frames el) now runtime_timeout;
          t2 = cadence_limit_dispatch (el_cadence el) now t1;
          t3 = limit_dispatch_timeout (el_idle el) now t2;
          t4 = guard_limit_dispatch (el_guard el) now t3;
          t5 = (if el_drm_active el then limit_presentation_watchdog (el_outputs el) now t4 else t4)
      in if el_input_pending el \<or> el_events_pending el then 0 else t5)"

definition loop_dispatch_timeout :: "('m, 'f, 'b, 'p, 'c) event_loop \<Rightarrow> instant \<Rightarrow> duration \<Rightarrow> duration option" where
  "loop_dispatch_timeout el now runtime_timeout =
     (case el_deadline el of
        None \<Rightarrow> Some (loop_timeout el now runtime_timeout)
      | Some deadline \<Rightarrow>
          if deadline \<le> now then None
          else Some (min (loop_timeout el now runtime_timeout) (saturating_duration_since deadline now)))"

text \<open>What an iteration finds due: the background services and the maintenance.\<close>

definition begin_iteration :: "('m, 'f, 'b, 'p, 'c) event_loop \<Rightarrow> instant \<Rightarrow> ('m, 'f, 'b, 'p, 'c) event_loop \<times> bool \<times> bool" where
  "begin_iteration el now =
     (let (guard, expired) = service_deadline (el_guard el) now;
          (service, c1) = take_service_due (el_cadence el) now;
          (maintenance, c2) = take_maintenance_due c1 now
      in (el\<lparr>el_guard := guard, el_cadence := c2, el_topology_dirty := el_topology_dirty el \<or> expired\<rparr>,
          service \<or> el_background_event el \<or> el_interactive_work el,
          maintenance \<or> (case next_deadline (el_idle el) of None \<Rightarrow> False | Some deadline \<Rightarrow> deadline \<le> now)))"

text \<open>An unconfirmed configuration is rolled back once its deadline is reached.\<close>

definition expire_output_confirmation :: "('m, 'f, 'b, 'p, 'c) event_loop \<Rightarrow> instant \<Rightarrow> ('m, 'f, 'b, 'p, 'c) event_loop" where
  "expire_output_confirmation el now =
     (case el_confirmation el of
        None \<Rightarrow> el
      | Some confirmation \<Rightarrow>
          if now < oc_deadline confirmation then el
          else el\<lparr>el_confirmation := None, el_configuration := oc_rollback_configuration confirmation,
             el_power_requests := el_power_requests el ++ oc_rollback_power confirmation,
             el_geometry_reconfigure := True, el_output_control_dirty := True\<rparr>)"

section \<open>The watchdog of the page flips\<close>

definition watchdog_due :: "('f, 'b, 'p) output_scheduler \<Rightarrow> instant \<Rightarrow> bool" where
  "watchdog_due sch t \<longleftrightarrow> presentation_stall_of sch t \<noteq> None"

definition submitted_frames :: "('f, 'b, 'p) output_scheduler \<Rightarrow> 'b output_frame list" where
  "submitted_frames sch = List.map_filter (\<lambda>p. submitted_frame (frames p)) (pipelines sch)"

lemma find_map_None: "find_map f xs = None \<longleftrightarrow> (\<forall>x\<in>set xs. f x = None)"
  by (induction xs) (auto split: option.splits)

lemma watchdog_due_iff:
  "watchdog_due sch t \<longleftrightarrow> (\<exists>frame\<in>set (submitted_frames sch). of_submitted_at frame + int PRESENTATION_STALL_TIMEOUT \<le> t)"
proof -
  have "0 < PRESENTATION_STALL_TIMEOUT"
    by (simp add: PRESENTATION_STALL_TIMEOUT_def)
  then have age: "presentation_stall_age s t \<noteq> None \<longleftrightarrow> s + int PRESENTATION_STALL_TIMEOUT \<le> t" for s
    by (simp add: presentation_stall_age_def Let_def saturating_duration_since_ge)
  have "watchdog_due sch t \<longleftrightarrow> (\<exists>p\<in>set (pipelines sch). pipeline_stall t p \<noteq> None)"
    by (auto simp: watchdog_due_def presentation_stall_of_def find_map_None)
  also have "\<dots> \<longleftrightarrow> (\<exists>p\<in>set (pipelines sch). \<exists>frame. submitted_frame (frames p) = Some frame \<and>
      of_submitted_at frame + int PRESENTATION_STALL_TIMEOUT \<le> t)"
    by (intro bex_cong refl) (simp add: pipeline_stall_def age del: not_None_eq split: bind_split)
  also have "\<dots> \<longleftrightarrow> (\<exists>frame\<in>set (submitted_frames sch). of_submitted_at frame + int PRESENTATION_STALL_TIMEOUT \<le> t)"
    unfolding submitted_frames_def by (fastforce simp: set_map_filter)
  finally show ?thesis .
qed

lemma watchdog_limit:
  "limit_presentation_watchdog sch now timeout =
     foldl (\<lambda>acc frame. min acc (presentation_watchdog_remaining (of_submitted_at frame) now)) timeout (submitted_frames sch)"
  by (simp add: limit_presentation_watchdog_def submitted_frames_def foldl_map)

lemma watchdog_le: "limit_presentation_watchdog sch now timeout \<le> timeout"
  unfolding watchdog_limit by (rule foldl_min_bounds)

lemma watchdog_not_late:
  assumes "now \<le> t" "t < now + int (limit_presentation_watchdog sch now timeout)"
  shows "\<not> watchdog_due sch t"
proof -
  have "t < of_submitted_at frame + int PRESENTATION_STALL_TIMEOUT" if "frame \<in> set (submitted_frames sch)" for frame
  proof -
    have "limit_presentation_watchdog sch now timeout \<le> presentation_watchdog_remaining (of_submitted_at frame) now"
      unfolding watchdog_limit by (rule foldl_min_bounds(2) [OF that])
    then show ?thesis
      using assms by (auto simp: presentation_watchdog_remaining_def saturating_duration_since_def)
  qed
  then show ?thesis
    by (auto simp: watchdog_due_iff not_le)
qed

text \<open>A frame is submitted before the loop sleeps.\<close>

lemma watchdog_wakes:
  assumes "limit_presentation_watchdog sch now timeout < timeout" "\<forall>frame\<in>set (submitted_frames sch). of_submitted_at frame \<le> now"
  shows "watchdog_due sch (now + int (limit_presentation_watchdog sch now timeout))"
proof -
  obtain frame where "frame \<in> set (submitted_frames sch)"
      "limit_presentation_watchdog sch now timeout = presentation_watchdog_remaining (of_submitted_at frame) now"
    using assms(1) foldl_min_bounds(3) [of "\<lambda>frame. presentation_watchdog_remaining (of_submitted_at frame) now" timeout "submitted_frames sch"]
    unfolding watchdog_limit by fastforce
  then show ?thesis
    using assms(2) unfolding watchdog_due_iff
    by (intro bexI [of _ frame]) (auto simp: presentation_watchdog_remaining_def saturating_duration_since_def)
qed

section \<open>The chain of the limits\<close>

interpretation frames_cadence: limiter_pair timelines_due timelines_limit_dispatch cadence_due cadence_limit_dispatch ..

interpretation with_idle: limiter_pair
  "\<lambda>(a, b) t. timelines_due a t \<or> cadence_due b t"
  "\<lambda>(a, b) now timeout. cadence_limit_dispatch b now (timelines_limit_dispatch a now timeout)"
  idle_due limit_dispatch_timeout ..

interpretation with_guard: limiter_pair
  "\<lambda>(s, p) t. (case s of (a, b) \<Rightarrow> \<lambda>t. timelines_due a t \<or> cadence_due b t) t \<or> idle_due p t"
  "\<lambda>(s, p) now timeout. limit_dispatch_timeout p now
     ((case s of (a, b) \<Rightarrow> \<lambda>now timeout. cadence_limit_dispatch b now (timelines_limit_dispatch a now timeout)) now timeout)"
  guard_due guard_limit_dispatch ..

text \<open>Some component has work at time \<open>t\<close>.\<close>

definition work_due :: "('m, 'f, 'b, 'p, 'c) event_loop \<Rightarrow> instant \<Rightarrow> bool" where
  "work_due el t \<longleftrightarrow> timelines_due (fs_outputs (el_frames el)) t \<or> cadence_due (el_cadence el) t \<or> idle_due (el_idle el) t \<or>
     guard_due (el_guard el) t \<or> el_drm_active el \<and> watchdog_due (el_outputs el) t"

definition components_timeout :: "('m, 'f, 'b, 'p, 'c) event_loop \<Rightarrow> instant \<Rightarrow> duration \<Rightarrow> duration" where
  "components_timeout el now timeout =
     guard_limit_dispatch (el_guard el) now (limit_dispatch_timeout (el_idle el) now
       (cadence_limit_dispatch (el_cadence el) now (timelines_limit_dispatch (fs_outputs (el_frames el)) now timeout)))"

abbreviation components_of :: "('m, 'f, 'b, 'p, 'c) event_loop \<Rightarrow> ((output_timelines \<times> operation_cadence) \<times> idle_policy) \<times> dpms_topology_guard" where
  "components_of el \<equiv> (((fs_outputs (el_frames el), el_cadence el), el_idle el), el_guard el)"

lemma loop_timeout_components:
  "loop_timeout el now timeout =
     (if el_input_pending el \<or> el_events_pending el then 0
      else if el_drm_active el then limit_presentation_watchdog (el_outputs el) now (components_timeout el now timeout)
      else components_timeout el now timeout)"
  by (simp add: loop_timeout_def components_timeout_def scheduler_limit_dispatch_def Let_def)

lemma components_timeout_limit:
  shows "components_timeout el now timeout \<le> timeout"
    and "now \<le> t \<Longrightarrow> t < now + int (components_timeout el now timeout) \<Longrightarrow>
      \<not> (timelines_due (fs_outputs (el_frames el)) t \<or> cadence_due (el_cadence el) t \<or> idle_due (el_idle el) t \<or> guard_due (el_guard el) t)"
    and "components_timeout el now timeout < timeout \<Longrightarrow>
      timelines_due (fs_outputs (el_frames el)) (now + int (components_timeout el now timeout)) \<or>
      cadence_due (el_cadence el) (now + int (components_timeout el now timeout)) \<or>
      idle_due (el_idle el) (now + int (components_timeout el now timeout)) \<or>
      guard_due (el_guard el) (now + int (components_timeout el now timeout))"
  using with_guard.chain.limit_le [of "components_of el" now timeout]
    with_guard.chain.not_late [of now t "components_of el" timeout]
    with_guard.chain.wakes [of "components_of el" now timeout]
  by (simp_all add: components_timeout_def)

lemma loop_timeout_limit:
  shows "loop_timeout el now timeout \<le> timeout"
    and "now \<le> t \<Longrightarrow> t < now + int (loop_timeout el now timeout) \<Longrightarrow> \<not> work_due el t"
    and "loop_timeout el now timeout < timeout \<Longrightarrow> \<forall>frame\<in>set (submitted_frames (el_outputs el)). of_submitted_at frame \<le> now \<Longrightarrow>
      work_due el (now + int (loop_timeout el now timeout)) \<or> el_input_pending el \<or> el_events_pending el"
proof -
  let ?c = "components_timeout el now timeout"
  have le: "loop_timeout el now timeout \<le> ?c"
    by (simp add: loop_timeout_components watchdog_le)
  then show "loop_timeout el now timeout \<le> timeout"
    using components_timeout_limit(1) le_trans by blast
  show "\<not> work_due el t" if "now \<le> t" "t < now + int (loop_timeout el now timeout)"
  proof -
    have "t < now + int ?c"
      using that(2) le by simp
    moreover have "\<not> (el_drm_active el \<and> watchdog_due (el_outputs el) t)"
      using that watchdog_not_late [of now t "el_outputs el" ?c] by (auto simp: loop_timeout_components split: if_splits)
    ultimately show ?thesis
      using components_timeout_limit(2) [OF that(1)] by (auto simp: work_due_def)
  qed
  show "work_due el (now + int (loop_timeout el now timeout)) \<or> el_input_pending el \<or> el_events_pending el"
    if early: "loop_timeout el now timeout < timeout" "\<forall>frame\<in>set (submitted_frames (el_outputs el)). of_submitted_at frame \<le> now"
  proof (cases "el_input_pending el \<or> el_events_pending el \<or> loop_timeout el now timeout = ?c")
    case True
    then show ?thesis
      using early(1) components_timeout_limit(3) [of el now timeout] by (auto simp: work_due_def)
  next
    case False
    then have "el_drm_active el" "loop_timeout el now timeout = limit_presentation_watchdog (el_outputs el) now ?c"
        "limit_presentation_watchdog (el_outputs el) now ?c < ?c"
      using le by (auto simp: loop_timeout_components split: if_splits)
    then show ?thesis
      using watchdog_wakes early(2) by (auto simp: work_due_def)
  qed
qed

lemma loop_timeout_service: "int (loop_timeout el now timeout) \<le> max 0 (next_service (el_cadence el) - now)"
proof -
  have "loop_timeout el now timeout \<le> components_timeout el now timeout"
    by (simp add: loop_timeout_components watchdog_le)
  also have "\<dots> \<le> cadence_limit_dispatch (el_cadence el) now (timelines_limit_dispatch (fs_outputs (el_frames el)) now timeout)"
    using guard.limit_le idle.limit_le unfolding components_timeout_def by (rule order_trans)
  also have "\<dots> \<le> saturating_duration_since (next_service (el_cadence el)) now"
    by (simp add: cadence_limit_dispatch_def)
  finally show ?thesis
    by (simp add: saturating_duration_since_def split: if_splits)
qed

lemma begin_iteration_takes:
  "case begin_iteration el t of (el', services, maintenance) \<Rightarrow>
     (services \<longleftrightarrow> next_service (el_cadence el) \<le> t \<or> el_background_event el \<or> el_interactive_work el) \<and>
     (maintenance \<longleftrightarrow> next_maintenance (el_cadence el) \<le> t \<or> idle_due (el_idle el) t) \<and>
     (el_topology_dirty el' \<longleftrightarrow> el_topology_dirty el \<or> guard_due (el_guard el) t) \<and>
     \<not> cadence_due (el_cadence el') t \<and> \<not> guard_due (el_guard el') t \<and>
     next_service (el_cadence el') \<le> max (next_service (el_cadence el)) (t + int BACKGROUND_SERVICE_INTERVAL) \<and>
     next_maintenance (el_cadence el') \<le> max (next_maintenance (el_cadence el)) (t + int BACKGROUND_MAINTENANCE_INTERVAL)"
proof -
  obtain guard expired where g: "service_deadline (el_guard el) t = (guard, expired)" by fastforce
  have guard: "expired \<longleftrightarrow> guard_due (el_guard el) t" "\<not> guard_due guard t"
    using g guard_due_served [of "el_guard el" t]
    by (auto simp: guard_due_def service_deadline_def deadline_reached_def split: option.splits if_splits)
  have idle: "(case next_deadline (el_idle el) of None \<Rightarrow> False | Some deadline \<Rightarrow> deadline \<le> t) \<longleftrightarrow> idle_due (el_idle el) t"
    by (simp add: idle_due_def deadline_reached_def)
  obtain service c1 where s: "take_service_due (el_cadence el) t = (service, c1)" by fastforce
  obtain main c2 where m: "take_maintenance_due c1 t = (main, c2)" by fastforce
  have cadence: "service \<longleftrightarrow> next_service (el_cadence el) \<le> t" "main \<longleftrightarrow> next_maintenance (el_cadence el) \<le> t"
      "\<not> cadence_due c2 t" "next_service c2 \<le> max (next_service (el_cadence el)) (t + int BACKGROUND_SERVICE_INTERVAL)"
      "next_maintenance c2 \<le> max (next_maintenance (el_cadence el)) (t + int BACKGROUND_MAINTENANCE_INTERVAL)"
    using s m by (auto simp: cadence_due_def take_service_due_def take_maintenance_due_def take_periodic_deadline_def
        BACKGROUND_SERVICE_INTERVAL_def BACKGROUND_MAINTENANCE_INTERVAL_def split: if_splits)
  show ?thesis
    using guard cadence by (simp add: begin_iteration_def g s m idle)
qed

lemma confirmation_rolled_back:
  "(case el_confirmation el of
      None \<Rightarrow> expire_output_confirmation el t = el
    | Some confirmation \<Rightarrow>
        if t < oc_deadline confirmation then expire_output_confirmation el t = el
        else el_confirmation (expire_output_confirmation el t) = None \<and>
          el_configuration (expire_output_confirmation el t) = oc_rollback_configuration confirmation \<and>
          (\<forall>out. el_power_requests (expire_output_confirmation el t) out =
             (case oc_rollback_power confirmation out of None \<Rightarrow> el_power_requests el out | Some powered \<Rightarrow> Some powered)) \<and>
          el_geometry_reconfigure (expire_output_confirmation el t) \<and> el_output_control_dirty (expire_output_confirmation el t))"
  by (simp add: expire_output_confirmation_def map_add_def split: option.splits)

text \<open>C8: The loop never sleeps past the moment at which a display tick, a periodic service, an idle action, the end of a
  wake grace, a stalled page flip or its own deadline is due, and wakes before the time it was given only for one of
  these or for input and events that wait. At the start of an iteration the services run exactly when their
  deadline is reached or an event or interactive work waits for them, the maintenance exactly when its deadline or
  the one of the idle policy is reached, and the topology is marked exactly when a held back removal's grace has
  ended; neither the cadence nor the grace is then due again at that moment. The deadline of a configuration that
  has to be confirmed does not bound the sleep: it is rolled back by the first iteration at or after the deadline,
  and the sleep never passes the next service, which is set one service interval ahead.\<close>

theorem loop_wakes_exactly_when_due:
  assumes "loop_dispatch_timeout el now runtime_timeout = Some d"
    and "\<forall>frame\<in>set (submitted_frames (el_outputs el)). of_submitted_at frame \<le> now"
  shows "d \<le> runtime_timeout \<and>
    (\<forall>t. now \<le> t \<and> t < now + int d \<longrightarrow> \<not> work_due el t \<and> \<not> deadline_reached (el_deadline el) t) \<and>
    (d < runtime_timeout \<longrightarrow> work_due el (now + int d) \<or> deadline_reached (el_deadline el) (now + int d) \<or>
       el_input_pending el \<or> el_events_pending el) \<and>
    int d \<le> max 0 (next_service (el_cadence el) - now) \<and>
    (\<forall>t. case begin_iteration el t of (el', services, maintenance) \<Rightarrow>
       (services \<longleftrightarrow> next_service (el_cadence el) \<le> t \<or> el_background_event el \<or> el_interactive_work el) \<and>
       (maintenance \<longleftrightarrow> next_maintenance (el_cadence el) \<le> t \<or> idle_due (el_idle el) t) \<and>
       (el_topology_dirty el' \<longleftrightarrow> el_topology_dirty el \<or> guard_due (el_guard el) t) \<and>
       \<not> cadence_due (el_cadence el') t \<and> \<not> guard_due (el_guard el') t \<and>
       next_service (el_cadence el') \<le> max (next_service (el_cadence el)) (t + int BACKGROUND_SERVICE_INTERVAL) \<and>
       next_maintenance (el_cadence el') \<le> max (next_maintenance (el_cadence el)) (t + int BACKGROUND_MAINTENANCE_INTERVAL)) \<and>
    (\<forall>t. case el_confirmation el of
        None \<Rightarrow> expire_output_confirmation el t = el
      | Some confirmation \<Rightarrow>
          if t < oc_deadline confirmation then expire_output_confirmation el t = el
          else el_confirmation (expire_output_confirmation el t) = None \<and>
            el_configuration (expire_output_confirmation el t) = oc_rollback_configuration confirmation \<and>
            (\<forall>out. el_power_requests (expire_output_confirmation el t) out =
               (case oc_rollback_power confirmation out of None \<Rightarrow> el_power_requests el out | Some powered \<Rightarrow> Some powered)) \<and>
            el_geometry_reconfigure (expire_output_confirmation el t) \<and> el_output_control_dirty (expire_output_confirmation el t))"
proof -
  let ?l = "loop_timeout el now runtime_timeout"
  have d: "d = ?l \<and> el_deadline el = None \<or>
      (\<exists>deadline. el_deadline el = Some deadline \<and> now < deadline \<and> d = min ?l (saturating_duration_since deadline now))"
    using assms(1) by (auto simp: loop_dispatch_timeout_def not_le split: option.splits if_splits)
  have early: "\<not> work_due el t \<and> \<not> deadline_reached (el_deadline el) t" if "now \<le> t \<and> t < now + int d" for t
  proof -
    have "t < now + int ?l"
      using d that by auto
    then show ?thesis
      using d that loop_timeout_limit(2) [of now t el runtime_timeout] by (auto simp: deadline_reached_def saturating_duration_since_def)
  qed
  have late: "work_due el (now + int d) \<or> deadline_reached (el_deadline el) (now + int d) \<or> el_input_pending el \<or> el_events_pending el"
    if "d < runtime_timeout"
    using d that loop_timeout_limit(3) [OF _ assms(2), of runtime_timeout]
    by (auto simp: deadline_reached_def saturating_duration_since_def min_def split: if_splits)
  have "d \<le> ?l"
    using d by auto
  then have "d \<le> runtime_timeout" "int d \<le> max 0 (next_service (el_cadence el) - now)"
    using loop_timeout_limit(1) [of el now runtime_timeout] loop_timeout_service [of el now runtime_timeout] by linarith+
  then show ?thesis
    using early late by (intro conjI allI impI begin_iteration_takes confirmation_rolled_back) blast+
qed

definition sample_loop :: "(int, nat, nat, unit, unit) event_loop" where
  "sample_loop = \<lparr>el_frames = sample_scheduler, el_cadence = \<lparr>next_service = 700, next_maintenance = 900\<rparr>,
     el_idle = idle_policy_default 0, el_guard = dpms_topology_guard_default, el_outputs = sample_outputs, el_drm_active = True,
     el_input_pending = False, el_events_pending = False, el_background_event = False, el_interactive_work = False,
     el_topology_dirty = False, el_deadline = Some 5000,
     el_confirmation = None, el_configuration = (), el_power_requests = Map.empty, el_geometry_reconfigure = False,
     el_output_control_dirty = False\<rparr>"

lemma sample_loop_frames: "el_frames sample_loop = sample_scheduler" "el_outputs sample_loop = sample_outputs"
  by (simp_all add: sample_loop_def)

lemma loop_wakes_exactly_when_due_witness:
  "\<exists>d\<le>100. loop_dispatch_timeout sample_loop 10 100 = Some d \<and> \<not> cadence_due (el_cadence sample_loop) (10 + int d - 1)"
proof -
  have frames: "submitted_frames (el_outputs sample_loop) = []"
    by (simp add: sample_loop_def submitted_frames_def sample_outputs_def submitted_frame_def output_pipeline_frames_default_def
        map_filter_simps)
  obtain d where d: "loop_dispatch_timeout sample_loop 10 100 = Some d"
    by (simp add: loop_dispatch_timeout_def sample_loop_def)
  have "d \<le> 100"
    using loop_wakes_exactly_when_due [OF d] frames by simp
  then show ?thesis
    using d by (auto simp: cadence_due_def sample_loop_def)
qed

end
