(* ===== verification/Hotplug_Transaction.thy ===== *)
theory Hotplug_Transaction
  imports Prelude
begin

text \<open>
  The ownership plan and the rollback journal of a hotplug transaction
  (\<open>compositor/src/bin/deniald/hotplug_transaction.rs\<close>): which scanouts of the new topology
  reuse a live KMS surface, the vector swaps that install or quarantine scanouts, and the
  journal that says when old hardware state must be restored.
\<close>

section \<open>Vector ownership\<close>

text \<open>
  \<open>install_candidate\<close> returns the new destination, the emptied candidate, the resolved flag and
  the displaced vector; \<open>append_quarantined\<close> the two vectors and the rollback prefix length.
\<close>

definition install_candidate :: "'t list \<Rightarrow> 't list \<Rightarrow> 't list \<times> 't list \<times> bool \<times> 't list" where
  "install_candidate destination candidate = (candidate, [], True, destination)"

definition append_quarantined :: "'t list \<Rightarrow> 't list \<Rightarrow> 't list \<times> 't list \<times> nat" where
  "append_quarantined restored quarantined =
     (restored @ quarantined, [], length restored)"

section \<open>The reconcile plan\<close>

record scanout_key =
  sk_output :: u64
  sk_crtc :: u32

datatype scanout_origin = Reuse nat | Create

datatype reconcile_plan_error =
    InvalidOutput
  | InvalidCrtc
  | DuplicateOutput u64
  | DuplicateCrtc u32

definition validate_key :: "scanout_key \<Rightarrow> reconcile_plan_error + unit" where
  "validate_key key =
     (if sk_output key = 0 then Inl InvalidOutput
      else if sk_crtc key = 0 then Inl InvalidCrtc
      else Inr ())"

text \<open>
  The loop over the live scanouts: \<open>index\<close> counts the enumeration, \<open>outputs\<close> and \<open>crtcs\<close> are
  the two ordered sets, \<open>existing\<close> the map from key to index.
\<close>

fun index_current ::
  "nat \<Rightarrow> u64 set \<Rightarrow> u32 set \<Rightarrow> (scanout_key \<rightharpoonup> nat) \<Rightarrow> scanout_key list \<Rightarrow>
     reconcile_plan_error + (scanout_key \<rightharpoonup> nat)" where
  "index_current index outputs crtcs existing [] = Inr existing"
| "index_current index outputs crtcs existing (key # keys) =
     and_then (validate_key key) (\<lambda>_.
       if sk_output key \<in> outputs then Inl (DuplicateOutput (sk_output key))
       else if sk_crtc key \<in> crtcs then Inl (DuplicateCrtc (sk_crtc key))
       else index_current (Suc index) (insert (sk_output key) outputs)
              (insert (sk_crtc key) crtcs) (existing(key \<mapsto> index)) keys)"

fun plan_desired ::
  "(scanout_key \<rightharpoonup> nat) \<Rightarrow> u64 set \<Rightarrow> u32 set \<Rightarrow> scanout_origin list \<Rightarrow> scanout_key list \<Rightarrow>
     reconcile_plan_error + scanout_origin list" where
  "plan_desired existing outputs crtcs plan [] = Inr plan"
| "plan_desired existing outputs crtcs plan (key # keys) =
     and_then (validate_key key) (\<lambda>_.
       if sk_output key \<in> outputs then Inl (DuplicateOutput (sk_output key))
       else if sk_crtc key \<in> crtcs then Inl (DuplicateCrtc (sk_crtc key))
       else plan_desired existing (insert (sk_output key) outputs) (insert (sk_crtc key) crtcs)
              (plan @ [case existing key of None \<Rightarrow> Create | Some index \<Rightarrow> Reuse index]) keys)"

definition plan_reconcile ::
  "scanout_key list \<Rightarrow> scanout_key list \<Rightarrow> reconcile_plan_error + scanout_origin list" where
  "plan_reconcile current desired =
     and_then (index_current 0 {} {} Map.empty current) (\<lambda>existing.
       plan_desired existing {} {} [] desired)"

text \<open>What a well-formed scanout vector is: no zero identifier, no output or CRTC twice.\<close>

definition key_ok :: "scanout_key \<Rightarrow> bool" where
  "key_ok key \<longleftrightarrow> sk_output key \<noteq> 0 \<and> sk_crtc key \<noteq> 0"

definition keys_ok :: "scanout_key list \<Rightarrow> bool" where
  "keys_ok keys \<longleftrightarrow>
     (\<forall>key\<in>set keys. key_ok key) \<and> distinct (map sk_output keys) \<and> distinct (map sk_crtc keys)"

definition keys_fresh :: "u64 set \<Rightarrow> u32 set \<Rightarrow> scanout_key list \<Rightarrow> bool" where
  "keys_fresh outputs crtcs keys \<longleftrightarrow>
     keys_ok keys \<and> sk_output ` set keys \<inter> outputs = {} \<and> sk_crtc ` set keys \<inter> crtcs = {}"

lemma validate_key_Inr [simp]: "validate_key key = Inr u \<longleftrightarrow> key_ok key"
  by (auto simp: validate_key_def key_ok_def)

lemma keys_fresh_Nil [simp]: "keys_fresh outputs crtcs []"
  by (simp add: keys_fresh_def keys_ok_def)

lemma keys_fresh_Cons [simp]:
  "keys_fresh outputs crtcs (key # keys) \<longleftrightarrow>
     key_ok key \<and> sk_output key \<notin> outputs \<and> sk_crtc key \<notin> crtcs \<and>
     keys_fresh (insert (sk_output key) outputs) (insert (sk_crtc key) crtcs) keys"
  by (auto simp: keys_fresh_def keys_ok_def)

lemma keys_fresh_empty [simp]: "keys_fresh {} {} keys \<longleftrightarrow> keys_ok keys"
  by (simp add: keys_fresh_def)

lemma keys_ok_distinct: "keys_ok keys \<Longrightarrow> distinct keys"
  by (auto simp: keys_ok_def distinct_map)

text \<open>The two loops succeed exactly on fresh, well-formed keys.\<close>

lemma index_current_total:
  "(\<exists>existing'. index_current index outputs crtcs existing keys = Inr existing') \<longleftrightarrow>
     keys_fresh outputs crtcs keys"
proof (induction keys arbitrary: index outputs crtcs existing)
  case (Cons key keys)
  then show ?case
    by (auto simp: result_simps split: if_splits)
qed simp

lemma plan_desired_total:
  "(\<exists>plan'. plan_desired existing outputs crtcs plan keys = Inr plan') \<longleftrightarrow>
     keys_fresh outputs crtcs keys"
proof (induction keys arbitrary: outputs crtcs plan)
  case (Cons key keys)
  then show ?case
    by (auto simp: result_simps split: if_splits)
qed simp

text \<open>What they compute then.\<close>

lemma index_current_lookup:
  assumes "index_current index outputs crtcs existing keys = Inr existing'" and "distinct keys"
  shows "existing' key =
    (case position ((=) key) keys of Some i \<Rightarrow> Some (index + i) | None \<Rightarrow> existing key)"
  using assms
proof (induction keys arbitrary: index outputs crtcs existing)
  case (Cons k keys)
  from Cons.prems have rest: "index_current (Suc index) (insert (sk_output k) outputs)
      (insert (sk_crtc k) crtcs) (existing(k \<mapsto> index)) keys = Inr existing'"
    by (auto simp: result_simps split: if_splits)
  have "position ((=) k) keys = None"
    using Cons.prems(2) by (auto simp: position_None)
  then show ?case
    using Cons.IH [OF rest] Cons.prems(2) by (cases "key = k") (simp_all split: option.splits)
qed simp

lemma plan_desired_result:
  "plan_desired existing outputs crtcs plan keys = Inr plan' \<Longrightarrow>
     plan' = plan @ map (\<lambda>key. case existing key of None \<Rightarrow> Create | Some i \<Rightarrow> Reuse i) keys"
proof (induction keys arbitrary: outputs crtcs plan)
  case (Cons k keys)
  then show ?case
    by (auto simp: result_simps split: if_splits dest!: Cons.IH)
qed simp

lemma plan_reconcile_total:
  "(\<exists>plan. plan_reconcile current desired = Inr plan) \<longleftrightarrow> keys_ok current \<and> keys_ok desired"
proof -
  have "(\<exists>plan. plan_reconcile current desired = Inr plan) \<longleftrightarrow>
      (\<exists>existing. index_current 0 {} {} Map.empty current = Inr existing \<and>
        (\<exists>plan. plan_desired existing {} {} [] desired = Inr plan))"
    by (auto simp: plan_reconcile_def result_simps)
  then show ?thesis
    using index_current_total [of 0 "{}" "{}" Map.empty current]
    by (auto simp: plan_desired_total)
qed

lemma plan_reconcile_eq:
  assumes "plan_reconcile current desired = Inr plan"
  shows "plan = map (\<lambda>key. case position ((=) key) current of
      None \<Rightarrow> Create | Some i \<Rightarrow> Reuse i) desired"
proof -
  from assms obtain existing where
      ex: "index_current 0 {} {} Map.empty current = Inr existing"
      and pl: "plan_desired existing {} {} [] desired = Inr plan"
    by (auto simp: plan_reconcile_def result_simps)
  from assms have "distinct current"
    using plan_reconcile_total keys_ok_distinct by blast
  then have "existing key = position ((=) key) current" for key
    using index_current_lookup [OF ex, of key] by (simp split: option.splits)
  then show ?thesis
    using plan_desired_result [OF pl] by simp
qed

section \<open>The rollback journal\<close>

datatype hotplug_phase =
    Staging
  | Validated
  | Committing
  | Presented
  | Finalized
  | RolledBack

record hotplug_progress =
  phase :: hotplug_phase
  committed_outputs :: nat

definition hotplug_progress_default :: hotplug_progress where
  "hotplug_progress_default = \<lparr>phase = Staging, committed_outputs = 0\<rparr>"

definition rollback_required :: "hotplug_progress \<Rightarrow> bool" where
  "rollback_required p \<longleftrightarrow>
     committed_outputs p \<noteq> 0 \<and> \<not> (phase p = Finalized \<or> phase p = RolledBack)"

text \<open>
  Each operation is the state it leaves; the \<open>debug_assert\<close> in front of it, which only debug
  builds evaluate, is the guard of the same name.
\<close>

definition mark_validated :: "hotplug_progress \<Rightarrow> hotplug_progress" where
  "mark_validated p = p\<lparr>phase := Validated\<rparr>"

definition mark_validated_asserts :: "hotplug_progress \<Rightarrow> bool" where
  "mark_validated_asserts p \<longleftrightarrow> phase p = Staging"

definition record_commit :: "hotplug_progress \<Rightarrow> hotplug_progress" where
  "record_commit p =
     p\<lparr>phase := Committing, committed_outputs := usize_saturating_add (committed_outputs p) 1\<rparr>"

definition record_commit_asserts :: "hotplug_progress \<Rightarrow> bool" where
  "record_commit_asserts p \<longleftrightarrow> phase p = Validated \<or> phase p = Committing"

definition mark_presented :: "hotplug_progress \<Rightarrow> hotplug_progress" where
  "mark_presented p = p\<lparr>phase := Presented\<rparr>"

definition mark_presented_asserts :: "hotplug_progress \<Rightarrow> bool" where
  "mark_presented_asserts p \<longleftrightarrow> phase p = Validated \<or> phase p = Committing"

definition mark_finalized :: "hotplug_progress \<Rightarrow> hotplug_progress" where
  "mark_finalized p = p\<lparr>phase := Finalized\<rparr>"

definition mark_finalized_asserts :: "hotplug_progress \<Rightarrow> bool" where
  "mark_finalized_asserts p \<longleftrightarrow> phase p = Presented"

definition mark_rolled_back :: "hotplug_progress \<Rightarrow> hotplug_progress" where
  "mark_rolled_back p = p\<lparr>phase := RolledBack\<rparr>"

definition mark_rolled_back_asserts :: "hotplug_progress \<Rightarrow> bool" where
  "mark_rolled_back_asserts p \<longleftrightarrow> rollback_required p"

text \<open>A transaction is the list of the operations called on it; \<open>None\<close> when one finds its assertion violated.\<close>

datatype journal_op = Validate | Commit | Present | Finalize | RollBack

fun journal_step :: "journal_op \<Rightarrow> hotplug_progress \<Rightarrow> hotplug_progress option" where
  "journal_step Validate p = (if mark_validated_asserts p then Some (mark_validated p) else None)"
| "journal_step Commit p = (if record_commit_asserts p then Some (record_commit p) else None)"
| "journal_step Present p = (if mark_presented_asserts p then Some (mark_presented p) else None)"
| "journal_step Finalize p = (if mark_finalized_asserts p then Some (mark_finalized p) else None)"
| "journal_step RollBack p = (if mark_rolled_back_asserts p then Some (mark_rolled_back p) else None)"

fun journal_from :: "hotplug_progress \<Rightarrow> journal_op list \<Rightarrow> hotplug_progress option" where
  "journal_from p [] = Some p"
| "journal_from p (op # ops) = Option.bind (journal_step op p) (\<lambda>q. journal_from q ops)"

definition journal :: "journal_op list \<Rightarrow> hotplug_progress option" where
  "journal ops = journal_from hotplug_progress_default ops"

lemma journal_from_append: "journal_from p (ops @ ops') = Option.bind (journal_from p ops) (\<lambda>q. journal_from q ops')"
  by (induction ops arbitrary: p) (auto split: Option.bind_splits)

lemma journal_snoc: "journal (ops @ [op]) = Option.bind (journal ops) (journal_step op)"
  by (simp add: journal_def journal_from_append)

lemmas hotplug_defs =
  mark_validated_def mark_validated_asserts_def record_commit_def record_commit_asserts_def
  mark_presented_def mark_presented_asserts_def mark_finalized_def mark_finalized_asserts_def
  mark_rolled_back_def mark_rolled_back_asserts_def rollback_required_def
  usize_saturating_add_def

text \<open>The journal knows what has happened.\<close>

lemma journal_records:
  "journal ops = Some p \<Longrightarrow> committed_outputs p = min (count_list ops Commit) usize_max \<and>
     (phase p = Finalized \<longleftrightarrow> Finalize \<in> set ops) \<and> (phase p = RolledBack \<longleftrightarrow> RollBack \<in> set ops)"
proof (induction ops arbitrary: p rule: rev_induct)
  case Nil
  then show ?case
    by (auto simp: journal_def hotplug_progress_default_def)
next
  case (snoc op ops)
  then obtain q where q: "journal ops = Some q" "journal_step op q = Some p"
    by (auto simp: journal_snoc bind_eq_Some_conv)
  then show ?case
    using snoc.IH [OF q(1)] by (cases op) (auto simp: hotplug_defs split: if_splits)
qed

section \<open>Properties\<close>

text \<open>
  A hotplug plan is produced exactly when both scanout vectors are well formed: no zero
  output or CRTC identifier, and no output and no CRTC listed twice. Every other input is
  rejected with an error.
\<close>

theorem plan_reconcile_accepts:
  "(\<exists>plan. plan_reconcile current desired = Inr plan) \<longleftrightarrow> keys_ok current \<and> keys_ok desired"
  by (rule plan_reconcile_total)

text \<open>
  C32: An accepted plan has one entry per desired scanout; a reused entry names the live surface
  with the very same output and CRTC, a created one has no such surface, and no live surface is
  handed to two scanouts.
\<close>

theorem plan_reconcile_correct:
  assumes "plan_reconcile current desired = Inr plan"
  shows "length plan = length desired \<and>
    (\<forall>i<length desired. case plan ! i of
        Reuse j \<Rightarrow> j < length current \<and> current ! j = desired ! i
      | Create \<Rightarrow> desired ! i \<notin> set current) \<and>
    (\<forall>i<length desired. \<forall>k<length desired. \<forall>j.
        plan ! i = Reuse j \<longrightarrow> plan ! k = Reuse j \<longrightarrow> i = k)"
proof -
  have plan: "plan = map (\<lambda>key. case position ((=) key) current of
      None \<Rightarrow> Create | Some i \<Rightarrow> Reuse i) desired"
    using assms by (rule plan_reconcile_eq)
  have len: "length plan = length desired"
    by (simp add: plan)
  have entry: "case plan ! i of
        Reuse j \<Rightarrow> j < length current \<and> current ! j = desired ! i
      | Create \<Rightarrow> desired ! i \<notin> set current" if "i < length desired" for i
    using that by (auto simp: plan position_None split: option.splits dest: position_Some)
  have "distinct desired"
    using assms plan_reconcile_total keys_ok_distinct by blast
  then have inj: "i = k"
    if "i < length desired" "k < length desired" "plan ! i = Reuse j" "plan ! k = Reuse j" for i j k
    using that entry [of i] entry [of k] by (simp add: nth_eq_iff_index_eq)
  show ?thesis
    using len entry inj by blast
qed

theorem plan_reconcile_correct_witness:
  "plan_reconcile [\<lparr>sk_output = 1, sk_crtc = 7\<rparr>, \<lparr>sk_output = 2, sk_crtc = 8\<rparr>]
     [\<lparr>sk_output = 2, sk_crtc = 8\<rparr>, \<lparr>sk_output = 1, sk_crtc = 9\<rparr>] = Inr [Reuse 1, Create] \<and>
   length [Reuse 1, Create] = 2"
proof -
  have h: "plan_reconcile [\<lparr>sk_output = 1, sk_crtc = 7\<rparr>, \<lparr>sk_output = 2, sk_crtc = 8\<rparr>]
     [\<lparr>sk_output = 2, sk_crtc = 8\<rparr>, \<lparr>sk_output = 1, sk_crtc = 9\<rparr>] = Inr [Reuse 1, Create]"
    by (simp add: plan_reconcile_def validate_key_def)
  show ?thesis
    using h plan_reconcile_correct [OF h] by simp
qed

text \<open>
  C33: Whatever operations a transaction has gone through, rolling the hardware back is required exactly when an output
  was committed and the transaction has been neither finalized nor rolled back. Once it was finalized or rolled back
  no further operation is in order, and a rollback is in order exactly when it is required.
\<close>

theorem rollback_required_exactly:
  assumes "journal ops = Some p"
  shows "(rollback_required p \<longleftrightarrow> Commit \<in> set ops \<and> Finalize \<notin> set ops \<and> RollBack \<notin> set ops) \<and>
    (Finalize \<in> set ops \<or> RollBack \<in> set ops \<longrightarrow> (\<forall>op. journal (ops @ [op]) = None)) \<and>
    (journal (ops @ [RollBack]) \<noteq> None \<longleftrightarrow> rollback_required p)"
proof -
  have over: "journal (ops @ [op]) = None" if "Finalize \<in> set ops \<or> RollBack \<in> set ops" for op
    using that journal_records [OF assms] assms by (cases op) (auto simp: journal_snoc hotplug_defs)
  moreover have "rollback_required p \<longleftrightarrow> Commit \<in> set ops \<and> Finalize \<notin> set ops \<and> RollBack \<notin> set ops"
    using journal_records [OF assms] count_list_0_iff [of ops Commit] by (auto simp: rollback_required_def min_def)
  ultimately show ?thesis
    using assms by (simp add: journal_snoc mark_rolled_back_asserts_def)
qed

theorem rollback_required_exactly_witness:
  "\<exists>p. journal [Validate, Commit, Commit, Present] = Some p \<and> rollback_required p"
proof -
  obtain p where "journal [Validate, Commit, Commit, Present] = Some p"
    by (simp add: journal_def hotplug_defs hotplug_progress_default_def)
  then show ?thesis
    using rollback_required_exactly [of "[Validate, Commit, Commit, Present]" p] by simp
qed

end
