(* ===== verification/Scheduler_History.thy ===== *)
theory Scheduler_History
  imports Frame_Scheduler
begin

text \<open>
  Histories of the frame scheduler: every sequence of calls of its interface
  (\<open>compositor/src/bin/deniald/frame_scheduler.rs\<close>) as a step relation, and what holds along all of
  them: completions that arrive late, the Dart scene's targets, and reconfiguration.
\<close>

section \<open>Every history of the scheduler\<close>

text \<open>
  One call of the scheduler's interface; \<open>k\<close> bounds the dirty serials the call allocates, so that
  histories can be followed up to the wrap of the 64-bit serial counter.
\<close>

inductive scheduler_step :: "('m \<Rightarrow> int) \<Rightarrow> 'm frame_scheduler \<Rightarrow> nat \<Rightarrow> 'm frame_scheduler \<Rightarrow> bool"
  for refresh :: "'m \<Rightarrow> int" where
  step_frame: "step_with_output_availability s now pending avail clock = (s', action) \<Longrightarrow>
    scheduler_step refresh s (length (ots_timelines (fs_outputs s))) s'"
| step_app: "scheduler_step refresh s 1 (mark_app_dirty s out texs)"
| step_output: "scheduler_step refresh s 1 (mark_output_dirty s out)"
| step_all: "scheduler_step refresh s (length (ots_timelines (fs_outputs s))) (mark_all_dirty s)"
| step_complete: "scheduler_step refresh s 0 (complete_render s out serial)"
| step_observe: "scheduler_step refresh s 0 (observe_presentation s out target shown_at)"
| step_dispatched: "flutter_frame_dispatched s = Some s' \<Longrightarrow> scheduler_step refresh s 0 s'"
| step_reconfigure: "scheduler_step refresh s (2 * length scanouts) (reconfigure refresh s scanouts now)"

inductive scheduler_run :: "('m \<Rightarrow> int) \<Rightarrow> 'm frame_scheduler \<Rightarrow> 'm frame_scheduler \<Rightarrow> bool"
  for refresh :: "'m \<Rightarrow> int" and s0 :: "'m frame_scheduler" where
  run_refl: "scheduler_run refresh s0 s0"
| run_step: "scheduler_run refresh s0 s \<Longrightarrow> scheduler_step refresh s k s' \<Longrightarrow>
    unat (fs_next_dirty_serial s) + k < 2 ^ 64 \<Longrightarrow> scheduler_run refresh s0 s'"

text \<open>The serials never go back: every mark of the output is at least the given serial.\<close>

definition marks_from :: "nat \<Rightarrow> 'm frame_scheduler \<Rightarrow> output_id \<Rightarrow> bool" where
  "marks_from n s out \<longleftrightarrow> n \<le> unat (fs_next_dirty_serial s) \<and>
     (\<forall>d. fs_dirty_outputs s out = Some d \<longrightarrow> n \<le> unat (do_serial d))"

definition marks_until :: "'m frame_scheduler \<Rightarrow> bool" where
  "marks_until s \<longleftrightarrow> (\<forall>out d. fs_dirty_outputs s out = Some d \<longrightarrow>
     unat (do_serial d) \<le> unat (fs_next_dirty_serial s))"

text \<open>What a call may do to the counter and the marks.\<close>

definition marks_grow :: "'m frame_scheduler \<Rightarrow> nat \<Rightarrow> 'm frame_scheduler \<Rightarrow> bool" where
  "marks_grow s k s' \<longleftrightarrow> unat (fs_next_dirty_serial s) \<le> unat (fs_next_dirty_serial s') \<and>
     unat (fs_next_dirty_serial s') \<le> unat (fs_next_dirty_serial s) + k \<and>
     (\<forall>out d. fs_dirty_outputs s' out = Some d \<longrightarrow> fs_dirty_outputs s out = Some d \<or>
        (\<exists>d0. fs_dirty_outputs s out = Some d0 \<and> do_serial d = do_serial d0) \<or>
        unat (fs_next_dirty_serial s) < unat (do_serial d) \<and>
        unat (do_serial d) \<le> unat (fs_next_dirty_serial s'))"

lemma allocate_serial:
  assumes "unat (fs_next_dirty_serial s) + 1 < 2 ^ 64"
  shows "allocate_dirty_serial s = (s\<lparr>fs_next_dirty_serial := fs_next_dirty_serial s + 1\<rparr>, fs_next_dirty_serial s + 1)"
    and "unat (fs_next_dirty_serial s + 1) = unat (fs_next_dirty_serial s) + 1"
proof -
  show u: "unat (fs_next_dirty_serial s + 1) = unat (fs_next_dirty_serial s) + 1"
    using assms by (simp add: unat_word_ariths)
  then have "fs_next_dirty_serial s + 1 \<noteq> 0"
    by (metis add_is_0 one_neq_zero unat_0)
  then show "allocate_dirty_serial s = (s\<lparr>fs_next_dirty_serial := fs_next_dirty_serial s + 1\<rparr>, fs_next_dirty_serial s + 1)"
    by (simp add: allocate_dirty_serial_def max_one_word Let_def)
qed

lemma marks_grow_refl [simp]: "marks_grow s k s"
  by (simp add: marks_grow_def)

lemma marks_grow_trans:
  assumes "marks_grow s j s'" "marks_grow s' k s''"
  shows "marks_grow s (j + k) s''"
  unfolding marks_grow_def
proof (intro conjI allI impI)
  show "unat (fs_next_dirty_serial s) \<le> unat (fs_next_dirty_serial s'')"
    "unat (fs_next_dirty_serial s'') \<le> unat (fs_next_dirty_serial s) + (j + k)"
    using assms by (simp_all add: marks_grow_def)
  fix out d
  assume d: "fs_dirty_outputs s'' out = Some d"
  have c: "unat (fs_next_dirty_serial s) \<le> unat (fs_next_dirty_serial s')"
    "unat (fs_next_dirty_serial s') \<le> unat (fs_next_dirty_serial s'')"
    using assms by (simp_all add: marks_grow_def)
  consider d0 where "fs_dirty_outputs s' out = Some d0" "do_serial d = do_serial d0"
    | "unat (fs_next_dirty_serial s') < unat (do_serial d)" "unat (do_serial d) \<le> unat (fs_next_dirty_serial s'')"
    using assms(2) d unfolding marks_grow_def by blast
  then show "fs_dirty_outputs s out = Some d \<or>
      (\<exists>d0. fs_dirty_outputs s out = Some d0 \<and> do_serial d = do_serial d0) \<or>
      unat (fs_next_dirty_serial s) < unat (do_serial d) \<and> unat (do_serial d) \<le> unat (fs_next_dirty_serial s'')"
  proof cases
    case 1
    then consider d1 where "fs_dirty_outputs s out = Some d1" "do_serial d0 = do_serial d1"
      | "unat (fs_next_dirty_serial s) < unat (do_serial d0)" "unat (do_serial d0) \<le> unat (fs_next_dirty_serial s')"
      using assms(1) unfolding marks_grow_def by blast
    then show ?thesis
      using 1 c by cases auto
  next
    case 2
    then show ?thesis
      using c by auto
  qed
qed

lemma marks_grow_less: "marks_grow s j s' \<Longrightarrow> j \<le> k \<Longrightarrow> marks_grow s k s'"
  by (auto simp: marks_grow_def)

lemma marks_grow_same:
  "fs_next_dirty_serial s' = fs_next_dirty_serial s \<Longrightarrow>
   (\<And>out d. fs_dirty_outputs s' out = Some d \<Longrightarrow> fs_dirty_outputs s out = Some d) \<Longrightarrow> marks_grow s k s'"
  by (auto simp: marks_grow_def)

lemma mark_app_dirty_grows:
  assumes "unat (fs_next_dirty_serial s) + 1 < 2 ^ 64"
  shows "marks_grow s 1 (mark_app_dirty s out texs)"
  using allocate_serial(2) [OF assms]
  by (auto simp: marks_grow_def mark_app_dirty_def allocate_serial(1) [OF assms])

lemma mark_each_dirty_grows:
  "unat (fs_next_dirty_serial s) + length outs < 2 ^ 64 \<Longrightarrow> marks_grow s (length outs) (mark_each_dirty s outs)"
proof (induction outs arbitrary: s)
  case (Cons out outs)
  have n: "unat (fs_next_dirty_serial s) + 1 < 2 ^ 64"
    using Cons.prems by simp
  let ?s = "s\<lparr>fs_next_dirty_serial := fs_next_dirty_serial s + 1,
    fs_dirty_outputs := (fs_dirty_outputs s)(out \<mapsto> (dirty_entry s out)\<lparr>do_serial := fs_next_dirty_serial s + 1\<rparr>)\<rparr>"
  have "marks_grow s 1 ?s"
    using allocate_serial(2) [OF n] by (auto simp: marks_grow_def)
  moreover have "marks_grow ?s (length outs) (mark_each_dirty ?s outs)"
    using Cons.prems allocate_serial(2) [OF n] by (intro Cons.IH) simp
  moreover have "mark_each_dirty s (out # outs) = mark_each_dirty ?s outs"
    using allocate_serial(1) [OF n] by (simp add: dirty_entry_def)
  ultimately show ?case
    using marks_grow_trans [of s 1 ?s "length outs"] by simp
qed simp

lemma marks_grow_within: "marks_grow s j s' \<Longrightarrow> unat (fs_next_dirty_serial s) + (j + k) < n \<Longrightarrow>
    unat (fs_next_dirty_serial s') + k < n"
  by (auto simp: marks_grow_def)

lemma foldl_mark_output_grows:
  "unat (fs_next_dirty_serial s) + length outs < 2 ^ 64 \<Longrightarrow>
     marks_grow s (length outs) (foldl mark_output_dirty s outs)"
proof (induction outs arbitrary: s)
  case (Cons out outs)
  have m: "marks_grow s 1 (mark_output_dirty s out)"
    unfolding mark_output_dirty_def using Cons.prems by (intro mark_app_dirty_grows) simp
  show ?case
    using marks_grow_trans [OF m Cons.IH [OF marks_grow_within [OF m]]] Cons.prems by simp
qed simp

lemma refresh_signatures_grows:
  "unat (fs_next_dirty_serial s) + length scs < 2 ^ 64 \<Longrightarrow>
     marks_grow s (length scs) (refresh_signatures s scs)"
proof (induction scs arbitrary: s)
  case (Cons sc scs)
  define s1 where "s1 = s\<lparr>fs_output_signatures := (fs_output_signatures s)(sc_id sc \<mapsto> signature_of sc)\<rparr>"
  define changed where "changed = (case fs_output_signatures s (sc_id sc) of
    None \<Rightarrow> True | Some previous \<Rightarrow> previous \<noteq> signature_of sc)"
  define s2 where "s2 = (if changed \<and> sc_powered sc then mark_output_dirty s1 (sc_id sc) else s1)"
  have "marks_grow s 0 s1"
    by (rule marks_grow_same) (simp_all add: s1_def)
  moreover have "marks_grow s1 1 s2"
    unfolding s2_def mark_output_dirty_def using Cons.prems mark_app_dirty_grows [of s1]
    by (simp add: s1_def)
  ultimately have m: "marks_grow s 1 s2"
    using marks_grow_trans by fastforce
  have "unat (fs_next_dirty_serial s2) + length scs < 2 ^ 64"
    using Cons.prems by (intro marks_grow_within [OF m]) simp
  then have "marks_grow s2 (length scs) (refresh_signatures s2 scs)"
    by (rule Cons.IH)
  moreover have "refresh_signatures s (sc # scs) = refresh_signatures s2 scs"
    by (simp only: refresh_signatures.simps Let_def s1_def s2_def changed_def)
  ultimately show ?case
    using marks_grow_trans [OF m] by simp
qed simp

lemma reconfigure_sources_grows:
  assumes "unat (fs_next_dirty_serial s) + length sources < 2 ^ 64"
  shows "marks_grow s (length sources) (reconfigure_sources s configured sources now)"
proof -
  let ?s1 = "s\<lparr>fs_configured_outputs := configured, fs_outputs := timelines_reconfigure (fs_outputs s) sources now,
    fs_dirty_outputs := map_retain (\<lambda>out. out \<in> configured) (fs_dirty_outputs s)\<rparr>"
  let ?s2 = "foldl mark_output_dirty ?s1 (restarted_outputs s sources)"
  have l: "length (restarted_outputs s sources) \<le> length sources"
    by (simp add: restarted_outputs_def)
  have a: "marks_grow s 0 ?s1"
    by (rule marks_grow_same) simp_all
  have b: "marks_grow ?s1 (length sources) ?s2"
    by (rule marks_grow_less [OF foldl_mark_output_grows l]) (insert assms l, simp)
  have c: "marks_grow ?s2 0 (reconfigure_sources s configured sources now)"
    by (rule marks_grow_same) (simp_all add: reconfigure_sources_def Let_def split: if_splits)
  show ?thesis
    using marks_grow_trans [OF marks_grow_trans [OF a b] c] by simp
qed

lemma reconfigure_grows:
  assumes "unat (fs_next_dirty_serial s) + 2 * length scanouts < 2 ^ 64"
  shows "marks_grow s (2 * length scanouts) (reconfigure refresh s scanouts now)"
proof -
  define sources where "sources = map (timeline_source_of refresh) (filter sc_powered scanouts)"
  define s1 where "s1 = reconfigure_sources s (set (map sc_id scanouts)) sources now"
  define s2 where "s2 = s1\<lparr>fs_output_signatures :=
    map_retain (\<lambda>out. out \<in> fs_configured_outputs s1) (fs_output_signatures s1)\<rparr>"
  have "length sources \<le> length scanouts"
    by (simp add: sources_def)
  then have a: "marks_grow s (length scanouts) s1"
    unfolding s1_def using assms by (intro marks_grow_less [OF reconfigure_sources_grows]) auto
  have "marks_grow s1 0 s2"
    by (rule marks_grow_same) (simp_all add: s2_def)
  note b = marks_grow_trans [OF a this, simplified]
  have "marks_grow s2 (length scanouts) (refresh_signatures s2 scanouts)"
    using marks_grow_within [OF b, of "length scanouts" "2 ^ 64"] assms
    by (intro refresh_signatures_grows) simp
  then show ?thesis
    using marks_grow_trans [OF b] by (simp add: reconfigure_def sources_def s1_def s2_def Let_def mult_2)
qed

lemma step_frame_grows:
  assumes "step_with_output_availability s now pending avail clock = (s', action)"
    and "unat (fs_next_dirty_serial s) + length (ots_timelines (fs_outputs s)) < 2 ^ 64"
  shows "marks_grow s (length (ots_timelines (fs_outputs s))) s'"
proof -
  define p where "p = step_prepare s now pending avail"
  have len: "length (ots_timelines (fs_outputs p)) = length (ots_timelines (fs_outputs s))"
    using arg_cong [OF advance_all_outputs(2), of length]
    by (simp add: p_def timelines_advance_def case_prod_unfold)
  have next_p: "fs_next_dirty_serial p = fs_next_dirty_serial s"
    by (simp add: p_def step_prepare_def Let_def)
  have a: "marks_grow s 0 p"
    by (rule marks_grow_same) (simp_all add: next_p, simp add: p_def)
  have "marks_grow p (length (map (\<lambda>timeline. ts_output (ot_source timeline)) (ots_timelines (fs_outputs p))))
      (mark_all_dirty p)"
    unfolding mark_all_dirty_def using assms(2) by (intro mark_each_dirty_grows) (simp add: next_p len)
  then have b: "marks_grow p (length (ots_timelines (fs_outputs s))) (step_mark p)"
    using len by (simp add: step_mark_def) (simp add: marks_grow_def)
  have "fs_next_dirty_serial (fst (step_with_output_availability s now pending avail clock)) =
      fs_next_dirty_serial (step_mark p)"
    by (simp add: step_with_output_availability_def p_def step_audit_def Let_def)
  then have "marks_grow (step_mark p) 0 s'"
    using assms(1) step_result(2) [OF assms(1)] by (intro marks_grow_same) (simp_all add: p_def)
  then show ?thesis
    using marks_grow_trans [OF marks_grow_trans [OF a b]] by fastforce
qed

lemma scheduler_step_grows:
  assumes "scheduler_step refresh s k s'" "unat (fs_next_dirty_serial s) + k < 2 ^ 64"
  shows "marks_grow s k s'"
  using assms
proof (cases rule: scheduler_step.cases)
  case (step_frame now pending avail clock action)
  then show ?thesis using step_frame_grows assms(2) by auto
next
  case (step_complete out serial)
  then show ?thesis
    by (intro marks_grow_same) (auto simp: complete_render_def split: option.splits if_splits)
next
  case step_dispatched
  then show ?thesis
    by (intro marks_grow_same) (auto simp: flutter_frame_dispatched_def split: option.splits)
next
  case (step_app out texs)
  then show ?thesis
    using mark_app_dirty_grows [of s] assms(2) by simp
next
  case (step_output out)
  then show ?thesis
    using mark_app_dirty_grows [of s] assms(2) by (simp add: mark_output_dirty_def)
next
  case step_all
  then show ?thesis
    using mark_each_dirty_grows [of s "map (\<lambda>timeline. ts_output (ot_source timeline)) (ots_timelines (fs_outputs s))"]
      assms(2) by (simp add: mark_all_dirty_def)
next
  case (step_reconfigure scanouts now)
  then show ?thesis
    using reconfigure_grows [of s scanouts] assms(2) by simp
qed (auto intro!: marks_grow_same simp: observe_presentation_def)

lemma marks_until_grow: "marks_until s \<Longrightarrow> marks_grow s k s' \<Longrightarrow> marks_until s'"
  unfolding marks_until_def marks_grow_def by (metis order_trans)

lemma marks_from_grow: "marks_from n s out \<Longrightarrow> marks_grow s k s' \<Longrightarrow> marks_from n s' out"
  unfolding marks_from_def marks_grow_def by (metis less_imp_le order_trans)

lemma scheduler_run_marks:
  assumes "scheduler_run refresh s0 s"
  shows "marks_until s0 \<Longrightarrow> marks_until s" and "marks_from n s0 out \<Longrightarrow> marks_from n s out"
  using assms
proof (induction rule: scheduler_run.induct)
  case (run_step s k s')
  note grow = scheduler_step_grows [OF run_step(2,3)]
  {
    case 1
    show ?case
      by (rule marks_until_grow [OF run_step.IH(1) [OF 1] grow])
  next
    case 2
    show ?case
      by (rule marks_from_grow [OF run_step.IH(2) [OF 2] grow])
  }
qed

lemma frame_scheduler_new_marks:
  assumes "length scanouts < 2 ^ 64"
  shows "marks_until (frame_scheduler_new refresh audit_clock scanouts now)"
proof -
  have "length (ots_timelines (timelines_new refresh scanouts now)) \<le> length scanouts"
    by (simp add: timelines_new_def timelines_replace_def Let_def)
  then show ?thesis
    unfolding frame_scheduler_new_def mark_all_dirty_def using assms
    by (intro marks_until_grow [OF _ mark_each_dirty_grows]) (simp_all add: marks_until_def)
qed

text \<open>C11: A completion that arrives late is harmless: once an output is marked after a frame was
  requested for its damage, the completion of that frame changes nothing, whatever happened to the
  scheduler in between (while the serial counter has not wrapped).\<close>

theorem late_completion_keeps_newer_mark:
  assumes "length scanouts < 2 ^ 64"
    and "scheduler_run refresh (frame_scheduler_new refresh audit_clock scanouts now) s"
    and "fs_dirty_outputs s out = Some requested" and "out \<in> fs_configured_outputs s"
    and "unat (fs_next_dirty_serial s) + 1 < 2 ^ 64"
    and "scheduler_run refresh (mark_app_dirty s out texs) s'"
  shows "complete_render s' out (do_serial requested) = s'"
proof -
  have le: "unat (do_serial requested) \<le> unat (fs_next_dirty_serial s)"
    using scheduler_run_marks(1) [OF assms(2) frame_scheduler_new_marks [OF assms(1)]] assms(3)
    by (simp add: marks_until_def)
  have "marks_from (unat (fs_next_dirty_serial s) + 1) (mark_app_dirty s out texs) out"
    using assms(4) allocate_serial [OF assms(5)] by (simp add: marks_from_def mark_app_dirty_def)
  then have "marks_from (unat (fs_next_dirty_serial s) + 1) s' out"
    by (rule scheduler_run_marks(2) [OF assms(6)])
  then have "do_serial d \<noteq> do_serial requested" if "fs_dirty_outputs s' out = Some d" for d
    using le that by (auto simp: marks_from_def)
  then show ?thesis
    by (auto simp: complete_render_def split: option.splits)
qed

lemma late_completion_keeps_newer_mark_witness:
  "complete_render (mark_app_dirty sample_scheduler 7 {4}) 7 1 = mark_app_dirty sample_scheduler 7 {4}"
  using late_completion_keeps_newer_mark [of "[sample_scanout]" id None 0 sample_scheduler 7
      "\<lparr>do_serial = 1, do_texture_ids = {}\<rparr>" "{4}" "mark_app_dirty sample_scheduler 7 {4}"]
  by (simp add: run_refl sample_scheduler_def [symmetric]) (simp add: sample_scheduler_eq)

section \<open>The Dart scene's targets\<close>

definition target_ahead :: "'m frame_scheduler \<Rightarrow> bool" where
  "target_ahead s \<longleftrightarrow> (fs_flutter_tick s \<noteq> None \<longrightarrow> flutter_frame_dispatched_asserts s)"

lemma target_ahead_same:
  "fs_flutter_tick s' = fs_flutter_tick s \<or> fs_flutter_tick s' = None \<Longrightarrow>
   fs_last_flutter_target s' = fs_last_flutter_target s \<Longrightarrow> target_ahead s \<Longrightarrow> target_ahead s'"
  by (auto simp: target_ahead_def flutter_frame_dispatched_asserts_def)

lemma foldl_mark_output_fields:
  "fs_flutter_tick (foldl mark_output_dirty s outs) = fs_flutter_tick s"
  "fs_last_flutter_target (foldl mark_output_dirty s outs) = fs_last_flutter_target s"
  "fs_outputs (foldl mark_output_dirty s outs) = fs_outputs s"
  by (induction outs arbitrary: s) (simp_all add: mark_output_dirty_def)

lemma refresh_signatures_fields:
  "fs_flutter_tick (refresh_signatures s scs) = fs_flutter_tick s"
  "fs_last_flutter_target (refresh_signatures s scs) = fs_last_flutter_target s"
  "fs_outputs (refresh_signatures s scs) = fs_outputs s"
  "fs_configured_outputs (refresh_signatures s scs) = fs_configured_outputs s"
  by (induction s scs rule: refresh_signatures.induct) (simp_all add: mark_output_dirty_def Let_def)

lemma push_new_sources_timelines:
  "t \<in> set (push_new_sources timelines sources now) \<longleftrightarrow>
     t \<in> set timelines \<or> (\<exists>source\<in>set sources. source \<notin> ot_source ` set timelines \<and> t = timeline_new source now)"
proof (induction timelines sources now rule: push_new_sources.induct)
  case (2 timelines source sources now)
  have new: "ot_source (timeline_new source' now) = source'" for source'
    by (simp add: timeline_new_def)
  show ?case
    using 2 by (cases "source \<in> ot_source ` set timelines") (auto simp: new)
qed simp

lemma push_new_sources_sources:
  "ot_source ` set (push_new_sources timelines sources now) = ot_source ` set timelines \<union> set sources"
  by (induction timelines sources now rule: push_new_sources.induct) (auto simp: timeline_new_def)

lemma reconfigure_keeps_timelines:
  fixes ots :: output_timelines and now :: instant
  assumes "distinct sources"
  defines "old \<equiv> set (ots_timelines ots)"
  defines "new \<equiv> set (ots_timelines (timelines_reconfigure ots sources now))"
  shows "ot_source ` new = set sources"
    and "t \<in> new \<longleftrightarrow> t \<in> old \<and> ot_source t \<in> set sources \<or>
      ot_source t \<in> set sources - ot_source ` old \<and> t = timeline_new (ot_source t) now"
proof -
  define kept where "kept = filter (\<lambda>timeline. ot_source timeline \<in> set sources) (ots_timelines ots)"
  have "ot_source ` new = set sources \<and> (t \<in> new \<longleftrightarrow> t \<in> old \<and> ot_source t \<in> set sources \<or>
      ot_source t \<in> set sources - ot_source ` old \<and> t = timeline_new (ot_source t) now)"
  proof (cases "length (ots_timelines ots) = length sources \<and>
      (\<forall>source\<in>set sources. \<exists>timeline\<in>set (ots_timelines ots). ot_source timeline = source)")
    case True
    have sub: "set sources \<subseteq> ot_source ` old"
      using True by (auto simp: old_def)
    have "card (ot_source ` old) \<le> card (set sources)"
      using card_image_le [of old ot_source] card_length [of "ots_timelines ots"] True assms(1)
      by (simp add: old_def distinct_card)
    then have "set sources = ot_source ` old"
      using sub by (intro card_seteq) (simp_all add: old_def)
    then show ?thesis
      using True by (auto simp: new_def old_def timelines_reconfigure_def)
  next
    case False
    have "new = set (push_new_sources kept sources now)"
      using False by (auto simp: new_def timelines_reconfigure_def kept_def Let_def)
    moreover have "source \<in> ot_source ` set kept \<longleftrightarrow> source \<in> ot_source ` old" if "source \<in> set sources" for source
      using that by (auto simp: kept_def old_def)
    ultimately show ?thesis
      using push_new_sources_sources [of kept sources now]
      by (auto simp: push_new_sources_timelines kept_def old_def timeline_new_def)
  qed
  then show "ot_source ` new = set sources"
    and "t \<in> new \<longleftrightarrow> t \<in> old \<and> ot_source t \<in> set sources \<or>
      ot_source t \<in> set sources - ot_source ` old \<and> t = timeline_new (ot_source t) now"
    by simp_all
qed

lemma mark_output_dirty_fields:
  "out \<noteq> out' \<Longrightarrow> fs_dirty_outputs (mark_output_dirty s out') out = fs_dirty_outputs s out"
  "out \<in> fs_configured_outputs s \<Longrightarrow> fs_dirty_outputs (mark_output_dirty s out) out \<noteq> None"
  "fs_configured_outputs (mark_output_dirty s out') = fs_configured_outputs s"
  "fs_output_signatures (mark_output_dirty s out') = fs_output_signatures s"
  "keeps_damage s (mark_output_dirty s out') out"
  by (simp_all add: mark_output_dirty_def mark_app_dirty_keeps)
    (simp_all add: mark_app_dirty_def allocate_dirty_serial_def Let_def)

lemma keeps_damage_dirty: "keeps_damage s s' out \<Longrightarrow> fs_dirty_outputs s out \<noteq> None \<Longrightarrow> fs_dirty_outputs s' out \<noteq> None"
  by (auto simp: keeps_damage_def)

lemma foldl_mark_output_keeps: "keeps_damage s (foldl mark_output_dirty s outs) out"
proof (induction outs arbitrary: s)
  case (Cons out' outs)
  show ?case
    using keeps_damage_trans [OF mark_output_dirty_fields(5) Cons.IH] by simp
qed simp

lemma foldl_mark_output_other:
  "out \<notin> set outs \<Longrightarrow> fs_dirty_outputs (foldl mark_output_dirty s outs) out = fs_dirty_outputs s out"
  by (induction outs arbitrary: s) (auto simp: mark_output_dirty_fields)

lemma foldl_mark_output_config:
  "fs_configured_outputs (foldl mark_output_dirty s outs) = fs_configured_outputs s"
  "fs_output_signatures (foldl mark_output_dirty s outs) = fs_output_signatures s"
  by (induction outs arbitrary: s) (simp_all add: mark_output_dirty_fields)

lemma foldl_mark_output_marks:
  "out \<in> set outs \<Longrightarrow> out \<in> fs_configured_outputs s \<Longrightarrow>
     fs_dirty_outputs (foldl mark_output_dirty s outs) out \<noteq> None"
proof (induction outs arbitrary: s)
  case (Cons out' outs)
  show ?case
  proof (cases "out = out'")
    case True
    then have "fs_dirty_outputs (mark_output_dirty s out') out \<noteq> None"
      using Cons.prems(2) mark_output_dirty_fields(2) by simp
    then show ?thesis
      unfolding foldl_Cons by (rule keeps_damage_dirty [OF foldl_mark_output_keeps])
  next
    case False
    then show ?thesis
      using Cons by (simp add: mark_output_dirty_fields(3))
  qed
qed simp

definition signature_changed :: "'m frame_scheduler \<Rightarrow> 'm scanout \<Rightarrow> bool" where
  "signature_changed s sc \<longleftrightarrow> fs_output_signatures s (sc_id sc) \<noteq> Some (signature_of sc)"

text \<open>One round of the signature loop.\<close>

definition refresh_signature :: "'m frame_scheduler \<Rightarrow> 'm scanout \<Rightarrow> 'm frame_scheduler" where
  "refresh_signature s sc =
     (let s' = s\<lparr>fs_output_signatures := (fs_output_signatures s)(sc_id sc \<mapsto> signature_of sc)\<rparr>
      in if signature_changed s sc \<and> sc_powered sc then mark_output_dirty s' (sc_id sc) else s')"

lemma refresh_signatures_foldl: "refresh_signatures s scs = foldl refresh_signature s scs"
proof (induction scs arbitrary: s)
  case (Cons sc scs)
  have "(case fs_output_signatures s (sc_id sc) of None \<Rightarrow> True | Some previous \<Rightarrow> previous \<noteq> signature_of sc)
      \<longleftrightarrow> signature_changed s sc"
    by (auto simp: signature_changed_def split: option.splits)
  then show ?case
    by (simp only: refresh_signatures.simps foldl_Cons Cons.IH refresh_signature_def Let_def)
qed simp

lemma refresh_signature_fields:
  "fs_configured_outputs (refresh_signature s sc) = fs_configured_outputs s"
  "fs_output_signatures (refresh_signature s sc) = (fs_output_signatures s)(sc_id sc \<mapsto> signature_of sc)"
  "keeps_damage s (refresh_signature s sc) out"
  "out \<noteq> sc_id sc \<or> \<not> (signature_changed s sc \<and> sc_powered sc) \<Longrightarrow>
     fs_dirty_outputs (refresh_signature s sc) out = fs_dirty_outputs s out"
  "signature_changed s sc \<Longrightarrow> sc_powered sc \<Longrightarrow> sc_id sc \<in> fs_configured_outputs s \<Longrightarrow>
     fs_dirty_outputs (refresh_signature s sc) (sc_id sc) \<noteq> None"
proof -
  let ?s = "s\<lparr>fs_output_signatures := (fs_output_signatures s)(sc_id sc \<mapsto> signature_of sc)\<rparr>"
  have "keeps_damage ?s (mark_output_dirty ?s (sc_id sc)) out"
    by (rule mark_output_dirty_fields)
  then show "keeps_damage s (refresh_signature s sc) out"
    by (simp add: refresh_signature_def keeps_damage_def Let_def)
  show "fs_dirty_outputs (refresh_signature s sc) (sc_id sc) \<noteq> None"
    if "signature_changed s sc" "sc_powered sc" "sc_id sc \<in> fs_configured_outputs s"
    using mark_output_dirty_fields(2) [of "sc_id sc" ?s] that by (simp add: refresh_signature_def Let_def)
qed (auto simp: refresh_signature_def Let_def mark_output_dirty_fields)

lemma refresh_signatures_keeps: "keeps_damage s (refresh_signatures s scs) out"
  unfolding refresh_signatures_foldl
proof (induction scs arbitrary: s)
  case (Cons sc scs)
  show ?case
    using keeps_damage_trans [OF refresh_signature_fields(3) Cons.IH] by simp
qed simp

lemma signature_changed_refresh:
  "sc_id sc \<noteq> sc_id sc' \<Longrightarrow> signature_changed (refresh_signature s sc') sc \<longleftrightarrow> signature_changed s sc"
  by (simp add: signature_changed_def refresh_signature_fields)

lemma refresh_signatures_other:
  "distinct (map sc_id scs) \<Longrightarrow> \<forall>sc\<in>set scs. sc_id sc = out \<longrightarrow> \<not> (signature_changed s sc \<and> sc_powered sc) \<Longrightarrow>
     fs_dirty_outputs (refresh_signatures s scs) out = fs_dirty_outputs s out"
  unfolding refresh_signatures_foldl
proof (induction scs arbitrary: s)
  case (Cons sc scs)
  have "signature_changed (refresh_signature s sc) sc' \<longleftrightarrow> signature_changed s sc'" if "sc' \<in> set scs" for sc'
    using Cons.prems(1) that by (intro signature_changed_refresh) (auto dest: image_eqI [of _ sc_id, OF sym])
  then have "fs_dirty_outputs (foldl refresh_signature (refresh_signature s sc) scs) out =
      fs_dirty_outputs (refresh_signature s sc) out"
    using Cons.prems by (intro Cons.IH) auto
  also have "\<dots> = fs_dirty_outputs s out"
    using Cons.prems(2) by (intro refresh_signature_fields) auto
  finally show ?case
    by simp
qed simp

lemma refresh_signatures_marks:
  "distinct (map sc_id scs) \<Longrightarrow> sc \<in> set scs \<Longrightarrow> signature_changed s sc \<Longrightarrow> sc_powered sc \<Longrightarrow>
   sc_id sc \<in> fs_configured_outputs s \<Longrightarrow> fs_dirty_outputs (refresh_signatures s scs) (sc_id sc) \<noteq> None"
proof (induction scs arbitrary: s)
  case (Cons sc1 scs)
  have eq: "refresh_signatures s (sc1 # scs) = refresh_signatures (refresh_signature s sc1) scs"
    by (simp add: refresh_signatures_foldl)
  show ?case
  proof (cases "sc = sc1")
    case True
    then show ?thesis
      unfolding eq using Cons.prems(3-5)
      by (intro keeps_damage_dirty [OF refresh_signatures_keeps]) (simp only: refresh_signature_fields(5) not_False_eq_True)
  next
    case False
    then have "sc_id sc \<noteq> sc_id sc1"
      using Cons.prems(1,2) by (metis (no_types, lifting) distinct.simps(2) list.set_map list.simps(9) image_eqI set_ConsD)
    then show ?thesis
      unfolding eq using Cons.prems False
      by (intro Cons.IH) (auto simp: signature_changed_refresh refresh_signature_fields)
  qed
qed simp

lemma parked_reconfigure: "distinct sources \<Longrightarrow> is_parked (timelines_reconfigure ots sources now) \<longleftrightarrow> sources = []"
  using reconfigure_keeps_timelines(1) [of sources ots now] by (auto simp: is_parked_def)

lemma foldl_mark_output_latched:
  "fs_flutter_request_latched (foldl mark_output_dirty s outs) = fs_flutter_request_latched s"
  by (induction outs arbitrary: s) (simp_all add: mark_output_dirty_def)

lemma reconfigure_sources_facts:
  fixes s :: "'m frame_scheduler" and now :: instant and configured :: "output_id set"
  assumes "distinct sources"
  defines "s' \<equiv> reconfigure_sources s configured sources now"
  shows "fs_outputs s' = timelines_reconfigure (fs_outputs s) sources now"
    and "fs_configured_outputs s' = configured" and "fs_output_signatures s' = fs_output_signatures s"
    and "fs_last_flutter_target s' = fs_last_flutter_target s"
    and "fs_flutter_tick s' = (if sources = [] then None else fs_flutter_tick s)"
    and "fs_flutter_request_latched s' \<longleftrightarrow> sources \<noteq> [] \<and> fs_flutter_request_latched s"
    and "out \<in> set (restarted_outputs s sources) \<Longrightarrow> out \<in> configured \<Longrightarrow> fs_dirty_outputs s' out \<noteq> None"
    and "out \<notin> set (restarted_outputs s sources) \<Longrightarrow> out \<in> configured \<Longrightarrow>
      fs_dirty_outputs s' out = fs_dirty_outputs s out"
    and "out \<in> configured \<Longrightarrow> keeps_damage s s' out"
proof -
  define s1 where "s1 = s\<lparr>fs_configured_outputs := configured, fs_outputs := timelines_reconfigure (fs_outputs s) sources now,
    fs_dirty_outputs := map_retain (\<lambda>out. out \<in> configured) (fs_dirty_outputs s)\<rparr>"
  define s2 where "s2 = foldl mark_output_dirty s1 (restarted_outputs s sources)"
  have o2: "fs_outputs s2 = timelines_reconfigure (fs_outputs s) sources now"
    by (simp add: s2_def foldl_mark_output_fields s1_def)
  have s': "s' = (if sources = [] then s2\<lparr>fs_flutter_request_latched := False, fs_flutter_outputs_dirty := False,
      fs_flutter_tick := None\<rparr> else s2)"
    unfolding parked_reconfigure [OF assms(1), of "fs_outputs s" now, symmetric] o2 [symmetric]
    by (simp only: s'_def reconfigure_sources_def Let_def s1_def s2_def)
  have dirty: "fs_dirty_outputs s' = fs_dirty_outputs s2"
    by (simp add: s')
  show "fs_outputs s' = timelines_reconfigure (fs_outputs s) sources now"
    "fs_configured_outputs s' = configured" "fs_output_signatures s' = fs_output_signatures s"
    "fs_last_flutter_target s' = fs_last_flutter_target s"
    "fs_flutter_tick s' = (if sources = [] then None else fs_flutter_tick s)"
    "fs_flutter_request_latched s' \<longleftrightarrow> sources \<noteq> [] \<and> fs_flutter_request_latched s"
    by (simp_all add: s' o2) (simp_all add: s2_def foldl_mark_output_fields foldl_mark_output_config foldl_mark_output_latched s1_def)
  show "fs_dirty_outputs s' out \<noteq> None" if "out \<in> set (restarted_outputs s sources)" "out \<in> configured"
    unfolding dirty s2_def using that by (intro foldl_mark_output_marks) (simp_all add: s1_def)
  show "fs_dirty_outputs s' out = fs_dirty_outputs s out"
    if "out \<notin> set (restarted_outputs s sources)" "out \<in> configured"
    unfolding dirty s2_def using foldl_mark_output_other [OF that(1), of s1] that(2)
    by (simp add: s1_def map_retain_def)
  show "keeps_damage s s' out" if "out \<in> configured"
    using foldl_mark_output_keeps [of s1 "restarted_outputs s sources" out] that
    by (simp add: keeps_damage_def dirty s2_def s1_def map_retain_def)
qed

lemma restarted_outputs_iff:
  assumes "distinct (map (\<lambda>t. ts_output (ot_source t)) (ots_timelines (fs_outputs s)))"
    and "distinct (map ts_output sources)" and "source \<in> set sources"
  shows "ts_output source \<in> set (restarted_outputs s sources) \<longleftrightarrow>
    source \<notin> ot_source ` set (ots_timelines (fs_outputs s))"
proof -
  let ?f = "find (\<lambda>t. ts_output (ot_source t) = ts_output source) (ots_timelines (fs_outputs s))"
  have inj: "inj_on ts_output (set sources)" "inj_on (\<lambda>t. ts_output (ot_source t)) (set (ots_timelines (fs_outputs s)))"
    using assms(1,2) by (simp_all add: distinct_map)
  have one: "source' = source" if "source' \<in> set sources" "ts_output source' = ts_output source" for source'
    by (rule inj_onD [OF inj(1) that(2,1) assms(3)])
  have uniq: "t = t'" if "t \<in> set (ots_timelines (fs_outputs s))" "t' \<in> set (ots_timelines (fs_outputs s))"
    "ts_output (ot_source t) = ts_output (ot_source t')" for t t'
    by (rule inj_onD [OF inj(2) that(3,1,2)])
  have "ts_output source \<in> set (restarted_outputs s sources) \<longleftrightarrow>
      (\<exists>source'\<in>set sources. ts_output source' = ts_output source \<and>
        (case find (\<lambda>t. ts_output (ot_source t) = ts_output source') (ots_timelines (fs_outputs s)) of
           None \<Rightarrow> True | Some t \<Rightarrow> ot_source t \<noteq> source'))"
    unfolding restarted_outputs_def by (auto simp: image_iff)
  also have "\<dots> \<longleftrightarrow> (case ?f of None \<Rightarrow> True | Some t \<Rightarrow> ot_source t \<noteq> source)"
    using assms(3) one by blast
  also have "\<dots> \<longleftrightarrow> source \<notin> ot_source ` set (ots_timelines (fs_outputs s))"
  proof (cases ?f)
    case None
    have "\<forall>t\<in>set (ots_timelines (fs_outputs s)). ts_output (ot_source t) \<noteq> ts_output source"
      using None unfolding find_None_iff by blast
    then show ?thesis
      unfolding None by auto
  next
    case (Some t)
    then have t: "t \<in> set (ots_timelines (fs_outputs s))" "ts_output (ot_source t) = ts_output source"
      by (auto simp: find_Some_iff)
    then show ?thesis
      using Some uniq by force
  qed
  finally show ?thesis .
qed

text \<open>C38: Reconfiguring the outputs leaves one timeline per powered output: a surviving source keeps its
  timeline unchanged and a new or changed one starts afresh. A powered output whose source or contents
  changed becomes dirty, every other output keeps exactly the damage it had, and no damage is dropped.\<close>

theorem reconfigure_touches_only_changes:
  assumes "distinct (map sc_id scanouts)"
    and "distinct (map (\<lambda>t. ts_output (ot_source t)) (ots_timelines (fs_outputs s)))"
    and "s' = reconfigure refresh s scanouts now" and "sc \<in> set scanouts"
    and "old = set (ots_timelines (fs_outputs s))" and "new = set (ots_timelines (fs_outputs s'))"
    and "sources = timeline_source_of refresh ` {sc \<in> set scanouts. sc_powered sc}"
  shows "ot_source ` new = sources \<and>
    (\<forall>t. t \<in> new \<longleftrightarrow> t \<in> old \<and> ot_source t \<in> sources \<or>
       ot_source t \<in> sources - ot_source ` old \<and> t = timeline_new (ot_source t) now) \<and>
    (if sc_powered sc \<and> (timeline_source_of refresh sc \<notin> ot_source ` old \<or> signature_changed s sc)
     then fs_dirty_outputs s' (sc_id sc) \<noteq> None
     else fs_dirty_outputs s' (sc_id sc) = fs_dirty_outputs s (sc_id sc)) \<and>
    keeps_damage s s' (sc_id sc)"
proof -
  define srcs where "srcs = map (timeline_source_of refresh) (filter sc_powered scanouts)"
  define s1 where "s1 = reconfigure_sources s (set (map sc_id scanouts)) srcs now"
  define s2 where "s2 = s1\<lparr>fs_output_signatures :=
    map_retain (\<lambda>out. out \<in> fs_configured_outputs s1) (fs_output_signatures s1)\<rparr>"
  have s': "s' = refresh_signatures s2 scanouts"
    by (simp add: assms(3) reconfigure_def srcs_def s1_def s2_def Let_def)
  have ids: "map ts_output srcs = map sc_id (filter sc_powered scanouts)"
    by (simp add: srcs_def timeline_source_of_def)
  have dist_out: "distinct (map ts_output srcs)"
    unfolding ids using assms(1) by (rule distinct_map_filter)
  then have dist: "distinct srcs"
    by (simp add: distinct_map)
  note facts = reconfigure_sources_facts [OF dist, where s = s and configured = "set (map sc_id scanouts)" and now = now, folded s1_def]
  have outs: "fs_outputs s' = timelines_reconfigure (fs_outputs s) srcs now"
    by (simp add: s' refresh_signatures_fields s2_def facts)
  have set: "set srcs = sources"
    by (simp add: srcs_def assms(7))
  have id: "sc_id sc \<in> set (map sc_id scanouts)"
    using assms(4) by simp
  have changed: "signature_changed s2 sc \<longleftrightarrow> signature_changed s sc"
    using id by (simp add: signature_changed_def s2_def facts map_retain_def)
  have dirty2: "fs_dirty_outputs s2 = fs_dirty_outputs s1"
    by (simp add: s2_def)
  have restarted: "sc_id sc \<in> set (restarted_outputs s srcs) \<longleftrightarrow>
      sc_powered sc \<and> timeline_source_of refresh sc \<notin> ot_source ` old"
  proof (cases "sc_powered sc")
    case True
    then have "timeline_source_of refresh sc \<in> set srcs"
      using assms(4) by (simp add: srcs_def)
    from restarted_outputs_iff [OF assms(2) dist_out this] show ?thesis
      using True by (simp add: assms(5) timeline_source_of_def)
  next
    case False
    have "set (restarted_outputs s srcs) \<subseteq> set (map ts_output srcs)"
      by (auto simp: restarted_outputs_def)
    moreover have "sc_id sc \<notin> set (map ts_output srcs)"
      unfolding ids using False assms(1,4) by (auto simp: distinct_map dest: inj_onD)
    ultimately show ?thesis
      using False by blast
  qed
  have same: "sc' = sc" if "sc' \<in> set scanouts" "sc_id sc' = sc_id sc" for sc'
    using assms(1,4) that by (auto simp: distinct_map dest: inj_onD)
  have "if sc_powered sc \<and> (timeline_source_of refresh sc \<notin> ot_source ` old \<or> signature_changed s sc)
     then fs_dirty_outputs s' (sc_id sc) \<noteq> None
     else fs_dirty_outputs s' (sc_id sc) = fs_dirty_outputs s (sc_id sc)"
  proof (cases "sc_powered sc \<and> signature_changed s sc")
    case True
    then have "fs_dirty_outputs s' (sc_id sc) \<noteq> None"
      unfolding s' using id assms(1,4) changed by (intro refresh_signatures_marks) (simp_all add: s2_def facts)
    then show ?thesis
      using True by simp
  next
    case False
    have "fs_dirty_outputs s' (sc_id sc) = fs_dirty_outputs s1 (sc_id sc)"
      unfolding s' dirty2 [symmetric] using False changed same
      by (intro refresh_signatures_other [OF assms(1)]) blast
    then show ?thesis
      using False facts(7,8) [where out = "sc_id sc", OF _ id] restarted by (cases "sc_id sc \<in> set (restarted_outputs s srcs)") auto
  qed
  moreover have "keeps_damage s s' (sc_id sc)"
    unfolding s'
  proof (rule keeps_damage_trans [OF _ refresh_signatures_keeps])
    show "keeps_damage s s2 (sc_id sc)"
      using facts(9) [OF id] unfolding keeps_damage_def dirty2 .
  qed
  moreover have "ot_source ` new = sources"
    unfolding assms(6) outs set [symmetric] by (rule reconfigure_keeps_timelines [OF dist])
  moreover have "t \<in> new \<longleftrightarrow> t \<in> old \<and> ot_source t \<in> sources \<or>
       ot_source t \<in> sources - ot_source ` old \<and> t = timeline_new (ot_source t) now" for t
    unfolding assms(5,6) outs set [symmetric] by (rule reconfigure_keeps_timelines [OF dist])
  ultimately show ?thesis
    by (intro conjI allI)
qed

lemma reconfigure_touches_only_changes_witness:
  "fs_dirty_outputs (reconfigure id sample_scheduler [sample_scanout\<lparr>sc_transform := Rotate90\<rparr>] 5) 7 \<noteq> None"
proof -
  define sc where "sc = sample_scanout\<lparr>sc_transform := Rotate90\<rparr>"
  have sc: "sc_powered sc" "sc_id sc = 7" "signature_changed sample_scheduler sc"
    by (simp_all add: sc_def sample_scanout_def signature_changed_def sample_scheduler_eq signature_of_def)
  have d: "distinct (map sc_id [sc])" "sc \<in> set [sc]"
    "distinct (map (\<lambda>t. ts_output (ot_source t)) (ots_timelines (fs_outputs sample_scheduler)))"
    by (simp_all add: sample_scheduler_eq)
  have "if sc_powered sc \<and> (timeline_source_of id sc \<notin> ot_source ` set (ots_timelines (fs_outputs sample_scheduler)) \<or>
        signature_changed sample_scheduler sc)
     then fs_dirty_outputs (reconfigure id sample_scheduler [sc] 5) (sc_id sc) \<noteq> None
     else fs_dirty_outputs (reconfigure id sample_scheduler [sc] 5) (sc_id sc) =
       fs_dirty_outputs sample_scheduler (sc_id sc)"
    using reconfigure_touches_only_changes [OF d(1,3) refl d(2) refl refl refl, of id 5]
    by (elim conjE)
  then show ?thesis
    using sc unfolding sc_def [symmetric] by simp
qed

lemma reconfigure_flutter_fields:
  "fs_last_flutter_target (reconfigure refresh s scanouts now) = fs_last_flutter_target s"
  "fs_flutter_tick (reconfigure refresh s scanouts now) = fs_flutter_tick s \<or>
   fs_flutter_tick (reconfigure refresh s scanouts now) = None"
  by (simp_all add: reconfigure_def reconfigure_sources_def refresh_signatures_fields Let_def
      foldl_mark_output_fields)

lemma step_frame_target_ahead:
  assumes "step_with_output_availability s now pending avail clock = (s', action)"
  shows "target_ahead s'"
proof -
  have "ft_presentation_target tick > target"
    if tick: "fs_flutter_tick s' = Some tick" and target: "fs_last_flutter_target s' = Some target" for tick target
  proof -
    have "step_flutter_tick (step_prepare s now pending avail) = Some tick"
      using tick step_result(9) [OF assms] by (auto split: if_splits option.splits)
    then show ?thesis
      using target step_result(6) [OF assms] by (auto simp: step_flutter_tick_def split: option.splits if_splits)
  qed
  then show ?thesis
    by (auto simp: target_ahead_def flutter_frame_dispatched_asserts_def split: option.splits)
qed

lemma scheduler_step_target_ahead:
  assumes "scheduler_step refresh s k s'" "target_ahead s"
  shows "target_ahead s'"
  using assms
proof (cases rule: scheduler_step.cases)
  case (step_frame now pending avail clock action)
  then show ?thesis
    using step_frame_target_ahead by blast
next
  case (step_complete out serial)
  show ?thesis
    by (rule target_ahead_same [OF _ _ assms(2)]) (auto simp: step_complete complete_render_def split: option.splits)
next
  case step_dispatched
  then show ?thesis
    by (auto simp: flutter_frame_dispatched_def target_ahead_def split: option.splits)
next
  case (step_reconfigure scanouts now)
  show ?thesis
    unfolding step_reconfigure by (rule target_ahead_same [OF reconfigure_flutter_fields(2,1) assms(2)])
qed (auto intro!: target_ahead_same [OF _ _ assms(2)] simp: mark_output_dirty_def mark_all_dirty_def observe_presentation_def)

lemma scheduler_run_target_ahead: "scheduler_run refresh s0 s \<Longrightarrow> target_ahead s0 \<Longrightarrow> target_ahead s"
  by (induction rule: scheduler_run.induct) (auto intro: scheduler_step_target_ahead)

text \<open>C12: Throughout every history of the scheduler a step that advances the Dart scene on an output
  leaves the tick its dispatch needs, so that the dispatch does not panic, its assertion holds, and the
  target it records is strictly later than every target recorded before.\<close>

theorem flutter_targets_increase:
  assumes "scheduler_run refresh (frame_scheduler_new refresh audit_clock scanouts now0) s"
    and "step_with_output_availability s now pending avail clock = (s', Render (Some out))"
  shows "flutter_frame_dispatched_asserts s' \<and>
    (\<exists>s'' tick. flutter_frame_dispatched s' = Some s'' \<and> fs_flutter_tick s' = Some tick \<and> ft_output tick = out \<and>
       fs_last_flutter_target s'' = Some (ft_presentation_target tick) \<and>
       (\<forall>target. fs_last_flutter_target s = Some target \<longrightarrow> target < ft_presentation_target tick))
    \<and> (fs_flutter_tick s \<noteq> None \<longrightarrow> flutter_frame_dispatched_asserts s)"
proof -
  have "target_ahead (frame_scheduler_new refresh audit_clock scanouts now0)"
    by (simp add: target_ahead_def frame_scheduler_new_def mark_all_dirty_def)
  then have "target_ahead s"
    by (rule scheduler_run_target_ahead [OF assms(1)])
  moreover obtain tick where tick: "fs_flutter_tick s' = Some tick" "ft_output tick = out"
    using step_result(10) [OF assms(2)] by (cases "fs_flutter_tick s'") simp_all
  moreover have "flutter_frame_dispatched_asserts s'"
    using step_frame_target_ahead [OF assms(2)] tick by (simp add: target_ahead_def)
  ultimately show ?thesis
    using step_result(6) [OF assms(2)]
    by (auto simp: target_ahead_def flutter_frame_dispatched_def flutter_frame_dispatched_asserts_def)
qed

lemma flutter_targets_increase_witness:
  "flutter_frame_dispatched_asserts (fst sample_step)"
proof -
  have step: "step_with_output_availability sample_scheduler 0 \<lparr>flutter_requested = True\<rparr> (\<lambda>_. True) 0 =
      (fst sample_step, Render (Some 7))"
    using sample_step_eq by (simp add: sample_step_def)
  show ?thesis
    using flutter_targets_increase [OF run_refl step [unfolded sample_scheduler_def]] by (rule conjunct1)
qed

end
