(* ===== verification/Shortcut_Syntax.thy ===== *)
theory Shortcut_Syntax
  imports Prelude
begin

unbundle bit_operations_syntax

text \<open>
  The language of shortcut expressions (\<open>compositor/src/bin/deniald/native_shortcut.rs\<close>): modifiers, named keys,
  touchpad gestures, and the parser that turns an expression such as \<open>Super+Shift+Up\<close> into a trigger with its
  canonical spelling. A string is the list of its UTF-8 bytes. The message of an error is represented by its
  reason and the arguments the message is formatted from.
\<close>

section \<open>Strings\<close>

text \<open>\<open>to_ascii_lowercase\<close> and \<open>eq_ignore_ascii_case\<close>.\<close>

definition ascii_lower :: "char \<Rightarrow> char" where
  "ascii_lower c = (let n = of_char c :: int in if 65 \<le> n \<and> n \<le> 90 then char_of (n + 32) else c)"

definition to_ascii_lowercase :: "string \<Rightarrow> string" where
  "to_ascii_lowercase s = map ascii_lower s"

definition eq_ignore_ascii_case :: "string \<Rightarrow> string \<Rightarrow> bool" where
  "eq_ignore_ascii_case a b \<longleftrightarrow> to_ascii_lowercase a = to_ascii_lowercase b"

text \<open>\<open>str::split\<close> on one ASCII character.\<close>

fun split_on :: "char \<Rightarrow> string \<Rightarrow> string list" where
  "split_on c [] = [[]]"
| "split_on c (x # xs) = (if x = c then [] # split_on c xs else
     (case split_on c xs of [] \<Rightarrow> [[x]] | w # ws \<Rightarrow> (x # w) # ws))"

fun join_with :: "char \<Rightarrow> string list \<Rightarrow> string" where
  "join_with c [] = []"
| "join_with c [w] = w"
| "join_with c (w # ws) = w @ c # join_with c ws"

text \<open>The UTF-8 encodings of the characters with the property \<open>White_Space\<close>, which \<open>str::trim\<close> removes.\<close>

definition white_space :: "string list" where
  "white_space =
     [[CHR 0x09], [CHR 0x0A], [CHR 0x0B], [CHR 0x0C], [CHR 0x0D], [CHR 0x20],
      [CHR 0xC2, CHR 0x85], [CHR 0xC2, CHR 0xA0], [CHR 0xE1, CHR 0x9A, CHR 0x80],
      [CHR 0xE2, CHR 0x80, CHR 0x80], [CHR 0xE2, CHR 0x80, CHR 0x81], [CHR 0xE2, CHR 0x80, CHR 0x82],
      [CHR 0xE2, CHR 0x80, CHR 0x83], [CHR 0xE2, CHR 0x80, CHR 0x84], [CHR 0xE2, CHR 0x80, CHR 0x85],
      [CHR 0xE2, CHR 0x80, CHR 0x86], [CHR 0xE2, CHR 0x80, CHR 0x87], [CHR 0xE2, CHR 0x80, CHR 0x88],
      [CHR 0xE2, CHR 0x80, CHR 0x89], [CHR 0xE2, CHR 0x80, CHR 0x8A], [CHR 0xE2, CHR 0x80, CHR 0xA8],
      [CHR 0xE2, CHR 0x80, CHR 0xA9], [CHR 0xE2, CHR 0x80, CHR 0xAF], [CHR 0xE2, CHR 0x81, CHR 0x9F],
      [CHR 0xE3, CHR 0x80, CHR 0x80]]"

fun strip_prefix :: "string \<Rightarrow> string \<Rightarrow> string option" where
  "strip_prefix [] s = Some s"
| "strip_prefix (p # ps) [] = None"
| "strip_prefix (p # ps) (x # xs) = (if p = x then strip_prefix ps xs else None)"

text \<open>Drops leading occurrences of the patterns, none of which is empty; at most as many as there are bytes.\<close>

fun find_stripped :: "string list \<Rightarrow> string \<Rightarrow> string option" where
  "find_stripped [] s = None"
| "find_stripped (p # ps) s = (case strip_prefix p s of Some rest \<Rightarrow> Some rest | None \<Rightarrow> find_stripped ps s)"

fun trim_front :: "string list \<Rightarrow> nat \<Rightarrow> string \<Rightarrow> string" where
  "trim_front patterns 0 s = s"
| "trim_front patterns (Suc n) s =
     (case find_stripped patterns s of Some rest \<Rightarrow> trim_front patterns n rest | None \<Rightarrow> s)"

definition trim :: "string \<Rightarrow> string" where
  "trim s =
     (let front = trim_front white_space (length s) s
      in rev (trim_front (map rev white_space) (length front) (rev front)))"

text \<open>\<open>parse::<u32>\<close> of a string without sign: nonempty decimal digits whose value fits.\<close>

definition ascii_digit :: "char \<Rightarrow> int option" where
  "ascii_digit c = (let n = of_char c :: int in if 48 \<le> n \<and> n \<le> 57 then Some (n - 48) else None)"

fun parse_digits :: "int \<Rightarrow> string \<Rightarrow> int option" where
  "parse_digits acc [] = Some acc"
| "parse_digits acc (c # cs) =
     (case ascii_digit c of
        None \<Rightarrow> None
      | Some d \<Rightarrow> if acc * 10 + d < 2 ^ 32 then parse_digits (acc * 10 + d) cs else None)"

definition parse_u32 :: "string \<Rightarrow> int option" where
  "parse_u32 s =
     (case s of
        [] \<Rightarrow> None
      | c # cs \<Rightarrow> if c = CHR ''+'' then (if cs = [] then None else parse_digits 0 cs) else parse_digits 0 s)"

text \<open>\<open>format!("{n}")\<close>.\<close>

function decimal :: "int \<Rightarrow> string" where
  "decimal n = (if n < 10 then [char_of (48 + n)] else decimal (n div 10) @ [char_of (48 + n mod 10)])"
  by auto
termination
  by (relation "measure nat") auto

section \<open>Triggers\<close>

datatype modifier = Super | Ctrl | Alt | Shift

datatype shortcut_gesture =
  ThreeFingerSwipeUp | ThreeFingerSwipeLeft | ThreeFingerSwipeRight | FourFingerSwipeLeft | FourFingerSwipeRight

datatype trigger_key = Evdev u32 | ModifierTap modifier | Gesture shortcut_gesture

record shortcut_trigger =
  tr_modifiers :: u8
  tr_key :: trigger_key
  tr_canonical :: string

fun modifier_flag :: "modifier \<Rightarrow> u8" where
  "modifier_flag Super = 1"
| "modifier_flag Ctrl = 2"
| "modifier_flag Alt = 4"
| "modifier_flag Shift = 8"

fun modifier_name :: "modifier \<Rightarrow> string" where
  "modifier_name Super = ''Super''"
| "modifier_name Ctrl = ''Ctrl''"
| "modifier_name Alt = ''Alt''"
| "modifier_name Shift = ''Shift''"

fun gesture_name :: "shortcut_gesture \<Rightarrow> string" where
  "gesture_name ThreeFingerSwipeUp = ''ThreeFingerSwipeUp''"
| "gesture_name ThreeFingerSwipeLeft = ''ThreeFingerSwipeLeft''"
| "gesture_name ThreeFingerSwipeRight = ''ThreeFingerSwipeRight''"
| "gesture_name FourFingerSwipeLeft = ''FourFingerSwipeLeft''"
| "gesture_name FourFingerSwipeRight = ''FourFingerSwipeRight''"

section \<open>Named keys\<close>

datatype shortcut_input_category =
  CModifier | CNavigation | CEditing | CPunctuation | CFunction | CMedia | CHardware | CSpecial | CGesture

record named_key_definition =
  nk_keycode :: u32
  nk_canonical :: string
  nk_aliases :: "string list"
  nk_category :: shortcut_input_category

definition named_key :: "u32 \<Rightarrow> string \<Rightarrow> string list \<Rightarrow> shortcut_input_category \<Rightarrow> named_key_definition" where
  "named_key code name names category =
     \<lparr>nk_keycode = code, nk_canonical = name, nk_aliases = names, nk_category = category\<rparr>"

definition NAMED_KEYS :: "named_key_definition list" where
  "NAMED_KEYS = [
   named_key 1 ''Escape'' [''Esc''] CEditing,
   named_key 14 ''Backspace'' [] CEditing,
   named_key 15 ''Tab'' [] CEditing,
   named_key 28 ''Enter'' [''Return''] CEditing,
   named_key 57 ''Space'' [] CEditing,
   named_key 12 ''Minus'' [] CPunctuation,
   named_key 13 ''Equal'' [] CPunctuation,
   named_key 26 ''BracketLeft'' [''LeftBracket''] CPunctuation,
   named_key 27 ''BracketRight'' [''RightBracket''] CPunctuation,
   named_key 39 ''Semicolon'' [] CPunctuation,
   named_key 40 ''Apostrophe'' [] CPunctuation,
   named_key 41 ''Grave'' [] CPunctuation,
   named_key 43 ''Backslash'' [] CPunctuation,
   named_key 51 ''Comma'' [] CPunctuation,
   named_key 52 ''Period'' [''Dot''] CPunctuation,
   named_key 53 ''Slash'' [] CPunctuation,
   named_key 58 ''CapsLock'' [] CSpecial,
   named_key 69 ''NumLock'' [] CSpecial,
   named_key 70 ''ScrollLock'' [] CSpecial,
   named_key 102 ''Home'' [] CNavigation,
   named_key 103 ''Up'' [] CNavigation,
   named_key 104 ''PageUp'' [''PgUp''] CNavigation,
   named_key 105 ''Left'' [] CNavigation,
   named_key 106 ''Right'' [] CNavigation,
   named_key 107 ''End'' [] CNavigation,
   named_key 108 ''Down'' [] CNavigation,
   named_key 109 ''PageDown'' [''PgDown''] CNavigation,
   named_key 110 ''Insert'' [] CEditing,
   named_key 111 ''Delete'' [] CEditing,
   named_key 113 ''VolumeMute'' [''AudioMute'', ''XF86AudioMute''] CMedia,
   named_key 114 ''VolumeDown'' [''AudioDown'', ''XF86AudioLowerVolume''] CMedia,
   named_key 115 ''VolumeUp'' [''AudioUp'', ''XF86AudioRaiseVolume''] CMedia,
   named_key 224 ''BrightnessDown'' [''XF86MonBrightnessDown''] CHardware,
   named_key 225 ''BrightnessUp'' [''XF86MonBrightnessUp''] CHardware,
   named_key 99 ''PrintScreen'' [''Print'', ''SysRq''] CSpecial,
   named_key 119 ''Pause'' [] CSpecial,
   named_key 139 ''Menu'' [] CSpecial,
   named_key 165 ''PreviousTrack'' [''XF86AudioPrev''] CMedia,
   named_key 163 ''NextTrack'' [''XF86AudioNext''] CMedia,
   named_key 164 ''PlayPause'' [''XF86AudioPlay''] CMedia,
   named_key 166 ''StopMedia'' [''XF86AudioStop''] CMedia,
   named_key 229 ''KeyboardBrightnessDown'' [''XF86KbdBrightnessDown''] CHardware,
   named_key 230 ''KeyboardBrightnessUp'' [''XF86KbdBrightnessUp''] CHardware]"

definition MAX_SHORTCUT_EXPRESSION_BYTES :: nat where "MAX_SHORTCUT_EXPRESSION_BYTES = 128"

section \<open>The parser\<close>

text \<open>Why a document is refused.\<close>

datatype document_error =
    ExpressionLength | InvalidExpression string | ModifierOnly string | UnknownModifier string
  | DuplicateModifier string | NeedsNonModifier string | UnknownKey string | UnsupportedVersion u64 | RevisionZero
  | TooManyShortcuts | DuplicateShortcut string | SpawnCount | SpawnArgument nat | SpawnProgramEmpty | ShellCommand
  | DesktopFileId string | RevisionExhausted | FileTooLarge

definition parse_gesture :: "string \<Rightarrow> shortcut_gesture option" where
  "parse_gesture name =
     (let s = filter (\<lambda>c. c \<notin> {CHR '' '', CHR ''-'', CHR ''_''}) (to_ascii_lowercase name)
      in if s = ''threefingerswipeup'' \<or> s = ''3fingerswipeup'' then Some ThreeFingerSwipeUp
         else if s = ''threefingerswipeleft'' \<or> s = ''3fingerswipeleft'' then Some ThreeFingerSwipeLeft
         else if s = ''threefingerswiperight'' \<or> s = ''3fingerswiperight'' then Some ThreeFingerSwipeRight
         else if s = ''fourfingerswipeleft'' \<or> s = ''4fingerswipeleft'' then Some FourFingerSwipeLeft
         else if s = ''fourfingerswiperight'' \<or> s = ''4fingerswiperight'' then Some FourFingerSwipeRight
         else None)"

definition parse_modifier :: "string \<Rightarrow> modifier option" where
  "parse_modifier name =
     (let s = to_ascii_lowercase name
      in if s = ''super'' \<or> s = ''meta'' \<or> s = ''win'' then Some Super
         else if s = ''ctrl'' \<or> s = ''control'' then Some Ctrl
         else if s = ''alt'' then Some Alt
         else if s = ''shift'' then Some Shift
         else None)"

definition letter_keycodes :: "u32 list" where
  "letter_keycodes = [30, 48, 46, 32, 18, 33, 34, 35, 23, 36, 37, 38, 50, 49, 24, 25, 16, 19, 31, 20, 22, 47, 17, 45, 21, 44]"

definition function_keycode :: "int \<Rightarrow> u32 option" where
  "function_keycode n =
     (if 1 \<le> n \<and> n \<le> 10 then Some (word_of_int (58 + n))
      else if n = 11 then Some 87
      else if n = 12 then Some 88
      else if 13 \<le> n \<and> n \<le> 24 then Some (word_of_int (170 + n))
      else None)"

definition named_key_matches :: "string \<Rightarrow> named_key_definition \<Rightarrow> bool" where
  "named_key_matches lower key \<longleftrightarrow>
     eq_ignore_ascii_case (nk_canonical key) lower \<or> list_ex (\<lambda>a. eq_ignore_ascii_case a lower) (nk_aliases key)"

definition parse_named_key :: "string \<Rightarrow> (u32 \<times> string) option" where
  "parse_named_key lower = map_option (\<lambda>key. (nk_keycode key, nk_canonical key)) (find (named_key_matches lower) NAMED_KEYS)"

text \<open>A single letter or digit, a function key, or a named key.\<close>

definition parse_function_key :: "string \<Rightarrow> (u32 \<times> string) option" where
  "parse_function_key lower =
     (case Option.bind (strip_prefix ''f'' lower) parse_u32 of
        Some n \<Rightarrow> map_option (\<lambda>code. (code, ''F'' @ decimal n)) (function_keycode n)
      | None \<Rightarrow> parse_named_key lower)"

definition parse_key :: "string \<Rightarrow> (u32 \<times> string) option" where
  "parse_key name =
     (let lower = to_ascii_lowercase name
      in case lower of
           [c] \<Rightarrow>
             let n = of_char c :: int
             in if 97 \<le> n \<and> n \<le> 122 then Some (letter_keycodes ! nat (n - 97), [char_of (n - 32)])
                else if 48 \<le> n \<and> n \<le> 57 then Some (if n = 48 then 11 else word_of_int (n - 48) + 1, [c])
                else parse_function_key lower
         | _ \<Rightarrow> parse_function_key lower)"

text \<open>Collects the modifier names of an expression.\<close>

fun parse_modifiers :: "u8 \<Rightarrow> string list \<Rightarrow> document_error + u8" where
  "parse_modifiers mods [] = Inr mods"
| "parse_modifiers mods (name # names) =
     and_then (ok_or (parse_modifier name) (UnknownModifier name)) (\<lambda>m.
       if mods AND modifier_flag m \<noteq> 0 then Inl (DuplicateModifier (modifier_name m))
       else parse_modifiers (mods OR modifier_flag m) names)"

definition all_modifiers :: "modifier list" where
  "all_modifiers = [Super, Ctrl, Alt, Shift]"

definition modifier_names :: "u8 \<Rightarrow> string list" where
  "modifier_names mods = map modifier_name (filter (\<lambda>m. mods AND modifier_flag m \<noteq> 0) all_modifiers)"

definition parse_chord :: "string \<Rightarrow> string list \<Rightarrow> document_error + shortcut_trigger" where
  "parse_chord expression tokens =
     and_then (parse_modifiers 0 (butlast tokens)) (\<lambda>mods.
       if parse_modifier (last tokens) \<noteq> None then Inl (NeedsNonModifier expression)
       else and_then (ok_or (parse_key (last tokens)) (UnknownKey (last tokens))) (\<lambda>(code, key).
         Inr \<lparr>tr_modifiers = mods, tr_key = Evdev code, tr_canonical = join_with CHR ''+'' (modifier_names mods @ [key])\<rparr>))"

definition parse_shortcut :: "string \<Rightarrow> document_error + shortcut_trigger" where
  "parse_shortcut expression =
     (if expression = [] \<or> MAX_SHORTCUT_EXPRESSION_BYTES < length expression then Inl ExpressionLength
      else
        let tokens = map trim (split_on CHR ''+'' expression)
        in if tokens = [] \<or> [] \<in> set tokens then Inl (InvalidExpression expression)
           else case (if length tokens = 1 then parse_gesture (hd tokens) else None) of
             Some gesture \<Rightarrow> Inr \<lparr>tr_modifiers = 0, tr_key = Gesture gesture, tr_canonical = gesture_name gesture\<rparr>
           | None \<Rightarrow>
               (case (if length tokens = 1 then parse_modifier (hd tokens) else None) of
                  Some m \<Rightarrow>
                    if m \<noteq> Super then Inl (ModifierOnly expression)
                    else Inr \<lparr>tr_modifiers = 0, tr_key = ModifierTap m, tr_canonical = modifier_name m\<rparr>
                | None \<Rightarrow> parse_chord expression tokens))"

section \<open>Evaluation\<close>

lemma ascii_lower_code [code]:
  "ascii_lower (Char b0 b1 b2 b3 b4 b5 b6 b7) =
     (if \<not> b7 \<and> b6 \<and> \<not> b5 \<and> (b0 \<or> b1 \<or> b2 \<or> b3 \<or> b4) \<and> \<not> (b4 \<and> b3 \<and> (b2 \<or> b0 \<and> b1))
      then Char b0 b1 b2 b3 b4 True b6 b7 else Char b0 b1 b2 b3 b4 b5 b6 b7)"
  by (cases b0; cases b1; cases b2; cases b3; cases b4; cases b5; cases b6; cases b7; simp add: ascii_lower_def char_of_def bit_simps)

lemma eq_ignore_ascii_case_code [code]:
  "eq_ignore_ascii_case [] [] = True"
  "eq_ignore_ascii_case (x # xs) [] = False"
  "eq_ignore_ascii_case [] (y # ys) = False"
  "eq_ignore_ascii_case (x # xs) (y # ys) = (if ascii_lower x = ascii_lower y then eq_ignore_ascii_case xs ys else False)"
  by (simp_all add: eq_ignore_ascii_case_def to_ascii_lowercase_def)

text \<open>Every key a shortcut can name, with its canonical spelling.\<close>

definition letter_table :: "(u32 \<times> string) list" where
  "letter_table = map (\<lambda>n. (letter_keycodes ! nat (n - 97), [char_of (n - 32)])) [97..122]"

definition digit_table :: "(u32 \<times> string) list" where
  "digit_table = map (\<lambda>n. (if n = 48 then 11 else word_of_int (n - 48) + 1, [char_of n])) [48..57]"

definition function_table :: "(u32 \<times> string) list" where
  "function_table = map (\<lambda>n. (the (function_keycode n), ''F'' @ decimal n)) [1..24]"

definition named_table :: "(u32 \<times> string) list" where
  "named_table = map (\<lambda>key. (nk_keycode key, nk_canonical key)) NAMED_KEYS"

definition key_table :: "(u32 \<times> string) list" where
  "key_table = letter_table @ digit_table @ function_table @ named_table"

definition modifier_sets :: "u8 list" where
  "modifier_sets = map word_of_int [0..15]"

definition clean_char :: "char \<Rightarrow> bool" where
  "clean_char c = (let n = of_char c :: int in 48 \<le> n \<and> n \<le> 57 \<or> 65 \<le> n \<and> n \<le> 90 \<or> 97 \<le> n \<and> n \<le> 122)"

definition clean_token :: "string \<Rightarrow> bool" where
  "clean_token s \<longleftrightarrow> s \<noteq> [] \<and> list_all clean_char s"

definition key_parses :: "u32 \<times> string \<Rightarrow> bool" where
  "key_parses = (\<lambda>(code, key). parse_key key = Some (code, key) \<and> parse_modifier key = None \<and> parse_gesture key = None \<and>
     clean_token key \<and> length key \<le> 22)"

lemma short_keys_parse: "list_all key_parses (letter_table @ digit_table @ function_table)"
  by code_simp

lemma named_keys_parse: "list_all key_parses named_table"
  by code_simp

lemma key_table_distinct: "distinct (map fst key_table)"
  by code_simp

lemma modifier_sets_parse:
  "list_all (\<lambda>mods. parse_modifiers 0 (modifier_names mods) = Inr mods \<and>
     list_all clean_token (modifier_names mods) \<and> sum_list (map length (modifier_names mods)) \<le> 17 \<and>
     length (modifier_names mods) \<le> 4 \<and>
     list_all (\<lambda>m. mods OR modifier_flag m \<in> set modifier_sets) all_modifiers) modifier_sets"
  by code_simp

lemma gestures_parse:
  "list_all (\<lambda>g. parse_gesture (gesture_name g) = Some g \<and> clean_token (gesture_name g) \<and> length (gesture_name g) \<le> 22)
     [ThreeFingerSwipeUp, ThreeFingerSwipeLeft, ThreeFingerSwipeRight, FourFingerSwipeLeft, FourFingerSwipeRight]"
  by code_simp

section \<open>Tokens\<close>

lemma split_on_not_Nil [simp]: "split_on c s \<noteq> []"
  by (cases s) (auto split: list.splits)

lemma split_on_token: "c \<notin> set s \<Longrightarrow> split_on c s = [s]"
  by (induction s) auto

lemma split_on_append: "c \<notin> set w \<Longrightarrow> split_on c (w @ c # s) = w # split_on c s"
  by (induction w) auto

lemma split_join: "ws \<noteq> [] \<Longrightarrow> \<forall>w\<in>set ws. c \<notin> set w \<Longrightarrow> split_on c (join_with c ws) = ws"
proof (induction c ws rule: join_with.induct)
  case (3 c w v ws)
  then show ?case
    by (simp add: split_on_append)
qed (auto simp: split_on_token)

lemma length_join: "length (join_with c ws) \<le> sum_list (map length ws) + length ws"
  by (induction c ws rule: join_with.induct) auto

lemma find_stripped_None: "\<forall>p\<in>set ps. p \<noteq> [] \<and> hd p \<noteq> x \<Longrightarrow> find_stripped ps (x # xs) = None"
proof (induction ps)
  case (Cons p ps)
  then show ?case
    by (cases p) auto
qed simp

lemma trim_front_id: "s = [] \<or> (\<forall>p\<in>set ps. p \<noteq> [] \<and> hd p \<noteq> hd s) \<Longrightarrow> trim_front ps (length s) s = s"
proof (cases s)
  case (Cons x xs)
  assume "s = [] \<or> (\<forall>p\<in>set ps. p \<noteq> [] \<and> hd p \<noteq> hd s)"
  then have "find_stripped ps (x # xs) = None"
    using Cons by (intro find_stripped_None) auto
  then show ?thesis
    by (simp add: Cons)
qed simp

lemma white_space_unclean: "list_all (\<lambda>p. p \<noteq> [] \<and> \<not> clean_char (hd p) \<and> \<not> clean_char (last p)) white_space"
  by code_simp

lemma trim_clean: "clean_token s \<Longrightarrow> trim s = s"
proof -
  assume clean: "clean_token s"
  then have "clean_char (hd s)" "clean_char (hd (rev s))"
    by (auto simp: clean_token_def list_all_iff hd_rev)
  then have "\<forall>p\<in>set white_space. p \<noteq> [] \<and> hd p \<noteq> hd s" "\<forall>p\<in>set (map rev white_space). p \<noteq> [] \<and> hd p \<noteq> hd (rev s)"
    using white_space_unclean by (auto simp: list_all_iff hd_rev)
  then show ?thesis
    using trim_front_id [of s white_space] trim_front_id [of "rev s" "map rev white_space"] by (simp add: trim_def)
qed

lemma plus_unclean: "clean_token s \<Longrightarrow> CHR ''+'' \<notin> set s"
proof -
  have "\<not> clean_char CHR ''+''"
    by code_simp
  then show "clean_token s \<Longrightarrow> CHR ''+'' \<notin> set s"
    by (auto simp: clean_token_def list_all_iff)
qed

lemma tokens_of_join:
  assumes "ws \<noteq> []" "list_all clean_token ws"
  shows "map trim (split_on CHR ''+'' (join_with CHR ''+'' ws)) = ws" "join_with CHR ''+'' ws \<noteq> []" "[] \<notin> set ws"
proof -
  have split: "split_on CHR ''+'' (join_with CHR ''+'' ws) = ws"
    using assms by (intro split_join) (auto simp: list_all_iff plus_unclean)
  then show "map trim (split_on CHR ''+'' (join_with CHR ''+'' ws)) = ws"
    using assms(2) by (simp add: list_all_iff trim_clean map_idI)
  show "[] \<notin> set ws"
    using assms(2) by (auto simp: list_all_iff clean_token_def)
  then show "join_with CHR ''+'' ws \<noteq> []"
    using split assms(1) by (cases ws) auto
qed

section \<open>What the parser accepts\<close>

lemma parse_modifiers_range:
  "parse_modifiers mods names = Inr result \<Longrightarrow> mods \<in> set modifier_sets \<Longrightarrow> result \<in> set modifier_sets"
proof (induction mods names rule: parse_modifiers.induct)
  case (2 mods name names)
  obtain m where m: "parse_modifier name = Some m" "parse_modifiers (mods OR modifier_flag m) names = Inr result"
      "\<not> (mods AND modifier_flag m \<noteq> 0)"
    using 2(2) by (auto simp: result_simps split: if_splits)
  have "m \<in> set all_modifiers"
    by (cases m) (simp_all add: all_modifiers_def)
  then have "mods OR modifier_flag m \<in> set modifier_sets"
    using modifier_sets_parse 2(3) by (simp add: list_all_iff)
  then show ?case
    using 2(1) m by simp
qed simp

lemma parse_named_key_table: "parse_named_key s = Some k \<Longrightarrow> k \<in> set named_table"
  by (auto simp: parse_named_key_def named_table_def find_Some_iff)

lemma function_keycode_range: "function_keycode n = Some code \<Longrightarrow> 1 \<le> n \<and> n \<le> 24"
  by (auto simp: function_keycode_def split: if_splits)

lemma function_table_mem: "function_keycode n = Some code \<Longrightarrow> (code, ''F'' @ decimal n) \<in> set function_table"
proof -
  assume code: "function_keycode n = Some code"
  then have "n \<in> {1..24}"
    using function_keycode_range by simp
  then have "(the (function_keycode n), ''F'' @ decimal n) \<in> set function_table"
    unfolding function_table_def set_map set_upto by (rule imageI)
  then show ?thesis
    by (simp only: code option.sel)
qed

lemma parse_function_key_table: "parse_function_key s = Some k \<Longrightarrow> k \<in> set function_table \<union> set named_table"
proof (cases "Option.bind (strip_prefix ''f'' s) parse_u32")
  case None
  then show "parse_function_key s = Some k \<Longrightarrow> ?thesis"
    using parse_named_key_table by (simp add: parse_function_key_def)
next
  case (Some n)
  assume "parse_function_key s = Some k"
  then obtain code where n: "function_keycode n = Some code" "k = (code, ''F'' @ decimal n)"
    using Some by (auto simp: parse_function_key_def simp del: decimal.simps)
  show ?thesis
    unfolding n(2) using function_table_mem [OF n(1)] by (rule UnI1)
qed

lemma letter_table_mem: "97 \<le> n \<Longrightarrow> n \<le> 122 \<Longrightarrow> (letter_keycodes ! nat (n - 97), [char_of (n - 32)]) \<in> set letter_table"
  unfolding letter_table_def set_map set_upto by (intro image_eqI [OF refl]) simp

lemma digit_table_mem:
  "48 \<le> n \<Longrightarrow> n \<le> 57 \<Longrightarrow> (if n = 48 then 11 else word_of_int (n - 48) + 1, [char_of n]) \<in> set digit_table"
  unfolding digit_table_def set_map set_upto by (intro image_eqI [OF refl]) simp

lemma parse_key_table: "parse_key s = Some k \<Longrightarrow> k \<in> set key_table"
proof -
  assume parsed: "parse_key s = Some k"
  have in_table: "set letter_table \<union> set digit_table \<union> (set function_table \<union> set named_table) = set key_table"
    by (simp add: key_table_def Un_assoc)
  show ?thesis
  proof (cases "\<exists>c. to_ascii_lowercase s = [c] \<and> parse_key s \<noteq> parse_function_key [c]")
    case True
    then obtain c where c: "to_ascii_lowercase s = [c]" "parse_key s \<noteq> parse_function_key [c]"
      by blast
    define n where "n = (of_char c :: int)"
    have "char_of n = c"
      by (simp add: n_def)
    then have "97 \<le> n \<and> n \<le> 122 \<and> k = (letter_keycodes ! nat (n - 97), [char_of (n - 32)]) \<or>
      48 \<le> n \<and> n \<le> 57 \<and> k = (if n = 48 then 11 else word_of_int (n - 48) + 1, [char_of n])"
      using parsed c unfolding parse_key_def n_def Let_def by (simp split: if_split_asm)
    then have "k \<in> set letter_table \<union> set digit_table"
      using letter_table_mem digit_table_mem by blast
    then show ?thesis
      using in_table by blast
  next
    case False
    then have "parse_key s = parse_function_key (to_ascii_lowercase s)"
      by (auto simp: parse_key_def Let_def split: list.splits)
    then have "k \<in> set function_table \<union> set named_table"
      using parsed by (intro parse_function_key_table) simp
    then show ?thesis
      using in_table by blast
  qed
qed

text \<open>The trigger of a chord, and what the parser accepts.\<close>

definition chord :: "u8 \<Rightarrow> u32 \<Rightarrow> string \<Rightarrow> shortcut_trigger" where
  "chord mods code key =
     \<lparr>tr_modifiers = mods, tr_key = Evdev code, tr_canonical = join_with CHR ''+'' (modifier_names mods @ [key])\<rparr>"

definition gesture_trigger :: "shortcut_gesture \<Rightarrow> shortcut_trigger" where
  "gesture_trigger gesture = \<lparr>tr_modifiers = 0, tr_key = Gesture gesture, tr_canonical = gesture_name gesture\<rparr>"

definition super_tap :: shortcut_trigger where
  "super_tap = \<lparr>tr_modifiers = 0, tr_key = ModifierTap Super, tr_canonical = ''Super''\<rparr>"

definition valid_trigger :: "shortcut_trigger \<Rightarrow> bool" where
  "valid_trigger t \<longleftrightarrow> t = super_tap \<or> (\<exists>g. t = gesture_trigger g) \<or>
     (\<exists>mods code key. mods \<in> set modifier_sets \<and> (code, key) \<in> set key_table \<and> t = chord mods code key)"

lemma valid_super: "valid_trigger super_tap"
  by (simp add: valid_trigger_def)

lemma valid_gesture: "valid_trigger (gesture_trigger g)"
  unfolding valid_trigger_def by blast

lemma valid_chord: "mods \<in> set modifier_sets \<Longrightarrow> (code, key) \<in> set key_table \<Longrightarrow> valid_trigger (chord mods code key)"
  unfolding valid_trigger_def by blast

lemma parse_chord_valid: "parse_chord expression tokens = Inr t \<Longrightarrow> valid_trigger t"
proof -
  assume "parse_chord expression tokens = Inr t"
  then obtain mods code key where parsed: "parse_modifiers 0 (butlast tokens) = Inr mods" "parse_key (last tokens) = Some (code, key)"
      "t = chord mods code key"
    by (auto simp: parse_chord_def chord_def result_simps split: if_splits)
  have "0 \<in> set modifier_sets"
    by code_simp
  then have "mods \<in> set modifier_sets"
    using parse_modifiers_range parsed(1) by blast
  then show ?thesis
    unfolding parsed(3) using parse_key_table [OF parsed(2)] by (rule valid_chord)
qed

lemma parse_shortcut_valid: "parse_shortcut e = Inr t \<Longrightarrow> valid_trigger t"
  using valid_gesture valid_super
  by (auto simp: parse_shortcut_def Let_def super_tap_def gesture_trigger_def
      dest: parse_chord_valid split: if_splits option.splits)

lemma key_table_parse:
  assumes "(code, key) \<in> set key_table"
  shows "parse_key key = Some (code, key)" "parse_modifier key = None" "parse_gesture key = None" "clean_token key" "length key \<le> 22"
  using short_keys_parse named_keys_parse assms by (auto simp: list_all_iff key_table_def key_parses_def)

lemma modifier_sets_parse':
  assumes "mods \<in> set modifier_sets"
  shows "parse_modifiers 0 (modifier_names mods) = Inr mods" "list_all clean_token (modifier_names mods)"
    "sum_list (map length (modifier_names mods)) \<le> 17" "length (modifier_names mods) \<le> 4"
  using modifier_sets_parse assms by (auto simp: list_all_iff)

lemma gesture_parse:
  "parse_gesture (gesture_name g) = Some g" "clean_token (gesture_name g)" "length (gesture_name g) \<le> 22"
  using gestures_parse by (cases g; simp)+

lemma parse_shortcut_tokens:
  assumes "tokens \<noteq> []" "list_all clean_token tokens" "sum_list (map length tokens) + length tokens \<le> 128"
  shows "parse_shortcut (join_with CHR ''+'' tokens) =
    (case (if length tokens = 1 then parse_gesture (hd tokens) else None) of
       Some gesture \<Rightarrow> Inr (gesture_trigger gesture)
     | None \<Rightarrow>
         (case (if length tokens = 1 then parse_modifier (hd tokens) else None) of
            Some m \<Rightarrow> if m \<noteq> Super then Inl (ModifierOnly (join_with CHR ''+'' tokens)) else Inr super_tap
          | None \<Rightarrow> parse_chord (join_with CHR ''+'' tokens) tokens))"
proof -
  have "length (join_with CHR ''+'' tokens) \<le> 128"
    using length_join [of "CHR ''+''" tokens] assms(3) by simp
  moreover have "tokens \<noteq> [] \<and> [] \<notin> set tokens \<and> join_with CHR ''+'' tokens \<noteq> []"
    using tokens_of_join [OF assms(1,2)] assms(1) by simp
  ultimately show ?thesis
    by (simp add: parse_shortcut_def MAX_SHORTCUT_EXPRESSION_BYTES_def tokens_of_join [OF assms(1,2)] gesture_trigger_def
        super_tap_def cong: option.case_cong split: option.splits)
qed

lemma parse_canonical: "valid_trigger t \<Longrightarrow> parse_shortcut (tr_canonical t) = Inr t"
proof -
  assume "valid_trigger t"
  then consider "t = super_tap" | g where "t = gesture_trigger g"
    | mods code key where "mods \<in> set modifier_sets" "(code, key) \<in> set key_table" "t = chord mods code key"
    by (auto simp: valid_trigger_def)
  then show ?thesis
  proof cases
    case 1
    have "parse_gesture ''Super'' = None" "parse_modifier ''Super'' = Some Super" "clean_token ''Super''"
      by code_simp+
    then show ?thesis
      using parse_shortcut_tokens [of "[''Super'']"] by (simp add: 1 super_tap_def)
  next
    case (2 g)
    then show ?thesis
      using parse_shortcut_tokens [of "[gesture_name g]"] gesture_parse [of g] by (simp add: gesture_trigger_def)
  next
    case (3 mods code key)
    note key = key_table_parse [OF 3(2)] and mods = modifier_sets_parse' [OF 3(1)]
    let ?tokens = "modifier_names mods @ [key]"
    have clean: "list_all clean_token ?tokens" "sum_list (map length ?tokens) + length ?tokens \<le> 128"
      using key mods by auto
    have chord: "parse_chord e ?tokens = Inr (chord mods code key)" for e
      using key mods by (simp add: parse_chord_def chord_def)
    have "parse_shortcut (join_with CHR ''+'' ?tokens) = parse_chord (join_with CHR ''+'' ?tokens) ?tokens"
      unfolding parse_shortcut_tokens [OF _ clean, simplified]
      using key by (cases "modifier_names mods") simp_all
    then show ?thesis
      unfolding 3(3) chord by (simp add: chord_def)
  qed
qed

lemma key_table_unique:
  assumes "(code, key) \<in> set key_table" "(code', key') \<in> set key_table"
  shows "code = code' \<longleftrightarrow> key = key'"
proof -
  have "inj_on fst (set key_table)"
    using key_table_distinct by (simp add: distinct_map)
  then have "code = code' \<Longrightarrow> key = key'"
    using inj_onD [OF _ _ assms, of fst] by simp
  moreover have "key = key' \<Longrightarrow> code = code'"
    using key_table_parse(1) [OF assms(1)] key_table_parse(1) [OF assms(2)] by simp
  ultimately show ?thesis
    by blast
qed

lemma valid_trigger_of_key:
  assumes "valid_trigger t"
  shows "case tr_key t of
      Evdev code \<Rightarrow> \<exists>key. (code, key) \<in> set key_table \<and> t = chord (tr_modifiers t) code key
    | ModifierTap m \<Rightarrow> t = super_tap
    | Gesture g \<Rightarrow> t = gesture_trigger g"
proof -
  consider "t = super_tap" | g where "t = gesture_trigger g" | mods code key where "(code, key) \<in> set key_table" "t = chord mods code key"
    using assms unfolding valid_trigger_def by blast
  then show ?thesis
  proof cases
    case (3 mods code key)
    then show ?thesis
      by (auto simp: chord_def)
  qed (simp_all add: super_tap_def gesture_trigger_def)
qed

lemma valid_trigger_unique:
  assumes "valid_trigger t" "valid_trigger t'"
  shows "t = t' \<longleftrightarrow> tr_modifiers t = tr_modifiers t' \<and> tr_key t = tr_key t'"
proof
  assume same: "tr_modifiers t = tr_modifiers t' \<and> tr_key t = tr_key t'"
  show "t = t'"
  proof (cases "tr_key t")
    case (Evdev code)
    then obtain key key' where tables: "(code, key) \<in> set key_table" "(code, key') \<in> set key_table"
        and t: "t = chord (tr_modifiers t) code key" "t' = chord (tr_modifiers t') code key'"
      using valid_trigger_of_key [OF assms(1)] valid_trigger_of_key [OF assms(2)] same by auto
    then show ?thesis
      using key_table_unique [OF tables] same by simp
  next
    case (ModifierTap m)
    then show ?thesis
      using valid_trigger_of_key [OF assms(1)] valid_trigger_of_key [OF assms(2)] same by simp
  next
    case (Gesture g)
    then show ?thesis
      using valid_trigger_of_key [OF assms(1)] valid_trigger_of_key [OF assms(2)] same by simp
  qed
qed simp

lemma canonical_eq_iff:
  assumes "valid_trigger t" "valid_trigger t'"
  shows "tr_canonical t = tr_canonical t' \<longleftrightarrow> t = t'"
proof
  assume "tr_canonical t = tr_canonical t'"
  then have "parse_shortcut (tr_canonical t) = parse_shortcut (tr_canonical t')"
    by (rule arg_cong)
  then show "t = t'"
    unfolding parse_canonical [OF assms(1)] parse_canonical [OF assms(2)] by (rule sum.inject(2) [THEN iffD1])
qed simp

text \<open>C19: The canonical spelling of every accepted expression parses back to the same trigger, and it identifies what the
  trigger matches: two expressions have the same canonical spelling exactly when they name the same modifiers and
  the same key, modifier tap or gesture.\<close>

theorem shortcut_canonical_roundtrip:
  assumes "parse_shortcut e = Inr t" "parse_shortcut e' = Inr t'"
  shows "parse_shortcut (tr_canonical t) = Inr t \<and>
    (tr_canonical t = tr_canonical t' \<longleftrightarrow> tr_modifiers t = tr_modifiers t' \<and> tr_key t = tr_key t') \<and>
    (tr_canonical t = tr_canonical t' \<longleftrightarrow> t = t')"
  using parse_shortcut_valid [OF assms(1)] parse_shortcut_valid [OF assms(2)]
  by (simp add: parse_canonical canonical_eq_iff valid_trigger_unique)

lemma shortcut_canonical_roundtrip_witness:
  "parse_shortcut ''Super+Ctrl+PageUp'' = Inr \<lparr>tr_modifiers = 3, tr_key = Evdev 104, tr_canonical = ''Super+Ctrl+PageUp''\<rparr>"
proof -
  have "parse_shortcut '' control+WIN + pgup'' = Inr \<lparr>tr_modifiers = 3, tr_key = Evdev 104, tr_canonical = ''Super+Ctrl+PageUp''\<rparr>"
    by code_simp
  from shortcut_canonical_roundtrip [OF this this] show ?thesis
    by simp
qed

end
