(* ===== verification/Shortcut_File.thy ===== *)
theory Shortcut_File
  imports Shortcut_Syntax
begin

text \<open>
  The shortcut file (\<open>compositor/src/bin/deniald/native_shortcut.rs\<close>): the actions and the programs a shortcut can
  start, the validation and compilation of a file, the defaults, and the migration of files of older versions.
  Reading and writing JSON and the file system belong to the store that uses this theory.
\<close>

section \<open>Actions and targets\<close>

datatype shortcut_action =
    Shutdown | OpenApplications | OpenDashboard | OpenOverview | ToggleVerticalMaximize | WindowSwitcher |
    OpenClipboard | CaptureRegion | CloseWindow | MinimizeWindow | MinimizeAllWindows | ToggleMaximize |
    ToggleFullscreen | ReleasePointer | LockScreen | VolumeUp | VolumeDown | VolumeMute | BrightnessUp |
    BrightnessDown | NextKeyboardLayout | PreviousKeyboardLayout | OpenSettings | FocusLeft | FocusRight |
    FocusUp | FocusDown | SwapLeft | SwapRight | SwapUp | SwapDown | PreviousWorkspace | NextWorkspace |
    MoveToPreviousWorkspace | MoveToNextWorkspace | SwitchWorkspace1 | SwitchWorkspace2 | SwitchWorkspace3 |
    SwitchWorkspace4 | SwitchWorkspace5 | SwitchWorkspace6 | SwitchWorkspace7 | SwitchWorkspace8 |
    SwitchWorkspace9 | MoveToWorkspace1 | MoveToWorkspace2 | MoveToWorkspace3 | MoveToWorkspace4 |
    MoveToWorkspace5 | MoveToWorkspace6 | MoveToWorkspace7 | MoveToWorkspace8 | MoveToWorkspace9

definition all_actions :: "shortcut_action list" where
  "all_actions = [
     OpenApplications, OpenDashboard, OpenSettings, OpenOverview, WindowSwitcher, OpenClipboard, CaptureRegion,
     CloseWindow, MinimizeWindow, MinimizeAllWindows, ToggleVerticalMaximize, ToggleMaximize, ToggleFullscreen,
     ReleasePointer, LockScreen, Shutdown, VolumeUp, VolumeDown, VolumeMute, BrightnessUp, BrightnessDown,
     NextKeyboardLayout, PreviousKeyboardLayout, FocusLeft, FocusRight, FocusUp, FocusDown, SwapLeft,
     SwapRight, SwapUp, SwapDown, PreviousWorkspace, NextWorkspace, MoveToPreviousWorkspace,
     MoveToNextWorkspace, SwitchWorkspace1, SwitchWorkspace2, SwitchWorkspace3, SwitchWorkspace4,
     SwitchWorkspace5, SwitchWorkspace6, SwitchWorkspace7, SwitchWorkspace8, SwitchWorkspace9,
     MoveToWorkspace1, MoveToWorkspace2, MoveToWorkspace3, MoveToWorkspace4, MoveToWorkspace5,
     MoveToWorkspace6, MoveToWorkspace7, MoveToWorkspace8, MoveToWorkspace9]"

datatype shortcut_target =
    DenialAction shortcut_action
  | Spawn "string list" "string option"
  | SpawnSh string

record shortcut_binding =
  sb_shortcut :: string
  sb_target :: shortcut_target

record shortcut_file =
  sf_version :: u64
  sf_revision :: u64
  sf_shortcuts :: "shortcut_binding list"

record compiled_shortcut =
  cs_trigger :: shortcut_trigger
  cs_target :: shortcut_target

definition SHORTCUT_SCHEMA_VERSION :: u64 where "SHORTCUT_SCHEMA_VERSION = 6"
definition OLDEST_SHORTCUT_SCHEMA_VERSION :: u64 where "OLDEST_SHORTCUT_SCHEMA_VERSION = 1"
definition MAX_SHORTCUTS :: nat where "MAX_SHORTCUTS = 256"
definition MAX_SPAWN_ARGUMENTS :: nat where "MAX_SPAWN_ARGUMENTS = 64"
definition MAX_SPAWN_ARGUMENT_BYTES :: nat where "MAX_SPAWN_ARGUMENT_BYTES = 4096"
definition MAX_SHELL_COMMAND_BYTES :: nat where "MAX_SHELL_COMMAND_BYTES = 4096"
definition MAX_DESKTOP_FILE_ID_BYTES :: nat where "MAX_DESKTOP_FILE_ID_BYTES = 4096"

text \<open>The targets that fire again while their key repeats.\<close>

definition target_repeats :: "shortcut_target \<Rightarrow> bool" where
  "target_repeats target = (case target of
     DenialAction action \<Rightarrow> action \<in>
       {VolumeUp, VolumeDown, BrightnessUp, BrightnessDown, FocusLeft, FocusRight, FocusUp, FocusDown,
        SwapLeft, SwapRight, SwapUp, SwapDown, PreviousWorkspace, NextWorkspace, MoveToPreviousWorkspace, MoveToNextWorkspace}
   | _ \<Rightarrow> False)"

section \<open>Validation\<close>

text \<open>\<open>validate_desktop_file_id\<close> of \<open>settings.rs\<close>.\<close>

definition validate_desktop_file_id :: "string \<Rightarrow> document_error + unit" where
  "validate_desktop_file_id s =
     (if s = [] \<or> MAX_DESKTOP_FILE_ID_BYTES < length s \<or> drop (length s - 8) s \<noteq> ''.desktop'' \<or>
        CHR ''/'' \<in> set s \<or> CHR 0x00 \<in> set s
      then Inl (DesktopFileId s) else Inr ())"

fun validate_arguments :: "nat \<Rightarrow> string list \<Rightarrow> document_error + unit" where
  "validate_arguments index [] = Inr ()"
| "validate_arguments index (argument # rest) =
     (if MAX_SPAWN_ARGUMENT_BYTES < length argument \<or> CHR 0x00 \<in> set argument then Inl (SpawnArgument index)
      else validate_arguments (index + 1) rest)"

definition validate_spawn :: "string list \<Rightarrow> document_error + unit" where
  "validate_spawn arguments =
     (if arguments = [] \<or> MAX_SPAWN_ARGUMENTS < length arguments then Inl SpawnCount
      else and_then (validate_arguments 0 arguments) (\<lambda>_.
        if hd arguments = [] then Inl SpawnProgramEmpty else Inr ()))"

definition validate_spawn_sh :: "string \<Rightarrow> document_error + unit" where
  "validate_spawn_sh command =
     (if command = [] \<or> MAX_SHELL_COMMAND_BYTES < length command \<or> CHR 0x00 \<in> set command then Inl ShellCommand else Inr ())"

definition validate_target :: "shortcut_target \<Rightarrow> document_error + unit" where
  "validate_target target =
     (case target of
        DenialAction action \<Rightarrow> Inr ()
      | Spawn command desktop_file_id \<Rightarrow>
          and_then (validate_spawn command) (\<lambda>_.
            case desktop_file_id of None \<Rightarrow> Inr () | Some s \<Rightarrow> validate_desktop_file_id s)
      | SpawnSh command \<Rightarrow> validate_spawn_sh command)"

definition canonical_binding :: "shortcut_binding \<Rightarrow> document_error + shortcut_binding" where
  "canonical_binding b =
     and_then (validate_target (sb_target b)) (\<lambda>_.
       and_then (parse_shortcut (sb_shortcut b)) (\<lambda>trigger.
         Inr \<lparr>sb_shortcut = tr_canonical trigger, sb_target = sb_target b\<rparr>))"

section \<open>Compilation\<close>

fun compile_bindings :: "shortcut_trigger set \<Rightarrow> shortcut_binding list \<Rightarrow> document_error + compiled_shortcut list" where
  "compile_bindings triggers [] = Inr []"
| "compile_bindings triggers (b # bs) =
     and_then (parse_shortcut (sb_shortcut b)) (\<lambda>trigger.
       if trigger \<in> triggers then Inl (DuplicateShortcut (tr_canonical trigger))
       else and_then (validate_target (sb_target b)) (\<lambda>_.
         and_then (compile_bindings (insert trigger triggers) bs) (\<lambda>compiled.
           Inr (\<lparr>cs_trigger = trigger, cs_target = sb_target b\<rparr> # compiled))))"

definition compile_shortcuts :: "shortcut_file \<Rightarrow> document_error + compiled_shortcut list" where
  "compile_shortcuts file =
     (if sf_version file \<noteq> SHORTCUT_SCHEMA_VERSION then Inl (UnsupportedVersion (sf_version file))
      else if sf_revision file = 0 then Inl RevisionZero
      else if MAX_SHORTCUTS < length (sf_shortcuts file) then Inl TooManyShortcuts
      else compile_bindings {} (sf_shortcuts file))"

text \<open>The file with canonical spellings.\<close>

definition normalize_and_compile_shortcuts :: "shortcut_file \<Rightarrow> document_error + shortcut_file \<times> compiled_shortcut list" where
  "normalize_and_compile_shortcuts file =
     and_then (compile_shortcuts file) (\<lambda>compiled.
       Inr (file\<lparr>sf_shortcuts :=
         map (\<lambda>(b, c). b\<lparr>sb_shortcut := tr_canonical (cs_trigger c)\<rparr>) (zip (sf_shortcuts file) compiled)\<rparr>, compiled))"

section \<open>Defaults and migration\<close>

definition SHORTCUT_V2_ADDITIONS :: "(string \<times> shortcut_action) list" where
  "SHORTCUT_V2_ADDITIONS = [
     (''ThreeFingerSwipeLeft'', WindowSwitcher), (''ThreeFingerSwipeRight'', WindowSwitcher)]"

definition SHORTCUT_V3_ADDITIONS :: "(string \<times> shortcut_action) list" where
  "SHORTCUT_V3_ADDITIONS = [
     (''Super+Shift+M'', MinimizeAllWindows)]"

definition SHORTCUT_V4_ADDITIONS :: "(string \<times> shortcut_action) list" where
  "SHORTCUT_V4_ADDITIONS = [
     (''Super+Left'', FocusLeft), (''Super+Right'', FocusRight), (''Super+Up'', FocusUp),
     (''Super+Down'', FocusDown), (''Super+Ctrl+Left'', SwapLeft), (''Super+Ctrl+Right'', SwapRight),
     (''Super+Ctrl+Up'', SwapUp), (''Super+Ctrl+Down'', SwapDown)]"

definition SHORTCUT_V5_ADDITIONS :: "(string \<times> shortcut_action) list" where
  "SHORTCUT_V5_ADDITIONS = [
     (''Super+Alt+Left'', PreviousWorkspace), (''Super+Alt+Right'', NextWorkspace),
     (''Super+Alt+Shift+Left'', MoveToPreviousWorkspace), (''Super+Alt+Shift+Right'', MoveToNextWorkspace),
     (''Super+1'', SwitchWorkspace1), (''Super+2'', SwitchWorkspace2), (''Super+3'', SwitchWorkspace3),
     (''Super+4'', SwitchWorkspace4), (''Super+5'', SwitchWorkspace5), (''Super+6'', SwitchWorkspace6),
     (''Super+7'', SwitchWorkspace7), (''Super+8'', SwitchWorkspace8), (''Super+9'', SwitchWorkspace9),
     (''Super+Shift+1'', MoveToWorkspace1), (''Super+Shift+2'', MoveToWorkspace2),
     (''Super+Shift+3'', MoveToWorkspace3), (''Super+Shift+4'', MoveToWorkspace4),
     (''Super+Shift+5'', MoveToWorkspace5), (''Super+Shift+6'', MoveToWorkspace6),
     (''Super+Shift+7'', MoveToWorkspace7), (''Super+Shift+8'', MoveToWorkspace8),
     (''Super+Shift+9'', MoveToWorkspace9)]"

definition SHORTCUT_V6_ADDITIONS :: "(string \<times> shortcut_action) list" where
  "SHORTCUT_V6_ADDITIONS = [
     (''FourFingerSwipeRight'', PreviousWorkspace), (''FourFingerSwipeLeft'', NextWorkspace)]"

definition default_definitions :: "(string \<times> shortcut_action) list" where
  "default_definitions = [
     (''Ctrl+Alt+Backspace'', Shutdown), (''Super'', OpenApplications), (''Super+A'', OpenOverview),
     (''ThreeFingerSwipeUp'', OpenOverview), (''Super+Shift+Up'', ToggleVerticalMaximize),
     (''Super+Tab'', WindowSwitcher), (''Super+V'', OpenClipboard), (''Super+Shift+S'', CaptureRegion),
     (''Super+M'', MinimizeWindow), (''Super+Shift+M'', MinimizeAllWindows), (''Super+W'', ToggleMaximize),
     (''Super+F'', ToggleFullscreen), (''Super+Escape'', ReleasePointer), (''Super+K'', CloseWindow),
     (''Super+L'', LockScreen), (''VolumeUp'', VolumeUp), (''VolumeDown'', VolumeDown),
     (''VolumeMute'', VolumeMute), (''BrightnessUp'', BrightnessUp), (''BrightnessDown'', BrightnessDown),
     (''Super+VolumeUp'', BrightnessUp), (''Super+VolumeDown'', BrightnessDown),
     (''Super+Space'', NextKeyboardLayout), (''Super+Shift+Space'', PreviousKeyboardLayout)]"

definition default_shortcut_file :: shortcut_file where
  "default_shortcut_file = \<lparr>sf_version = SHORTCUT_SCHEMA_VERSION, sf_revision = 1, sf_shortcuts =
     map (\<lambda>(shortcut, action). \<lparr>sb_shortcut = shortcut, sb_target = DenialAction action\<rparr>)
       (default_definitions @ SHORTCUT_V2_ADDITIONS @ SHORTCUT_V4_ADDITIONS @ SHORTCUT_V5_ADDITIONS @ SHORTCUT_V6_ADDITIONS)\<rparr>"

definition parses_to :: "shortcut_trigger \<Rightarrow> shortcut_binding \<Rightarrow> bool" where
  "parses_to trigger b \<longleftrightarrow> parse_shortcut (sb_shortcut b) = Inr trigger"

definition migrate_default_shortcut ::
  "shortcut_binding list \<Rightarrow> string \<Rightarrow> shortcut_action \<Rightarrow> string \<Rightarrow> document_error + shortcut_binding list \<times> bool" where
  "migrate_default_shortcut bs from_key action to_key =
     and_then (parse_shortcut from_key) (\<lambda>old.
     and_then (parse_shortcut to_key) (\<lambda>new.
       if list_ex (parses_to new) bs then Inr (bs, False)
       else case position (\<lambda>b. sb_target b = DenialAction action \<and> parses_to old b) bs of
         None \<Rightarrow> Inr (bs, False)
       | Some i \<Rightarrow> Inr (bs[i := (bs ! i)\<lparr>sb_shortcut := tr_canonical new\<rparr>], True)))"

text \<open>The triggers that are configured.\<close>

fun configured_triggers :: "shortcut_binding list \<Rightarrow> document_error + shortcut_trigger set" where
  "configured_triggers [] = Inr {}"
| "configured_triggers (b # bs) =
     and_then (parse_shortcut (sb_shortcut b)) (\<lambda>trigger. and_then (configured_triggers bs) (\<lambda>triggers. Inr (insert trigger triggers)))"

fun add_bindings ::
  "(string \<times> shortcut_action) list \<Rightarrow> shortcut_trigger set \<Rightarrow> shortcut_binding list \<Rightarrow> nat \<Rightarrow>
     document_error + shortcut_binding list \<times> nat" where
  "add_bindings [] configured bs added = Inr (bs, added)"
| "add_bindings ((shortcut, action) # rest) configured bs added =
     and_then (parse_shortcut shortcut) (\<lambda>trigger.
       if trigger \<in> configured \<or> length bs = MAX_SHORTCUTS then add_bindings rest configured bs added
       else add_bindings rest (insert trigger configured)
         (bs @ [\<lparr>sb_shortcut = tr_canonical trigger, sb_target = DenialAction action\<rparr>]) (added + 1))"

definition additions_since :: "u64 \<Rightarrow> (string \<times> shortcut_action) list option" where
  "additions_since version =
     (if version = 1 then Some (SHORTCUT_V2_ADDITIONS @ SHORTCUT_V3_ADDITIONS @ SHORTCUT_V4_ADDITIONS @ SHORTCUT_V5_ADDITIONS @ SHORTCUT_V6_ADDITIONS)
      else if version = 2 then Some (SHORTCUT_V3_ADDITIONS @ SHORTCUT_V4_ADDITIONS @ SHORTCUT_V5_ADDITIONS @ SHORTCUT_V6_ADDITIONS)
      else if version = 3 then Some (SHORTCUT_V4_ADDITIONS @ SHORTCUT_V5_ADDITIONS @ SHORTCUT_V6_ADDITIONS)
      else if version = 4 then Some (SHORTCUT_V5_ADDITIONS @ SHORTCUT_V6_ADDITIONS)
      else if version = 5 then Some SHORTCUT_V6_ADDITIONS
      else None)"

definition migrate_shortcut_file :: "shortcut_file \<Rightarrow> document_error + shortcut_file \<times> nat option" where
  "migrate_shortcut_file file =
     (if sf_version file = SHORTCUT_SCHEMA_VERSION then Inr (file, None)
      else and_then (ok_or (additions_since (sf_version file)) (UnsupportedVersion (sf_version file))) (\<lambda>additions.
        if sf_revision file = 0 then Inl RevisionZero
        else if MAX_SHORTCUTS < length (sf_shortcuts file) then Inl TooManyShortcuts
        else and_then (migrate_default_shortcut (sf_shortcuts file) ''Super+Up'' ToggleMaximize ''Super+W'') (\<lambda>(bs, relocated).
          and_then (configured_triggers bs) (\<lambda>configured.
            and_then (add_bindings additions configured bs (if relocated then 1 else 0)) (\<lambda>(bs', added).
              Inr (file\<lparr>sf_version := SHORTCUT_SCHEMA_VERSION, sf_revision := u64_saturating_add (sf_revision file) 1,
                sf_shortcuts := bs'\<rparr>, Some added))))))"

section \<open>Which files compile\<close>

lemma compile_bindings_Inr:
  "compile_bindings triggers bs = Inr cs \<longleftrightarrow>
     list_all (\<lambda>b. validate_target (sb_target b) = Inr ()) bs \<and>
     list_all2 (\<lambda>b c. parses_to (cs_trigger c) b \<and> cs_target c = sb_target b) bs cs \<and>
     distinct (map cs_trigger cs) \<and> triggers \<inter> set (map cs_trigger cs) = {}"
proof (induction bs arbitrary: triggers cs)
  case Nil
  show ?case
    by auto
next
  case (Cons b bs)
  show ?case
    by (cases cs) (auto simp: result_simps Cons.IH parses_to_def split: if_splits)
qed

definition file_ok :: "shortcut_file \<Rightarrow> bool" where
  "file_ok file \<longleftrightarrow> sf_version file = SHORTCUT_SCHEMA_VERSION \<and> sf_revision file \<noteq> 0 \<and> length (sf_shortcuts file) \<le> MAX_SHORTCUTS"

lemma compile_shortcuts_Inr:
  "compile_shortcuts file = Inr cs \<longleftrightarrow> file_ok file \<and> compile_bindings {} (sf_shortcuts file) = Inr cs"
  by (auto simp: compile_shortcuts_def file_ok_def)

definition canonical_with :: "shortcut_binding \<Rightarrow> compiled_shortcut \<Rightarrow> shortcut_binding" where
  "canonical_with b c = b\<lparr>sb_shortcut := tr_canonical (cs_trigger c)\<rparr>"

lemma normalize_Inr:
  "normalize_and_compile_shortcuts file = Inr (file', cs) \<longleftrightarrow> compile_shortcuts file = Inr cs \<and>
     file' = file\<lparr>sf_shortcuts := map2 canonical_with (sf_shortcuts file) cs\<rparr>"
  by (auto simp: normalize_and_compile_shortcuts_def result_simps canonical_with_def)

lemma parses_to_canonical: "parses_to t b \<Longrightarrow> parses_to t (b\<lparr>sb_shortcut := tr_canonical t\<rparr>)"
  using parse_canonical parse_shortcut_valid by (auto simp: parses_to_def)

lemma canonical_bindings:
  "list_all2 (\<lambda>b c. parses_to (cs_trigger c) b \<and> cs_target c = sb_target b) bs cs \<Longrightarrow>
     list_all2 (\<lambda>b c. parses_to (cs_trigger c) b \<and> cs_target c = sb_target b) (map2 canonical_with bs cs) cs \<and>
     map2 canonical_with (map2 canonical_with bs cs) cs = map2 canonical_with bs cs \<and>
     (list_all (\<lambda>b. validate_target (sb_target b) = Inr ()) bs \<longrightarrow>
      list_all (\<lambda>b. validate_target (sb_target b) = Inr ()) (map2 canonical_with bs cs))"
  by (induction bs cs rule: list_all2_induct) (auto simp: canonical_with_def parses_to_canonical)

lemma normalize_idempotent:
  assumes "normalize_and_compile_shortcuts file = Inr (file', cs)"
  shows "normalize_and_compile_shortcuts file' = Inr (file', cs)" "compile_shortcuts file' = Inr cs"
proof -
  have compiled: "file_ok file" "compile_bindings {} (sf_shortcuts file) = Inr cs"
      and file': "file' = file\<lparr>sf_shortcuts := map2 canonical_with (sf_shortcuts file) cs\<rparr>"
    using assms by (auto simp: normalize_Inr compile_shortcuts_Inr)
  have pairs: "list_all2 (\<lambda>b c. parses_to (cs_trigger c) b \<and> cs_target c = sb_target b) (sf_shortcuts file) cs"
    using compiled(2) by (simp add: compile_bindings_Inr)
  then have "compile_bindings {} (sf_shortcuts file') = Inr cs"
    using canonical_bindings [OF pairs] compiled(2) by (simp add: compile_bindings_Inr file')
  moreover have "length (sf_shortcuts file) = length cs"
    using pairs by (rule list_all2_lengthD)
  then have "file_ok file'"
    using compiled(1) by (simp add: file_ok_def file')
  ultimately show "compile_shortcuts file' = Inr cs"
    by (simp add: compile_shortcuts_Inr)
  then show "normalize_and_compile_shortcuts file' = Inr (file', cs)"
    using canonical_bindings [OF pairs] by (simp add: normalize_Inr file')
qed

text \<open>The spellings of the defaults are canonical.\<close>

definition canonical_spelling :: "string \<Rightarrow> bool" where
  "canonical_spelling s \<longleftrightarrow> (case parse_shortcut s of Inl e \<Rightarrow> False | Inr t \<Rightarrow> tr_canonical t = s)"

lemma defaults_canonical:
  "list_all (\<lambda>d. canonical_spelling (fst d)) default_definitions"
  by code_simp

lemma additions_canonical:
  "list_all (\<lambda>d. canonical_spelling (fst d))
     (SHORTCUT_V2_ADDITIONS @ SHORTCUT_V3_ADDITIONS @ SHORTCUT_V4_ADDITIONS @ SHORTCUT_V5_ADDITIONS @ SHORTCUT_V6_ADDITIONS)"
  by code_simp

definition trigger_of :: "string \<Rightarrow> shortcut_trigger" where
  "trigger_of s = (case parse_shortcut s of Inl e \<Rightarrow> super_tap | Inr t \<Rightarrow> t)"

definition action_of :: "string \<times> shortcut_action \<Rightarrow> compiled_shortcut" where
  "action_of d = \<lparr>cs_trigger = trigger_of (fst d), cs_target = DenialAction (snd d)\<rparr>"

lemma canonical_spelling_parse: "canonical_spelling s \<Longrightarrow> parse_shortcut s = Inr (trigger_of s) \<and> tr_canonical (trigger_of s) = s"
  by (auto simp: canonical_spelling_def trigger_of_def split: sum.splits)

lemma compile_definitions:
  assumes "list_all (\<lambda>d. canonical_spelling (fst d)) ds" "distinct (map fst ds)"
  shows "compile_bindings {} (map (\<lambda>(shortcut, action). \<lparr>sb_shortcut = shortcut, sb_target = DenialAction action\<rparr>) ds) =
    Inr (map action_of ds)"
proof -
  have "inj_on (\<lambda>d. trigger_of (fst d)) (set ds)"
    using assms by (intro inj_onI) (metis (no_types, lifting) Ball_set canonical_spelling_parse distinct_map inj_onD)
  then have "distinct (map (\<lambda>d. trigger_of (fst d)) ds)"
    using assms(2) by (simp add: distinct_map)
  moreover have "cs_trigger \<circ> action_of = (\<lambda>d. trigger_of (fst d))"
    by (simp add: action_of_def fun_eq_iff)
  moreover have "list_all2 (\<lambda>b c. parses_to (cs_trigger c) b \<and> cs_target c = sb_target b)
      (map (\<lambda>(shortcut, action). \<lparr>sb_shortcut = shortcut, sb_target = DenialAction action\<rparr>) ds) (map action_of ds)"
    using assms(1) by (induction ds) (auto simp: parses_to_def action_of_def canonical_spelling_parse)
  moreover have "list_all (\<lambda>b. validate_target (sb_target b) = Inr ())
      (map (\<lambda>(shortcut, action). \<lparr>sb_shortcut = shortcut, sb_target = DenialAction action\<rparr>) ds)"
    by (induction ds) (auto simp: validate_target_def)
  ultimately show ?thesis
    by (simp add: compile_bindings_Inr)
qed

lemma defaults_distinct:
  "distinct (map fst (default_definitions @ SHORTCUT_V2_ADDITIONS @ SHORTCUT_V4_ADDITIONS @ SHORTCUT_V5_ADDITIONS @ SHORTCUT_V6_ADDITIONS))"
  by code_simp

lemma defaults_count:
  "length (default_definitions @ SHORTCUT_V2_ADDITIONS @ SHORTCUT_V4_ADDITIONS @ SHORTCUT_V5_ADDITIONS @ SHORTCUT_V6_ADDITIONS) = 58"
  by code_simp

lemma default_file_compiles:
  "compile_shortcuts default_shortcut_file = Inr (map action_of
     (default_definitions @ SHORTCUT_V2_ADDITIONS @ SHORTCUT_V4_ADDITIONS @ SHORTCUT_V5_ADDITIONS @ SHORTCUT_V6_ADDITIONS))"
proof -
  have "file_ok default_shortcut_file"
    using defaults_count by (simp add: file_ok_def default_shortcut_file_def MAX_SHORTCUTS_def)
  moreover have "list_all (\<lambda>d. canonical_spelling (fst d))
      (default_definitions @ SHORTCUT_V2_ADDITIONS @ SHORTCUT_V4_ADDITIONS @ SHORTCUT_V5_ADDITIONS @ SHORTCUT_V6_ADDITIONS)"
    using defaults_canonical additions_canonical by simp
  from compile_definitions [OF this defaults_distinct] have
    "compile_bindings {} (sf_shortcuts default_shortcut_file) = Inr (map action_of
     (default_definitions @ SHORTCUT_V2_ADDITIONS @ SHORTCUT_V4_ADDITIONS @ SHORTCUT_V5_ADDITIONS @ SHORTCUT_V6_ADDITIONS))"
    unfolding default_shortcut_file_def shortcut_file.select_convs .
  ultimately show ?thesis
    unfolding compile_shortcuts_Inr by (rule conjI)
qed

section \<open>Migration\<close>

lemma compile_append:
  assumes "compile_bindings {} bs = Inr cs" "valid_trigger t" "t \<notin> cs_trigger ` set cs"
  shows "compile_bindings {} (bs @ [\<lparr>sb_shortcut = tr_canonical t, sb_target = DenialAction action\<rparr>]) =
    Inr (cs @ [\<lparr>cs_trigger = t, cs_target = DenialAction action\<rparr>])"
  using assms by (auto simp: compile_bindings_Inr list_all2_append parses_to_def parse_canonical validate_target_def list_all2_lengthD)

lemma compile_update:
  assumes "compile_bindings {} bs = Inr cs" "valid_trigger t" "t \<notin> cs_trigger ` set cs" "i < length bs"
  shows "compile_bindings {} (bs[i := (bs ! i)\<lparr>sb_shortcut := tr_canonical t\<rparr>]) = Inr (cs[i := (cs ! i)\<lparr>cs_trigger := t\<rparr>])"
proof -
  have pairs: "list_all (\<lambda>b. validate_target (sb_target b) = Inr ()) bs"
      "list_all2 (\<lambda>b c. parses_to (cs_trigger c) b \<and> cs_target c = sb_target b) bs cs" "distinct (map cs_trigger cs)"
    using assms(1) by (auto simp: compile_bindings_Inr)
  have i: "i < length cs"
    using pairs(2) assms(4) list_all2_lengthD by fastforce
  have "list_all (\<lambda>b. validate_target (sb_target b) = Inr ()) (bs[i := (bs ! i)\<lparr>sb_shortcut := tr_canonical t\<rparr>])"
    using pairs(1) assms(4) by (auto simp: list_all_length nth_list_update)
  moreover have "list_all2 (\<lambda>b c. parses_to (cs_trigger c) b \<and> cs_target c = sb_target b)
      (bs[i := (bs ! i)\<lparr>sb_shortcut := tr_canonical t\<rparr>]) (cs[i := (cs ! i)\<lparr>cs_trigger := t\<rparr>])"
    using pairs(2) assms(2,4) by (auto simp: list_all2_conv_all_nth nth_list_update parses_to_def parse_canonical)
  moreover have "distinct (map cs_trigger (cs[i := (cs ! i)\<lparr>cs_trigger := t\<rparr>]))"
    using pairs(3) assms(3) i by (simp add: map_update distinct_list_update)
  ultimately show ?thesis
    by (simp add: compile_bindings_Inr)
qed

lemma configured_triggers_of:
  "list_all2 (\<lambda>b c. parses_to (cs_trigger c) b \<and> cs_target c = sb_target b) bs cs \<Longrightarrow>
     configured_triggers bs = Inr (cs_trigger ` set cs)"
  by (induction bs cs rule: list_all2_induct) (auto simp: parses_to_def)

lemma add_bindings_ok:
  assumes "list_all (\<lambda>d. canonical_spelling (fst d)) adds"
    and "compile_bindings {} bs = Inr cs" "length bs \<le> MAX_SHORTCUTS"
  shows "\<exists>bs' new. add_bindings adds (cs_trigger ` set cs) bs added = Inr (bs', added + length new) \<and>
    compile_bindings {} bs' = Inr (cs @ new) \<and> length bs' \<le> MAX_SHORTCUTS \<and> set new \<subseteq> action_of ` set adds \<and>
    (\<forall>d\<in>set adds. trigger_of (fst d) \<in> cs_trigger ` set (cs @ new) \<or> length bs' = MAX_SHORTCUTS)"
  using assms
proof (induction adds arbitrary: bs cs added)
  case Nil
  then show ?case
    by auto
next
  case (Cons d adds)
  obtain shortcut action where d: "d = (shortcut, action)"
    by (cases d)
  have parse: "parse_shortcut shortcut = Inr (trigger_of shortcut)"
    using Cons.prems(1) canonical_spelling_parse by (simp add: d)
  show ?case
  proof (cases "trigger_of shortcut \<in> cs_trigger ` set cs \<or> length bs = MAX_SHORTCUTS")
    case True
    obtain bs' new where IH: "add_bindings adds (cs_trigger ` set cs) bs added = Inr (bs', added + length new)"
        "compile_bindings {} bs' = Inr (cs @ new)" "length bs' \<le> MAX_SHORTCUTS" "set new \<subseteq> action_of ` set adds"
        "\<forall>d\<in>set adds. trigger_of (fst d) \<in> cs_trigger ` set (cs @ new) \<or> length bs' = MAX_SHORTCUTS"
      using Cons.IH [of bs cs added] Cons.prems by auto
    have "length cs = length bs" "length bs' = length (cs @ new)"
      using Cons.prems(2) IH(2) by (auto simp: compile_bindings_Inr dest: list_all2_lengthD)
    then have "trigger_of shortcut \<in> cs_trigger ` set (cs @ new) \<or> length bs' = MAX_SHORTCUTS"
      using True IH(3) by auto
    then have "\<forall>e\<in>set (d # adds). trigger_of (fst e) \<in> cs_trigger ` set (cs @ new) \<or> length bs' = MAX_SHORTCUTS"
      using IH(5) by (simp add: d) blast
    moreover have "add_bindings (d # adds) (cs_trigger ` set cs) bs added = Inr (bs', added + length new)"
      using True IH(1) parse by (auto simp: d)
    ultimately show ?thesis
      using IH(2,3,4) by (intro exI [of _ bs'] exI [of _ new]) auto
  next
    case False
    define b c where "b = \<lparr>sb_shortcut = tr_canonical (trigger_of shortcut), sb_target = DenialAction action\<rparr>"
      and "c = action_of d"
    have c: "cs_trigger c = trigger_of shortcut"
      by (simp add: c_def action_of_def d)
    have compile: "compile_bindings {} (bs @ [b]) = Inr (cs @ [c])"
      using compile_append [OF Cons.prems(2), of "trigger_of shortcut" action] False parse parse_shortcut_valid
      by (simp add: b_def c_def action_of_def d)
    moreover have "length (bs @ [b]) \<le> MAX_SHORTCUTS"
      using False Cons.prems(3) by simp
    ultimately obtain bs' new where IH: "add_bindings adds (cs_trigger ` set (cs @ [c])) (bs @ [b]) (added + 1) = Inr (bs', added + 1 + length new)"
        "compile_bindings {} bs' = Inr ((cs @ [c]) @ new)" "length bs' \<le> MAX_SHORTCUTS" "set new \<subseteq> action_of ` set adds"
        "\<forall>d\<in>set adds. trigger_of (fst d) \<in> cs_trigger ` set ((cs @ [c]) @ new) \<or> length bs' = MAX_SHORTCUTS"
      using Cons.IH [of "bs @ [b]" "cs @ [c]" "added + 1"] Cons.prems by (auto simp del: set_append)
    have "add_bindings (d # adds) (cs_trigger ` set cs) bs added = Inr (bs', added + length (c # new))"
      using False IH(1) parse by (simp add: d b_def c [unfolded d])
    then show ?thesis
      using IH(2-5) c by (intro exI [of _ bs'] exI [of _ "c # new"]) (auto simp: d c_def)
  qed
qed

text \<open>The binding that a migration moves.\<close>

definition legacy_maximize :: compiled_shortcut where
  "legacy_maximize = action_of (''Super+Up'', ToggleMaximize)"

definition relocated_maximize :: compiled_shortcut where
  "relocated_maximize = action_of (''Super+W'', ToggleMaximize)"

lemma maximize_spellings: "canonical_spelling ''Super+Up''" "canonical_spelling ''Super+W''"
  by code_simp+

text \<open>Toggling the maximisation on Super+Up moves to Super+W when that is free.\<close>

definition maximize_moves :: "compiled_shortcut list \<Rightarrow> bool" where
  "maximize_moves cs \<longleftrightarrow> legacy_maximize \<in> set cs \<and> cs_trigger relocated_maximize \<notin> cs_trigger ` set cs"

definition kept_bindings :: "compiled_shortcut list \<Rightarrow> compiled_shortcut list" where
  "kept_bindings cs = (if maximize_moves cs then map (\<lambda>c. if c = legacy_maximize then relocated_maximize else c) cs else cs)"

lemma migrate_default_ok:
  assumes "compile_bindings {} bs = Inr cs" "length bs \<le> MAX_SHORTCUTS"
  shows "\<exists>bs'. migrate_default_shortcut bs ''Super+Up'' ToggleMaximize ''Super+W'' = Inr (bs', maximize_moves cs) \<and>
    compile_bindings {} bs' = Inr (kept_bindings cs) \<and> length bs' = length bs"
proof -
  let ?old = "trigger_of ''Super+Up''" and ?new = "trigger_of ''Super+W''"
  let ?P = "\<lambda>b. sb_target b = DenialAction ToggleMaximize \<and> parses_to ?old b"
  note parse = maximize_spellings [THEN canonical_spelling_parse]
  have pairs: "list_all2 (\<lambda>b c. parses_to (cs_trigger c) b \<and> cs_target c = sb_target b) bs cs" and unique: "distinct (map cs_trigger cs)"
    using assms(1) by (simp_all add: compile_bindings_Inr)
  have len: "length cs = length bs"
    using pairs by (simp add: list_all2_lengthD)
  have parsed: "parses_to t (bs ! i) \<longleftrightarrow> cs_trigger (cs ! i) = t" "sb_target (bs ! i) = cs_target (cs ! i)" if "i < length bs" for i t
    using pairs that by (auto simp: list_all2_conv_all_nth parses_to_def)
  have "list_ex (parses_to ?new) bs \<longleftrightarrow> (\<exists>i<length cs. cs_trigger (cs ! i) = ?new)"
    using parsed(1) len by (auto simp: list_ex_length)
  also have "\<dots> \<longleftrightarrow> ?new \<in> cs_trigger ` set cs"
    unfolding image_iff by (metis in_set_conv_nth)
  finally have new: "list_ex (parses_to ?new) bs \<longleftrightarrow> cs_trigger relocated_maximize \<in> cs_trigger ` set cs"
    by (simp add: relocated_maximize_def action_of_def)
  have at: "?P (bs ! i) \<longleftrightarrow> cs ! i = legacy_maximize" if "i < length bs" for i
    using parsed(1) [OF that, of ?old] parsed(2) [OF that] by (cases "cs ! i") (auto simp: legacy_maximize_def action_of_def)
  show ?thesis
  proof (cases "list_ex (parses_to ?new) bs \<or> position ?P bs = None")
    case True
    then have "migrate_default_shortcut bs ''Super+Up'' ToggleMaximize ''Super+W'' = Inr (bs, False)"
      using parse by (auto simp: migrate_default_shortcut_def)
    moreover have "\<not> maximize_moves cs"
    proof
      assume moves: "maximize_moves cs"
      then obtain i where "i < length bs" "cs ! i = legacy_maximize"
        using len by (auto simp: maximize_moves_def in_set_conv_nth)
      then have "bs ! i \<in> set bs" "?P (bs ! i)"
        using at by auto
      then show False
        using True new moves by (auto simp: maximize_moves_def position_None)
    qed
    ultimately show ?thesis
      using assms(1) by (simp add: kept_bindings_def)
  next
    case False
    then obtain i where i: "position ?P bs = Some i"
      by blast
    then have at_i: "i < length bs" "?P (bs ! i)"
      using position_Some [OF i] by auto
    then have c: "cs ! i = legacy_maximize" "i < length cs"
      using at len by auto
    have free: "cs_trigger relocated_maximize \<notin> cs_trigger ` set cs"
      using False new by blast
    then have "?new \<notin> cs_trigger ` set cs"
      by (simp add: relocated_maximize_def action_of_def)
    moreover have "valid_trigger ?new"
      using parse(2) parse_shortcut_valid by blast
    ultimately have "compile_bindings {} (bs[i := (bs ! i)\<lparr>sb_shortcut := tr_canonical ?new\<rparr>]) = Inr (cs[i := (cs ! i)\<lparr>cs_trigger := ?new\<rparr>])"
      using compile_update [OF assms(1)] at_i(1) by blast
    moreover have "(cs ! i)\<lparr>cs_trigger := ?new\<rparr> = relocated_maximize"
      by (simp add: c legacy_maximize_def relocated_maximize_def action_of_def)
    moreover have moves: "maximize_moves cs"
      using c free nth_mem by (fastforce simp: maximize_moves_def)
    moreover have "cs ! j = legacy_maximize \<longleftrightarrow> j = i" if "j < length cs" for j
      using unique that c nth_eq_iff_index_eq [of "map cs_trigger cs" j i] by fastforce
    then have "cs[i := relocated_maximize] = kept_bindings cs"
      using moves by (intro nth_equalityI) (simp_all add: kept_bindings_def nth_list_update)
    moreover have "migrate_default_shortcut bs ''Super+Up'' ToggleMaximize ''Super+W'' =
        Inr (bs[i := (bs ! i)\<lparr>sb_shortcut := tr_canonical ?new\<rparr>], True)"
      using False i parse by (simp add: migrate_default_shortcut_def)
    ultimately show ?thesis
      by simp
  qed
qed

lemma unat_u64_saturating_add: "unat (u64_saturating_add r 1) = min (unat r + 1) (2 ^ 64 - 1)"
proof (cases "unat r + unat (1 :: u64) < 2 ^ 64")
  case True
  then have "unat (r + 1) = unat r + 1"
    by (simp add: unat_word_ariths)
  then show ?thesis
    using True by (simp add: u64_saturating_add_def)
next
  case False
  have "unat r < 2 ^ 64"
    using unsigned_less [of r] by simp
  moreover have "unat (- 1 :: u64) = 2 ^ 64 - 1"
    by (simp add: unsigned_minus_1_eq_mask mask_eq_exp_minus_1)
  ultimately show ?thesis
    using False by (simp add: u64_saturating_add_def)
qed

lemma additions_since_canonical:
  assumes "additions_since version = Some adds"
  shows "list_all (\<lambda>d. canonical_spelling (fst d)) adds"
  using assms additions_canonical by (auto simp: additions_since_def split: if_splits)

text \<open>C23: A file of an older version in which every binding is valid and no trigger occurs twice is migrated to a
  file that compiles. The shortcuts of the user are kept, in their order, with one exception, made for every older
  version: toggling the maximisation on Super+Up moves to Super+W, exactly when Super+W is free. They are followed only
  by shortcuts added since that version, and each of these has its trigger bound in the end, by itself or
  by the user, unless the file is full. What is reported is the number of additions and of the move.\<close>

theorem migration_keeps_shortcuts:
  assumes "compile_bindings {} (sf_shortcuts file) = Inr cs" "length (sf_shortcuts file) \<le> MAX_SHORTCUTS"
    and "additions_since (sf_version file) = Some adds" "sf_revision file \<noteq> 0"
  shows "\<exists>file' new. migrate_shortcut_file file = Inr (file', Some ((if maximize_moves cs then 1 else 0) + length new)) \<and>
    compile_shortcuts file' = Inr (kept_bindings cs @ new) \<and>
    unat (sf_revision file') = min (unat (sf_revision file) + 1) (2 ^ 64 - 1) \<and>
    set new \<subseteq> action_of ` set adds \<and>
    (\<forall>d\<in>set adds. trigger_of (fst d) \<in> cs_trigger ` set (kept_bindings cs @ new) \<or> length (kept_bindings cs @ new) = MAX_SHORTCUTS) \<and>
    (\<forall>c\<in>set cs. c \<in> set (kept_bindings cs) \<or> c = legacy_maximize \<and> relocated_maximize \<in> set (kept_bindings cs))"
proof -
  let ?moved = "if maximize_moves cs then 1 else 0 :: nat"
  obtain bs1 where move: "migrate_default_shortcut (sf_shortcuts file) ''Super+Up'' ToggleMaximize ''Super+W'' = Inr (bs1, maximize_moves cs)"
      "compile_bindings {} bs1 = Inr (kept_bindings cs)" "length bs1 = length (sf_shortcuts file)"
    using migrate_default_ok [OF assms(1,2)] by blast
  obtain bs2 new where add: "add_bindings adds (cs_trigger ` set (kept_bindings cs)) bs1 ?moved = Inr (bs2, ?moved + length new)"
      "compile_bindings {} bs2 = Inr (kept_bindings cs @ new)" "length bs2 \<le> MAX_SHORTCUTS" "set new \<subseteq> action_of ` set adds"
      "\<forall>d\<in>set adds. trigger_of (fst d) \<in> cs_trigger ` set (kept_bindings cs @ new) \<or> length bs2 = MAX_SHORTCUTS"
    using add_bindings_ok [OF additions_since_canonical [OF assms(3)] move(2), of ?moved] move(3) assms(2) by auto
  define file' where "file' = file\<lparr>sf_version := SHORTCUT_SCHEMA_VERSION, sf_revision := u64_saturating_add (sf_revision file) 1,
    sf_shortcuts := bs2\<rparr>"
  have "configured_triggers bs1 = Inr (cs_trigger ` set (kept_bindings cs))"
    using move(2) by (intro configured_triggers_of) (simp add: compile_bindings_Inr)
  moreover have "sf_version file \<noteq> SHORTCUT_SCHEMA_VERSION"
    using assms(3) by (auto simp: additions_since_def SHORTCUT_SCHEMA_VERSION_def)
  ultimately have "migrate_shortcut_file file = Inr (file', Some (?moved + length new))"
    using assms(2-4) move(1) add(1) by (simp add: migrate_shortcut_file_def file'_def)
  moreover have revision: "unat (sf_revision file') = min (unat (sf_revision file) + 1) (2 ^ 64 - 1)"
    using unat_u64_saturating_add by (simp add: file'_def)
  then have "sf_revision file' \<noteq> 0"
    by (auto simp: min_def split: if_splits)
  then have "compile_shortcuts file' = Inr (kept_bindings cs @ new)"
    using add(2,3) by (simp add: compile_shortcuts_Inr file_ok_def file'_def)
  moreover have "length (kept_bindings cs @ new) = length bs2"
    using add(2) by (auto simp: compile_bindings_Inr dest: list_all2_lengthD)
  moreover have "\<forall>c\<in>set cs. c \<in> set (kept_bindings cs) \<or> c = legacy_maximize \<and> relocated_maximize \<in> set (kept_bindings cs)"
    by (auto simp: kept_bindings_def maximize_moves_def)
  ultimately show ?thesis
    using add(4,5) revision by (intro exI [of _ file'] exI [of _ new] conjI) simp_all
qed

definition sample_v3_file :: shortcut_file where
  "sample_v3_file = \<lparr>sf_version = 3, sf_revision = 7, sf_shortcuts =
     [\<lparr>sb_shortcut = ''win+up'', sb_target = DenialAction ToggleMaximize\<rparr>]\<rparr>"

lemma migration_keeps_shortcuts_witness:
  "\<exists>file' n new. migrate_shortcut_file sample_v3_file = Inr (file', Some (n + 1)) \<and>
    compile_shortcuts file' = Inr (relocated_maximize # new) \<and> unat (sf_revision file') = 8"
proof -
  have compiled: "compile_bindings {} (sf_shortcuts sample_v3_file) = Inr [legacy_maximize]"
    by code_simp
  have adds: "additions_since (sf_version sample_v3_file) = Some (SHORTCUT_V4_ADDITIONS @ SHORTCUT_V5_ADDITIONS @ SHORTCUT_V6_ADDITIONS)"
    by code_simp
  have size: "length (sf_shortcuts sample_v3_file) \<le> MAX_SHORTCUTS" "sf_revision sample_v3_file = 7"
    by (simp_all add: sample_v3_file_def MAX_SHORTCUTS_def)
  have "maximize_moves [legacy_maximize]" "kept_bindings [legacy_maximize] = [relocated_maximize]"
    by code_simp+
  then show ?thesis
    using migration_keeps_shortcuts [OF compiled size(1) adds] by (fastforce simp: size(2))
qed

text \<open>The move of the old default happens in files of every older version, also of those that came after its introduction.\<close>

definition sample_v5_file :: shortcut_file where
  "sample_v5_file = \<lparr>sf_version = 5, sf_revision = 1, sf_shortcuts =
     [\<lparr>sb_shortcut = ''Super+Up'', sb_target = DenialAction ToggleMaximize\<rparr>]\<rparr>"

lemma v5_binding_moves:
  "\<exists>file' n. migrate_shortcut_file sample_v5_file = Inr (file', Some n) \<and>
     \<lparr>sb_shortcut = ''Super+W'', sb_target = DenialAction ToggleMaximize\<rparr> \<in> set (sf_shortcuts file') \<and>
     list_all (\<lambda>b. sb_shortcut b \<noteq> ''Super+Up'') (sf_shortcuts file')"
proof -
  define bs where "bs = [\<lparr>sb_shortcut = ''Super+W'', sb_target = DenialAction ToggleMaximize\<rparr>]"
  define bs' where "bs' = bs @ map (\<lambda>(shortcut, action). \<lparr>sb_shortcut = shortcut, sb_target = DenialAction action\<rparr>) SHORTCUT_V6_ADDITIONS"
  have "migrate_default_shortcut (sf_shortcuts sample_v5_file) ''Super+Up'' ToggleMaximize ''Super+W'' = Inr (bs, True)"
    unfolding bs_def by code_simp
  moreover have "configured_triggers bs = Inr {trigger_of ''Super+W''}"
    unfolding bs_def by code_simp
  moreover have "add_bindings SHORTCUT_V6_ADDITIONS {trigger_of ''Super+W''} bs 1 = Inr (bs', 3)"
    unfolding bs_def bs'_def by code_simp
  moreover have "list_all (\<lambda>b. sb_shortcut b \<noteq> ''Super+Up'') bs'"
    unfolding bs_def bs'_def by code_simp
  ultimately show ?thesis
    by (simp add: migrate_shortcut_file_def sample_v5_file_def additions_since_def SHORTCUT_SCHEMA_VERSION_def MAX_SHORTCUTS_def)
      (simp add: bs'_def bs_def)
qed

end
