(* ===== verification/Window_Layout.thy ===== *)
theory Window_Layout
  imports F64 "HOL-Library.Multiset"
begin

text \<open>
  The pluggable window-layout algorithms (\<open>compositor/src/bin/deniald/window_layout.rs\<close>): the
  layout trait as a locale, the stacking and dwindle layouts that implement it, the geometry of a
  dwindle split, and directional neighbour search.
\<close>

section \<open>Data\<close>

record rectangle =
  loc_x :: int
  loc_y :: int
  size_w :: int
  size_h :: int

datatype window_layout_kind = Stacking | Dwindle

fun settings_name :: "window_layout_kind \<Rightarrow> string" where
  "settings_name Stacking = ''stacking''"
| "settings_name Dwindle = ''dwindle''"

definition from_settings_name :: "string \<Rightarrow> window_layout_kind option" where
  "from_settings_name name =
     (if name = ''stacking'' then Some Stacking
      else if name = ''dwindle'' then Some Dwindle
      else None)"

record 'w layout_insertion =
  ins_window :: 'w
  ins_output :: output_id
  ins_anchor :: "'w option"

record 'w layout_placement =
  pl_window :: 'w
  pl_geometry :: rectangle

datatype layout_direction = Left | Right | Up | Down

record layout_resize_edges =
  edge_top :: bool
  edge_bottom :: bool
  edge_left :: bool
  edge_right :: bool

record 'w layout_resize_request =
  rz_window :: 'w
  rz_work_area :: rectangle
  rz_gap :: int
  rz_delta_x :: f64
  rz_delta_y :: f64
  rz_edges :: layout_resize_edges

section \<open>Directional neighbours\<close>

definition rectangle_center :: "rectangle \<Rightarrow> f64 \<times> f64" where
  "rectangle_center r =
     (f64_add (f64_of_int (loc_x r)) (f64_div (f64_of_int (size_w r)) (Finite 2)),
      f64_add (f64_of_int (loc_y r)) (f64_div (f64_of_int (size_h r)) (Finite 2)))"

definition ranges_overlap :: "int \<Rightarrow> int \<Rightarrow> int \<Rightarrow> int \<Rightarrow> bool" where
  "ranges_overlap first_start first_end second_start second_end \<longleftrightarrow>
     first_start < second_end \<and> second_start < first_end"

definition is_horizontal :: "layout_direction \<Rightarrow> bool" where
  "is_horizontal direction \<longleftrightarrow> direction = Left \<or> direction = Right"

definition in_direction :: "layout_direction \<Rightarrow> f64 \<times> f64 \<Rightarrow> f64 \<times> f64 \<Rightarrow> bool" where
  "in_direction direction center current_center \<longleftrightarrow>
     (case direction of
        Left \<Rightarrow> f64_lt (fst center) (fst current_center)
      | Right \<Rightarrow> f64_lt (fst current_center) (fst center)
      | Up \<Rightarrow> f64_lt (snd center) (snd current_center)
      | Down \<Rightarrow> f64_lt (snd current_center) (snd center))"

text \<open>The sort key of a candidate: unaligned last, then primary, then perpendicular distance.\<close>

definition neighbor_key ::
  "layout_direction \<Rightarrow> rectangle \<Rightarrow> rectangle \<Rightarrow> (bool \<times> f64 \<times> f64) option" where
  "neighbor_key direction current candidate =
     (let center = rectangle_center candidate; current_center = rectangle_center current
      in if \<not> in_direction direction center current_center then None
         else let horizontal = is_horizontal direction;
            aligned = (if horizontal
              then ranges_overlap (loc_y current) (i32_saturating_add (loc_y current) (size_h current))
                (loc_y candidate) (i32_saturating_add (loc_y candidate) (size_h candidate))
              else ranges_overlap (loc_x current) (i32_saturating_add (loc_x current) (size_w current))
                (loc_x candidate) (i32_saturating_add (loc_x candidate) (size_w candidate)));
            dx = f64_abs (f64_sub (fst center) (fst current_center));
            dy = f64_abs (f64_sub (snd center) (snd current_center))
          in Some (\<not> aligned, if horizontal then dx else dy, if horizontal then dy else dx))"

definition neighbor_key_lt :: "bool \<times> f64 \<times> f64 \<Rightarrow> bool \<times> f64 \<times> f64 \<Rightarrow> bool" where
  "neighbor_key_lt left right =
     (case (left, right) of ((u, p, q), (u', p', q')) \<Rightarrow>
        (\<not> u \<and> u') \<or> u = u' \<and> (p < p' \<or> p = p' \<and> q < q'))"

text \<open>\<open>Iterator::min_by\<close>: the first of the least elements.\<close>

fun min_by_key :: "('k \<Rightarrow> 'k \<Rightarrow> bool) \<Rightarrow> ('a \<times> 'k) list \<Rightarrow> ('a \<times> 'k) option" where
  "min_by_key lt [] = None"
| "min_by_key lt (x # xs) =
     (case min_by_key lt xs of None \<Rightarrow> Some x
      | Some y \<Rightarrow> if lt (snd y) (snd x) then Some y else Some x)"

definition directional_neighbor ::
  "'w \<Rightarrow> 'w layout_placement list \<Rightarrow> layout_direction \<Rightarrow> 'w option" where
  "directional_neighbor focused placements direction =
     (case find (\<lambda>placement. pl_window placement = focused) placements of
        None \<Rightarrow> None
      | Some current \<Rightarrow>
          map_option (\<lambda>(placement, _). pl_window placement)
            (min_by_key neighbor_key_lt
              (List.map_filter (\<lambda>placement.
                 if pl_window placement = focused then None
                 else map_option (Pair placement)
                   (neighbor_key direction (pl_geometry current) (pl_geometry placement)))
                placements)))"

section \<open>Splitting a rectangle\<close>

definition ratio_min :: f64 where "ratio_min = rnd (1 / 10)"
definition ratio_max :: f64 where "ratio_max = rnd (9 / 10)"

definition split_geometry :: "rectangle \<Rightarrow> int \<Rightarrow> f64 \<Rightarrow> rectangle \<times> rectangle" where
  "split_geometry geometry requested_gap requested_ratio =
     (let horizontal = size_h geometry \<le> size_w geometry;
          extent = max (if horizontal then size_w geometry else size_h geometry) 2;
          gap = clamp requested_gap 0 (i32_saturating_sub extent 2);
          available = i32_saturating_sub extent gap;
          ratio = (if f64_is_finite requested_ratio
            then f64_clamp requested_ratio ratio_min ratio_max else Finite (1 / 2));
          first_extent0 = f64_as_i32 (f64_round (f64_mul (f64_of_int available) ratio));
          first_extent = clamp first_extent0 1 (max (i32_saturating_sub available 1) 1);
          second_extent = max (i32_saturating_sub available first_extent) 1
      in if horizontal then
           (geometry\<lparr>size_w := first_extent\<rparr>,
            geometry\<lparr>loc_x := i32_saturating_add (i32_saturating_add (loc_x geometry) first_extent) gap,
              size_w := second_extent\<rparr>)
         else
           (geometry\<lparr>size_h := first_extent\<rparr>,
            geometry\<lparr>loc_y := i32_saturating_add (i32_saturating_add (loc_y geometry) first_extent) gap,
              size_h := second_extent\<rparr>))"

section \<open>The dwindle tree\<close>

datatype 'w dwindle_node =
    Window 'w
  | Split f64 "'w dwindle_node" "'w dwindle_node"

record resized_axes =
  ax_horizontal :: bool
  ax_vertical :: bool
  ax_changed :: bool

definition resized_axes_default :: resized_axes where
  "resized_axes_default = \<lparr>ax_horizontal = False, ax_vertical = False, ax_changed = False\<rparr>"

fun node_contains :: "'w dwindle_node \<Rightarrow> 'w \<Rightarrow> bool" where
  "node_contains (Window candidate) window = (candidate = window)"
| "node_contains (Split ratio first second) window =
     (node_contains first window \<or> node_contains second window)"

fun last_window :: "'w dwindle_node \<Rightarrow> 'w" where
  "last_window (Window window) = window"
| "last_window (Split ratio first second) = last_window second"

text \<open>The node after the in-place split, and whether the anchor was found.\<close>

fun split_window :: "'w dwindle_node \<Rightarrow> 'w \<Rightarrow> 'w \<Rightarrow> 'w dwindle_node \<times> bool" where
  "split_window (Window candidate) anchor window =
     (if candidate = anchor
      then (Split (Finite (1 / 2)) (Window candidate) (Window window), True)
      else (Window candidate, False))"
| "split_window (Split ratio first second) anchor window =
     (case split_window first anchor window of (first', inserted) \<Rightarrow>
        if inserted then (Split ratio first' second, True)
        else (case split_window second anchor window of (second', inserted) \<Rightarrow>
          (Split ratio first' second', inserted)))"

text \<open>
  The remaining node and whether the window was removed; \<open>None\<close> is the panic of one of the three
  \<open>expect\<close> calls on the unchanged children.
\<close>

fun node_remove :: "'w dwindle_node \<Rightarrow> 'w \<Rightarrow> ('w dwindle_node option \<times> bool) option" where
  "node_remove (Window candidate) window =
     Some (if candidate = window then (None, True) else (Some (Window candidate), False))"
| "node_remove (Split ratio first second) window =
     (case node_remove first window of
        None \<Rightarrow> None
      | Some (first', True) \<Rightarrow>
          (case first' of
             Some f \<Rightarrow> Some (Some (Split ratio f second), True)
           | None \<Rightarrow> Some (Some second, True))
      | Some (first', False) \<Rightarrow>
          (case node_remove second window of
             None \<Rightarrow> None
           | Some (second', False) \<Rightarrow>
               (case (first', second') of
                  (Some f, Some s) \<Rightarrow> Some (Some (Split ratio f s), False)
                | _ \<Rightarrow> None)
           | Some (Some s, True) \<Rightarrow>
               (case first' of Some f \<Rightarrow> Some (Some (Split ratio f s), True) | None \<Rightarrow> None)
           | Some (None, True) \<Rightarrow> Some (first', True)))"

fun node_arrange :: "'w dwindle_node \<Rightarrow> rectangle \<Rightarrow> int \<Rightarrow> 'w layout_placement list" where
  "node_arrange (Window window) geometry gap = [\<lparr>pl_window = window, pl_geometry = geometry\<rparr>]"
| "node_arrange (Split ratio first second) geometry gap =
     (case split_geometry geometry gap ratio of (first_geometry, second_geometry) \<Rightarrow>
        node_arrange first first_geometry gap @ node_arrange second second_geometry gap)"

definition f64_epsilon :: f64 where "f64_epsilon = Finite (1 / 2 ^ 52)"

text \<open>
  The boundary a split owns, and the ratio after moving it. The pair is the new ratio and whether
  it changed.
\<close>

definition handles_boundary ::
  "bool \<Rightarrow> bool \<Rightarrow> bool \<Rightarrow> layout_resize_edges \<Rightarrow> resized_axes \<Rightarrow> bool" where
  "handles_boundary horizontal_split window_in_first window_in_second edges resized \<longleftrightarrow>
     (if horizontal_split then
        \<not> ax_horizontal resized \<and>
        (window_in_first \<and> edge_right edges \<or> window_in_second \<and> edge_left edges)
      else
        \<not> ax_vertical resized \<and>
        (window_in_first \<and> edge_bottom edges \<or> window_in_second \<and> edge_top edges))"

definition resize_ratio :: "f64 \<Rightarrow> f64 \<Rightarrow> int \<Rightarrow> f64 \<times> bool" where
  "resize_ratio ratio delta available =
     (if f64_is_finite delta \<and> \<not> f64_eq delta (Finite 0) then
        let next = f64_clamp (f64_add ratio (f64_div delta (f64_of_int available)))
              ratio_min ratio_max
        in if f64_lt f64_epsilon (f64_abs (f64_sub next ratio)) then (next, True) else (ratio, False)
      else (ratio, False))"

fun resize_window ::
  "'w dwindle_node \<Rightarrow> 'w \<Rightarrow> rectangle \<Rightarrow> int \<Rightarrow> layout_resize_edges \<Rightarrow> f64 \<Rightarrow> f64 \<Rightarrow>
     'w dwindle_node \<times> resized_axes" where
  "resize_window (Window w) window geometry gap edges delta_x delta_y =
     (Window w, resized_axes_default)"
| "resize_window (Split ratio first second) window geometry gap edges delta_x delta_y =
     (let window_in_first = node_contains first window;
          window_in_second = (\<not> window_in_first \<and> node_contains second window)
      in if \<not> window_in_first \<and> \<not> window_in_second
         then (Split ratio first second, resized_axes_default)
         else case split_geometry geometry gap ratio of (first_geometry, second_geometry) \<Rightarrow>
           (case (if window_in_first
              then (case resize_window first window first_geometry gap edges delta_x delta_y of
                (first', resized) \<Rightarrow> (first', second, resized))
              else (case resize_window second window second_geometry gap edges delta_x delta_y of
                (second', resized) \<Rightarrow> (first, second', resized)))
            of (first', second', resized) \<Rightarrow>
              let horizontal_split = size_h geometry \<le> size_w geometry
              in if \<not> handles_boundary horizontal_split window_in_first window_in_second edges resized
                 then (Split ratio first' second', resized)
                 else let extent = (if horizontal_split then size_w geometry else size_h geometry);
                    available = max (i32_saturating_sub extent (max gap 0)) 2;
                    delta = (if horizontal_split then delta_x else delta_y)
                  in case resize_ratio ratio delta available of (ratio', changed) \<Rightarrow>
                    (Split ratio' first' second',
                     resized\<lparr>ax_changed := ax_changed resized \<or> changed,
                       ax_horizontal := ax_horizontal resized \<or> horizontal_split,
                       ax_vertical := ax_vertical resized \<or> \<not> horizontal_split\<rparr>)))"

fun swap_windows :: "'w dwindle_node \<Rightarrow> 'w \<Rightarrow> 'w \<Rightarrow> 'w dwindle_node" where
  "swap_windows (Window window) first second =
     (if window = first then Window second
      else if window = second then Window first
      else Window window)"
| "swap_windows (Split ratio first_child second_child) first second =
     Split ratio (swap_windows first_child first second) (swap_windows second_child first second)"

section \<open>The dwindle layout\<close>

type_synonym 'w dwindle_layout = "output_id \<rightharpoonup> 'w dwindle_node"

text \<open>
  The first output whose tree contains a window. The hash map's own order is unspecified; the
  model searches in ascending order, and \<open>find_output_any\<close> below shows that under the layout's
  invariant every order finds the same output.
\<close>

definition find_output :: "'w dwindle_layout \<Rightarrow> 'w \<Rightarrow> output_id option" where
  "find_output roots window =
     find (\<lambda>out. case roots out of None \<Rightarrow> False | Some tree \<Rightarrow> node_contains tree window)
       (set_iter (dom roots))"

definition dwindle_contains :: "'w dwindle_layout \<Rightarrow> 'w \<Rightarrow> bool" where
  "dwindle_contains roots window = (find_output roots window \<noteq> None)"

definition dwindle_clear :: "'w dwindle_layout \<Rightarrow> 'w dwindle_layout" where
  "dwindle_clear roots = Map.empty"

definition dwindle_remove :: "'w dwindle_layout \<Rightarrow> 'w \<Rightarrow> ('w dwindle_layout \<times> bool) option" where
  "dwindle_remove roots window =
     (case find_output roots window of
        None \<Rightarrow> Some (roots, False)
      | Some out \<Rightarrow>
          (case roots out of
             None \<Rightarrow> None
           | Some tree \<Rightarrow>
               map_option (\<lambda>(tree', removed). (roots(out := tree'), removed))
                 (node_remove tree window)))"

definition dwindle_insert :: "'w dwindle_layout \<Rightarrow> 'w layout_insertion \<Rightarrow> 'w dwindle_layout option" where
  "dwindle_insert roots0 insertion =
     (case dwindle_remove roots0 (ins_window insertion) of
        None \<Rightarrow> None
      | Some (roots, _) \<Rightarrow>
          Some (case roots (ins_output insertion) of
             None \<Rightarrow> roots(ins_output insertion \<mapsto> Window (ins_window insertion))
           | Some tree \<Rightarrow>
               let anchor = (case ins_anchor insertion of
                  Some a \<Rightarrow> if node_contains tree a then a else last_window tree
                | None \<Rightarrow> last_window tree)
               in roots(ins_output insertion \<mapsto>
                    fst (split_window tree anchor (ins_window insertion)))))"

definition dwindle_swap :: "'w dwindle_layout \<Rightarrow> 'w \<Rightarrow> 'w \<Rightarrow> 'w dwindle_layout \<times> bool" where
  "dwindle_swap roots first second =
     (if first = second \<or> \<not> dwindle_contains roots first \<or> \<not> dwindle_contains roots second
      then (roots, False)
      else (\<lambda>out. map_option (\<lambda>tree. swap_windows tree first second) (roots out), True))"

definition dwindle_resize ::
  "'w dwindle_layout \<Rightarrow> 'w layout_resize_request \<Rightarrow> 'w dwindle_layout \<times> bool" where
  "dwindle_resize roots request =
     (if \<not> f64_is_finite (rz_delta_x request) \<or> \<not> f64_is_finite (rz_delta_y request)
      then (roots, False)
      else case find_output roots (rz_window request) of
        None \<Rightarrow> (roots, False)
      | Some out \<Rightarrow>
          (case roots out of
             None \<Rightarrow> (roots, False)
           | Some tree \<Rightarrow>
               (case resize_window tree (rz_window request) (rz_work_area request)
                  (max (rz_gap request) 0) (rz_edges request) (rz_delta_x request) (rz_delta_y request)
                of (tree', axes) \<Rightarrow> (roots(out \<mapsto> tree'), ax_changed axes))))"

definition dwindle_arrange ::
  "'w dwindle_layout \<Rightarrow> output_id \<Rightarrow> rectangle \<Rightarrow> int \<Rightarrow> 'w layout_placement list" where
  "dwindle_arrange roots out work_area gap =
     (case roots out of None \<Rightarrow> [] | Some tree \<Rightarrow> node_arrange tree work_area (max gap 0))"

section \<open>The stacking layout\<close>

type_synonym stacking_layout = unit

definition stacking_insert :: "stacking_layout \<Rightarrow> 'w layout_insertion \<Rightarrow> stacking_layout option" where
  "stacking_insert s insertion = Some s"

definition stacking_remove :: "stacking_layout \<Rightarrow> 'w \<Rightarrow> (stacking_layout \<times> bool) option" where
  "stacking_remove s window = Some (s, False)"

definition stacking_contains :: "stacking_layout \<Rightarrow> 'w \<Rightarrow> bool" where
  "stacking_contains s window = False"

definition stacking_clear :: "stacking_layout \<Rightarrow> stacking_layout" where
  "stacking_clear s = s"

definition stacking_arrange ::
  "stacking_layout \<Rightarrow> output_id \<Rightarrow> rectangle \<Rightarrow> int \<Rightarrow> 'w layout_placement list" where
  "stacking_arrange s out work_area gap = []"

text \<open>The trait's default methods, which the stacking layout keeps.\<close>

definition default_swap :: "'s \<Rightarrow> 'w \<Rightarrow> 'w \<Rightarrow> 's \<times> bool" where
  "default_swap s first second = (s, False)"

definition default_resize :: "'s \<Rightarrow> 'w layout_resize_request \<Rightarrow> 's \<times> bool" where
  "default_resize s request = (s, False)"

text \<open>The boxed trait object and its constructor.\<close>

datatype 'w boxed_layout = BoxedStacking stacking_layout | BoxedDwindle "'w dwindle_layout"

fun create_window_layout :: "window_layout_kind \<Rightarrow> 'w boxed_layout" where
  "create_window_layout Stacking = BoxedStacking ()"
| "create_window_layout Dwindle = BoxedDwindle Map.empty"

fun layout_kind :: "'w boxed_layout \<Rightarrow> window_layout_kind" where
  "layout_kind (BoxedStacking s) = Stacking"
| "layout_kind (BoxedDwindle roots) = Dwindle"

fun manages_geometry :: "'w boxed_layout \<Rightarrow> bool" where
  "manages_geometry (BoxedStacking s) = False"
| "manages_geometry (BoxedDwindle roots) = True"

section \<open>Geometry lemmas\<close>

definition rect_ok :: "rectangle \<Rightarrow> bool" where
  "rect_ok r \<longleftrightarrow> is_i32 (loc_x r) \<and> is_i32 (loc_y r) \<and> 0 \<le> size_w r \<and> 0 \<le> size_h r \<and>
     loc_x r + size_w r \<le> i32_max \<and> loc_y r + size_h r \<le> i32_max \<and>
     size_w r \<le> i32_max \<and> size_h r \<le> i32_max"

definition rect_within :: "rectangle \<Rightarrow> rectangle \<Rightarrow> bool" where
  "rect_within inner outer \<longleftrightarrow>
     loc_x outer \<le> loc_x inner \<and> loc_x inner + size_w inner \<le> loc_x outer + size_w outer \<and>
     loc_y outer \<le> loc_y inner \<and> loc_y inner + size_h inner \<le> loc_y outer + size_h outer"

definition rect_separate :: "rectangle \<Rightarrow> rectangle \<Rightarrow> bool" where
  "rect_separate a b \<longleftrightarrow>
     loc_x a + size_w a \<le> loc_x b \<or> loc_x b + size_w b \<le> loc_x a \<or>
     loc_y a + size_h a \<le> loc_y b \<or> loc_y b + size_h b \<le> loc_y a"

lemma rect_within_refl [simp]: "rect_within r r"
  by (simp add: rect_within_def)

lemma rect_within_trans: "rect_within a b \<Longrightarrow> rect_within b c \<Longrightarrow> rect_within a c"
  by (auto simp: rect_within_def)

lemma rect_separate_within:
  "rect_separate a b \<Longrightarrow> rect_within a' a \<Longrightarrow> rect_within b' b \<Longrightarrow> rect_separate a' b'"
  by (auto simp: rect_separate_def rect_within_def)

text \<open>The extent of the longer side, which a split divides.\<close>

definition split_extent :: "rectangle \<Rightarrow> int" where
  "split_extent r = max (size_w r) (size_h r)"

lemma split_geometry_parts:
  assumes "rect_ok r" and "2 \<le> split_extent r"
  obtains first gap' second where "1 \<le> first" and "1 \<le> second" and "0 \<le> gap'"
    and "gap' = clamp gap 0 (split_extent r - 2)" and "first + gap' + second = split_extent r"
    and "split_geometry r gap ratio =
      (if size_h r \<le> size_w r
       then (r\<lparr>size_w := first\<rparr>, r\<lparr>loc_x := loc_x r + first + gap', size_w := second\<rparr>)
       else (r\<lparr>size_h := first\<rparr>, r\<lparr>loc_y := loc_y r + first + gap', size_h := second\<rparr>))"
proof -
  define extent where "extent = split_extent r"
  define gap' where "gap' = clamp gap 0 (extent - 2)"
  define first0 where "first0 = f64_as_i32 (f64_round (f64_mul (f64_of_int (extent - gap'))
    (if f64_is_finite ratio then f64_clamp ratio ratio_min ratio_max else Finite (1 / 2))))"
  define first where "first = clamp first0 1 (extent - gap' - 1)"
  have ext: "2 \<le> extent" "extent \<le> i32_max"
    using assms by (auto simp: extent_def split_extent_def rect_ok_def)
  have g: "0 \<le> gap'" "gap' \<le> extent - 2"
    using clamp_bounds [of 0 "extent - 2" gap] ext by (auto simp: gap'_def)
  have f: "1 \<le> first" "first \<le> extent - gap' - 1"
    using clamp_bounds [of 1 "extent - gap' - 1" first0] g ext by (auto simp: first_def)
  have side: "extent = (if size_h r \<le> size_w r then size_w r else size_h r)"
    by (simp add: extent_def split_extent_def max_def)
  have sub: "i32_saturating_sub extent 2 = extent - 2" "i32_saturating_sub extent gap' = extent - gap'"
      "i32_saturating_sub (extent - gap') 1 = extent - gap' - 1"
      "i32_saturating_sub (extent - gap') first = extent - gap' - first"
    using ext g f by (auto simp: i32_saturating_sub_def is_i32_def)
  have add: "i32_saturating_add (i32_saturating_add (if size_h r \<le> size_w r then loc_x r else loc_y r)
      first) gap' = (if size_h r \<le> size_w r then loc_x r else loc_y r) + first + gap'"
    using assms(1) side ext g f
    by (auto simp: i32_saturating_add_def rect_ok_def is_i32_def split: if_splits)
  have "split_geometry r gap ratio =
      (if size_h r \<le> size_w r
       then (r\<lparr>size_w := first\<rparr>, r\<lparr>loc_x := loc_x r + first + gap', size_w := extent - gap' - first\<rparr>)
       else (r\<lparr>size_h := first\<rparr>, r\<lparr>loc_y := loc_y r + first + gap', size_h := extent - gap' - first\<rparr>))"
  proof -
    have e: "max (if size_h r \<le> size_w r then size_w r else size_h r) 2 = extent"
      using side ext(1) by simp
    have m: "max (extent - gap' - 1) 1 = extent - gap' - 1" "max (extent - gap' - first) 1 = extent - gap' - first"
      using f g ext by auto
    show ?thesis
      unfolding split_geometry_def Let_def e sub(1) gap'_def [symmetric] sub(2) first0_def [symmetric]
        sub(3) m(1) first_def [symmetric] sub(4) m(2)
      using add by auto
  qed
  then show thesis
    using f g by (intro that [of first "extent - gap' - first" gap'])
      (auto simp: gap'_def extent_def)
qed

text \<open>A split separates its children inside the parent; the areas add up when there is no gap.\<close>

definition area :: "rectangle \<Rightarrow> int" where
  "area r = size_w r * size_h r"

lemma split_geometry_within:
  assumes "rect_ok r" and "2 \<le> split_extent r" and "split_geometry r gap ratio = (a, b)"
  shows "rect_ok a" and "rect_ok b" and "rect_within a r" and "rect_within b r"
    and "rect_separate a b" and "gap \<le> 0 \<Longrightarrow> area a + area b = area r"
proof -
  obtain first gap' second where p: "1 \<le> first" "1 \<le> second" "0 \<le> gap'"
    and g: "gap' = clamp gap 0 (split_extent r - 2)"
    and sum: "first + gap' + second = split_extent r"
    and eq: "split_geometry r gap ratio =
      (if size_h r \<le> size_w r
       then (r\<lparr>size_w := first\<rparr>, r\<lparr>loc_x := loc_x r + first + gap', size_w := second\<rparr>)
       else (r\<lparr>size_h := first\<rparr>, r\<lparr>loc_y := loc_y r + first + gap', size_h := second\<rparr>))"
    using split_geometry_parts [OF assms(1,2)] by metis
  have ext: "split_extent r = (if size_h r \<le> size_w r then size_w r else size_h r)"
    by (simp add: split_extent_def max_def)
  show "rect_ok a" "rect_ok b" "rect_within a r" "rect_within b r" "rect_separate a b"
    using assms(1,3) p sum ext
    by (auto simp: eq rect_ok_def is_i32_def rect_within_def rect_separate_def split: if_splits)
  show "area a + area b = area r" if "gap \<le> 0"
  proof -
    have "gap' = 0"
      using that g assms(2) by (auto simp: clamp_def)
    then have "first + second = split_extent r"
      using sum by simp
    then show ?thesis
      using assms(3) ext by (auto simp: eq area_def simp flip: distrib_left distrib_right split: if_splits)
  qed
qed

text \<open>
  An area is roomy for a tree when every split has at least two pixels to divide. Below that the
  code gives each child one pixel regardless, so children leave the parent.
\<close>

fun roomy :: "'w dwindle_node \<Rightarrow> rectangle \<Rightarrow> int \<Rightarrow> bool" where
  "roomy (Window w) geometry gap = True"
| "roomy (Split ratio first second) geometry gap =
     (2 \<le> split_extent geometry \<and>
      roomy first (fst (split_geometry geometry gap ratio)) gap \<and>
      roomy second (snd (split_geometry geometry gap ratio)) gap)"

lemma node_arrange_within:
  "rect_ok geometry \<Longrightarrow> roomy tree geometry gap \<Longrightarrow>
     \<forall>p\<in>set (node_arrange tree geometry gap). rect_within (pl_geometry p) geometry"
proof (induction tree arbitrary: geometry)
  case (Split ratio first second)
  obtain a b where ab: "split_geometry geometry gap ratio = (a, b)"
    by (cases "split_geometry geometry gap ratio")
  from Split.prems ab have roomy: "2 \<le> split_extent geometry" "roomy first a gap" "roomy second b gap"
    by auto
  note w = split_geometry_within [OF Split.prems(1) roomy(1) ab]
  show ?case
    using Split.IH(1) [OF w(1) roomy(2)] Split.IH(2) [OF w(2) roomy(3)] w(3,4)
    by (auto simp: ab intro: rect_within_trans)
qed simp

lemma node_arrange_separate:
  "rect_ok geometry \<Longrightarrow> roomy tree geometry gap \<Longrightarrow>
     sorted_wrt (\<lambda>p q. rect_separate (pl_geometry p) (pl_geometry q)) (node_arrange tree geometry gap)"
proof (induction tree arbitrary: geometry)
  case (Split ratio first second)
  obtain a b where ab: "split_geometry geometry gap ratio = (a, b)"
    by (cases "split_geometry geometry gap ratio")
  from Split.prems ab have roomy: "2 \<le> split_extent geometry" "roomy first a gap" "roomy second b gap"
    by auto
  note w = split_geometry_within [OF Split.prems(1) roomy(1) ab]
  have "rect_separate (pl_geometry p) (pl_geometry q)"
    if "p \<in> set (node_arrange first a gap)" and "q \<in> set (node_arrange second b gap)" for p q
    using that node_arrange_within [OF w(1) roomy(2)] node_arrange_within [OF w(2) roomy(3)] w(5)
    by (blast intro: rect_separate_within)
  then show ?case
    using Split.IH w roomy by (simp add: ab sorted_wrt_append)
qed simp

lemma node_arrange_area:
  "rect_ok geometry \<Longrightarrow> roomy tree geometry gap \<Longrightarrow> gap \<le> 0 \<Longrightarrow>
     sum_list (map (\<lambda>p. area (pl_geometry p)) (node_arrange tree geometry gap)) = area geometry"
proof (induction tree arbitrary: geometry)
  case (Split ratio first second)
  obtain a b where ab: "split_geometry geometry gap ratio = (a, b)"
    by (cases "split_geometry geometry gap ratio")
  then show ?case
    using Split split_geometry_within [OF Split.prems(1) _ ab] by simp
qed simp

section \<open>Tree lemmas\<close>

fun leaves :: "'w dwindle_node \<Rightarrow> 'w list" where
  "leaves (Window w) = [w]"
| "leaves (Split ratio first second) = leaves first @ leaves second"

lemma leaves_nonempty [simp]: "leaves tree \<noteq> []"
  by (induction tree) auto

lemma node_contains_leaves [simp]: "node_contains tree w \<longleftrightarrow> w \<in> set (leaves tree)"
  by (induction tree) auto

lemma last_window_leaves [simp]: "last_window tree = last (leaves tree)"
  by (induction tree) auto

lemma node_arrange_leaves [simp]: "map pl_window (node_arrange tree geometry gap) = leaves tree"
  by (induction tree arbitrary: geometry) (auto split: prod.splits)

lemma split_window_leaves:
  "snd (split_window tree anchor w) \<longleftrightarrow> anchor \<in> set (leaves tree)"
  "mset (leaves (fst (split_window tree anchor w))) =
     mset (leaves tree) + (if anchor \<in> set (leaves tree) then {#w#} else {#})"
  by (induction tree) (auto simp: case_prod_unfold)

lemma node_remove_spec:
  "\<exists>tree'. node_remove tree w = Some (tree', w \<in> set (leaves tree)) \<and>
     (w \<notin> set (leaves tree) \<longrightarrow> tree' = Some tree) \<and>
     (case tree' of None \<Rightarrow> leaves tree = [w] | Some t \<Rightarrow> leaves t = remove1 w (leaves tree))"
proof (induction tree)
  case (Split ratio first second)
  then obtain f s where f: "node_remove first w = Some (f, w \<in> set (leaves first))"
      "w \<notin> set (leaves first) \<longrightarrow> f = Some first"
      "case f of None \<Rightarrow> leaves first = [w] | Some t \<Rightarrow> leaves t = remove1 w (leaves first)"
    and s: "node_remove second w = Some (s, w \<in> set (leaves second))"
      "w \<notin> set (leaves second) \<longrightarrow> s = Some second"
      "case s of None \<Rightarrow> leaves second = [w] | Some t \<Rightarrow> leaves t = remove1 w (leaves second)"
    by blast
  show ?case
  proof (cases "w \<in> set (leaves first)")
    case True
    then show ?thesis
      using f by (cases f) (auto simp: remove1_append)
  next
    case False
    then show ?thesis
      using f s by (cases s; cases "w \<in> set (leaves second)")
        (auto simp: remove1_append remove1_idem)
  qed
qed auto

lemma resize_window_leaves:
  "leaves (fst (resize_window tree w geometry gap edges dx dy)) = leaves tree"
  by (induction tree arbitrary: geometry)
    (auto simp: Let_def case_prod_unfold)

lemma swap_windows_leaves:
  "leaves (swap_windows tree a b) =
     map (\<lambda>w. if w = a then b else if w = b then a else w) (leaves tree)"
  by (induction tree) auto

text \<open>Every ratio of a tree the layout built lies between one tenth and nine tenths.\<close>

definition ratio_ok :: "f64 \<Rightarrow> bool" where
  "ratio_ok ratio \<longleftrightarrow> (\<exists>x. ratio = Finite x \<and> fl (1 / 10) \<le> x \<and> x \<le> fl (9 / 10))"

fun ratios_ok :: "'w dwindle_node \<Rightarrow> bool" where
  "ratios_ok (Window w) = True"
| "ratios_ok (Split ratio first second) = (ratio_ok ratio \<and> ratios_ok first \<and> ratios_ok second)"

lemma rnd_small:
  assumes "0 \<le> x" and "x \<le> 1"
  shows "rnd x = Finite (fl x)"
proof -
  have "fl x \<le> fl (of_int 1)" and "0 \<le> fl x"
    using assms by (simp_all add: fl_mono fl_nonneg del: of_int_1)
  moreover have "fl (of_int 1) = of_int 1"
    by (rule fl_of_int) simp
  moreover have "1 < pow2 1024"
    using pow2_less_iff [of 0 1024] by (simp add: pow2_def)
  ultimately show ?thesis
    by (simp add: rnd_def)
qed

lemma ratio_bounds [simp]: "ratio_min = Finite (fl (1 / 10))" "ratio_max = Finite (fl (9 / 10))"
  by (simp_all add: ratio_min_def ratio_max_def rnd_small)

lemma fl_half: "fl (1 / 2) = 1 / 2"
  using fl_exact [of 1 "- 1"] by (simp add: pow2_def)

lemma ratio_ok_half [simp]: "ratio_ok (Finite (1 / 2))"
proof -
  have "fl (1 / 10) \<le> fl (1 / 2)" and "fl (1 / 2) \<le> fl (9 / 10)"
    by (rule fl_mono; simp)+
  then show ?thesis
    unfolding ratio_ok_def fl_half by blast
qed

lemma fl_tenths: "fl (1 / 10) \<le> fl (9 / 10)"
  by (rule fl_mono) simp

lemma f64_clamp_ratio_ok: "a \<noteq> NaN \<Longrightarrow> ratio_ok (f64_clamp a ratio_min ratio_max)"
  using fl_tenths by (cases a) (auto simp: f64_clamp_def ratio_ok_def)

lemma f64_div_int_finite:
  assumes "f64_is_finite d" and "2 \<le> n" and "n \<le> i32_max"
  shows "f64_div d (f64_of_int n) \<noteq> NaN"
proof -
  have "f64_of_int n = Finite (of_int n)"
    using assms by simp
  then show ?thesis
    using assms by (cases d) (auto simp: rnd_def Let_def)
qed

lemma f64_add_finite: "f64_is_finite a \<Longrightarrow> b \<noteq> NaN \<Longrightarrow> f64_add a b \<noteq> NaN"
  by (cases a; cases b) (auto simp: rnd_def Let_def)

lemma resize_ratio_ok:
  assumes "ratio_ok ratio" and "2 \<le> n" and "n \<le> i32_max"
  shows "ratio_ok (fst (resize_ratio ratio delta n))"
proof (cases "f64_is_finite delta")
  case True
  have "f64_add ratio (f64_div delta (f64_of_int n)) \<noteq> NaN"
    using assms f64_div_int_finite [OF True assms(2,3)]
    by (intro f64_add_finite) (auto simp: ratio_ok_def)
  then show ?thesis
    using assms(1) f64_clamp_ratio_ok by (simp add: resize_ratio_def Let_def del: ratio_bounds)
next
  case False
  then show ?thesis
    using assms(1) by (simp add: resize_ratio_def)
qed

lemma resize_ratio_available [simp]:
  assumes "ratio_ok ratio"
  shows "ratio_ok (fst (resize_ratio ratio delta (max (i32_saturating_sub extent gap) 2)))"
proof -
  have "i32_saturating_sub extent gap \<le> i32_max"
    using is_i32_sat [of "extent - gap"] by (simp add: i32_saturating_sub_def is_i32_def)
  then show ?thesis
    by (intro resize_ratio_ok [OF assms]) auto
qed

lemma resize_window_ratios_ok:
  "ratios_ok tree \<Longrightarrow> ratios_ok (fst (resize_window tree w geometry gap edges dx dy))"
  by (induction tree arbitrary: geometry)
    (auto simp: Let_def case_prod_unfold)

lemma split_window_ratios_ok: "ratios_ok tree \<Longrightarrow> ratios_ok (fst (split_window tree anchor w))"
  by (induction tree) (auto simp: case_prod_unfold)

lemma swap_windows_ratios_ok: "ratios_ok (swap_windows tree a b) = ratios_ok tree"
  by (induction tree) auto

lemma node_remove_ratios_ok:
  "ratios_ok tree \<Longrightarrow> node_remove tree w = Some (Some tree', b) \<Longrightarrow> ratios_ok tree'"
proof (induction tree arbitrary: tree' b)
  case (Split ratio first second)
  obtain f where f: "node_remove first w = Some (f, w \<in> set (leaves first))"
      "w \<notin> set (leaves first) \<longrightarrow> f = Some first"
    using node_remove_spec [of first w] by blast
  obtain s where s: "node_remove second w = Some (s, w \<in> set (leaves second))"
      "w \<notin> set (leaves second) \<longrightarrow> s = Some second"
    using node_remove_spec [of second w] by blast
  have fr: "ratios_ok t" if "f = Some t" for t
    using Split.IH(1) Split.prems(1) f(1) that by simp
  have sr: "ratios_ok t" if "s = Some t" for t
    using Split.IH(2) Split.prems(1) s(1) that by simp
  show ?case
  proof (cases "w \<in> set (leaves first)")
    case True
    then show ?thesis
      using Split.prems f(1) fr by (cases f) auto
  next
    case False
    then show ?thesis
      using Split.prems f s(1) sr by (cases s; cases "w \<in> set (leaves second)") auto
  qed
qed (simp split: if_splits)

section \<open>The layout invariant\<close>

definition dwindle_windows :: "'w dwindle_layout \<Rightarrow> 'w set" where
  "dwindle_windows roots = {w. \<exists>out tree. roots out = Some tree \<and> w \<in> set (leaves tree)}"

definition dwindle_inv :: "'w dwindle_layout \<Rightarrow> bool" where
  "dwindle_inv roots \<longleftrightarrow>
     finite (dom roots) \<and>
     (\<forall>out tree. roots out = Some tree \<longrightarrow> distinct (leaves tree) \<and> ratios_ok tree) \<and>
     (\<forall>out out' tree tree'. roots out = Some tree \<longrightarrow> roots out' = Some tree' \<longrightarrow> out \<noteq> out' \<longrightarrow>
        set (leaves tree) \<inter> set (leaves tree') = {})"

lemma dwindle_inv_unique:
  "dwindle_inv roots \<Longrightarrow> roots out = Some tree \<Longrightarrow> w \<in> set (leaves tree) \<Longrightarrow>
     roots out' = Some tree' \<Longrightarrow> w \<in> set (leaves tree') \<Longrightarrow> out = out'"
  unfolding dwindle_inv_def by blast

lemma find_output_Some:
  assumes "find_output roots w = Some out"
  shows "\<exists>tree. roots out = Some tree \<and> w \<in> set (leaves tree)"
  using assms by (auto simp: find_output_def find_Some_iff split: option.splits)

lemma find_output_None:
  assumes "dwindle_inv roots"
  shows "find_output roots w = None \<longleftrightarrow> w \<notin> dwindle_windows roots"
proof -
  have "finite (dom roots)"
    using assms by (simp add: dwindle_inv_def)
  then show ?thesis
    by (auto simp: find_output_def find_None_iff dwindle_windows_def dom_def split: option.splits)
qed

text \<open>The search order does not matter: a window is in at most one tree.\<close>

lemma find_output_any:
  assumes "dwindle_inv roots" and "roots out = Some tree" and "w \<in> set (leaves tree)"
  shows "find_output roots w = Some out"
proof (cases "find_output roots w")
  case None
  then show ?thesis
    using assms by (auto simp: find_output_None dwindle_windows_def)
next
  case (Some out')
  then show ?thesis
    using find_output_Some [OF Some] dwindle_inv_unique [OF assms] by auto
qed

lemma dwindle_contains_windows: "dwindle_inv roots \<Longrightarrow> dwindle_contains roots w \<longleftrightarrow> w \<in> dwindle_windows roots"
  by (simp add: dwindle_contains_def find_output_None del: not_None_eq)

lemma dwindle_inv_empty: "dwindle_inv Map.empty"
  by (simp add: dwindle_inv_def)

lemma dwindle_windows_empty [simp]: "dwindle_windows Map.empty = {}"
  by (simp add: dwindle_windows_def)

text \<open>Replacing one tree keeps the invariant when its windows stay clear of the others.\<close>

lemma dwindle_inv_update:
  assumes "dwindle_inv roots" and "distinct (leaves tree)" and "ratios_ok tree"
    and "\<And>out' tree'. out' \<noteq> out \<Longrightarrow> roots out' = Some tree' \<Longrightarrow>
      set (leaves tree) \<inter> set (leaves tree') = {}"
  shows "dwindle_inv (roots(out \<mapsto> tree))"
proof -
  have "finite (dom (roots(out \<mapsto> tree)))"
    using assms(1) by (simp add: dwindle_inv_def)
  then show ?thesis
    using assms unfolding dwindle_inv_def by (simp add: Int_commute)
qed

lemma dwindle_inv_delete: "dwindle_inv roots \<Longrightarrow> dwindle_inv (roots(out := None))"
  by (auto simp: dwindle_inv_def)

definition other_windows :: "'w dwindle_layout \<Rightarrow> output_id \<Rightarrow> 'w set" where
  "other_windows roots out =
     {w. \<exists>out' tree. out' \<noteq> out \<and> roots out' = Some tree \<and> w \<in> set (leaves tree)}"

lemma dwindle_windows_update:
  "dwindle_windows (roots(out := entry)) =
     (case entry of None \<Rightarrow> {} | Some tree \<Rightarrow> set (leaves tree)) \<union> other_windows roots out"
  by (auto simp: dwindle_windows_def other_windows_def split: option.splits if_splits)

lemma dwindle_windows_split:
  "dwindle_windows roots =
     (case roots out of None \<Rightarrow> {} | Some tree \<Rightarrow> set (leaves tree)) \<union> other_windows roots out"
  using dwindle_windows_update [of roots out "roots out"] by simp

lemma other_windows_disjoint:
  "dwindle_inv roots \<Longrightarrow> roots out = Some tree \<Longrightarrow> set (leaves tree) \<inter> other_windows roots out = {}"
  unfolding dwindle_inv_def other_windows_def by blast

lemma dwindle_remove_correct:
  assumes inv: "dwindle_inv roots"
  shows "\<exists>roots'. dwindle_remove roots w = Some (roots', w \<in> dwindle_windows roots) \<and>
    dwindle_inv roots' \<and> dwindle_windows roots' = dwindle_windows roots - {w}"
proof (cases "find_output roots w")
  case None
  then have "w \<notin> dwindle_windows roots"
    using inv by (simp add: find_output_None)
  then show ?thesis
    using inv by (simp add: dwindle_remove_def None)
next
  case (Some out)
  then obtain tree where tree: "roots out = Some tree" "w \<in> set (leaves tree)"
    using find_output_Some [OF Some] by blast
  obtain tree' where rem: "node_remove tree w = Some (tree', True)"
    and rest: "case tree' of None \<Rightarrow> leaves tree = [w] | Some t \<Rightarrow> leaves t = remove1 w (leaves tree)"
    using node_remove_spec [of tree w] tree(2) by auto
  have dist: "distinct (leaves tree)" "ratios_ok tree"
    using inv tree(1) by (auto simp: dwindle_inv_def)
  have win: "w \<in> dwindle_windows roots"
    using tree by (auto simp: dwindle_windows_def)
  have "dwindle_inv (roots(out := tree'))"
  proof (cases tree')
    case None
    then show ?thesis
      using inv by (simp add: dwindle_inv_delete)
  next
    case t: (Some t)
    then have "set (leaves t) \<subseteq> set (leaves tree)"
      using rest by (simp add: set_remove1_subset)
    moreover have "set (leaves tree) \<inter> set (leaves t') = {}" if "out' \<noteq> out" "roots out' = Some t'" for out' t'
      using inv tree(1) that by (auto simp: dwindle_inv_def)
    ultimately show ?thesis
      using t rest dist rem node_remove_ratios_ok [OF dist(2), of w t]
      by (simp only: t) (intro dwindle_inv_update [OF inv], auto)
  qed
  moreover have "dwindle_windows (roots(out := tree')) = dwindle_windows roots - {w}"
  proof -
    have "(case tree' of None \<Rightarrow> {} | Some t \<Rightarrow> set (leaves t)) = set (leaves tree) - {w}"
      using rest dist(1) by (cases tree') auto
    moreover have "w \<notin> other_windows roots out"
      using other_windows_disjoint [OF inv tree(1)] tree(2) by blast
    ultimately show ?thesis
      using dwindle_windows_split [of roots out] tree(1) by (auto simp: dwindle_windows_update)
  qed
  ultimately show ?thesis
    using win by (simp add: dwindle_remove_def Some tree rem)
qed

lemma dwindle_insert_correct:
  assumes inv: "dwindle_inv roots"
  shows "\<exists>roots'. dwindle_insert roots ins = Some roots' \<and> dwindle_inv roots' \<and>
    dwindle_windows roots' = insert (ins_window ins) (dwindle_windows roots)"
proof -
  let ?w = "ins_window ins" and ?out = "ins_output ins"
  obtain rs b where rem: "dwindle_remove roots ?w = Some (rs, b)"
    and rs: "dwindle_inv rs" "dwindle_windows rs = dwindle_windows roots - {?w}"
    using dwindle_remove_correct [OF inv, of ?w] by blast
  have fresh: "?w \<notin> other_windows rs ?out" and fresh_tree: "\<And>t. rs ?out = Some t \<Longrightarrow> ?w \<notin> set (leaves t)"
    using rs(2) dwindle_windows_split [of rs ?out] by auto
  define tree' where "tree' = (case rs ?out of None \<Rightarrow> Window ?w | Some tree \<Rightarrow>
     fst (split_window tree (case ins_anchor ins of
       Some a \<Rightarrow> if node_contains tree a then a else last_window tree
     | None \<Rightarrow> last_window tree) ?w))"
  have eq: "dwindle_insert roots ins = Some (rs(?out \<mapsto> tree'))"
    by (simp add: dwindle_insert_def rem tree'_def Let_def split: option.splits)
  have leaves': "distinct (leaves tree') \<and> ratios_ok tree' \<and>
      set (leaves tree') = insert ?w (case rs ?out of None \<Rightarrow> {} | Some tree \<Rightarrow> set (leaves tree))"
  proof (cases "rs ?out")
    case None
    then show ?thesis
      by (simp add: tree'_def)
  next
    case (Some tree)
    define a where "a = (case ins_anchor ins of
       Some a \<Rightarrow> if node_contains tree a then a else last_window tree
     | None \<Rightarrow> last_window tree)"
    have a: "a \<in> set (leaves tree)"
      by (simp add: a_def split: option.splits)
    have t': "tree' = fst (split_window tree a ?w)"
      by (simp add: tree'_def Some a_def)
    have m: "mset (leaves tree') = mset (?w # leaves tree)"
      using a by (simp add: t' split_window_leaves)
    have d: "distinct (leaves tree)" "ratios_ok tree"
      using rs(1) Some by (auto simp: dwindle_inv_def)
    have "distinct (leaves tree') = distinct (?w # leaves tree)"
      using m by (rule mset_eq_imp_distinct_iff)
    moreover have "set (leaves tree') = set (?w # leaves tree)"
      using m by (rule mset_eq_setD)
    ultimately show ?thesis
      using d fresh_tree [OF Some] Some by (simp add: t' split_window_ratios_ok)
  qed
  have "dwindle_inv (rs(?out \<mapsto> tree'))"
  proof (rule dwindle_inv_update [OF rs(1)])
    fix out' t
    assume o: "out' \<noteq> ?out" "rs out' = Some t"
    then have "set (leaves t) \<subseteq> other_windows rs ?out"
      by (auto simp: other_windows_def)
    then show "set (leaves tree') \<inter> set (leaves t) = {}"
      using leaves' fresh other_windows_disjoint [OF rs(1), of ?out]
      by (auto split: option.splits)
  qed (use leaves' in auto)
  moreover have "dwindle_windows (rs(?out \<mapsto> tree')) = insert ?w (dwindle_windows roots)"
    using leaves' rs(2) dwindle_windows_split [of rs ?out] by (auto simp: dwindle_windows_update)
  ultimately show ?thesis
    using eq by blast
qed

lemma swap_leaf_image:
  "w \<in> (\<lambda>w. if w = a then b else if w = b then a else w) ` A \<longleftrightarrow>
     (if w = a then b \<in> A else if w = b then a \<in> A else w \<in> A)"
  by (auto simp: image_iff split: if_splits)

lemma swap_leaf_set:
  assumes "a \<in> A" "b \<in> A"
  shows "(\<lambda>w. if w = a then b else if w = b then a else w) ` A = A"
proof (rule set_eqI)
  fix w
  show "w \<in> (\<lambda>w. if w = a then b else if w = b then a else w) ` A \<longleftrightarrow> w \<in> A"
    unfolding swap_leaf_image using assms by simp
qed

lemma swap_leaf_inj: "inj (\<lambda>w. if w = a then b else if w = b then a else w)"
  by (rule injI) (simp split: if_splits)

lemma dwindle_windows_ran: "dwindle_windows roots = (\<Union>tree \<in> ran roots. set (leaves tree))"
  by (auto simp: dwindle_windows_def ran_def)

lemma ran_map_option: "ran (\<lambda>out. map_option g (roots out)) = g ` ran roots"
  by (auto simp: ran_def)

lemma dwindle_windows_map:
  assumes "\<And>t. leaves (g t) = map f (leaves t)"
  shows "dwindle_windows (\<lambda>out. map_option g (roots out)) = f ` dwindle_windows roots"
  by (simp add: dwindle_windows_ran ran_map_option assms image_UN)

lemma dwindle_inv_map:
  assumes inv: "dwindle_inv roots" and inj: "inj f"
    and lv: "\<And>t. leaves (g t) = map f (leaves t)"
    and ok: "\<And>t. ratios_ok t \<Longrightarrow> ratios_ok (g t)"
  shows "dwindle_inv (\<lambda>out. map_option g (roots out))"
  unfolding dwindle_inv_def
proof (intro conjI allI impI)
  show "finite (dom (\<lambda>out. map_option g (roots out)))"
    using inv by (simp add: dwindle_inv_def dom_map_option)
next
  fix out tree
  assume "map_option g (roots out) = Some tree"
  then obtain t where t: "roots out = Some t" "tree = g t"
    by auto
  then have "distinct (leaves t)" "ratios_ok t"
    using inv by (auto simp: dwindle_inv_def)
  then show "distinct (leaves tree)" "ratios_ok tree"
    using t(2) ok inj_on_subset [OF inj] by (simp_all add: lv distinct_map)
next
  fix out out' tree tree'
  assume "map_option g (roots out) = Some tree" "map_option g (roots out') = Some tree'" "out \<noteq> out'"
  then obtain t t' where t: "roots out = Some t" "tree = g t" "roots out' = Some t'" "tree' = g t'"
    by auto
  then have "set (leaves t) \<inter> set (leaves t') = {}"
    using inv \<open>out \<noteq> out'\<close> by (auto simp: dwindle_inv_def)
  then show "set (leaves tree) \<inter> set (leaves tree') = {}"
    using t by (simp add: lv image_Int [OF inj, symmetric])
qed

lemma dwindle_swap_correct:
  assumes inv: "dwindle_inv roots"
  shows "dwindle_inv (fst (dwindle_swap roots a b)) \<and>
    dwindle_windows (fst (dwindle_swap roots a b)) = dwindle_windows roots"
proof (cases "a = b \<or> \<not> dwindle_contains roots a \<or> \<not> dwindle_contains roots b")
  case True
  then show ?thesis
    using inv by (simp add: dwindle_swap_def)
next
  case False
  let ?f = "\<lambda>w. if w = a then b else if w = b then a else w"
  let ?r = "\<lambda>out. map_option (\<lambda>tree. swap_windows tree a b) (roots out)"
  have r: "fst (dwindle_swap roots a b) = ?r"
    using False by (simp add: dwindle_swap_def)
  have ab: "a \<in> dwindle_windows roots" "b \<in> dwindle_windows roots"
    using False inv by (simp_all add: dwindle_contains_windows)
  have "dwindle_inv ?r"
    by (rule dwindle_inv_map [OF inv swap_leaf_inj swap_windows_leaves])
      (simp add: swap_windows_ratios_ok)
  moreover have "dwindle_windows ?r = ?f ` dwindle_windows roots"
    by (rule dwindle_windows_map) (rule swap_windows_leaves)
  moreover have "?f ` dwindle_windows roots = dwindle_windows roots"
    using ab by (rule swap_leaf_set)
  ultimately show ?thesis
    unfolding r by simp
qed

lemma dwindle_resize_correct:
  assumes inv: "dwindle_inv roots"
  shows "dwindle_inv (fst (dwindle_resize roots request)) \<and>
    dwindle_windows (fst (dwindle_resize roots request)) = dwindle_windows roots"
proof (cases "fst (dwindle_resize roots request) = roots")
  case True
  with inv show ?thesis
    by simp
next
  case False
  then obtain out tree where f: "roots out = Some tree"
    and r: "fst (dwindle_resize roots request) = roots(out \<mapsto> fst (resize_window tree (rz_window request)
      (rz_work_area request) (max (rz_gap request) 0) (rz_edges request) (rz_delta_x request)
      (rz_delta_y request)))"
    by (auto simp: dwindle_resize_def case_prod_unfold split: if_splits option.splits)
  have d: "distinct (leaves tree)" "ratios_ok tree"
    using inv f by (auto simp: dwindle_inv_def)
  have "set (leaves tree) \<inter> set (leaves t) = {}" if "out' \<noteq> out" "roots out' = Some t" for out' t
    using inv f that by (auto simp: dwindle_inv_def)
  then have "dwindle_inv (fst (dwindle_resize roots request))"
    unfolding r using d
    by (intro dwindle_inv_update [OF inv]) (simp_all add: resize_window_leaves resize_window_ratios_ok)
  then show ?thesis
    using f dwindle_windows_split [of roots out]
    by (simp add: r dwindle_windows_update resize_window_leaves)
qed

section \<open>The layout trait\<close>

datatype 'w layout_op =
    OpInsert "'w layout_insertion"
  | OpRemove 'w
  | OpSwap 'w 'w
  | OpResize "'w layout_resize_request"
  | OpClear

text \<open>One call of a trait method on a layout, and a sequence of them; \<open>None\<close> is a panic.\<close>

fun layout_apply ::
  "('s \<Rightarrow> 'w layout_insertion \<Rightarrow> 's option) \<Rightarrow> ('s \<Rightarrow> 'w \<Rightarrow> ('s \<times> bool) option) \<Rightarrow>
   ('s \<Rightarrow> 'w \<Rightarrow> 'w \<Rightarrow> 's \<times> bool) \<Rightarrow> ('s \<Rightarrow> 'w layout_resize_request \<Rightarrow> 's \<times> bool) \<Rightarrow>
   ('s \<Rightarrow> 's) \<Rightarrow> 's \<Rightarrow> 'w layout_op \<Rightarrow> 's option" where
  "layout_apply ins rem swp rsz clr s (OpInsert insertion) = ins s insertion"
| "layout_apply ins rem swp rsz clr s (OpRemove w) = map_option fst (rem s w)"
| "layout_apply ins rem swp rsz clr s (OpSwap a b) = Some (fst (swp s a b))"
| "layout_apply ins rem swp rsz clr s (OpResize request) = Some (fst (rsz s request))"
| "layout_apply ins rem swp rsz clr s OpClear = Some (clr s)"

fun layout_run :: "('s \<Rightarrow> 'op \<Rightarrow> 's option) \<Rightarrow> 's \<Rightarrow> 'op list \<Rightarrow> 's option" where
  "layout_run apply_op s [] = Some s"
| "layout_run apply_op s (op # ops) =
     (case apply_op s op of None \<Rightarrow> None | Some s' \<Rightarrow> layout_run apply_op s' ops)"

definition dwindle_run :: "'w layout_op list \<Rightarrow> 'w dwindle_layout option" where
  "dwindle_run =
     layout_run (layout_apply dwindle_insert dwindle_remove dwindle_swap dwindle_resize dwindle_clear)
       Map.empty"

definition stacking_run :: "'w layout_op list \<Rightarrow> stacking_layout option" where
  "stacking_run =
     layout_run (layout_apply stacking_insert stacking_remove default_swap default_resize stacking_clear) ()"

text \<open>The abstract specification: what the operations do to the set of managed windows.\<close>

fun managed_after :: "'w layout_op \<Rightarrow> 'w set \<Rightarrow> 'w set" where
  "managed_after (OpInsert insertion) A = insert (ins_window insertion) A"
| "managed_after (OpRemove w) A = A - {w}"
| "managed_after (OpSwap a b) A = A"
| "managed_after (OpResize request) A = A"
| "managed_after OpClear A = {}"

locale window_layout =
  fixes inv :: "'s \<Rightarrow> bool"
    and windows :: "'s \<Rightarrow> 'w set"
    and manages :: bool
    and ins :: "'s \<Rightarrow> 'w layout_insertion \<Rightarrow> 's option"
    and rem :: "'s \<Rightarrow> 'w \<Rightarrow> ('s \<times> bool) option"
    and swp :: "'s \<Rightarrow> 'w \<Rightarrow> 'w \<Rightarrow> 's \<times> bool"
    and rsz :: "'s \<Rightarrow> 'w layout_resize_request \<Rightarrow> 's \<times> bool"
    and clr :: "'s \<Rightarrow> 's"
    and cont :: "'s \<Rightarrow> 'w \<Rightarrow> bool"
    and arr :: "'s \<Rightarrow> output_id \<Rightarrow> rectangle \<Rightarrow> int \<Rightarrow> 'w layout_placement list"
  assumes insert_law: "inv s \<Longrightarrow> \<exists>s'. ins s insertion = Some s' \<and> inv s' \<and>
      (manages \<longrightarrow> windows s' = insert (ins_window insertion) (windows s))"
    and remove_law: "inv s \<Longrightarrow> \<exists>s'. rem s w = Some (s', w \<in> windows s) \<and> inv s' \<and>
      windows s' = windows s - {w}"
    and swap_law: "inv s \<Longrightarrow> inv (fst (swp s a b)) \<and> windows (fst (swp s a b)) = windows s"
    and resize_law: "inv s \<Longrightarrow> inv (fst (rsz s request)) \<and> windows (fst (rsz s request)) = windows s"
    and clear_law: "inv s \<Longrightarrow> inv (clr s) \<and> windows (clr s) = {}"
    and contains_law: "inv s \<Longrightarrow> cont s w \<longleftrightarrow> w \<in> windows s"
    and unmanaged: "inv s \<Longrightarrow> \<not> manages \<Longrightarrow> windows s = {}"
    and arrange_distinct: "inv s \<Longrightarrow> distinct (map pl_window (arr s out work_area gap))"
    and arrange_unique: "inv s \<Longrightarrow> w \<in> windows s \<longleftrightarrow>
      (\<exists>!out. w \<in> pl_window ` set (arr s out (areas out) (gaps out)))"
begin

lemma apply_law:
  assumes "inv s"
  shows "\<exists>s'. layout_apply ins rem swp rsz clr s op = Some s' \<and> inv s' \<and>
    windows s' = (if manages then managed_after op (windows s) else {})"
proof (cases op)
  case (OpInsert insertion)
  show ?thesis
    using insert_law [OF assms, of insertion] unmanaged unfolding OpInsert by auto
next
  case (OpRemove w)
  show ?thesis
    using remove_law [OF assms, of w] unmanaged [OF assms] unfolding OpRemove by auto
next
  case (OpSwap a b)
  show ?thesis
    using swap_law [OF assms, of a b] unmanaged [OF assms] unfolding OpSwap by simp
next
  case (OpResize request)
  show ?thesis
    using resize_law [OF assms, of request] unmanaged [OF assms] unfolding OpResize by simp
next
  case OpClear
  show ?thesis
    using clear_law [OF assms] unfolding OpClear by simp
qed

lemma run_law:
  "inv s \<Longrightarrow> windows s = (if manages then A else {}) \<Longrightarrow>
     \<exists>s'. layout_run (layout_apply ins rem swp rsz clr) s ops = Some s' \<and> inv s' \<and>
       windows s' = (if manages then fold managed_after ops A else {})"
proof (induction ops arbitrary: s A)
  case Nil
  then show ?case
    by simp
next
  case (Cons op ops)
  obtain s' where s': "layout_apply ins rem swp rsz clr s op = Some s'" "inv s'"
    "windows s' = (if manages then managed_after op A else {})"
    using apply_law [OF Cons.prems(1), of op] Cons.prems(2) by (auto split: if_splits)
  show ?case
    using Cons.IH [OF s'(2,3)] by (simp only: layout_run.simps s'(1) option.case fold.simps o_apply)
qed

text \<open>What a client of the trait sees after any sequence of calls on a fresh layout.\<close>

lemma client_view:
  assumes "inv s" "windows s = {}"
  shows "\<exists>s'. layout_run (layout_apply ins rem swp rsz clr) s ops = Some s' \<and> inv s' \<and>
    (\<forall>w. cont s' w \<longleftrightarrow> manages \<and> w \<in> fold managed_after ops {}) \<and>
    (\<forall>out work_area gap. distinct (map pl_window (arr s' out work_area gap))) \<and>
    (\<forall>w areas gaps. cont s' w \<longleftrightarrow> (\<exists>!out. w \<in> pl_window ` set (arr s' out (areas out) (gaps out))))"
proof -
  obtain s' where s': "layout_run (layout_apply ins rem swp rsz clr) s ops = Some s'" "inv s'"
    "windows s' = (if manages then fold managed_after ops {} else {})"
    using run_law [OF assms(1), of "{}" ops] assms(2) by auto
  have "cont s' w \<longleftrightarrow> manages \<and> w \<in> fold managed_after ops {}" for w
    using contains_law [OF s'(2)] s'(3) by auto
  moreover have "cont s' w \<longleftrightarrow> (\<exists>!out. w \<in> pl_window ` set (arr s' out (areas out) (gaps out)))" for w areas gaps
    using contains_law [OF s'(2)] arrange_unique [OF s'(2)] by simp
  ultimately show ?thesis
    using s'(1,2) arrange_distinct [OF s'(2)] by blast
qed

end

lemma dwindle_arrange_windows:
  "map pl_window (dwindle_arrange roots out work_area gap) =
     (case roots out of None \<Rightarrow> [] | Some tree \<Rightarrow> leaves tree)"
  by (simp add: dwindle_arrange_def split: option.splits)

lemma dwindle_arrange_member:
  "w \<in> pl_window ` set (dwindle_arrange roots out work_area gap) \<longleftrightarrow>
     (\<exists>tree. roots out = Some tree \<and> w \<in> set (leaves tree))"
  unfolding set_map [symmetric] dwindle_arrange_windows by (cases "roots out") simp_all

lemma dwindle_arrange_unique:
  assumes "dwindle_inv roots"
  shows "w \<in> dwindle_windows roots \<longleftrightarrow>
    (\<exists>!out. w \<in> pl_window ` set (dwindle_arrange roots out (areas out) (gaps out)))"
  unfolding dwindle_arrange_member using dwindle_inv_unique [OF assms]
  by (simp add: dwindle_windows_def Ex1_def) blast

interpretation dwindle: window_layout dwindle_inv dwindle_windows True
  dwindle_insert dwindle_remove dwindle_swap dwindle_resize dwindle_clear dwindle_contains dwindle_arrange
proof (unfold_locales, goal_cases)
  case (1 s insertion)
  then show ?case using dwindle_insert_correct by simp
next
  case (2 s w)
  then show ?case using dwindle_remove_correct [of s w] by auto
next
  case (3 s a b)
  then show ?case by (rule dwindle_swap_correct)
next
  case (4 s request)
  then show ?case by (rule dwindle_resize_correct)
next
  case (5 s)
  show ?case by (simp add: dwindle_clear_def dwindle_inv_empty)
next
  case (6 s w)
  then show ?case by (rule dwindle_contains_windows)
next
  case (7 s)
  then show ?case by simp
next
  case (8 s out work_area gap)
  then show ?case
    by (auto simp: dwindle_arrange_windows dwindle_inv_def split: option.splits)
next
  case (9 s w areas gaps)
  then show ?case by (rule dwindle_arrange_unique)
qed

interpretation stacking: window_layout "\<lambda>_. True" "\<lambda>_. {}" False
  stacking_insert stacking_remove default_swap default_resize stacking_clear stacking_contains stacking_arrange
  by unfold_locales
    (simp_all add: stacking_insert_def stacking_remove_def default_swap_def default_resize_def
      stacking_clear_def stacking_contains_def stacking_arrange_def Ex1_def)

section \<open>Neighbour lemmas\<close>

lemma min_by_key_None [simp]: "min_by_key lt xs = None \<longleftrightarrow> xs = []"
  by (cases xs) (simp_all split: option.splits)

lemma min_by_key_least:
  assumes neg_trans: "\<And>a b c. lt a b \<Longrightarrow> lt a c \<or> lt c b"
    and asym: "\<And>a b. lt a b \<Longrightarrow> \<not> lt b a"
  shows "min_by_key lt xs = Some y \<Longrightarrow> y \<in> set xs \<and> (\<forall>x\<in>set xs. \<not> lt (snd x) (snd y))"
proof (induction xs arbitrary: y)
  case (Cons x xs)
  show ?case
  proof (cases "min_by_key lt xs")
    case None
    with Cons.prems have "xs = []" "y = x"
      by simp_all
    then show ?thesis
      using asym by auto
  next
    case (Some z)
    have z: "z \<in> set xs" "\<forall>e\<in>set xs. \<not> lt (snd e) (snd z)"
      using Cons.IH [OF Some] by simp_all
    show ?thesis
    proof (cases "lt (snd z) (snd x)")
      case True
      then have "y = z" "\<not> lt (snd x) (snd z)"
        using Cons.prems Some asym by simp_all
      then show ?thesis
        using z by simp
    next
      case False
      then have "y = x"
        using Cons.prems Some by simp
      moreover have "\<not> lt (snd e) (snd x)" if "e \<in> set xs" for e
        using neg_trans [of "snd e" "snd x" "snd z"] False z(2) that by blast
      moreover have "\<not> lt (snd x) (snd x)"
        using asym by blast
      ultimately show ?thesis
        by simp
    qed
  qed
qed simp

lemma neighbor_key_lt_asym: "neighbor_key_lt a b \<Longrightarrow> \<not> neighbor_key_lt b a"
  by (cases a; cases b) (auto simp: neighbor_key_lt_def)

lemma neighbor_key_lt_neg_trans:
  "neighbor_key_lt a b \<Longrightarrow> neighbor_key_lt a c \<or> neighbor_key_lt c b"
  by (cases a; cases b; cases c) (auto simp: neighbor_key_lt_def)

section \<open>Properties\<close>

text \<open>
  C15: whatever the sequence of trait calls, the dwindle layout never panics (none of the \<open>expect\<close>s
  of the tree surgery can fail), it contains exactly the windows the calls leave managed, and every
  one of them is arranged on exactly one output, once.
\<close>

theorem dwindle_layout_contract:
  "\<exists>roots. dwindle_run ops = Some roots \<and>
     (\<forall>w. dwindle_contains roots w \<longleftrightarrow> w \<in> fold managed_after ops {}) \<and>
     (\<forall>out work_area gap. distinct (map pl_window (dwindle_arrange roots out work_area gap))) \<and>
     (\<forall>w areas gaps. dwindle_contains roots w \<longleftrightarrow>
        (\<exists>!out. w \<in> pl_window ` set (dwindle_arrange roots out (areas out) (gaps out))))"
  using dwindle.client_view [OF dwindle_inv_empty dwindle_windows_empty, of ops]
  unfolding dwindle_run_def by auto

text \<open>The stacking layout keeps no window and places none, whatever it is asked.\<close>

theorem stacking_layout_contract:
  "stacking_run ops = Some () \<and> \<not> stacking_contains () w \<and> stacking_arrange () out work_area gap = []"
  using stacking.client_view [of "()" ops]
  unfolding stacking_run_def by (simp add: stacking_contains_def stacking_arrange_def)

text \<open>
  in a work area with room for every split, the arranged windows are the tree's leaves in
  order, each inside the work area, no two of them overlapping, and with no gap they cover it.
\<close>

theorem dwindle_arrange_tiles:
  assumes "roots out = Some tree" and "rect_ok work_area" and "roomy tree work_area (max gap 0)"
  shows "map pl_window (dwindle_arrange roots out work_area gap) = leaves tree \<and>
    (\<forall>p\<in>set (dwindle_arrange roots out work_area gap). rect_within (pl_geometry p) work_area) \<and>
    sorted_wrt (\<lambda>p q. rect_separate (pl_geometry p) (pl_geometry q))
      (dwindle_arrange roots out work_area gap) \<and>
    (gap \<le> 0 \<longrightarrow> sum_list (map (\<lambda>p. area (pl_geometry p))
      (dwindle_arrange roots out work_area gap)) = area work_area)"
  using node_arrange_within [OF assms(2,3)] node_arrange_separate [OF assms(2,3)]
    node_arrange_area [OF assms(2,3)] assms(1)
  by (simp add: dwindle_arrange_def)

theorem dwindle_arrange_tiles_witness:
  "let roots = [7 \<mapsto> Split (Finite (1 / 2)) (Window (1 :: nat)) (Window 2)];
       r = \<lparr>loc_x = 0, loc_y = 0, size_w = 100, size_h = 50\<rparr>
   in map pl_window (dwindle_arrange roots 7 r 0) = [1, 2] \<and>
      sum_list (map (\<lambda>p. area (pl_geometry p)) (dwindle_arrange roots 7 r 0)) = 5000"
  using dwindle_arrange_tiles [of "[7 \<mapsto> Split (Finite (1 / 2)) (Window (1 :: nat)) (Window 2)]" 7
      "Split (Finite (1 / 2)) (Window 1) (Window 2)"
      "\<lparr>loc_x = 0, loc_y = 0, size_w = 100, size_h = 50\<rparr>" 0]
  by (simp add: Let_def rect_ok_def is_i32_def split_extent_def area_def)

text \<open>
  Whatever the sequence of trait calls, resizes included, every split ratio of every tree stays
  between the two limits (the doubles nearest one tenth and nine tenths), so it is never NaN or
  infinite, and no tree holds a window twice.
\<close>

theorem dwindle_ratios_bounded:
  assumes "dwindle_run ops = Some roots" and "roots out = Some tree"
  shows "ratios_ok tree \<and> distinct (leaves tree)"
  using dwindle.run_law [OF dwindle_inv_empty, of "{}" ops] assms
  unfolding dwindle_run_def by (auto simp: dwindle_inv_def)

definition resize_example :: "nat layout_op list" where
  "resize_example =
     [OpInsert \<lparr>ins_window = 1, ins_output = 7, ins_anchor = None\<rparr>,
      OpInsert \<lparr>ins_window = 2, ins_output = 7, ins_anchor = Some 1\<rparr>,
      OpResize \<lparr>rz_window = 1, rz_work_area = \<lparr>loc_x = 0, loc_y = 0, size_w = 100, size_h = 50\<rparr>,
        rz_gap = 0, rz_delta_x = Finite 25, rz_delta_y = Finite 0,
        rz_edges = \<lparr>edge_top = False, edge_bottom = False, edge_left = False, edge_right = True\<rparr>\<rparr>]"

theorem dwindle_ratios_bounded_witness:
  "\<exists>roots. dwindle_run (take 2 resize_example) = Some roots \<and>
     roots 7 = Some (Split (Finite (1 / 2)) (Window 1) (Window 2)) \<and>
     ratios_ok (Split (Finite (1 / 2)) (Window (1 :: nat)) (Window 2))"
proof -
  obtain roots where r: "dwindle_run (take 2 resize_example) = Some roots"
    "roots 7 = Some (Split (Finite (1 / 2)) (Window 1) (Window 2))"
    by (simp add: dwindle_run_def resize_example_def dwindle_insert_def dwindle_remove_def
        find_output_def set_iter_def)
  then show ?thesis
    using dwindle_ratios_bounded [OF r] by simp
qed

text \<open>
  the neighbour in a direction is another window strictly on that side of the focused one, and
  no other candidate precedes it in the order (aligned first, then distance along the direction,
  then distance across it); there is none exactly when the focused window is not placed or no
  window lies on that side.
\<close>

theorem directional_neighbor_nearest:
  assumes "find (\<lambda>placement. pl_window placement = focused) placements = Some current"
  shows "case directional_neighbor focused placements direction of
      None \<Rightarrow> \<forall>p\<in>set placements. pl_window p \<noteq> focused \<longrightarrow>
        \<not> in_direction direction (rectangle_center (pl_geometry p)) (rectangle_center (pl_geometry current))
    | Some w \<Rightarrow> w \<noteq> focused \<and> (\<exists>p\<in>set placements. \<exists>k. pl_window p = w \<and>
        in_direction direction (rectangle_center (pl_geometry p)) (rectangle_center (pl_geometry current)) \<and>
        neighbor_key direction (pl_geometry current) (pl_geometry p) = Some k \<and>
        (\<forall>q\<in>set placements. \<forall>l. pl_window q \<noteq> focused \<longrightarrow>
           neighbor_key direction (pl_geometry current) (pl_geometry q) = Some l \<longrightarrow>
           \<not> neighbor_key_lt l k))"
proof -
  let ?f = "\<lambda>placement. if pl_window placement = focused then None
     else map_option (Pair placement)
       (neighbor_key direction (pl_geometry current) (pl_geometry placement))"
  let ?c = "List.map_filter ?f placements"
  have mem: "(p, k) \<in> set ?c \<longleftrightarrow> p \<in> set placements \<and> pl_window p \<noteq> focused \<and>
      neighbor_key direction (pl_geometry current) (pl_geometry p) = Some k" for p k
    unfolding set_map_filter by (cases k) (fastforce split: if_splits)
  have key: "neighbor_key direction c p = None \<longleftrightarrow>
      \<not> in_direction direction (rectangle_center p) (rectangle_center c)" for c p
    by (simp add: neighbor_key_def Let_def)
  show ?thesis
  proof (cases "min_by_key neighbor_key_lt ?c")
    case None
    then have "?c = []"
      by simp
    then have "(p, k) \<notin> set ?c" for p k
      by simp
    then have "p \<in> set placements \<Longrightarrow> pl_window p \<noteq> focused \<Longrightarrow>
        neighbor_key direction (pl_geometry current) (pl_geometry p) = None" for p
      unfolding mem by (cases "neighbor_key direction (pl_geometry current) (pl_geometry p)") auto
    then show ?thesis
      using assms None by (simp add: directional_neighbor_def key)
  next
    case (Some y)
    obtain p k where y: "y = (p, k)"
      by (cases y)
    have least: "(p, k) \<in> set ?c" "\<forall>x\<in>set ?c. \<not> neighbor_key_lt (snd x) k"
      using min_by_key_least [OF neighbor_key_lt_neg_trans neighbor_key_lt_asym Some] y by auto
    then have p: "p \<in> set placements" "pl_window p \<noteq> focused"
      "neighbor_key direction (pl_geometry current) (pl_geometry p) = Some k"
      unfolding mem by blast+
    have "in_direction direction (rectangle_center (pl_geometry p)) (rectangle_center (pl_geometry current))"
      using p(3) key [of "pl_geometry current" "pl_geometry p"] by auto
    moreover have "\<not> neighbor_key_lt l k" if "q \<in> set placements" "pl_window q \<noteq> focused"
      "neighbor_key direction (pl_geometry current) (pl_geometry q) = Some l" for q l
      using that least(2) mem [of q l] by fastforce
    ultimately show ?thesis
      using p y Some assms
      by (simp add: directional_neighbor_def del: split_paired_Ex split_paired_All)
        (intro bexI [of _ p] exI [of _ k] conjI, simp_all del: split_paired_Ex split_paired_All)
  qed
qed

definition neighbor_example :: "nat layout_placement list" where
  "neighbor_example =
     [\<lparr>pl_window = 1, pl_geometry = \<lparr>loc_x = 0, loc_y = 0, size_w = 10, size_h = 10\<rparr>\<rparr>,
      \<lparr>pl_window = 2, pl_geometry = \<lparr>loc_x = 40, loc_y = 0, size_w = 10, size_h = 10\<rparr>\<rparr>,
      \<lparr>pl_window = 3, pl_geometry = \<lparr>loc_x = 20, loc_y = 50, size_w = 10, size_h = 10\<rparr>\<rparr>]"

theorem directional_neighbor_nearest_witness:
  "directional_neighbor 1 neighbor_example Right = Some 2 \<and>
   directional_neighbor 1 neighbor_example Down = Some 3 \<and>
   in_direction Right (rectangle_center (pl_geometry (neighbor_example ! 1)))
     (rectangle_center (pl_geometry (neighbor_example ! 0)))"
proof -
  have f: "find (\<lambda>p. pl_window p = 1) neighbor_example = Some (neighbor_example ! 0)"
    by (simp add: neighbor_example_def)
  have "directional_neighbor 1 neighbor_example Right = Some 2"
    "directional_neighbor 1 neighbor_example Down = Some 3"
    by (simp_all add: directional_neighbor_def neighbor_example_def List.map_filter_simps
        neighbor_key_def in_direction_def rectangle_center_def is_horizontal_def ranges_overlap_def
        i32_saturating_add_def sat_i32_def clamp_def neighbor_key_lt_def less_f64_def total_lt_def)
  then show ?thesis
    using directional_neighbor_nearest [OF f, of Right] by (auto simp: neighbor_example_def)
qed

end
