(* ===== verification/Shortcut_Engine.thy ===== *)
theory Shortcut_Engine
  imports Shortcut_File Window_Layout
begin

unbundle bit_operations_syntax

text \<open>
  The shortcut engine (\<open>ShortcutEngine\<close> in \<open>compositor/src/bin/deniald/native_shortcut.rs\<close>): it sees every key of
  the keyboard before the clients do, follows the modifiers, captures the keys that match a shortcut, and keeps the
  session of the window switcher open until its owner is released. \<open>execute_shortcut_disposition\<close> and
  \<open>intercept_native_escape\<close> of \<open>wayland_frontend/input.rs\<close> say which keys then reach the clients; the calls
  that carry an action out are listed as effects, and whether one that depends on the context declines is a parameter.
\<close>

section \<open>Dispositions\<close>

datatype shortcut_disposition =
    Forward | Consume | RequestShutdown | RequestApplications | RequestDashboard | RequestOverview |
    RequestToggleVerticalMaximize | RequestWindowSwitcherNext | RequestWindowSwitcherPrevious |
    RequestWindowSwitcherEnd bool | RequestClipboard | RequestScreenshotRegion | RequestClose |
    RequestMinimize | RequestMinimizeAll | RequestToggleMaximize | RequestToggleFullscreen |
    RequestReleasePointer | RequestLock | RequestVolumeUp | RequestVolumeDown | RequestMute |
    RequestBrightnessUp | RequestBrightnessDown | RequestNextKeyboardLayout | RequestPreviousKeyboardLayout |
    RequestOpenSettings | RequestFocus layout_direction | RequestSwap layout_direction |
    RequestPreviousWorkspace | RequestNextWorkspace | RequestMoveToPreviousWorkspace |
    RequestMoveToNextWorkspace | RequestSwitchWorkspace nat | RequestMoveToWorkspace nat |
    RequestSpawn "string list" "string option" | RequestSpawnSh string

fun disposition_of_action :: "shortcut_action \<Rightarrow> shortcut_disposition" where
  "disposition_of_action Shutdown = RequestShutdown"
| "disposition_of_action OpenApplications = RequestApplications"
| "disposition_of_action OpenDashboard = RequestDashboard"
| "disposition_of_action OpenOverview = RequestOverview"
| "disposition_of_action ToggleVerticalMaximize = RequestToggleVerticalMaximize"
| "disposition_of_action WindowSwitcher = RequestWindowSwitcherNext"
| "disposition_of_action OpenClipboard = RequestClipboard"
| "disposition_of_action CaptureRegion = RequestScreenshotRegion"
| "disposition_of_action CloseWindow = RequestClose"
| "disposition_of_action MinimizeWindow = RequestMinimize"
| "disposition_of_action MinimizeAllWindows = RequestMinimizeAll"
| "disposition_of_action ToggleMaximize = RequestToggleMaximize"
| "disposition_of_action ToggleFullscreen = RequestToggleFullscreen"
| "disposition_of_action ReleasePointer = RequestReleasePointer"
| "disposition_of_action LockScreen = RequestLock"
| "disposition_of_action VolumeUp = RequestVolumeUp"
| "disposition_of_action VolumeDown = RequestVolumeDown"
| "disposition_of_action VolumeMute = RequestMute"
| "disposition_of_action BrightnessUp = RequestBrightnessUp"
| "disposition_of_action BrightnessDown = RequestBrightnessDown"
| "disposition_of_action NextKeyboardLayout = RequestNextKeyboardLayout"
| "disposition_of_action PreviousKeyboardLayout = RequestPreviousKeyboardLayout"
| "disposition_of_action OpenSettings = RequestOpenSettings"
| "disposition_of_action FocusLeft = RequestFocus Left"
| "disposition_of_action FocusRight = RequestFocus Right"
| "disposition_of_action FocusUp = RequestFocus Up"
| "disposition_of_action FocusDown = RequestFocus Down"
| "disposition_of_action SwapLeft = RequestSwap Left"
| "disposition_of_action SwapRight = RequestSwap Right"
| "disposition_of_action SwapUp = RequestSwap Up"
| "disposition_of_action SwapDown = RequestSwap Down"
| "disposition_of_action PreviousWorkspace = RequestPreviousWorkspace"
| "disposition_of_action NextWorkspace = RequestNextWorkspace"
| "disposition_of_action MoveToPreviousWorkspace = RequestMoveToPreviousWorkspace"
| "disposition_of_action MoveToNextWorkspace = RequestMoveToNextWorkspace"
| "disposition_of_action SwitchWorkspace1 = RequestSwitchWorkspace 1"
| "disposition_of_action SwitchWorkspace2 = RequestSwitchWorkspace 2"
| "disposition_of_action SwitchWorkspace3 = RequestSwitchWorkspace 3"
| "disposition_of_action SwitchWorkspace4 = RequestSwitchWorkspace 4"
| "disposition_of_action SwitchWorkspace5 = RequestSwitchWorkspace 5"
| "disposition_of_action SwitchWorkspace6 = RequestSwitchWorkspace 6"
| "disposition_of_action SwitchWorkspace7 = RequestSwitchWorkspace 7"
| "disposition_of_action SwitchWorkspace8 = RequestSwitchWorkspace 8"
| "disposition_of_action SwitchWorkspace9 = RequestSwitchWorkspace 9"
| "disposition_of_action MoveToWorkspace1 = RequestMoveToWorkspace 1"
| "disposition_of_action MoveToWorkspace2 = RequestMoveToWorkspace 2"
| "disposition_of_action MoveToWorkspace3 = RequestMoveToWorkspace 3"
| "disposition_of_action MoveToWorkspace4 = RequestMoveToWorkspace 4"
| "disposition_of_action MoveToWorkspace5 = RequestMoveToWorkspace 5"
| "disposition_of_action MoveToWorkspace6 = RequestMoveToWorkspace 6"
| "disposition_of_action MoveToWorkspace7 = RequestMoveToWorkspace 7"
| "disposition_of_action MoveToWorkspace8 = RequestMoveToWorkspace 8"
| "disposition_of_action MoveToWorkspace9 = RequestMoveToWorkspace 9"

fun disposition_of_target :: "shortcut_target \<Rightarrow> shortcut_disposition" where
  "disposition_of_target (DenialAction action) = disposition_of_action action"
| "disposition_of_target (Spawn command desktop_file_id) = RequestSpawn command desktop_file_id"
| "disposition_of_target (SpawnSh command) = RequestSpawnSh command"

section \<open>The engine\<close>

definition KEY_LEFT_CTRL :: u32 where "KEY_LEFT_CTRL = 29"
definition KEY_LEFT_ALT :: u32 where "KEY_LEFT_ALT = 56"
definition KEY_RIGHT_CTRL :: u32 where "KEY_RIGHT_CTRL = 97"
definition KEY_RIGHT_ALT :: u32 where "KEY_RIGHT_ALT = 100"
definition KEY_LEFT_META :: u32 where "KEY_LEFT_META = 125"
definition KEY_RIGHT_META :: u32 where "KEY_RIGHT_META = 126"
definition KEY_LEFT_SHIFT :: u32 where "KEY_LEFT_SHIFT = 42"
definition KEY_RIGHT_SHIFT :: u32 where "KEY_RIGHT_SHIFT = 54"
definition LEFT_MODIFIER :: u8 where "LEFT_MODIFIER = 1"
definition RIGHT_MODIFIER :: u8 where "RIGHT_MODIFIER = 2"
definition WINDOW_SWITCHER_GESTURE_HOLD_DELAY :: duration where "WINDOW_SWITCHER_GESTURE_HOLD_DELAY = 190 * 1000000"

datatype window_switcher_release =
    ReleaseModifier modifier | ReleaseKey u32 | ReleaseGesture shortcut_gesture instant

record shortcut_engine =
  se_bindings :: "compiled_shortcut list"
  ctrl_keys :: u8
  alt_keys :: u8
  shift_keys :: u8
  logo_keys :: u8
  logo_chorded :: bool
  switcher_release :: "window_switcher_release option"
  captured_keys :: "u32 \<rightharpoonup> shortcut_target"

definition engine_of :: "compiled_shortcut list \<Rightarrow> shortcut_engine" where
  "engine_of bs = \<lparr>se_bindings = bs, ctrl_keys = 0, alt_keys = 0, shift_keys = 0, logo_keys = 0, logo_chorded = False,
     switcher_release = None, captured_keys = Map.empty\<rparr>"

definition engine_from_file :: "shortcut_file \<Rightarrow> document_error + shortcut_engine" where
  "engine_from_file file = and_then (compile_shortcuts file) (\<lambda>bs. Inr (engine_of bs))"

definition active_modifiers :: "shortcut_engine \<Rightarrow> u8" where
  "active_modifiers e =
     (if logo_keys e \<noteq> 0 then modifier_flag Super else 0) OR (if ctrl_keys e \<noteq> 0 then modifier_flag Ctrl else 0) OR
     (if alt_keys e \<noteq> 0 then modifier_flag Alt else 0) OR (if shift_keys e \<noteq> 0 then modifier_flag Shift else 0)"

definition target_for_key :: "shortcut_engine \<Rightarrow> u32 \<Rightarrow> (shortcut_target \<times> u8) option" where
  "target_for_key e code =
     map_option (\<lambda>b. (cs_target b, tr_modifiers (cs_trigger b)))
       (find (\<lambda>b. tr_modifiers (cs_trigger b) = active_modifiers e \<and> tr_key (cs_trigger b) = Evdev code) (se_bindings e))"

definition modifier_tap_target :: "shortcut_engine \<Rightarrow> modifier \<Rightarrow> shortcut_target option" where
  "modifier_tap_target e m = map_option cs_target (find (\<lambda>b. tr_key (cs_trigger b) = ModifierTap m) (se_bindings e))"

text \<open>The key is one of the two SUPER keys.\<close>

definition logo_bit :: "u32 \<Rightarrow> u8 option" where
  "logo_bit code =
     (if code = KEY_LEFT_META then Some LEFT_MODIFIER else if code = KEY_RIGHT_META then Some RIGHT_MODIFIER else None)"

definition modifier_bit :: "u32 \<Rightarrow> (modifier \<times> u8) option" where
  "modifier_bit code =
     (if code = KEY_LEFT_CTRL then Some (Ctrl, LEFT_MODIFIER)
      else if code = KEY_RIGHT_CTRL then Some (Ctrl, RIGHT_MODIFIER)
      else if code = KEY_LEFT_ALT then Some (Alt, LEFT_MODIFIER)
      else if code = KEY_RIGHT_ALT then Some (Alt, RIGHT_MODIFIER)
      else if code = KEY_LEFT_SHIFT then Some (Shift, LEFT_MODIFIER)
      else if code = KEY_RIGHT_SHIFT then Some (Shift, RIGHT_MODIFIER)
      else None)"

definition observe_logo :: "shortcut_engine \<Rightarrow> u8 \<Rightarrow> bool \<Rightarrow> shortcut_engine \<times> shortcut_disposition" where
  "observe_logo e side pressed =
     (if pressed
      then (e\<lparr>logo_chorded := (if logo_keys e = 0 then False else logo_chorded e), logo_keys := logo_keys e OR side\<rparr>, Consume)
      else
        let e1 = e\<lparr>logo_keys := logo_keys e AND NOT side\<rparr>
        in if switcher_release e1 = Some (ReleaseModifier Super)
           then (e1\<lparr>switcher_release := None, logo_chorded := (if logo_keys e1 = 0 then False else logo_chorded e1)\<rparr>,
                 RequestWindowSwitcherEnd False)
           else if logo_keys e1 = 0
           then (e1\<lparr>logo_chorded := False\<rparr>,
                 if logo_chorded e1 then Consume
                 else (case modifier_tap_target e1 Super of Some target \<Rightarrow> disposition_of_target target | None \<Rightarrow> Consume))
           else (e1, Consume))"

definition set_modifier_keys :: "shortcut_engine \<Rightarrow> modifier \<Rightarrow> (u8 \<Rightarrow> u8) \<Rightarrow> shortcut_engine" where
  "set_modifier_keys e m f = (case m of
     Ctrl \<Rightarrow> e\<lparr>ctrl_keys := f (ctrl_keys e)\<rparr>
   | Alt \<Rightarrow> e\<lparr>alt_keys := f (alt_keys e)\<rparr>
   | Shift \<Rightarrow> e\<lparr>shift_keys := f (shift_keys e)\<rparr>
   | Super \<Rightarrow> e)"

definition observe_modifier :: "shortcut_engine \<Rightarrow> modifier \<Rightarrow> u8 \<Rightarrow> bool \<Rightarrow> shortcut_engine \<times> shortcut_disposition" where
  "observe_modifier e m side pressed =
     (let e1 = set_modifier_keys e m (\<lambda>keys. if pressed then keys OR side else keys AND NOT side)
      in if \<not> pressed \<and> switcher_release e1 = Some (ReleaseModifier m)
         then (e1\<lparr>switcher_release := None\<rparr>, RequestWindowSwitcherEnd True)
         else (e1, Forward))"

definition observe_release :: "shortcut_engine \<Rightarrow> u32 \<Rightarrow> shortcut_engine \<times> shortcut_disposition" where
  "observe_release e code =
     (let captured = captured_keys e code \<noteq> None;
          e1 = e\<lparr>captured_keys := (captured_keys e)(code := None)\<rparr>
      in if switcher_release e1 = Some (ReleaseKey code)
         then (e1\<lparr>switcher_release := None\<rparr>, RequestWindowSwitcherEnd False)
         else (e1, if captured then Consume else Forward))"

text \<open>Who ends the session that a shortcut with these modifiers opens.\<close>

definition switcher_owner :: "u8 \<Rightarrow> u32 \<Rightarrow> window_switcher_release" where
  "switcher_owner mods code =
     (case find (\<lambda>m. mods AND modifier_flag m \<noteq> 0) all_modifiers of None \<Rightarrow> ReleaseKey code | Some m \<Rightarrow> ReleaseModifier m)"

definition observe_press :: "shortcut_engine \<Rightarrow> u32 \<Rightarrow> shortcut_engine \<times> shortcut_disposition" where
  "observe_press e code =
     (case captured_keys e code of
        Some target \<Rightarrow> (e, if target_repeats target then disposition_of_target target else Consume)
      | None \<Rightarrow>
          (case target_for_key e code of
             None \<Rightarrow> (e, Forward)
           | Some (target, mods) \<Rightarrow>
               (e\<lparr>captured_keys := (captured_keys e)(code \<mapsto> target),
                  switcher_release := (if target = DenialAction WindowSwitcher \<and> switcher_release e = None
                    then Some (switcher_owner mods code) else switcher_release e)\<rparr>,
                disposition_of_target target)))"

definition observe :: "shortcut_engine \<Rightarrow> u32 \<Rightarrow> bool \<Rightarrow> shortcut_engine \<times> shortcut_disposition" where
  "observe e code pressed =
     (case logo_bit code of
        Some side \<Rightarrow> observe_logo e side pressed
      | None \<Rightarrow>
          let e1 = (if pressed \<and> logo_keys e \<noteq> 0 then e\<lparr>logo_chorded := True\<rparr> else e)
          in (case modifier_bit code of
                Some (m, side) \<Rightarrow> observe_modifier e1 m side pressed
              | None \<Rightarrow> if pressed then observe_press e1 code else observe_release e1 code))"

definition note_pointer_button :: "shortcut_engine \<Rightarrow> bool \<Rightarrow> shortcut_engine" where
  "note_pointer_button e pressed = (if pressed \<and> logo_keys e \<noteq> 0 then e\<lparr>logo_chorded := True\<rparr> else e)"

definition super_pressed :: "shortcut_engine \<Rightarrow> bool" where
  "super_pressed e \<longleftrightarrow> logo_keys e \<noteq> 0"

definition engine_reset :: "shortcut_engine \<Rightarrow> shortcut_engine" where
  "engine_reset e = e\<lparr>ctrl_keys := 0, alt_keys := 0, shift_keys := 0, logo_keys := 0, logo_chorded := False,
     switcher_release := None, captured_keys := Map.empty\<rparr>"

definition pass_through_key :: "shortcut_engine \<Rightarrow> u32 \<Rightarrow> shortcut_engine" where
  "pass_through_key e code = e\<lparr>captured_keys := (captured_keys e)(code := None)\<rparr>"

section \<open>Gestures\<close>

fun window_switcher_gesture_step :: "shortcut_gesture \<Rightarrow> shortcut_disposition" where
  "window_switcher_gesture_step ThreeFingerSwipeRight = RequestWindowSwitcherPrevious"
| "window_switcher_gesture_step FourFingerSwipeRight = RequestWindowSwitcherPrevious"
| "window_switcher_gesture_step ThreeFingerSwipeUp = RequestWindowSwitcherNext"
| "window_switcher_gesture_step ThreeFingerSwipeLeft = RequestWindowSwitcherNext"
| "window_switcher_gesture_step FourFingerSwipeLeft = RequestWindowSwitcherNext"

definition gesture_target :: "shortcut_engine \<Rightarrow> shortcut_gesture \<Rightarrow> shortcut_target option" where
  "gesture_target e gesture = map_option cs_target
     (find (\<lambda>b. tr_modifiers (cs_trigger b) = 0 \<and> tr_key (cs_trigger b) = Gesture gesture) (se_bindings e))"

definition observe_gesture_at :: "shortcut_engine \<Rightarrow> shortcut_gesture \<Rightarrow> instant \<Rightarrow> shortcut_engine \<times> shortcut_disposition" where
  "observe_gesture_at e gesture now =
     (if gesture_target e gesture = Some (DenialAction WindowSwitcher)
      then (if switcher_release e = None
            then e\<lparr>switcher_release := Some (ReleaseGesture gesture (now + int WINDOW_SWITCHER_GESTURE_HOLD_DELAY))\<rparr> else e,
            window_switcher_gesture_step gesture)
      else (e, case gesture_target e gesture of Some target \<Rightarrow> disposition_of_target target | None \<Rightarrow> Forward))"

definition observe_gesture_repeat_at :: "shortcut_engine \<Rightarrow> shortcut_gesture \<Rightarrow> instant \<Rightarrow> shortcut_disposition" where
  "observe_gesture_repeat_at e gesture now =
     (case switcher_release e of
        Some (ReleaseGesture owner repeat_after) \<Rightarrow>
          if repeat_after \<le> now then window_switcher_gesture_step gesture else Consume
      | _ \<Rightarrow> Consume)"

definition end_gesture :: "shortcut_engine \<Rightarrow> shortcut_gesture \<Rightarrow> shortcut_engine \<times> shortcut_disposition" where
  "end_gesture e gesture =
     (case switcher_release e of
        Some (ReleaseGesture owner repeat_after) \<Rightarrow>
          if owner = gesture then (e\<lparr>switcher_release := None\<rparr>, RequestWindowSwitcherEnd False) else (e, Forward)
      | _ \<Rightarrow> (e, Forward))"

definition cancel_gestures :: "shortcut_engine \<Rightarrow> shortcut_engine" where
  "cancel_gestures e =
     (case switcher_release e of Some (ReleaseGesture owner repeat_after) \<Rightarrow> e\<lparr>switcher_release := None\<rparr> | _ \<Rightarrow> e)"

section \<open>What a disposition does\<close>

text \<open>The calls that carry a disposition out. \<open>QueueShellAction\<close> says whether the overlay is prepared on the output of the
  pointer first; the workspace calls may find no output, window or workspace and then decline.\<close>

datatype shell_action =
    ShellApplications | ShellDashboard | ShellOverview | ShellWindowSwitcherNext | ShellWindowSwitcherPrevious
  | ShellWindowSwitcherEnd | ShellClipboard | ShellOpenSettings

datatype shortcut_effect =
    ShutdownRequested | QueueShellAction shell_action bool | SwitchAdjacentWorkspace int | SwitchToWorkspace nat
  | MoveWindowToAdjacentWorkspace int | MoveWindowToWorkspace nat | ToggleVerticalMaximizeFocused
  | FocusInDirection layout_direction | SwapInDirection layout_direction | ScreenshotSelection | MinimizeFocused
  | MinimizeAll | CloseFocused | ToggleMaximizeFocused | ToggleFullscreenFocused | ReleasePointerToShell
  | LockSession | AudioVolumeUp | AudioVolumeDown | AudioToggleMute | AdjustBrightness bool | CycleKeyboardLayout bool
  | LaunchLater shortcut_target

fun disposition_effects :: "shortcut_disposition \<Rightarrow> shortcut_effect list" where
  "disposition_effects Forward = []"
| "disposition_effects Consume = []"
| "disposition_effects RequestShutdown = [ShutdownRequested]"
| "disposition_effects RequestApplications = [QueueShellAction ShellApplications False]"
| "disposition_effects RequestDashboard = [QueueShellAction ShellDashboard False]"
| "disposition_effects RequestOverview = [QueueShellAction ShellOverview True]"
| "disposition_effects RequestPreviousWorkspace = [SwitchAdjacentWorkspace (- 1)]"
| "disposition_effects RequestNextWorkspace = [SwitchAdjacentWorkspace 1]"
| "disposition_effects (RequestSwitchWorkspace workspace) = [SwitchToWorkspace workspace]"
| "disposition_effects RequestMoveToPreviousWorkspace = [MoveWindowToAdjacentWorkspace (- 1)]"
| "disposition_effects RequestMoveToNextWorkspace = [MoveWindowToAdjacentWorkspace 1]"
| "disposition_effects (RequestMoveToWorkspace workspace) = [MoveWindowToWorkspace workspace]"
| "disposition_effects RequestToggleVerticalMaximize = [ToggleVerticalMaximizeFocused]"
| "disposition_effects (RequestFocus direction) = [FocusInDirection direction]"
| "disposition_effects (RequestSwap direction) = [SwapInDirection direction]"
| "disposition_effects RequestWindowSwitcherNext = [QueueShellAction ShellWindowSwitcherNext True]"
| "disposition_effects RequestWindowSwitcherPrevious = [QueueShellAction ShellWindowSwitcherPrevious True]"
| "disposition_effects (RequestWindowSwitcherEnd forward) = [QueueShellAction ShellWindowSwitcherEnd False]"
| "disposition_effects RequestClipboard = [QueueShellAction ShellClipboard True]"
| "disposition_effects RequestScreenshotRegion = [ScreenshotSelection]"
| "disposition_effects RequestMinimize = [MinimizeFocused]"
| "disposition_effects RequestMinimizeAll = [MinimizeAll]"
| "disposition_effects RequestClose = [CloseFocused]"
| "disposition_effects RequestToggleMaximize = [ToggleMaximizeFocused]"
| "disposition_effects RequestToggleFullscreen = [ToggleFullscreenFocused]"
| "disposition_effects RequestReleasePointer = [ReleasePointerToShell]"
| "disposition_effects RequestLock = [LockSession]"
| "disposition_effects RequestVolumeUp = [AudioVolumeUp]"
| "disposition_effects RequestVolumeDown = [AudioVolumeDown]"
| "disposition_effects RequestMute = [AudioToggleMute]"
| "disposition_effects RequestBrightnessUp = [AdjustBrightness True]"
| "disposition_effects RequestBrightnessDown = [AdjustBrightness False]"
| "disposition_effects RequestNextKeyboardLayout = [CycleKeyboardLayout True]"
| "disposition_effects RequestPreviousKeyboardLayout = [CycleKeyboardLayout False]"
| "disposition_effects RequestOpenSettings = [QueueShellAction ShellOpenSettings False]"
| "disposition_effects (RequestSpawn command desktop_file_id) = [LaunchLater (Spawn command desktop_file_id)]"
| "disposition_effects (RequestSpawnSh command) = [LaunchLater (SpawnSh command)]"

section \<open>Which keys reach the clients\<close>

text \<open>Whether a disposition is handled; \<open>accepts\<close> says whether a workspace action applies in its context.\<close>

definition disposition_handled :: "(shortcut_disposition \<Rightarrow> bool) \<Rightarrow> shortcut_disposition \<Rightarrow> bool" where
  "disposition_handled accepts d =
     (case d of
        Forward \<Rightarrow> False
      | RequestWindowSwitcherEnd forward \<Rightarrow> \<not> forward
      | RequestPreviousWorkspace \<Rightarrow> accepts d
      | RequestNextWorkspace \<Rightarrow> accepts d
      | RequestSwitchWorkspace workspace \<Rightarrow> accepts d
      | RequestMoveToPreviousWorkspace \<Rightarrow> accepts d
      | RequestMoveToNextWorkspace \<Rightarrow> accepts d
      | RequestMoveToWorkspace workspace \<Rightarrow> accepts d
      | _ \<Rightarrow> True)"

definition execute_shortcut_disposition ::
  "(shortcut_disposition \<Rightarrow> bool) \<Rightarrow> shortcut_disposition \<Rightarrow> shortcut_effect list \<times> bool" where
  "execute_shortcut_disposition accepts d = (disposition_effects d, disposition_handled accepts d)"

text \<open>While the session is locked only the lock and the shutdown are carried out.\<close>

definition locked_effects :: "shortcut_disposition \<Rightarrow> shortcut_effect list" where
  "locked_effects d = (if d = RequestLock \<or> d = RequestShutdown then disposition_effects d else [])"

text \<open>\<open>intercept_native_escape\<close>: the key is kept from the clients when the result is \<open>True\<close>.\<close>

definition intercept_with_effects ::
  "bool \<Rightarrow> (shortcut_disposition \<Rightarrow> bool) \<Rightarrow> shortcut_engine \<Rightarrow> u32 \<Rightarrow> bool \<Rightarrow> shortcut_engine \<times> shortcut_effect list \<times> bool" where
  "intercept_with_effects locked accepts e xkb_keycode pressed =
     (if xkb_keycode < 8 then (e, [], False)
      else
        let code = xkb_keycode - 8;
            (e1, d) = observe e code pressed
        in if locked then (e1, locked_effects d, d \<noteq> Forward)
           else
             let (effects, handled) = execute_shortcut_disposition accepts d
             in (if \<not> handled \<and> pressed then pass_through_key e1 code else e1, effects, handled))"

text \<open>The same without the effects.\<close>

definition intercept_native_escape ::
  "bool \<Rightarrow> (shortcut_disposition \<Rightarrow> bool) \<Rightarrow> shortcut_engine \<Rightarrow> u32 \<Rightarrow> bool \<Rightarrow> shortcut_engine \<times> bool" where
  "intercept_native_escape locked accepts e xkb_keycode pressed =
     (case intercept_with_effects locked accepts e xkb_keycode pressed of (e', effects, handled) \<Rightarrow> (e', handled))"

lemma intercept_native_escape_eq:
  "intercept_native_escape locked accepts e xkb_keycode pressed =
     (if xkb_keycode < 8 then (e, False)
      else
        let code = xkb_keycode - 8;
            (e1, d) = observe e code pressed
        in if locked then (e1, d \<noteq> Forward)
           else
             let handled = disposition_handled accepts d
             in (if \<not> handled \<and> pressed then pass_through_key e1 code else e1, handled))"
  by (simp add: intercept_native_escape_def intercept_with_effects_def execute_shortcut_disposition_def Let_def split: prod.splits)

section \<open>The keys that are held\<close>

text \<open>The bits that the engine keeps for the two keys of a modifier.\<close>

definition held_bits :: "u32 \<Rightarrow> u32 \<Rightarrow> u32 set \<Rightarrow> u8" where
  "held_bits l r held = (if l \<in> held then LEFT_MODIFIER else 0) OR (if r \<in> held then RIGHT_MODIFIER else 0)"

lemma held_bits_zero: "held_bits l r held = 0 \<longleftrightarrow> l \<notin> held \<and> r \<notin> held"
  by (simp add: held_bits_def LEFT_MODIFIER_def RIGHT_MODIFIER_def)

lemma held_bits_insert:
  "l \<noteq> r \<Longrightarrow> held_bits l r (insert l held) = held_bits l r held OR LEFT_MODIFIER"
  "l \<noteq> r \<Longrightarrow> held_bits l r (insert r held) = held_bits l r held OR RIGHT_MODIFIER"
  "k \<noteq> l \<Longrightarrow> k \<noteq> r \<Longrightarrow> held_bits l r (insert k held) = held_bits l r held"
  by (simp_all add: held_bits_def LEFT_MODIFIER_def RIGHT_MODIFIER_def)

lemma held_bits_remove:
  "l \<noteq> r \<Longrightarrow> held_bits l r (held - {l}) = held_bits l r held AND NOT LEFT_MODIFIER"
  "l \<noteq> r \<Longrightarrow> held_bits l r (held - {r}) = held_bits l r held AND NOT RIGHT_MODIFIER"
  "k \<noteq> l \<Longrightarrow> k \<noteq> r \<Longrightarrow> held_bits l r (held - {k}) = held_bits l r held"
  by (simp_all add: held_bits_def LEFT_MODIFIER_def RIGHT_MODIFIER_def)

text \<open>The two keys of each modifier.\<close>

fun modifier_keys :: "modifier \<Rightarrow> u32 \<times> u32" where
  "modifier_keys Super = (KEY_LEFT_META, KEY_RIGHT_META)"
| "modifier_keys Ctrl = (KEY_LEFT_CTRL, KEY_RIGHT_CTRL)"
| "modifier_keys Alt = (KEY_LEFT_ALT, KEY_RIGHT_ALT)"
| "modifier_keys Shift = (KEY_LEFT_SHIFT, KEY_RIGHT_SHIFT)"

definition keys_of :: "modifier \<Rightarrow> u32 set" where
  "keys_of m = {fst (modifier_keys m), snd (modifier_keys m)}"

definition modifier_held :: "u32 set \<Rightarrow> modifier \<Rightarrow> bool" where
  "modifier_held held m \<longleftrightarrow> keys_of m \<inter> held \<noteq> {}"

definition modifiers_of :: "u32 set \<Rightarrow> u8" where
  "modifiers_of held =
     (if modifier_held held Super then 1 else 0) OR (if modifier_held held Ctrl then 2 else 0) OR
     (if modifier_held held Alt then 4 else 0) OR (if modifier_held held Shift then 8 else 0)"

definition ordinary_key :: "u32 \<Rightarrow> bool" where
  "ordinary_key k \<longleftrightarrow> (\<forall>m. k \<notin> keys_of m)"

lemmas key_codes =
  KEY_LEFT_META_def KEY_RIGHT_META_def KEY_LEFT_CTRL_def KEY_RIGHT_CTRL_def KEY_LEFT_ALT_def KEY_RIGHT_ALT_def
  KEY_LEFT_SHIFT_def KEY_RIGHT_SHIFT_def

lemma modifier_held_flag: "modifiers_of held AND modifier_flag m \<noteq> 0 \<longleftrightarrow> modifier_held held m"
  by (cases m) (simp_all add: modifiers_of_def)

lemma keys_of_disjoint: "k \<in> keys_of m \<Longrightarrow> k \<in> keys_of m' \<Longrightarrow> m = m'"
  by (cases m; cases m') (auto simp: keys_of_def key_codes)

lemma modifier_split: "(\<forall>m. P m) \<longleftrightarrow> P Super \<and> P Ctrl \<and> P Alt \<and> P Shift"
  using modifier.exhaust by metis

lemma logo_bit_cases:
  obtains "k = KEY_LEFT_META" "logo_bit k = Some LEFT_MODIFIER" "k \<in> keys_of Super"
    | "k = KEY_RIGHT_META" "logo_bit k = Some RIGHT_MODIFIER" "k \<in> keys_of Super"
    | "logo_bit k = None" "k \<notin> keys_of Super"
  by (cases "k = KEY_LEFT_META"; cases "k = KEY_RIGHT_META") (auto simp: logo_bit_def keys_of_def)

lemma logo_bit_None: "logo_bit k = None \<longleftrightarrow> k \<notin> keys_of Super"
  by (auto simp: logo_bit_def keys_of_def)

lemma modifier_bit_None: "modifier_bit k = None \<longleftrightarrow> (\<forall>m. m \<noteq> Super \<longrightarrow> k \<notin> keys_of m)"
  by (auto simp: modifier_bit_def keys_of_def modifier_split)

lemma modifier_bit_Some: "modifier_bit k = Some (m, side) \<Longrightarrow> k \<in> keys_of m \<and> m \<noteq> Super"
  by (auto simp: modifier_bit_def keys_of_def split: if_splits)

section \<open>The invariant\<close>

definition bits_ok :: "shortcut_engine \<Rightarrow> u32 set \<Rightarrow> bool" where
  "bits_ok e held \<longleftrightarrow> logo_keys e = held_bits KEY_LEFT_META KEY_RIGHT_META held \<and>
     ctrl_keys e = held_bits KEY_LEFT_CTRL KEY_RIGHT_CTRL held \<and> alt_keys e = held_bits KEY_LEFT_ALT KEY_RIGHT_ALT held \<and>
     shift_keys e = held_bits KEY_LEFT_SHIFT KEY_RIGHT_SHIFT held"

lemma active_modifiers_held: "bits_ok e held \<Longrightarrow> active_modifiers e = modifiers_of held"
  by (simp add: active_modifiers_def modifiers_of_def bits_ok_def modifier_held_def keys_of_def held_bits_zero)

lemma bits_ok_cong:
  "ctrl_keys e' = ctrl_keys e \<Longrightarrow> alt_keys e' = alt_keys e \<Longrightarrow> shift_keys e' = shift_keys e \<Longrightarrow> logo_keys e' = logo_keys e \<Longrightarrow>
     bits_ok e' held = bits_ok e held"
  by (simp add: bits_ok_def)

text \<open>A key reaches the clients between its press and its release exactly when it is not captured.\<close>

definition client_sees :: "shortcut_engine \<Rightarrow> u32 set \<Rightarrow> u32 \<Rightarrow> bool" where
  "client_sees e held k \<longleftrightarrow> k \<in> held \<and> k \<notin> keys_of Super \<and> captured_keys e k = None"

definition release_ok :: "shortcut_engine \<Rightarrow> u32 set \<Rightarrow> bool" where
  "release_ok e held \<longleftrightarrow> (case switcher_release e of
     None \<Rightarrow> True
   | Some (ReleaseModifier m) \<Rightarrow> modifier_held held m
   | Some (ReleaseKey k) \<Rightarrow> captured_keys e k = Some (DenialAction WindowSwitcher)
   | Some (ReleaseGesture g t) \<Rightarrow> True)"

definition engine_inv :: "shortcut_engine \<Rightarrow> u32 set \<Rightarrow> u32 set \<Rightarrow> bool" where
  "engine_inv e held client \<longleftrightarrow> bits_ok e held \<and> client = Collect (client_sees e held) \<and>
     (\<forall>k. captured_keys e k \<noteq> None \<longrightarrow> k \<in> held \<and> ordinary_key k) \<and> release_ok e held"

section \<open>One key event\<close>

lemma disposition_of_target_not_Forward [simp]: "disposition_of_target target \<noteq> Forward"
proof (cases target)
  case (DenialAction action)
  then show ?thesis
    by (cases action) simp_all
qed simp_all

lemma ordinary_key_bits: "ordinary_key k \<Longrightarrow> logo_bit k = None \<and> modifier_bit k = None"
  by (simp add: ordinary_key_def logo_bit_None modifier_bit_None)

lemma key_cases:
  obtains "k \<in> keys_of Super" | m where "m \<noteq> Super" "k \<in> keys_of m" | "ordinary_key k"
  unfolding ordinary_key_def by metis

lemma modifier_held_insert: "modifier_held (insert k held) m \<longleftrightarrow> k \<in> keys_of m \<or> modifier_held held m"
  by (auto simp: modifier_held_def)

lemma modifier_held_remove: "k \<notin> keys_of m \<Longrightarrow> modifier_held (held - {k}) m = modifier_held held m"
  by (auto simp: modifier_held_def)

lemma bits_ok_press_logo:
  "bits_ok e held \<Longrightarrow> logo_bit k = Some side \<Longrightarrow> bits_ok (e\<lparr>logo_chorded := c, logo_keys := logo_keys e OR side\<rparr>) (insert k held)"
  by (auto simp: bits_ok_def logo_bit_def key_codes held_bits_insert split: if_splits)

lemma bits_ok_release_logo:
  "bits_ok e held \<Longrightarrow> logo_bit k = Some side \<Longrightarrow> bits_ok (e\<lparr>logo_keys := logo_keys e AND NOT side\<rparr>) (held - {k})"
  by (auto simp: bits_ok_def logo_bit_def key_codes held_bits_remove split: if_splits)

lemma bits_ok_press_modifier:
  "bits_ok e held \<Longrightarrow> modifier_bit k = Some (m, side) \<Longrightarrow> bits_ok (set_modifier_keys e m (\<lambda>keys. keys OR side)) (insert k held)"
  by (auto simp: bits_ok_def modifier_bit_def set_modifier_keys_def key_codes held_bits_insert split: if_splits)

lemma bits_ok_release_modifier:
  "bits_ok e held \<Longrightarrow> modifier_bit k = Some (m, side) \<Longrightarrow> bits_ok (set_modifier_keys e m (\<lambda>keys. keys AND NOT side)) (held - {k})"
  by (auto simp: bits_ok_def modifier_bit_def set_modifier_keys_def key_codes held_bits_remove split: if_splits)

lemma bits_ok_ordinary:
  assumes "bits_ok e held" "ordinary_key k"
  shows "bits_ok e (insert k held)" "bits_ok e (held - {k})"
proof -
  have "k \<noteq> KEY_LEFT_META \<and> k \<noteq> KEY_RIGHT_META \<and> k \<noteq> KEY_LEFT_CTRL \<and> k \<noteq> KEY_RIGHT_CTRL \<and> k \<noteq> KEY_LEFT_ALT \<and>
      k \<noteq> KEY_RIGHT_ALT \<and> k \<noteq> KEY_LEFT_SHIFT \<and> k \<noteq> KEY_RIGHT_SHIFT"
    using assms(2) by (auto simp: ordinary_key_def keys_of_def modifier_split)
  then show "bits_ok e (insert k held)" "bits_ok e (held - {k})"
    using assms(1) by (simp_all add: bits_ok_def held_bits_insert held_bits_remove)
qed

lemma set_modifier_keys_simps [simp]:
  "captured_keys (set_modifier_keys e m f) = captured_keys e" "switcher_release (set_modifier_keys e m f) = switcher_release e"
  "logo_chorded (set_modifier_keys e m f) = logo_chorded e" "se_bindings (set_modifier_keys e m f) = se_bindings e"
  by (simp_all add: set_modifier_keys_def split: modifier.splits)

definition chorded_by :: "shortcut_engine \<Rightarrow> bool \<Rightarrow> shortcut_engine" where
  "chorded_by e pressed = (if pressed \<and> logo_keys e \<noteq> 0 then e\<lparr>logo_chorded := True\<rparr> else e)"

lemma chorded_by_simps [simp]:
  "captured_keys (chorded_by e p) = captured_keys e" "switcher_release (chorded_by e p) = switcher_release e"
  "se_bindings (chorded_by e p) = se_bindings e" "bits_ok (chorded_by e p) held = bits_ok e held"
  "active_modifiers (chorded_by e p) = active_modifiers e" "target_for_key (chorded_by e p) k = target_for_key e k"
  by (simp_all add: chorded_by_def bits_ok_def active_modifiers_def target_for_key_def)

lemma observe_kinds:
  "logo_bit k = Some side \<Longrightarrow> observe e k pressed = observe_logo e side pressed"
  "logo_bit k = None \<Longrightarrow> modifier_bit k = Some (m, side) \<Longrightarrow> observe e k pressed = observe_modifier (chorded_by e pressed) m side pressed"
  "ordinary_key k \<Longrightarrow> observe e k pressed =
     (if pressed then observe_press (chorded_by e True) k else observe_release (chorded_by e False) k)"
  by (simp_all add: observe_def chorded_by_def ordinary_key_bits)

lemma engine_invI:
  assumes "bits_ok e held" "\<And>k. captured_keys e k \<noteq> None \<Longrightarrow> k \<in> held \<and> ordinary_key k" "release_ok e held"
    and "\<And>k. k \<in> client \<longleftrightarrow> client_sees e held k"
  shows "engine_inv e held client"
  using assms by (auto simp: engine_inv_def)

lemma engine_invD:
  assumes "engine_inv e held client"
  shows "bits_ok e held" "captured_keys e k \<noteq> None \<Longrightarrow> k \<in> held \<and> ordinary_key k" "release_ok e held"
    "k \<in> client \<longleftrightarrow> client_sees e held k"
  using assms by (auto simp: engine_inv_def)

text \<open>The SUPER keys stay with the compositor.\<close>

lemma super_press_keeps:
  assumes inv: "engine_inv e held client" and k: "k \<in> keys_of Super"
    and observed: "observe e k True = (e', d)"
  shows "engine_inv e' (insert k held) client \<and> d = Consume"
proof -
  obtain side where side: "logo_bit k = Some side"
    using k logo_bit_None by fastforce
  then have e': "e' = e\<lparr>logo_chorded := (if logo_keys e = 0 then False else logo_chorded e), logo_keys := logo_keys e OR side\<rparr>" "d = Consume"
    using observed by (auto simp: observe_kinds observe_logo_def)
  note i = engine_invD [OF inv]
  have "release_ok e' (insert k held)"
    using i(3) by (auto simp: release_ok_def e' modifier_held_insert split: option.splits window_switcher_release.splits)
  moreover have "j \<in> client \<longleftrightarrow> client_sees e' (insert k held) j" for j
    using i(4) [of j] k by (auto simp: client_sees_def e')
  moreover have "bits_ok e' (insert k held)"
    unfolding e' by (rule bits_ok_press_logo [OF i(1) side])
  ultimately show ?thesis
    using i(2) by (auto intro!: engine_invI simp: e')
qed

lemma super_release_keeps:
  assumes inv: "engine_inv e held client" and k: "k \<in> keys_of Super" "k \<in> held"
    and observed: "observe e k False = (e', d)"
  shows "engine_inv e' (held - {k}) client" "d \<noteq> Forward" "switcher_release e = Some (ReleaseModifier Super) \<Longrightarrow> d = RequestWindowSwitcherEnd False"
    "switcher_release e' = (if switcher_release e = Some (ReleaseModifier Super) then None else switcher_release e)"
proof -
  obtain side where side: "logo_bit k = Some side"
    using k logo_bit_None by fastforce
  define e1 where "e1 = e\<lparr>logo_keys := logo_keys e AND NOT side\<rparr>"
  have fields: "captured_keys e' = captured_keys e" "bits_ok e' (held - {k}) = bits_ok e1 (held - {k})"
      "switcher_release e' = (if switcher_release e = Some (ReleaseModifier Super) then None else switcher_release e)"
      and d: "d \<noteq> Forward" "switcher_release e = Some (ReleaseModifier Super) \<Longrightarrow> d = RequestWindowSwitcherEnd False"
    using observed by (auto simp: observe_kinds(1) [OF side] observe_logo_def Let_def e1_def bits_ok_def split: if_splits option.splits)
  note i = engine_invD [OF inv]
  have "release_ok e' (held - {k})"
    using i(3) k by (auto simp: release_ok_def fields modifier_held_remove dest: keys_of_disjoint
        split: option.splits window_switcher_release.splits) (metis keys_of_disjoint modifier_held_remove)
  moreover have "j \<in> client \<longleftrightarrow> client_sees e' (held - {k}) j" for j
    using i(4) [of j] k by (auto simp: client_sees_def fields)
  moreover have "bits_ok e' (held - {k})"
    unfolding fields e1_def by (rule bits_ok_release_logo [OF i(1) side])
  moreover have "captured_keys e' j \<noteq> None \<Longrightarrow> j \<in> held - {k} \<and> ordinary_key j" for j
    using i(2) [of j] k by (auto simp: fields ordinary_key_def)
  ultimately show "engine_inv e' (held - {k}) client"
    by (intro engine_invI) auto
  show "d \<noteq> Forward" "switcher_release e = Some (ReleaseModifier Super) \<Longrightarrow> d = RequestWindowSwitcherEnd False"
    "switcher_release e' = (if switcher_release e = Some (ReleaseModifier Super) then None else switcher_release e)"
    using d fields(3) by auto
qed

text \<open>CTRL, ALT and SHIFT go to the clients.\<close>

lemma captured_not_modifier: "engine_inv e held client \<Longrightarrow> k \<in> keys_of m \<Longrightarrow> captured_keys e k = None"
  using engine_invD(2) [of e held client k] by (cases "captured_keys e k") (auto simp: ordinary_key_def)

lemma modifier_bit_of_key:
  assumes "m \<noteq> Super" "k \<in> keys_of m"
  obtains side where "logo_bit k = None" "modifier_bit k = Some (m, side)"
proof -
  have "logo_bit k = None"
    using assms keys_of_disjoint by (auto simp: logo_bit_None)
  moreover obtain m' side where bits: "modifier_bit k = Some (m', side)"
    using assms modifier_bit_None [of k] by fastforce
  then have "m' = m"
    using modifier_bit_Some keys_of_disjoint assms(2) by blast
  ultimately show ?thesis
    using bits that by blast
qed

lemma modifier_press_keeps:
  assumes inv: "engine_inv e held client" and k: "m \<noteq> Super" "k \<in> keys_of m"
    and observed: "observe e k True = (e', d)"
  shows "engine_inv e' (insert k held) (insert k client) \<and> d = Forward \<and> captured_keys e' k = None"
proof -
  obtain side where side: "logo_bit k = None" "modifier_bit k = Some (m, side)"
    using modifier_bit_of_key [OF k] by blast
  have e': "e' = set_modifier_keys (chorded_by e True) m (\<lambda>keys. keys OR side)" "d = Forward"
    using observed by (auto simp: observe_kinds(2) [OF side] observe_modifier_def Let_def)
  note i = engine_invD [OF inv]
  have none: "captured_keys e k = None" "k \<notin> keys_of Super"
    using captured_not_modifier [OF inv k(2)] k keys_of_disjoint by auto
  have "release_ok e' (insert k held)"
    using i(3) by (auto simp: release_ok_def e' modifier_held_insert split: option.splits window_switcher_release.splits)
  moreover have "j \<in> insert k client \<longleftrightarrow> client_sees e' (insert k held) j" for j
    using i(4) [of j] none by (auto simp: client_sees_def e')
  moreover have "bits_ok e' (insert k held)"
    unfolding e' by (rule bits_ok_press_modifier [OF _ side(2)]) (simp add: i(1))
  ultimately show ?thesis
    using i(2) none by (auto intro!: engine_invI simp: e')
qed

lemma modifier_release_keeps:
  assumes inv: "engine_inv e held client" and k: "m \<noteq> Super" "k \<in> keys_of m" "k \<in> held"
    and observed: "observe e k False = (e', d)"
  shows "engine_inv e' (held - {k}) (client - {k})" "k \<in> client"
    "d = (if switcher_release e = Some (ReleaseModifier m) then RequestWindowSwitcherEnd True else Forward)"
    "switcher_release e' = (if switcher_release e = Some (ReleaseModifier m) then None else switcher_release e)"
proof -
  obtain side where side: "logo_bit k = None" "modifier_bit k = Some (m, side)"
    using modifier_bit_of_key [OF k(1,2)] by blast
  define e1 where "e1 = set_modifier_keys (chorded_by e False) m (\<lambda>keys. keys AND NOT side)"
  have fields: "captured_keys e' = captured_keys e" "bits_ok e' (held - {k}) = bits_ok e1 (held - {k})"
      and d: "switcher_release e' = (if switcher_release e = Some (ReleaseModifier m) then None else switcher_release e)"
      "d = (if switcher_release e = Some (ReleaseModifier m) then RequestWindowSwitcherEnd True else Forward)"
    using observed by (auto simp: observe_kinds(2) [OF side] observe_modifier_def Let_def e1_def bits_ok_def split: if_splits)
  note i = engine_invD [OF inv]
  have none: "captured_keys e k = None" "k \<notin> keys_of Super"
    using captured_not_modifier [OF inv k(2)] k keys_of_disjoint by auto
  have "release_ok e' (held - {k})"
    using i(3) k by (auto simp: release_ok_def fields d modifier_held_remove dest: keys_of_disjoint
        split: option.splits window_switcher_release.splits) (metis keys_of_disjoint modifier_held_remove)
  moreover have "j \<in> client - {k} \<longleftrightarrow> client_sees e' (held - {k}) j" for j
    using i(4) [of j] none by (auto simp: client_sees_def fields)
  moreover have "bits_ok e' (held - {k})"
    unfolding fields e1_def by (rule bits_ok_release_modifier [OF _ side(2)]) (simp add: i(1))
  moreover have "captured_keys e' j \<noteq> None \<Longrightarrow> j \<in> held - {k} \<and> ordinary_key j" for j
    using i(2) [of j] k by (auto simp: fields ordinary_key_def)
  ultimately show "engine_inv e' (held - {k}) (client - {k})"
    by (intro engine_invI) auto
  show "k \<in> client"
    using i(4) [of k] none k by (simp add: client_sees_def)
  show "d = (if switcher_release e = Some (ReleaseModifier m) then RequestWindowSwitcherEnd True else Forward)"
    "switcher_release e' = (if switcher_release e = Some (ReleaseModifier m) then None else switcher_release e)"
    using d by auto
qed

text \<open>Every other key is captured when a shortcut matches it.\<close>

lemma target_for_key_mods: "target_for_key e k = Some (target, mods) \<Longrightarrow> mods = active_modifiers e"
  by (auto simp: target_for_key_def find_Some_iff)

lemma switcher_owner_ok:
  assumes "bits_ok e held" "captured_keys e' k = Some (DenialAction WindowSwitcher)"
    "switcher_release e' = Some (switcher_owner (active_modifiers e) k)" "bits_ok e' held'" "held \<subseteq> held'"
  shows "release_ok e' held'"
proof (cases "find (\<lambda>m. active_modifiers e AND modifier_flag m \<noteq> 0) all_modifiers")
  case None
  then show ?thesis
    using assms by (simp add: release_ok_def switcher_owner_def)
next
  case (Some m)
  then have "active_modifiers e AND modifier_flag m \<noteq> 0"
    by (auto simp: find_Some_iff)
  then have "modifier_held held m"
    using active_modifiers_held [OF assms(1)] modifier_held_flag by simp
  then show ?thesis
    using assms Some by (auto simp: release_ok_def switcher_owner_def modifier_held_def)
qed

lemma ordinary_press_keeps:
  assumes inv: "engine_inv e held client" and k: "ordinary_key k" "k \<notin> held"
    and observed: "observe e k True = (e', d)"
  shows "d = (case target_for_key e k of None \<Rightarrow> Forward | Some (target, mods) \<Rightarrow> disposition_of_target target)"
    "d \<noteq> Forward \<Longrightarrow> engine_inv e' (insert k held) client"
    "d = Forward \<or> d \<noteq> RequestWindowSwitcherNext \<Longrightarrow> engine_inv (pass_through_key e' k) (insert k held) (insert k client)"
proof -
  note i = engine_invD [OF inv]
  have none: "captured_keys e k = None" "k \<notin> keys_of Super"
    using i(2) [of k] k by (cases "captured_keys e k"; auto simp: ordinary_key_def)+
  have press: "observe_press (chorded_by e True) k = (e', d)"
    using observed k(1) by (simp add: observe_kinds)
  show d: "d = (case target_for_key e k of None \<Rightarrow> Forward | Some (target, mods) \<Rightarrow> disposition_of_target target)"
    using press none by (auto simp: observe_press_def split: option.splits)
  have bits: "bits_ok e' (insert k held)"
  proof -
    have "bits_ok e' (insert k held) = bits_ok (chorded_by e True) (insert k held)"
      using press by (auto simp: observe_press_def bits_ok_def split: option.splits if_splits)
    then show ?thesis
      using bits_ok_ordinary(1) [OF i(1) k(1)] by simp
  qed
  have client: "j \<in> client \<longleftrightarrow> client_sees e held j" for j
    by (rule i(4))
  have ordinary: "captured_keys e j \<noteq> None \<Longrightarrow> j \<in> insert k held \<and> ordinary_key j" for j
    using i(2) [of j] by auto
  have release: "release_ok f (insert k held)" if "switcher_release f = switcher_release e"
      "\<And>j. captured_keys e j \<noteq> None \<Longrightarrow> captured_keys f j = captured_keys e j" for f
    using i(3) that by (auto simp: release_ok_def modifier_held_insert split: option.splits window_switcher_release.splits)
  show "d \<noteq> Forward \<Longrightarrow> engine_inv e' (insert k held) client"
  proof -
    assume "d \<noteq> Forward"
    then obtain target mods where target: "target_for_key e k = Some (target, mods)"
      using d by (auto split: option.splits)
    then have e': "captured_keys e' = (captured_keys e)(k \<mapsto> target)"
        "switcher_release e' = (if target = DenialAction WindowSwitcher \<and> switcher_release e = None
           then Some (switcher_owner (active_modifiers e) k) else switcher_release e)"
      using press none target_for_key_mods [OF target] by (auto simp: observe_press_def)
    have "release_ok e' (insert k held)"
    proof (cases "target = DenialAction WindowSwitcher \<and> switcher_release e = None")
      case True
      then show ?thesis
        using switcher_owner_ok [OF i(1) _ _ bits, of k] e' by auto
    next
      case False
      then show ?thesis
        using e' none by (intro release) auto
    qed
    moreover have "j \<in> client \<longleftrightarrow> client_sees e' (insert k held) j" for j
      using client [of j] k(2) by (auto simp: client_sees_def e')
    moreover have "captured_keys e' j \<noteq> None \<Longrightarrow> j \<in> insert k held \<and> ordinary_key j" for j
      using ordinary [of j] k(1) by (auto simp: e' split: if_splits)
    ultimately show ?thesis
      using bits by (intro engine_invI) auto
  qed
  assume other: "d = Forward \<or> d \<noteq> RequestWindowSwitcherNext"
  have e': "(captured_keys e')(k := None) = captured_keys e" "switcher_release e' = switcher_release e"
  proof -
    have "\<And>target mods. target_for_key e k = Some (target, mods) \<Longrightarrow> target \<noteq> DenialAction WindowSwitcher"
      using other d by auto
    then show "(captured_keys e')(k := None) = captured_keys e" "switcher_release e' = switcher_release e"
      using press none by (auto simp: observe_press_def fun_eq_iff split: option.splits if_splits)
  qed
  have "bits_ok (pass_through_key e' k) (insert k held)"
    using bits by (simp add: pass_through_key_def bits_ok_def)
  moreover have "release_ok (pass_through_key e' k) (insert k held)"
    using e' by (intro release) (auto simp: pass_through_key_def)
  moreover have "j \<in> insert k client \<longleftrightarrow> client_sees (pass_through_key e' k) (insert k held) j" for j
    using client [of j] none by (auto simp: client_sees_def pass_through_key_def e')
  ultimately show "engine_inv (pass_through_key e' k) (insert k held) (insert k client)"
    using ordinary by (intro engine_invI) (auto simp: pass_through_key_def e')
qed

lemma ordinary_release_keeps:
  assumes inv: "engine_inv e held client" and k: "ordinary_key k" "k \<in> held"
    and observed: "observe e k False = (e', d)"
  shows "engine_inv e' (held - {k}) (client - {k})" "d = Forward \<longleftrightarrow> k \<in> client"
    "d = (if switcher_release e = Some (ReleaseKey k) then RequestWindowSwitcherEnd False else if k \<in> client then Forward else Consume)"
    "switcher_release e' = (if switcher_release e = Some (ReleaseKey k) then None else switcher_release e)"
proof -
  note i = engine_invD [OF inv]
  have e': "captured_keys e' = (captured_keys e)(k := None)" "bits_ok e' (held - {k}) = bits_ok e (held - {k})"
      "switcher_release e' = (if switcher_release e = Some (ReleaseKey k) then None else switcher_release e)"
      and d: "d = (if switcher_release e = Some (ReleaseKey k) then RequestWindowSwitcherEnd False
        else if captured_keys e k \<noteq> None then Consume else Forward)"
    using observed k(1) by (auto simp: observe_kinds observe_release_def Let_def bits_ok_def chorded_by_def split: if_splits)
  have client: "k \<in> client \<longleftrightarrow> captured_keys e k = None"
    using i(4) [of k] k by (auto simp: client_sees_def ordinary_key_def)
  have owner: "switcher_release e = Some (ReleaseKey k) \<Longrightarrow> captured_keys e k \<noteq> None"
    using i(3) by (auto simp: release_ok_def)
  have "release_ok e' (held - {k})"
    using i(3) k by (auto simp: release_ok_def e' modifier_held_remove ordinary_key_def split: option.splits window_switcher_release.splits)
  moreover have "j \<in> client - {k} \<longleftrightarrow> client_sees e' (held - {k}) j" for j
    using i(4) [of j] by (auto simp: client_sees_def e')
  moreover have "bits_ok e' (held - {k})"
    unfolding e' by (rule bits_ok_ordinary(2) [OF i(1) k(1)])
  moreover have "captured_keys e' j \<noteq> None \<Longrightarrow> j \<in> held - {k} \<and> ordinary_key j" for j
    using i(2) [of j] by (auto simp: e' split: if_splits)
  ultimately show "engine_inv e' (held - {k}) (client - {k})"
    by (intro engine_invI) auto
  show "d = Forward \<longleftrightarrow> k \<in> client"
    "d = (if switcher_release e = Some (ReleaseKey k) then RequestWindowSwitcherEnd False else if k \<in> client then Forward else Consume)"
    "switcher_release e' = (if switcher_release e = Some (ReleaseKey k) then None else switcher_release e)"
    using d e'(3) client owner by auto
qed

section \<open>Every history of the keyboard\<close>

text \<open>The dispositions that may be declined in their context.\<close>

definition context_dependent :: "shortcut_disposition \<Rightarrow> bool" where
  "context_dependent d \<longleftrightarrow> \<not> disposition_handled (\<lambda>_. False) d \<and> disposition_handled (\<lambda>_. True) d"

lemma disposition_of_target_not_End [simp]: "disposition_of_target target \<noteq> RequestWindowSwitcherEnd forward"
proof (cases target)
  case (DenialAction action)
  then show ?thesis
    by (cases action) simp_all
qed simp_all

lemma handled_unless_context:
  "d \<noteq> Forward \<Longrightarrow> d \<noteq> RequestWindowSwitcherEnd True \<Longrightarrow> \<not> context_dependent d \<Longrightarrow> disposition_handled accepts d"
  by (cases d) (auto simp: context_dependent_def disposition_handled_def)

text \<open>Two releases break the balance: the one of the modifier that ends a session of the window switcher while the
  session is locked, and the tap of SUPER whose action is declined in its context.\<close>

definition ends_session_locked :: "bool \<Rightarrow> shortcut_engine \<Rightarrow> u32 \<Rightarrow> bool" where
  "ends_session_locked locked e k \<longleftrightarrow>
     locked \<and> (\<exists>m. m \<noteq> Super \<and> k \<in> keys_of m \<and> switcher_release e = Some (ReleaseModifier m))"

definition super_tap_declined :: "bool \<Rightarrow> (shortcut_disposition \<Rightarrow> bool) \<Rightarrow> shortcut_engine \<Rightarrow> u32 \<Rightarrow> bool" where
  "super_tap_declined locked accepts e k \<longleftrightarrow> \<not> locked \<and> k \<in> keys_of Super \<and>
     (\<exists>b\<in>set (se_bindings e). tr_key (cs_trigger b) = ModifierTap Super \<and>
        snd (observe e k False) = disposition_of_target (cs_target b) \<and>
        context_dependent (disposition_of_target (cs_target b)) \<and> \<not> accepts (disposition_of_target (cs_target b)))"

text \<open>The keys that are down, and those of them whose press the clients saw.\<close>

inductive keys_run :: "compiled_shortcut list \<Rightarrow> shortcut_engine \<Rightarrow> u32 set \<Rightarrow> u32 set \<Rightarrow> bool" for bs where
  keyboard_idle: "keys_run bs (engine_of bs) {} {}"
| key_event: "keys_run bs e held client \<Longrightarrow> 8 \<le> xkb \<Longrightarrow> k = xkb - 8 \<Longrightarrow> pressed = (k \<notin> held) \<Longrightarrow>
    intercept_native_escape locked accepts e xkb pressed = (e', handled) \<Longrightarrow>
    keys_run bs e' (if pressed then insert k held else held - {k})
      (if \<not> pressed then client - {k} else if handled then client else insert k client)"
| pointer_button: "keys_run bs e held client \<Longrightarrow> keys_run bs (note_pointer_button e pressed) held client"
| gesture_triggered: "keys_run bs e held client \<Longrightarrow> keys_run bs (fst (observe_gesture_at e g now)) held client"
| gesture_ended: "keys_run bs e held client \<Longrightarrow> keys_run bs (fst (end_gesture e g)) held client"
| gestures_cancelled: "keys_run bs e held client \<Longrightarrow> keys_run bs (cancel_gestures e) held client"
| engine_was_reset: "keys_run bs e held client \<Longrightarrow> keys_run bs (engine_reset e) {} {}"

lemma observe_bindings [simp]: "se_bindings (fst (observe e k pressed)) = se_bindings e"
  by (auto simp: observe_def observe_logo_def observe_modifier_def observe_press_def observe_release_def Let_def
      split: option.splits prod.splits)

lemma tap_disposition:
  assumes "k \<in> keys_of Super" "observe e k False = (e', d)" "d \<noteq> Forward"
  shows "disposition_handled accepts d \<longleftrightarrow> \<not> super_tap_declined False accepts e k"
proof -
  obtain side where side: "logo_bit k = Some side"
    using assms(1) logo_bit_None by fastforce
  have tap: "\<exists>b\<in>set (se_bindings e). tr_key (cs_trigger b) = ModifierTap Super \<and> disposition_of_target target = disposition_of_target (cs_target b)"
    if "modifier_tap_target (e\<lparr>logo_keys := keys\<rparr>) Super = Some target" for keys target
    using that by (auto simp: modifier_tap_target_def find_Some_iff)
  then have "d = Consume \<or> d = RequestWindowSwitcherEnd False \<or>
      (\<exists>b\<in>set (se_bindings e). tr_key (cs_trigger b) = ModifierTap Super \<and> d = disposition_of_target (cs_target b))"
    using assms(2) by (auto simp: observe_kinds(1) [OF side] observe_logo_def Let_def split: if_splits option.splits)
  moreover have "context_dependent d \<Longrightarrow> disposition_handled accepts d = accepts d"
    by (cases d) (auto simp: context_dependent_def disposition_handled_def)
  moreover have "\<not> context_dependent d \<Longrightarrow> d \<noteq> RequestWindowSwitcherEnd True \<Longrightarrow> disposition_handled accepts d"
    using handled_unless_context assms(3) by blast
  moreover have "\<not> context_dependent Consume" "\<not> context_dependent (RequestWindowSwitcherEnd False)"
    by (simp_all add: context_dependent_def disposition_handled_def)
  ultimately show ?thesis
    using assms(1,2) disposition_of_target_not_End by (fastforce simp: super_tap_declined_def)
qed

lemma key_event_keeps:
  assumes inv: "engine_inv e held client"
    and xkb: "8 \<le> xkb" "k = xkb - 8" "pressed = (k \<notin> held)"
    and intercept: "intercept_native_escape locked accepts e xkb pressed = (e', handled)"
  shows "engine_inv e' (if pressed then insert k held else held - {k})
      (if \<not> pressed then client - {k} else if handled then client else insert k client)"
    "\<not> pressed \<Longrightarrow> handled \<longleftrightarrow> ends_session_locked locked e k \<or> k \<notin> client \<and> \<not> super_tap_declined locked accepts e k"
    (is "\<not> pressed \<Longrightarrow> ?released")
proof -
  obtain e1 d where observed: "observe e k pressed = (e1, d)"
    by (cases "observe e k pressed")
  have e': "e' = (if \<not> locked \<and> \<not> handled \<and> pressed then pass_through_key e1 k else e1)"
      "handled = (if locked then d \<noteq> Forward else disposition_handled accepts d)"
    using intercept xkb(1) observed unfolding xkb(2) [symmetric]
    by (auto simp: intercept_native_escape_eq Let_def xkb(2) [symmetric] not_less [symmetric] split: if_splits)
  have handled_Forward: "handled \<Longrightarrow> d \<noteq> Forward"
    using e'(2) by (auto simp: disposition_handled_def split: if_splits)
  have pass: "captured_keys f k = None \<Longrightarrow> pass_through_key f k = f" for f
    by (simp add: pass_through_key_def fun_upd_idem)
  consider (logo) "k \<in> keys_of Super" | (modifier) m where "m \<noteq> Super" "k \<in> keys_of m" | (ordinary) "ordinary_key k"
    using key_cases by blast
  then have "engine_inv e' (if pressed then insert k held else held - {k})
        (if \<not> pressed then client - {k} else if handled then client else insert k client) \<and> (\<not> pressed \<longrightarrow> ?released)"
  proof cases
    case logo
    have away: "k \<notin> client"
      using engine_invD(4) [OF inv, of k] logo by (simp add: client_sees_def)
    show ?thesis
    proof (cases pressed)
      case True
      then show ?thesis
        using super_press_keeps [OF inv logo] observed e' by (simp add: disposition_handled_def)
    next
      case False
      then have k: "k \<in> held"
        using xkb(3) by simp
      have observed': "observe e k False = (e1, d)"
        using observed False by simp
      note keeps = super_release_keeps [OF inv logo k observed']
      have "handled \<longleftrightarrow> \<not> super_tap_declined locked accepts e k"
        using e'(2) keeps(2) tap_disposition [OF logo observed' keeps(2), of accepts] by (auto simp: super_tap_declined_def)
      moreover have "\<not> ends_session_locked locked e k"
        using logo keys_of_disjoint by (auto simp: ends_session_locked_def)
      ultimately show ?thesis
        using keeps(1) False away e'(1) by simp
    qed
  next
    case (modifier m)
    show ?thesis
    proof (cases pressed)
      case True
      then show ?thesis
        using modifier_press_keeps [OF inv modifier] observed e' pass by (simp add: disposition_handled_def)
    next
      case False
      then have k: "k \<in> held"
        using xkb(3) by simp
      have observed': "observe e k False = (e1, d)"
        using observed False by simp
      note keeps = modifier_release_keeps [OF inv modifier k observed']
      have "handled \<longleftrightarrow> ends_session_locked locked e k"
        using e'(2) keeps(3) modifier keys_of_disjoint by (auto simp: disposition_handled_def ends_session_locked_def split: if_splits)
      then show ?thesis
        using keeps(1,2) False e'(1) by simp
    qed
  next
    case ordinary
    show ?thesis
    proof (cases pressed)
      case True
      then have k: "k \<notin> held" "observe e k True = (e1, d)"
        using xkb(3) observed by simp_all
      note keeps = ordinary_press_keeps [OF inv ordinary k]
      show ?thesis
      proof (cases handled)
        case True
        then show ?thesis
          using keeps(2) handled_Forward \<open>pressed\<close> e'(1) by simp
      next
        case False
        have "d \<noteq> RequestWindowSwitcherNext"
          using False e'(2) by (auto simp: disposition_handled_def split: if_splits)
        then have "engine_inv (pass_through_key e1 k) (insert k held) (insert k client)"
          using keeps(3) by blast
        moreover have "locked \<Longrightarrow> pass_through_key e1 k = e1"
        proof -
          assume locked
          then have "d = Forward"
            using False e'(2) by simp
          then have "captured_keys e1 k = captured_keys e k"
            using k(2) keeps(1) ordinary
            by (auto simp: observe_kinds observe_press_def split: option.splits)
          moreover have "captured_keys e k = None"
            using engine_invD(2) [OF inv, of k] k(1) by (cases "captured_keys e k") auto
          ultimately show ?thesis
            using pass by simp
        qed
        ultimately show ?thesis
          using False \<open>pressed\<close> e'(1) by (cases locked) simp_all
      qed
    next
      case False
      then have k: "k \<in> held" "observe e k False = (e1, d)"
        using xkb(3) observed by simp_all
      note keeps = ordinary_release_keeps [OF inv ordinary k]
      have "handled = (k \<notin> client)"
        using e'(2) keeps(2,3) by (auto simp: disposition_handled_def split: if_splits)
      moreover have "\<not> ends_session_locked locked e k" "\<not> super_tap_declined locked accepts e k"
        using ordinary by (auto simp: ordinary_key_def ends_session_locked_def super_tap_declined_def)
      ultimately show ?thesis
        using keeps(1) False e'(1) by auto
    qed
  qed
then show "engine_inv e' (if pressed then insert k held else held - {k})
      (if \<not> pressed then client - {k} else if handled then client else insert k client)"
    "\<not> pressed \<Longrightarrow> ?released"
    by blast+
qed

lemma keys_run_inv: "keys_run bs e held client \<Longrightarrow> engine_inv e held client \<and> se_bindings e = bs"
proof (induction rule: keys_run.induct)
  case keyboard_idle
  show ?case
    by (simp add: engine_inv_def engine_of_def bits_ok_def held_bits_def release_ok_def client_sees_def)
next
  case (key_event e held client xkb k pressed locked accepts e' handled)
  then have inv: "engine_inv e held client" and bs: "se_bindings e = bs"
    by auto
  obtain e1 d where observed: "observe e (xkb - 8) pressed = (e1, d)"
    by (cases "observe e (xkb - 8) pressed")
  then have "se_bindings e1 = bs"
    using bs observe_bindings [of e "xkb - 8" pressed] by simp
  then have "se_bindings e' = bs"
    using key_event.hyps(5) bs observed
    by (auto simp: intercept_native_escape_eq Let_def pass_through_key_def split: if_splits prod.splits)
  then show ?case
    using key_event_keeps(1) [OF inv key_event.hyps(2-5)] bs by simp
next
  case (pointer_button e held client pressed)
  then show ?case
    by (auto simp: engine_inv_def note_pointer_button_def bits_ok_def release_ok_def client_sees_def
        split: option.splits window_switcher_release.splits)
next
  case (gesture_triggered e held client g now)
  then show ?case
    by (auto simp: engine_inv_def observe_gesture_at_def bits_ok_def release_ok_def client_sees_def
        split: option.splits window_switcher_release.splits)
next
  case (gesture_ended e held client g)
  then show ?case
    by (auto simp: engine_inv_def end_gesture_def bits_ok_def release_ok_def client_sees_def split: option.splits window_switcher_release.splits)
next
  case (gestures_cancelled e held client)
  then show ?case
    by (auto simp: engine_inv_def cancel_gestures_def bits_ok_def release_ok_def client_sees_def split: option.splits window_switcher_release.splits)
next
  case (engine_was_reset e held client)
  then show ?case
    by (simp add: engine_inv_def engine_reset_def bits_ok_def held_bits_def release_ok_def client_sees_def)
qed

lemma subtract_eight: "(k :: u32) + 8 - 8 = k"
  by simp


text \<open>The first exception: the modifier stays pressed for the clients.\<close>

lemma locked_modifier_release_lost:
  "intercept_native_escape True accepts
     (engine_of []\<lparr>alt_keys := LEFT_MODIFIER, switcher_release := Some (ReleaseModifier Alt)\<rparr>) (KEY_LEFT_ALT + 8) False =
   (engine_of [], True)"
  by (simp add: intercept_native_escape_eq observe_def observe_modifier_def logo_bit_def modifier_bit_def key_codes
      set_modifier_keys_def engine_of_def LEFT_MODIFIER_def Let_def)

text \<open>C25: A key that is not a modifier triggers a shortcut exactly when the modifiers of the shortcut are those that are held,
  no more and no fewer, and then it triggers the one configured for it.\<close>

theorem shortcut_needs_exact_modifiers:
  assumes "keys_run bs e held client" "compile_shortcuts file = Inr bs" "ordinary_key k" "k \<notin> held"
  shows "(\<forall>b\<in>set bs. tr_modifiers (cs_trigger b) = modifiers_of held \<and> tr_key (cs_trigger b) = Evdev k \<longrightarrow>
      snd (observe e k True) = disposition_of_target (cs_target b)) \<and>
    ((\<forall>b\<in>set bs. tr_modifiers (cs_trigger b) \<noteq> modifiers_of held \<or> tr_key (cs_trigger b) \<noteq> Evdev k) \<longrightarrow>
      snd (observe e k True) = Forward) \<and>
    (\<forall>m. modifiers_of held AND modifier_flag m \<noteq> 0 \<longleftrightarrow> modifier_held held m)"
proof -
  let ?match = "\<lambda>b. tr_modifiers (cs_trigger b) = modifiers_of held \<and> tr_key (cs_trigger b) = Evdev k"
  have inv: "engine_inv e held client" "se_bindings e = bs"
    using keys_run_inv [OF assms(1)] by auto
  obtain e' d where observed: "observe e k True = (e', d)"
    by (cases "observe e k True")
  have d: "d = (case find ?match bs of None \<Rightarrow> Forward | Some b \<Rightarrow> disposition_of_target (cs_target b))"
    using ordinary_press_keeps(1) [OF inv(1) assms(3,4) observed]
    by (simp add: target_for_key_def inv(2) active_modifiers_held [OF engine_invD(1) [OF inv(1)]] split: option.splits)
  have valid: "valid_trigger (cs_trigger b)" if "b \<in> set bs" for b
    using assms(2) that parse_shortcut_valid
    by (auto simp: compile_shortcuts_Inr compile_bindings_Inr parses_to_def list_all2_conv_all_nth in_set_conv_nth)
  have distinct: "inj_on cs_trigger (set bs)"
    using assms(2) by (simp add: compile_shortcuts_Inr compile_bindings_Inr distinct_map)
  have "d = disposition_of_target (cs_target b)" if b: "b \<in> set bs" "?match b" for b
  proof -
    obtain c where c: "find ?match bs = Some c"
      using b by (cases "find ?match bs") (auto simp: find_None_iff)
    then have "c \<in> set bs" "?match c"
      by (auto simp: find_Some_iff)
    then have "cs_trigger c = cs_trigger b"
      using valid_trigger_unique [OF valid valid] b by simp
    then have "c = b"
      using inj_onD [OF distinct _ \<open>c \<in> set bs\<close> b(1)] by blast
    then show ?thesis
      using c d by simp
  qed
  moreover have "(\<forall>b\<in>set bs. \<not> ?match b) \<Longrightarrow> d = Forward"
    using d by (auto simp: find_None_iff split: option.splits)
  ultimately show ?thesis
    using observed modifier_held_flag by auto
qed

text \<open>C26: A session of the window switcher that a key opened is owned by a modifier or key that is held, the release of
  the owner ends it, and so no such session is left when all keys are up.\<close>

theorem switcher_session_ends:
  assumes "keys_run bs e held client"
  shows "(\<forall>m. switcher_release e = Some (ReleaseModifier m) \<longrightarrow> modifier_held held m \<and>
      (\<forall>k\<in>keys_of m \<inter> held. snd (observe e k False) = RequestWindowSwitcherEnd (m \<noteq> Super) \<and>
         switcher_release (fst (observe e k False)) = None)) \<and>
    (\<forall>k. switcher_release e = Some (ReleaseKey k) \<longrightarrow> k \<in> held \<and> snd (observe e k False) = RequestWindowSwitcherEnd False \<and>
       switcher_release (fst (observe e k False)) = None) \<and>
    (held = {} \<longrightarrow> switcher_release e = None \<or> (\<exists>g t. switcher_release e = Some (ReleaseGesture g t)))"
proof -
  have inv: "engine_inv e held client"
    using keys_run_inv [OF assms] by blast
  note release = engine_invD(3) [OF inv]
  have modifier: "modifier_held held m \<and> (\<forall>k\<in>keys_of m \<inter> held. snd (observe e k False) = RequestWindowSwitcherEnd (m \<noteq> Super) \<and>
         switcher_release (fst (observe e k False)) = None)" if m: "switcher_release e = Some (ReleaseModifier m)" for m
  proof (intro conjI ballI)
    show "modifier_held held m"
      using release m by (simp add: release_ok_def)
    fix k
    assume k: "k \<in> keys_of m \<inter> held"
    obtain e' d where observed: "observe e k False = (e', d)"
      by (cases "observe e k False")
    show "snd (observe e k False) = RequestWindowSwitcherEnd (m \<noteq> Super)" "switcher_release (fst (observe e k False)) = None"
      using super_release_keeps(3,4) [OF inv _ _ observed] modifier_release_keeps(3,4) [OF inv _ _ _ observed] k m
      by (cases "m = Super"; auto simp: observed)+
  qed
  have key: "k \<in> held \<and> snd (observe e k False) = RequestWindowSwitcherEnd False \<and> switcher_release (fst (observe e k False)) = None"
    if k: "switcher_release e = Some (ReleaseKey k)" for k
  proof -
    have held: "k \<in> held" "ordinary_key k"
      using release k engine_invD(2) [OF inv, of k] by (auto simp: release_ok_def)
    obtain e' d where observed: "observe e k False = (e', d)"
      by (cases "observe e k False")
    show ?thesis
      using ordinary_release_keeps(3,4) [OF inv held(2,1) observed] k held by (simp add: observed)
  qed
  have "held = {} \<Longrightarrow> switcher_release e = None \<or> (\<exists>g t. switcher_release e = Some (ReleaseGesture g t))"
  proof (cases "switcher_release e")
    case (Some r)
    assume "held = {}"
    then show ?thesis
      using modifier key Some by (cases r) (auto simp: modifier_held_def)
  qed simp
  then show ?thesis
    using modifier key by blast
qed

text \<open>A touch-screen swipe opens a session without an end: only a touchpad gesture would end it, and until then the release of
  the keys that cycle the windows ends nothing.\<close>

lemma touch_swipe_session_stays:
  assumes "gesture_target e g = Some (DenialAction WindowSwitcher)" "switcher_release e = None"
  shows "(\<exists>t. switcher_release (fst (observe_gesture_at e g now)) = Some (ReleaseGesture g t)) \<and>
    (\<forall>k forward. snd (observe (fst (observe_gesture_at e g now)) k False) \<noteq> RequestWindowSwitcherEnd forward)"
proof -
  let ?e = "fst (observe_gesture_at e g now)"
  have release: "switcher_release ?e = Some (ReleaseGesture g (now + int WINDOW_SWITCHER_GESTURE_HOLD_DELAY))"
    using assms by (simp add: observe_gesture_at_def)
  then have "snd (observe ?e k False) \<noteq> RequestWindowSwitcherEnd forward" for k forward
    by (auto simp: observe_def observe_logo_def observe_modifier_def observe_release_def Let_def
        split: option.splits prod.splits if_splits)
  then show ?thesis
    using release by blast
qed

section \<open>Sample histories\<close>

definition sample_bindings :: "compiled_shortcut list" where
  "sample_bindings = [action_of (''Super+Tab'', WindowSwitcher), action_of (''Super+Alt+Right'', NextWorkspace)]"

definition sample_file :: shortcut_file where
  "sample_file = \<lparr>sf_version = 6, sf_revision = 1, sf_shortcuts =
     [\<lparr>sb_shortcut = ''Super+Tab'', sb_target = DenialAction WindowSwitcher\<rparr>,
      \<lparr>sb_shortcut = ''Super+Alt+Right'', sb_target = DenialAction NextWorkspace\<rparr>]\<rparr>"

definition sample_super :: shortcut_engine where
  "sample_super = fst (intercept_native_escape False (\<lambda>_. False) (engine_of sample_bindings) (KEY_LEFT_META + 8) True)"

definition sample_switching :: shortcut_engine where
  "sample_switching = fst (intercept_native_escape False (\<lambda>_. False) sample_super (15 + 8) True)"

lemma sample_compiles: "compile_shortcuts sample_file = Inr sample_bindings"
  by code_simp

lemma sample_super_run: "keys_run sample_bindings sample_super {KEY_LEFT_META} {}"
proof -
  have "intercept_native_escape False (\<lambda>_. False) (engine_of sample_bindings) (KEY_LEFT_META + 8) True = (sample_super, True)"
    unfolding sample_super_def by (rule prod_eqI) (simp, code_simp)
  from key_event [OF keyboard_idle _ refl _ this] show ?thesis
    by (simp add: KEY_LEFT_META_def)
qed

lemma sample_switching_run: "keys_run sample_bindings sample_switching {15, KEY_LEFT_META} {}"
proof -
  have "intercept_native_escape False (\<lambda>_. False) sample_super (15 + 8) True = (sample_switching, True)"
    unfolding sample_switching_def by (rule prod_eqI) (simp, code_simp)
  from key_event [OF sample_super_run _ refl _ this] show ?thesis
    by (simp add: KEY_LEFT_META_def)
qed


lemma shortcut_needs_exact_modifiers_witness: "snd (observe sample_super 15 True) = RequestWindowSwitcherNext"
proof -
  have "ordinary_key 15" "modifiers_of {KEY_LEFT_META} = 1"
    by (simp_all add: ordinary_key_def modifier_split keys_of_def key_codes modifiers_of_def modifier_held_def)
  moreover have "tr_modifiers (trigger_of ''Super+Tab'') = 1" "tr_key (trigger_of ''Super+Tab'') = Evdev 15"
    by code_simp+
  ultimately show ?thesis
    using shortcut_needs_exact_modifiers [OF sample_super_run sample_compiles, of 15]
    by (simp add: sample_bindings_def action_of_def KEY_LEFT_META_def)
qed

lemma switcher_session_ends_witness: "snd (observe sample_switching KEY_LEFT_META False) = RequestWindowSwitcherEnd False"
proof -
  have "switcher_release sample_switching = Some (ReleaseModifier Super)"
    by code_simp
  then show ?thesis
    using switcher_session_ends [OF sample_switching_run] by (auto simp: keys_of_def)
qed

end
