(* ===== verification/Shortcut_Store.thy ===== *)
theory Shortcut_Store
  imports Shortcut_Engine
begin

text \<open>
  The store of the shortcut file (\<open>ShortcutManager\<close> in \<open>compositor/src/bin/deniald/native_shortcut.rs\<close>) and its use by
  \<open>flutter_settings_sync.rs\<close>: loading with migration and repair, updates that are prepared, checked and committed, and
  the engine that is exchanged with them. The content of the file is \<open>Some\<close> of its bytes, \<open>None\<close> when there is no file.
  JSON is the pair of parameters \<open>to_json\<close> and \<open>of_json\<close>; \<open>io\<close> says for each step of the file system, numbered in the order
  of the call, whether it fails: \<open>WriteTemporary\<close> and \<open>MoveAside\<close> stand for the choice of a free name with the work
  on it. A path that is not a regular file fails to be inspected; the path of the store never changes. The theorems
  assume of JSON that what it writes for a file reads back as that file.
\<close>

section \<open>The file\<close>

datatype shortcut_error =
    PathError string | IoError string | JsonError string | DocumentError document_error
  | RevisionConflict u64 u64 | FileChanged | MissingShortcut string

datatype file_step = Inspect | ReadFile | WriteTemporary | RenameOver | MoveAside | SyncParent

type_synonym file_io = "nat \<Rightarrow> file_step \<Rightarrow> shortcut_error + unit"
type_synonym disk = "string option"

definition MAX_SHORTCUT_FILE_BYTES :: nat where "MAX_SHORTCUT_FILE_BYTES = 128 * 1024"

definition document :: "document_error + 'a \<Rightarrow> shortcut_error + 'a" where
  "document r = (case r of Inl e \<Rightarrow> Inl (DocumentError e) | Inr a \<Rightarrow> Inr a)"

definition json :: "string + 'a \<Rightarrow> shortcut_error + 'a" where
  "json r = (case r of Inl e \<Rightarrow> Inl (JsonError e) | Inr a \<Rightarrow> Inr a)"

definition newline :: char where "newline = CHR 0x0A"

definition render_shortcut_file :: "(shortcut_file \<Rightarrow> string + string) \<Rightarrow> shortcut_file \<Rightarrow> shortcut_error + string" where
  "render_shortcut_file to_json file =
     and_then (json (to_json file)) (\<lambda>text.
       if MAX_SHORTCUT_FILE_BYTES < length (text @ [newline]) then Inl (DocumentError FileTooLarge) else Inr (text @ [newline]))"

definition read_shortcut_bytes :: "(file_step \<Rightarrow> shortcut_error + unit) \<Rightarrow> disk \<Rightarrow> shortcut_error + string" where
  "read_shortcut_bytes io disk =
     and_then (io Inspect) (\<lambda>_.
     and_then (ok_or disk (IoError ''not found'')) (\<lambda>bytes.
       if MAX_SHORTCUT_FILE_BYTES < length bytes then Inl (DocumentError FileTooLarge)
       else and_then (io ReadFile) (\<lambda>_. Inr bytes)))"

definition parse_shortcut_bytes ::
  "(string \<Rightarrow> string + shortcut_file) \<Rightarrow> string \<Rightarrow> shortcut_error + shortcut_file \<times> string \<times> nat option" where
  "parse_shortcut_bytes of_json bytes =
     and_then (json (of_json bytes)) (\<lambda>file.
     and_then (document (migrate_shortcut_file file)) (\<lambda>(migrated, migration).
     and_then (document (normalize_and_compile_shortcuts migrated)) (\<lambda>(normal, compiled).
       Inr (normal, bytes, migration))))"

definition read_and_parse ::
  "(file_step \<Rightarrow> shortcut_error + unit) \<Rightarrow> (string \<Rightarrow> string + shortcut_file) \<Rightarrow> disk \<Rightarrow>
     shortcut_error + shortcut_file \<times> string \<times> nat option" where
  "read_and_parse io of_json disk = and_then (read_shortcut_bytes io disk) (parse_shortcut_bytes of_json)"

text \<open>Operations on the file return the new content also when a later step fails.\<close>

definition replace_shortcut_file :: "(file_step \<Rightarrow> shortcut_error + unit) \<Rightarrow> string \<Rightarrow> disk \<Rightarrow> (shortcut_error + unit) \<times> disk" where
  "replace_shortcut_file io bytes disk =
     (case and_then (io WriteTemporary) (\<lambda>_. io RenameOver) of
        Inl e \<Rightarrow> (Inl e, disk)
      | Inr _ \<Rightarrow> (io SyncParent, Some bytes))"

definition write_default_file ::
  "(file_step \<Rightarrow> shortcut_error + unit) \<Rightarrow> (shortcut_file \<Rightarrow> string + string) \<Rightarrow> disk \<Rightarrow> (shortcut_error + unit) \<times> disk" where
  "write_default_file io to_json disk =
     (case render_shortcut_file to_json default_shortcut_file of
        Inl e \<Rightarrow> (Inl e, disk)
      | Inr bytes \<Rightarrow> replace_shortcut_file io bytes disk)"

definition move_invalid_file_aside :: "(file_step \<Rightarrow> shortcut_error + unit) \<Rightarrow> disk \<Rightarrow> (shortcut_error + unit) \<times> disk" where
  "move_invalid_file_aside io disk =
     (case io MoveAside of Inl e \<Rightarrow> (Inl e, disk) | Inr _ \<Rightarrow> (io SyncParent, None))"

section \<open>The manager\<close>

record shortcut_manager =
  sm_file :: shortcut_file
  sm_persisted :: string

text \<open>The defaults are written and read back.\<close>

definition load_defaults ::
  "file_io \<Rightarrow> (shortcut_file \<Rightarrow> string + string) \<Rightarrow> (string \<Rightarrow> string + shortcut_file) \<Rightarrow> disk \<Rightarrow>
     (shortcut_error + shortcut_file \<times> string \<times> nat option) \<times> disk" where
  "load_defaults io to_json of_json disk =
     (case write_default_file (io 2) to_json disk of
        (Inl e, disk') \<Rightarrow> (Inl e, disk')
      | (Inr _, disk') \<Rightarrow> (read_and_parse (io 3) of_json disk', disk'))"

definition load_file ::
  "file_io \<Rightarrow> (shortcut_file \<Rightarrow> string + string) \<Rightarrow> (string \<Rightarrow> string + shortcut_file) \<Rightarrow> disk \<Rightarrow>
     (shortcut_error + shortcut_file \<times> string \<times> nat option) \<times> disk" where
  "load_file io to_json of_json disk =
     (case io 0 Inspect of
        Inl e \<Rightarrow> (Inl e, disk)
      | Inr _ \<Rightarrow>
          if disk = None then load_defaults io to_json of_json disk
          else (case read_and_parse (io 1) of_json disk of
                  Inr loaded \<Rightarrow> (Inr loaded, disk)
                | Inl _ \<Rightarrow>
                    (case move_invalid_file_aside (io 1) disk of
                       (Inl e, disk') \<Rightarrow> (Inl e, disk')
                     | (Inr _, disk') \<Rightarrow> load_defaults io to_json of_json disk')))"

definition load_path ::
  "file_io \<Rightarrow> (shortcut_file \<Rightarrow> string + string) \<Rightarrow> (string \<Rightarrow> string + shortcut_file) \<Rightarrow> disk \<Rightarrow>
     (shortcut_error + shortcut_manager) \<times> disk" where
  "load_path io to_json of_json disk =
     (case load_file io to_json of_json disk of
        (Inl e, disk') \<Rightarrow> (Inl e, disk')
      | (Inr (file, bytes, None), disk') \<Rightarrow> (Inr \<lparr>sm_file = file, sm_persisted = bytes\<rparr>, disk')
      | (Inr (file, bytes, Some added), disk') \<Rightarrow>
          (case render_shortcut_file to_json file of
             Inl e \<Rightarrow> (Inl e, disk')
           | Inr migrated \<Rightarrow>
               (case replace_shortcut_file (io 4) migrated disk' of
                  (Inl e, disk'') \<Rightarrow> (Inl e, disk'')
                | (Inr _, disk'') \<Rightarrow> (Inr \<lparr>sm_file = file, sm_persisted = migrated\<rparr>, disk''))))"

text \<open>\<open>None\<close> when the engine cannot be built, where the code would panic.\<close>

definition manager_engine :: "shortcut_manager \<Rightarrow> shortcut_engine option" where
  "manager_engine m = (case engine_from_file (sm_file m) of Inl e \<Rightarrow> None | Inr e \<Rightarrow> Some e)"

datatype shortcut_validation = Valid string | Conflict string shortcut_binding | Invalid document_error

definition validate_shortcut :: "shortcut_manager \<Rightarrow> shortcut_binding \<Rightarrow> string option \<Rightarrow> shortcut_validation" where
  "validate_shortcut m b existing_shortcut =
     (case validate_target (sb_target b) of
        Inl e \<Rightarrow> Invalid e
      | Inr _ \<Rightarrow>
          (case parse_shortcut (sb_shortcut b) of
             Inl e \<Rightarrow> Invalid e
           | Inr trigger \<Rightarrow>
               let existing = Option.bind existing_shortcut (\<lambda>s. case parse_shortcut s of Inl e \<Rightarrow> None | Inr t \<Rightarrow> Some (tr_canonical t))
               in (case find (\<lambda>c. case parse_shortcut (sb_shortcut c) of
                        Inl e \<Rightarrow> False
                      | Inr configured \<Rightarrow> configured = trigger \<and> existing \<noteq> Some (tr_canonical configured)) (sf_shortcuts (sm_file m)) of
                     Some c \<Rightarrow> Conflict (tr_canonical trigger) c
                   | None \<Rightarrow> Valid (tr_canonical trigger))))"

record prepared_update =
  pu_file :: shortcut_file
  pu_bytes :: string
  pu_engine :: shortcut_engine

definition check_revision :: "shortcut_manager \<Rightarrow> u64 \<Rightarrow> shortcut_error + unit" where
  "check_revision m expected =
     (if expected \<noteq> sf_revision (sm_file m) then Inl (RevisionConflict expected (sf_revision (sm_file m))) else Inr ())"

text \<open>The revision and the document are checked before anything is written.\<close>

definition prepare_document :: "shortcut_manager \<Rightarrow> shortcut_file \<Rightarrow> document_error + shortcut_file \<times> compiled_shortcut list" where
  "prepare_document m file =
     (if sf_revision (sm_file m) = - 1 then Inl RevisionExhausted
      else normalize_and_compile_shortcuts
        (file\<lparr>sf_version := SHORTCUT_SCHEMA_VERSION, sf_revision := sf_revision (sm_file m) + 1\<rparr>))"

definition prepare ::
  "(file_step \<Rightarrow> shortcut_error + unit) \<Rightarrow> (shortcut_file \<Rightarrow> string + string) \<Rightarrow> shortcut_manager \<Rightarrow> shortcut_file \<Rightarrow>
     shortcut_error + prepared_update" where
  "prepare io to_json m file =
     and_then (document (prepare_document m file)) (\<lambda>(normal, compiled).
     and_then (render_shortcut_file to_json normal) (\<lambda>bytes.
     and_then (io WriteTemporary) (\<lambda>_.
     and_then (document (engine_from_file normal)) (\<lambda>e.
       Inr \<lparr>pu_file = normal, pu_bytes = bytes, pu_engine = e\<rparr>))))"

definition prepare_add ::
  "(file_step \<Rightarrow> shortcut_error + unit) \<Rightarrow> (shortcut_file \<Rightarrow> string + string) \<Rightarrow> shortcut_manager \<Rightarrow> u64 \<Rightarrow> shortcut_binding \<Rightarrow>
     shortcut_error + prepared_update" where
  "prepare_add io to_json m expected b =
     and_then (check_revision m expected) (\<lambda>_.
     and_then (document (canonical_binding b)) (\<lambda>canonical.
       prepare io to_json m ((sm_file m)\<lparr>sf_shortcuts := sf_shortcuts (sm_file m) @ [canonical]\<rparr>)))"

definition prepare_update ::
  "(file_step \<Rightarrow> shortcut_error + unit) \<Rightarrow> (shortcut_file \<Rightarrow> string + string) \<Rightarrow> shortcut_manager \<Rightarrow> u64 \<Rightarrow> string \<Rightarrow> shortcut_binding \<Rightarrow>
     shortcut_error + prepared_update" where
  "prepare_update io to_json m expected existing_shortcut b =
     and_then (check_revision m expected) (\<lambda>_.
     and_then (document (parse_shortcut existing_shortcut)) (\<lambda>existing.
     and_then (document (canonical_binding b)) (\<lambda>canonical.
     and_then (ok_or (position (\<lambda>c. sb_shortcut c = tr_canonical existing) (sf_shortcuts (sm_file m)))
         (MissingShortcut (tr_canonical existing))) (\<lambda>index.
       prepare io to_json m ((sm_file m)\<lparr>sf_shortcuts := (sf_shortcuts (sm_file m))[index := canonical]\<rparr>)))))"

definition prepare_remove ::
  "(file_step \<Rightarrow> shortcut_error + unit) \<Rightarrow> (shortcut_file \<Rightarrow> string + string) \<Rightarrow> shortcut_manager \<Rightarrow> u64 \<Rightarrow> string \<Rightarrow>
     shortcut_error + prepared_update" where
  "prepare_remove io to_json m expected shortcut =
     and_then (check_revision m expected) (\<lambda>_.
     and_then (document (parse_shortcut shortcut)) (\<lambda>existing.
     and_then (ok_or (position (\<lambda>c. sb_shortcut c = tr_canonical existing) (sf_shortcuts (sm_file m)))
         (MissingShortcut (tr_canonical existing))) (\<lambda>index.
       prepare io to_json m ((sm_file m)\<lparr>sf_shortcuts :=
         take index (sf_shortcuts (sm_file m)) @ drop (Suc index) (sf_shortcuts (sm_file m))\<rparr>))))"

definition prepare_restore ::
  "(file_step \<Rightarrow> shortcut_error + unit) \<Rightarrow> (shortcut_file \<Rightarrow> string + string) \<Rightarrow> shortcut_manager \<Rightarrow> u64 \<Rightarrow>
     shortcut_error + prepared_update" where
  "prepare_restore io to_json m expected =
     and_then (check_revision m expected) (\<lambda>_. prepare io to_json m default_shortcut_file)"

text \<open>A failure to sync the directory is only logged.\<close>

definition commit ::
  "(file_step \<Rightarrow> shortcut_error + unit) \<Rightarrow> shortcut_manager \<Rightarrow> prepared_update \<Rightarrow> disk \<Rightarrow>
     (shortcut_error + unit) \<times> shortcut_manager \<times> disk" where
  "commit io m prepared disk =
     (case read_shortcut_bytes io disk of
        Inl e \<Rightarrow> (Inl e, m, disk)
      | Inr bytes \<Rightarrow>
          if bytes \<noteq> sm_persisted m then (Inl FileChanged, m, disk)
          else (case io RenameOver of
                  Inl e \<Rightarrow> (Inl e, m, disk)
                | Inr _ \<Rightarrow> (Inr (), \<lparr>sm_file = pu_file prepared, sm_persisted = pu_bytes prepared\<rparr>, Some (pu_bytes prepared))))"

section \<open>Updates by the settings\<close>

datatype shortcut_command =
    AddShortcut u64 shortcut_binding | UpdateShortcut u64 string shortcut_binding | RemoveShortcut u64 string | RestoreShortcuts u64

definition prepare_command ::
  "(file_step \<Rightarrow> shortcut_error + unit) \<Rightarrow> (shortcut_file \<Rightarrow> string + string) \<Rightarrow> shortcut_manager \<Rightarrow> shortcut_command \<Rightarrow>
     shortcut_error + prepared_update" where
  "prepare_command io to_json m command = (case command of
     AddShortcut expected b \<Rightarrow> prepare_add io to_json m expected b
   | UpdateShortcut expected existing b \<Rightarrow> prepare_update io to_json m expected existing b
   | RemoveShortcut expected shortcut \<Rightarrow> prepare_remove io to_json m expected shortcut
   | RestoreShortcuts expected \<Rightarrow> prepare_restore io to_json m expected)"

record shortcut_state =
  st_manager :: shortcut_manager
  st_engine :: shortcut_engine
  st_disk :: disk

text \<open>The engine is exchanged first and put back when the commit fails.\<close>

definition apply_shortcut_update ::
  "(file_step \<Rightarrow> shortcut_error + unit) \<Rightarrow> shortcut_state \<Rightarrow> shortcut_error + prepared_update \<Rightarrow> (shortcut_error + unit) \<times> shortcut_state" where
  "apply_shortcut_update io st prepared =
     (case prepared of
        Inl e \<Rightarrow> (Inl e, st)
      | Inr p \<Rightarrow>
          let previous_engine = st_engine st;
              st1 = st\<lparr>st_engine := pu_engine p\<rparr>;
              (result, m, disk) = commit io (st_manager st1) p (st_disk st1);
              st2 = st1\<lparr>st_manager := m, st_disk := disk\<rparr>
          in (case result of
                Inl e \<Rightarrow> (Inl e, st2\<lparr>st_engine := previous_engine\<rparr>)
              | Inr _ \<Rightarrow> (Inr (), st2)))"

definition handle_shortcut_command ::
  "file_io \<Rightarrow> (shortcut_file \<Rightarrow> string + string) \<Rightarrow> shortcut_state \<Rightarrow> shortcut_command \<Rightarrow>
     (shortcut_error + unit) \<times> shortcut_state" where
  "handle_shortcut_command io to_json st command =
     apply_shortcut_update (io 1) st (prepare_command (io 0) to_json (st_manager st) command)"

section \<open>What is stored\<close>

text \<open>The text that JSON gives for a file reads back as the file, also with the final newline.\<close>

definition json_ok :: "(shortcut_file \<Rightarrow> string + string) \<Rightarrow> (string \<Rightarrow> string + shortcut_file) \<Rightarrow> bool" where
  "json_ok to_json of_json \<longleftrightarrow> (\<forall>file text. to_json file = Inr text \<longrightarrow> of_json (text @ [newline]) = Inr file)"

definition the_bindings :: "shortcut_file \<Rightarrow> compiled_shortcut list" where
  "the_bindings file = (case compile_shortcuts file of Inl e \<Rightarrow> [] | Inr cs \<Rightarrow> cs)"

definition stored :: "(string \<Rightarrow> string + shortcut_file) \<Rightarrow> shortcut_manager \<Rightarrow> bool" where
  "stored of_json m \<longleftrightarrow> normalize_and_compile_shortcuts (sm_file m) = Inr (sm_file m, the_bindings (sm_file m)) \<and>
     parse_shortcut_bytes of_json (sm_persisted m) = Inr (sm_file m, sm_persisted m, None) \<and>
     length (sm_persisted m) \<le> MAX_SHORTCUT_FILE_BYTES"

lemma document_Inr [simp]: "document r = Inr a \<longleftrightarrow> r = Inr a"
  by (cases r) (auto simp: document_def)

lemma json_Inr [simp]: "json r = Inr a \<longleftrightarrow> r = Inr a"
  by (cases r) (auto simp: json_def)

lemma normal_file:
  assumes "normalize_and_compile_shortcuts file = Inr (file', cs)"
  shows "normalize_and_compile_shortcuts file' = Inr (file', the_bindings file')" "the_bindings file' = cs"
    "sf_version file' = SHORTCUT_SCHEMA_VERSION"
proof -
  have compiled: "compile_shortcuts file' = Inr cs"
    by (rule normalize_idempotent(2) [OF assms])
  then show "the_bindings file' = cs" "sf_version file' = SHORTCUT_SCHEMA_VERSION"
    by (simp add: the_bindings_def) (use compiled in \<open>simp add: compile_shortcuts_Inr file_ok_def\<close>)
  then show "normalize_and_compile_shortcuts file' = Inr (file', the_bindings file')"
    using normalize_idempotent(1) [OF assms] by simp
qed

lemma rendered_is_read:
  assumes "json_ok to_json of_json" "render_shortcut_file to_json file = Inr bytes"
    and "normalize_and_compile_shortcuts file = Inr (file, cs)"
  shows "parse_shortcut_bytes of_json bytes = Inr (file, bytes, None)" "length bytes \<le> MAX_SHORTCUT_FILE_BYTES"
proof -
  have "of_json bytes = Inr file"
    using assms(1,2) by (auto simp: render_shortcut_file_def json_ok_def result_simps split: if_splits)
  moreover have "migrate_shortcut_file file = Inr (file, None)"
    using normal_file(3) [OF assms(3)] by (simp add: migrate_shortcut_file_def)
  ultimately show "parse_shortcut_bytes of_json bytes = Inr (file, bytes, None)"
    using assms(3) by (simp add: parse_shortcut_bytes_def json_def document_def)
  show "length bytes \<le> MAX_SHORTCUT_FILE_BYTES"
    using assms(2) by (auto simp: render_shortcut_file_def result_simps split: if_splits)
qed

lemma parsed_file:
  assumes "parse_shortcut_bytes of_json bytes = Inr (file, bytes', migration)"
  shows "bytes' = bytes" "\<exists>cs. normalize_and_compile_shortcuts file = Inr (file, cs)"
  using assms normalize_idempotent(1) by (auto simp: parse_shortcut_bytes_def result_simps)

lemma read_and_parse_Inr:
  "read_and_parse io of_json disk = Inr r \<Longrightarrow> \<exists>bytes. disk = Some bytes \<and> parse_shortcut_bytes of_json bytes = Inr r \<and>
     length bytes \<le> MAX_SHORTCUT_FILE_BYTES"
  by (auto simp: read_and_parse_def read_shortcut_bytes_def result_simps split: if_splits)

lemma load_file_Inr:
  assumes "load_file io to_json of_json disk = (Inr (file, bytes, migration), disk')"
  shows "disk' = Some bytes \<and> parse_shortcut_bytes of_json bytes = Inr (file, bytes, migration) \<and> length bytes \<le> MAX_SHORTCUT_FILE_BYTES"
proof -
  have "\<exists>n. read_and_parse (io n) of_json disk' = Inr (file, bytes, migration)"
    using assms by (auto simp: load_file_def load_defaults_def split: sum.splits prod.splits if_splits)
  then obtain bytes' where "disk' = Some bytes'" "parse_shortcut_bytes of_json bytes' = Inr (file, bytes, migration)"
      "length bytes' \<le> MAX_SHORTCUT_FILE_BYTES"
    using read_and_parse_Inr by blast
  then show ?thesis
    using parsed_file(1) by blast
qed

lemma load_path_stored:
  assumes "json_ok to_json of_json" "load_path io to_json of_json disk = (Inr m, disk')"
  shows "stored of_json m \<and> disk' = Some (sm_persisted m)"
proof -
  obtain f bytes migration disk1 where loaded: "load_file io to_json of_json disk = (Inr (f, bytes, migration), disk1)"
    using assms(2) by (auto simp: load_path_def split: sum.splits prod.splits)
  obtain cs where normal: "normalize_and_compile_shortcuts f = Inr (f, cs)"
    using load_file_Inr [OF loaded] parsed_file(2) by blast
  show ?thesis
  proof (cases migration)
    case None
    then show ?thesis
      using assms(2) loaded load_file_Inr [OF loaded] normal normal_file [OF normal]
      by (auto simp: load_path_def stored_def)
  next
    case (Some added)
    then obtain migrated where "render_shortcut_file to_json f = Inr migrated" "m = \<lparr>sm_file = f, sm_persisted = migrated\<rparr>"
        "disk' = Some migrated"
      using assms(2) loaded by (auto simp: load_path_def replace_shortcut_file_def split: sum.splits prod.splits)
    then show ?thesis
      using rendered_is_read [OF assms(1) _ normal] normal_file [OF normal] by (simp add: stored_def)
  qed
qed

lemma stored_engine: "stored of_json m \<Longrightarrow> manager_engine m = Some (engine_of (the_bindings (sm_file m)))"
  using normalize_idempotent(2) by (fastforce simp: stored_def manager_engine_def engine_from_file_def)

section \<open>What a command changes\<close>

definition compiled_of :: "shortcut_binding \<Rightarrow> compiled_shortcut" where
  "compiled_of b = \<lparr>cs_trigger = trigger_of (sb_shortcut b), cs_target = sb_target b\<rparr>"

text \<open>The commands on the shortcuts themselves.\<close>

fun spec_command :: "shortcut_command \<Rightarrow> compiled_shortcut list \<Rightarrow> compiled_shortcut list" where
  "spec_command (AddShortcut expected b) cs = cs @ [compiled_of b]"
| "spec_command (UpdateShortcut expected existing b) cs =
     map (\<lambda>c. if cs_trigger c = trigger_of existing then compiled_of b else c) cs"
| "spec_command (RemoveShortcut expected shortcut) cs = filter (\<lambda>c. cs_trigger c \<noteq> trigger_of shortcut) cs"
| "spec_command (RestoreShortcuts expected) cs = the_bindings default_shortcut_file"

fun expected_revision :: "shortcut_command \<Rightarrow> u64" where
  "expected_revision (AddShortcut expected b) = expected"
| "expected_revision (UpdateShortcut expected existing b) = expected"
| "expected_revision (RemoveShortcut expected shortcut) = expected"
| "expected_revision (RestoreShortcuts expected) = expected"

lemma parse_trigger_of: "parse_shortcut s = Inr t \<Longrightarrow> trigger_of s = t"
  by (simp add: trigger_of_def)

lemma trigger_of_canonical: "parse_shortcut s = Inr t \<Longrightarrow> trigger_of (tr_canonical t) = t"
  using parse_canonical parse_shortcut_valid by (blast intro: parse_trigger_of)

lemma compile_bindings_map: "compile_bindings triggers bs = Inr cs \<Longrightarrow> cs = map compiled_of bs"
  by (induction bs arbitrary: triggers cs) (auto simp: result_simps compiled_of_def parse_trigger_of split: if_splits)

lemma the_bindings_map: "compile_shortcuts f = Inr cs \<Longrightarrow> the_bindings f = map compiled_of (sf_shortcuts f)"
  using compile_bindings_map [of "{}" "sf_shortcuts f" cs] compile_shortcuts_Inr [of f cs] by (simp add: the_bindings_def)

lemma canonical_binding_Inr:
  "canonical_binding b = Inr b' \<longleftrightarrow> validate_target (sb_target b) = Inr () \<and>
     (\<exists>t. parse_shortcut (sb_shortcut b) = Inr t \<and> b' = \<lparr>sb_shortcut = tr_canonical t, sb_target = sb_target b\<rparr>)"
  by (auto simp: canonical_binding_def result_simps)

lemma compiled_of_canonical: "canonical_binding b = Inr b' \<Longrightarrow> compiled_of b' = compiled_of b"
  by (auto simp: canonical_binding_Inr compiled_of_def trigger_of_canonical parse_trigger_of)

text \<open>In a normal file the spellings are canonical and the triggers distinct.\<close>

lemma normal_bindings:
  assumes "normalize_and_compile_shortcuts file = Inr (file, cs)"
  shows "list_all (\<lambda>b. \<exists>t. parse_shortcut (sb_shortcut b) = Inr t \<and> sb_shortcut b = tr_canonical t) (sf_shortcuts file)"
    "distinct (map cs_trigger (map compiled_of (sf_shortcuts file)))"
proof -
  have compiled: "compile_bindings {} (sf_shortcuts file) = Inr cs" "sf_shortcuts file = map2 canonical_with (sf_shortcuts file) cs"
  proof -
    have "compile_shortcuts file = Inr cs" and same: "file = file\<lparr>sf_shortcuts := map2 canonical_with (sf_shortcuts file) cs\<rparr>"
      using assms by (auto simp: normalize_Inr)
    then show "compile_bindings {} (sf_shortcuts file) = Inr cs"
      by (simp add: compile_shortcuts_Inr)
    show "sf_shortcuts file = map2 canonical_with (sf_shortcuts file) cs"
      using arg_cong [OF same, where f = sf_shortcuts] by simp
  qed
  then have pairs: "list_all2 (\<lambda>b c. parses_to (cs_trigger c) b \<and> cs_target c = sb_target b) (sf_shortcuts file) cs"
    by (simp add: compile_bindings_Inr)
  show "distinct (map cs_trigger (map compiled_of (sf_shortcuts file)))"
    using compiled(1) compile_bindings_map [OF compiled(1)] by (simp add: compile_bindings_Inr)
  have "parse_shortcut (sb_shortcut (sf_shortcuts file ! i)) = Inr (cs_trigger (cs ! i)) \<and>
      sb_shortcut (sf_shortcuts file ! i) = tr_canonical (cs_trigger (cs ! i))" if "i < length (sf_shortcuts file)" for i
  proof -
    have i: "i < length cs"
      using that pairs list_all2_lengthD by fastforce
    have "sf_shortcuts file ! i = canonical_with (sf_shortcuts file ! i) (cs ! i)"
      using arg_cong [OF compiled(2), of "\<lambda>bs. bs ! i"] that i by simp
    from arg_cong [OF this, of sb_shortcut]
    show ?thesis
      using list_all2_nthD [OF pairs that] by (simp add: canonical_with_def parses_to_def)
  qed
  then show "list_all (\<lambda>b. \<exists>t. parse_shortcut (sb_shortcut b) = Inr t \<and> sb_shortcut b = tr_canonical t) (sf_shortcuts file)"
    unfolding list_all_length by blast
qed

text \<open>The binding that a spelling names.\<close>

lemma named_binding:
  assumes "normalize_and_compile_shortcuts file = Inr (file, cs)" "parse_shortcut s = Inr t"
    and "position (\<lambda>c. sb_shortcut c = tr_canonical t) (sf_shortcuts file) = Some i"
  shows "i < length (sf_shortcuts file)"
    "\<And>j. j < length (sf_shortcuts file) \<Longrightarrow> cs_trigger (compiled_of (sf_shortcuts file ! j)) = trigger_of s \<longleftrightarrow> j = i"
proof -
  show i: "i < length (sf_shortcuts file)"
    using position_Some [OF assms(3)] by simp
  have "cs_trigger (compiled_of (sf_shortcuts file ! i)) = trigger_of s"
    using position_Some [OF assms(3)] trigger_of_canonical [OF assms(2)] assms(2) by (simp add: compiled_of_def parse_trigger_of)
  then show "cs_trigger (compiled_of (sf_shortcuts file ! j)) = trigger_of s \<longleftrightarrow> j = i" if "j < length (sf_shortcuts file)" for j
    using normal_bindings(2) [OF assms(1)] that i by (metis (no_types, lifting) length_map nth_eq_iff_index_eq nth_map)
qed

lemma map_if_index:
  assumes "\<And>j. j < length xs \<Longrightarrow> P (xs ! j) \<longleftrightarrow> j = i"
  shows "map (\<lambda>x. if P x then y else x) xs = xs[i := y]" "filter (\<lambda>x. \<not> P x) xs = take i xs @ drop (Suc i) xs"
proof -
  show "map (\<lambda>x. if P x then y else x) xs = xs[i := y]"
    using assms by (auto intro!: nth_equalityI simp: nth_list_update)
  have "filter (\<lambda>x. \<not> P x) (take i xs) = take i xs"
    using assms by (auto simp: filter_id_conv in_set_conv_nth)
  moreover have "filter (\<lambda>x. \<not> P x) (drop (Suc i) xs) = drop (Suc i) xs"
    using assms by (auto simp: filter_id_conv in_set_conv_nth)
  moreover have "filter (\<lambda>x. \<not> P x) xs = filter (\<lambda>x. \<not> P x) (take i xs) @ filter (\<lambda>x. \<not> P x) (drop (Suc i) xs)"
  proof (cases "i < length xs")
    case True
    show ?thesis
      using assms [OF True] by (subst id_take_nth_drop [OF True]) (simp add: filter_append)
  qed simp
  ultimately show "filter (\<lambda>x. \<not> P x) xs = take i xs @ drop (Suc i) xs"
    by simp
qed

lemma prepare_Inr:
  assumes "prepare io to_json m f = Inr p"
  shows "normalize_and_compile_shortcuts (pu_file p) = Inr (pu_file p, map compiled_of (sf_shortcuts f))"
    "pu_engine p = engine_of (map compiled_of (sf_shortcuts f))" "render_shortcut_file to_json (pu_file p) = Inr (pu_bytes p)"
    "unat (sf_revision (pu_file p)) = unat (sf_revision (sm_file m)) + 1"
proof -
  obtain normal cs where prepared: "prepare_document m f = Inr (normal, cs)" "pu_file p = normal"
      "render_shortcut_file to_json normal = Inr (pu_bytes p)" "engine_from_file normal = Inr (pu_engine p)"
    using assms by (auto simp: prepare_def result_simps)
  define f' where "f' = f\<lparr>sf_version := SHORTCUT_SCHEMA_VERSION, sf_revision := sf_revision (sm_file m) + 1\<rparr>"
  have "sf_revision (sm_file m) \<noteq> - 1" and normal: "normalize_and_compile_shortcuts f' = Inr (normal, cs)"
    using prepared(1) by (auto simp: prepare_document_def f'_def split: if_splits)
  then have "unat (sf_revision (sm_file m) + 1) = unat (sf_revision (sm_file m)) + 1"
    by (simp add: add.commute eq_neg_iff_add_eq_0 unatSuc)
  moreover have "sf_revision normal = sf_revision (sm_file m) + 1"
    using normal by (auto simp: normalize_Inr f'_def)
  ultimately show "unat (sf_revision (pu_file p)) = unat (sf_revision (sm_file m)) + 1"
    by (simp add: prepared(2))
  have "cs = map compiled_of (sf_shortcuts f)"
    using normal compile_bindings_map [of "{}" "sf_shortcuts f'" cs] by (simp add: normalize_Inr compile_shortcuts_Inr f'_def)
  then show "normalize_and_compile_shortcuts (pu_file p) = Inr (pu_file p, map compiled_of (sf_shortcuts f))"
      "pu_engine p = engine_of (map compiled_of (sf_shortcuts f))" "render_shortcut_file to_json (pu_file p) = Inr (pu_bytes p)"
    using normalize_idempotent [OF normal] prepared by (auto simp: engine_from_file_def)
qed

lemma prepare_command_Inr:
  assumes "stored of_json m" "prepare_command io to_json m command = Inr p"
  shows "expected_revision command = sf_revision (sm_file m)"
    "\<exists>f. prepare io to_json m f = Inr p \<and> map compiled_of (sf_shortcuts f) = spec_command command (the_bindings (sm_file m))"
proof -
  have normal: "normalize_and_compile_shortcuts (sm_file m) = Inr (sm_file m, the_bindings (sm_file m))"
    using assms(1) by (simp add: stored_def)
  then have bindings: "the_bindings (sm_file m) = map compiled_of (sf_shortcuts (sm_file m))"
    using the_bindings_map by (auto simp: normalize_Inr)
  show "expected_revision command = sf_revision (sm_file m)"
    using assms(2) by (cases command)
      (auto simp: prepare_command_def prepare_add_def prepare_update_def prepare_remove_def prepare_restore_def check_revision_def
        result_simps split: if_splits)
  show "\<exists>f. prepare io to_json m f = Inr p \<and> map compiled_of (sf_shortcuts f) = spec_command command (the_bindings (sm_file m))"
  proof (cases command)
    case (AddShortcut expected b)
    then show ?thesis
      using assms(2) compiled_of_canonical bindings by (fastforce simp: prepare_command_def prepare_add_def result_simps)
  next
    case (UpdateShortcut expected existing b)
    then obtain t canonical i where update: "parse_shortcut existing = Inr t" "canonical_binding b = Inr canonical"
        "position (\<lambda>c. sb_shortcut c = tr_canonical t) (sf_shortcuts (sm_file m)) = Some i"
        "prepare io to_json m ((sm_file m)\<lparr>sf_shortcuts := (sf_shortcuts (sm_file m))[i := canonical]\<rparr>) = Inr p"
      using assms(2) by (auto simp: prepare_command_def prepare_update_def result_simps)
    have "map (\<lambda>c. if cs_trigger c = trigger_of existing then compiled_of b else c) (map compiled_of (sf_shortcuts (sm_file m))) =
        (map compiled_of (sf_shortcuts (sm_file m)))[i := compiled_of b]"
      by (rule map_if_index) (use named_binding(2) [OF normal update(1,3)] in simp)
    then show ?thesis
      using update(4) compiled_of_canonical [OF update(2)] UpdateShortcut bindings
      by (intro exI [of _ "(sm_file m)\<lparr>sf_shortcuts := (sf_shortcuts (sm_file m))[i := canonical]\<rparr>"]) (simp add: map_update)
  next
    case (RemoveShortcut expected shortcut)
    then obtain t i where remove: "parse_shortcut shortcut = Inr t"
        "position (\<lambda>c. sb_shortcut c = tr_canonical t) (sf_shortcuts (sm_file m)) = Some i"
        "prepare io to_json m ((sm_file m)\<lparr>sf_shortcuts :=
          take i (sf_shortcuts (sm_file m)) @ drop (Suc i) (sf_shortcuts (sm_file m))\<rparr>) = Inr p"
      using assms(2) by (auto simp: prepare_command_def prepare_remove_def result_simps)
    have "filter (\<lambda>c. cs_trigger c \<noteq> trigger_of shortcut) (map compiled_of (sf_shortcuts (sm_file m))) =
        take i (map compiled_of (sf_shortcuts (sm_file m))) @ drop (Suc i) (map compiled_of (sf_shortcuts (sm_file m)))"
      by (rule map_if_index) (use named_binding(2) [OF normal remove(1,2)] in simp)
    then show ?thesis
      using remove(3) RemoveShortcut bindings
      by (intro exI [of _ "(sm_file m)\<lparr>sf_shortcuts :=
          take i (sf_shortcuts (sm_file m)) @ drop (Suc i) (sf_shortcuts (sm_file m))\<rparr>"]) (simp add: take_map drop_map)
  next
    case (RestoreShortcuts expected)
    then show ?thesis
      using assms(2) the_bindings_map [OF default_file_compiles] by (auto simp: prepare_command_def prepare_restore_def result_simps)
  qed
qed

lemma commit_cases:
  assumes "commit io m p disk = (r, m', disk')"
  shows "case r of Inl e \<Rightarrow> m' = m \<and> disk' = disk
    | Inr _ \<Rightarrow> disk = Some (sm_persisted m) \<and> m' = \<lparr>sm_file = pu_file p, sm_persisted = pu_bytes p\<rparr> \<and> disk' = Some (pu_bytes p)"
  using assms by (auto simp: commit_def read_shortcut_bytes_def result_simps split: sum.splits if_splits)

definition consistent :: "(string \<Rightarrow> string + shortcut_file) \<Rightarrow> shortcut_state \<Rightarrow> bool" where
  "consistent of_json st \<longleftrightarrow> stored of_json (st_manager st) \<and> se_bindings (st_engine st) = the_bindings (sm_file (st_manager st))"

lemma handle_command:
  assumes "json_ok to_json of_json" "consistent of_json st" "handle_shortcut_command io to_json st command = (r, st')"
  shows "case r of Inl e \<Rightarrow> st' = st
    | Inr _ \<Rightarrow> consistent of_json st' \<and> expected_revision command = sf_revision (sm_file (st_manager st)) \<and>
        unat (sf_revision (sm_file (st_manager st'))) = unat (sf_revision (sm_file (st_manager st))) + 1 \<and>
        st_engine st' = engine_of (spec_command command (se_bindings (st_engine st))) \<and>
        st_disk st = Some (sm_persisted (st_manager st)) \<and> st_disk st' = Some (sm_persisted (st_manager st'))"
proof (cases "prepare_command (io 0) to_json (st_manager st) command")
  case (Inl e)
  then show ?thesis
    using assms(3) by (auto simp: handle_shortcut_command_def apply_shortcut_update_def)
next
  case (Inr p)
  obtain c m disk where commit: "commit (io 1) (st_manager st) p (st_disk st) = (c, m, disk)"
    by (cases "commit (io 1) (st_manager st) p (st_disk st)")
  have result: "r = (case c of Inl e \<Rightarrow> Inl e | Inr u \<Rightarrow> Inr ())" "st' = (case c of
      Inl e \<Rightarrow> st\<lparr>st_manager := m, st_disk := disk\<rparr>
    | Inr _ \<Rightarrow> st\<lparr>st_engine := pu_engine p, st_manager := m, st_disk := disk\<rparr>)"
    using assms(3) Inr commit by (auto simp: handle_shortcut_command_def apply_shortcut_update_def split: sum.splits)
  have stored: "stored of_json (st_manager st)"
    using assms(2) by (simp add: consistent_def)
  obtain f where f: "prepare (io 0) to_json (st_manager st) f = Inr p"
      "map compiled_of (sf_shortcuts f) = spec_command command (se_bindings (st_engine st))"
    using prepare_command_Inr(2) [OF stored Inr] assms(2) by (auto simp: consistent_def)
  note p = prepare_Inr [OF f(1)]
  show ?thesis
    using commit_cases [OF commit] result prepare_command_Inr(1) [OF stored Inr] f(2) p
      rendered_is_read [OF assms(1) p(3) p(1)] normal_file [OF p(1)]
    by (auto simp: consistent_def stored_def engine_of_def split: sum.splits)
qed

section \<open>Every history of the store\<close>

text \<open>Loading, commands, changes of the file by others, and the use of the engine, which keeps its bindings
  (\<open>observe_bindings\<close>).\<close>

inductive store_run :: "(shortcut_file \<Rightarrow> string + string) \<Rightarrow> (string \<Rightarrow> string + shortcut_file) \<Rightarrow> shortcut_state \<Rightarrow> bool"
  for to_json of_json where
  store_loaded: "load_path io to_json of_json disk = (Inr m, disk') \<Longrightarrow> manager_engine m = Some e \<Longrightarrow>
    store_run to_json of_json \<lparr>st_manager = m, st_engine = e, st_disk = disk'\<rparr>"
| command_handled: "store_run to_json of_json st \<Longrightarrow> handle_shortcut_command io to_json st command = (r, st') \<Longrightarrow>
    store_run to_json of_json st'"
| file_edited: "store_run to_json of_json st \<Longrightarrow> store_run to_json of_json (st\<lparr>st_disk := disk\<rparr>)"
| engine_used: "store_run to_json of_json st \<Longrightarrow> se_bindings e = se_bindings (st_engine st) \<Longrightarrow>
    store_run to_json of_json (st\<lparr>st_engine := e\<rparr>)"

lemma store_run_consistent:
  "store_run to_json of_json st \<Longrightarrow> json_ok to_json of_json \<Longrightarrow> consistent of_json st"
proof (induction rule: store_run.induct)
  case (store_loaded io disk m disk' e)
  have "stored of_json m"
    using load_path_stored [OF store_loaded.prems store_loaded.hyps(1)] by simp
  then show ?case
    using store_loaded.hyps(2) stored_engine by (auto simp: consistent_def engine_of_def)
next
  case (command_handled st io command r st')
  then show ?case
    using handle_command [OF command_handled.prems command_handled.IH [OF command_handled.prems] command_handled.hyps(2)]
    by (auto split: sum.splits)
qed (simp_all add: consistent_def)

lemma reload:
  assumes "stored of_json m" "\<forall>n step. io n step = Inr ()"
  shows "load_path io to_json of_json (Some (sm_persisted m)) = (Inr m, Some (sm_persisted m))"
proof -
  have "read_and_parse (io 1) of_json (Some (sm_persisted m)) = Inr (sm_file m, sm_persisted m, None)"
    using assms by (auto simp: read_and_parse_def read_shortcut_bytes_def stored_def)
  then show ?thesis
    using assms(2) by (simp add: load_path_def load_file_def)
qed

text \<open>C21: The compositor loads no shortcut file from which it cannot build the engine, migrated, repaired and default files
  included. From then on the engine, the file in memory and the bytes remembered of the disk agree: the engine has
  exactly the bindings that the file compiles to, and a restart on these bytes reads back the same file.\<close>

theorem shortcut_store_consistent:
  assumes "json_ok to_json of_json" "store_run to_json of_json st"
  shows "(\<forall>io disk m disk'. load_path io to_json of_json disk = (Inr m, disk') \<longrightarrow>
      manager_engine m \<noteq> None \<and> disk' = Some (sm_persisted m)) \<and>
    compile_shortcuts (sm_file (st_manager st)) = Inr (se_bindings (st_engine st)) \<and>
    (\<forall>io. (\<forall>n step. io n step = Inr ()) \<longrightarrow>
      load_path io to_json of_json (Some (sm_persisted (st_manager st))) = (Inr (st_manager st), Some (sm_persisted (st_manager st))))"
proof -
  have stored: "stored of_json (st_manager st)" "se_bindings (st_engine st) = the_bindings (sm_file (st_manager st))"
    using store_run_consistent [OF assms(2,1)] by (simp_all add: consistent_def)
  then have "compile_shortcuts (sm_file (st_manager st)) = Inr (se_bindings (st_engine st))"
    by (simp add: stored_def normalize_Inr)
  moreover have "manager_engine m \<noteq> None \<and> disk' = Some (sm_persisted m)"
    if "load_path io to_json of_json disk = (Inr m, disk')" for io disk m disk'
    using load_path_stored [OF assms(1) that] stored_engine by blast
  ultimately show ?thesis
    using reload [OF stored(1)] by blast
qed

text \<open>C20: A command of the settings either fails and leaves the file on disk, the file in memory and the engine as they
  were, or it was made for the current revision, the file on disk was the one last written, and the engine has the
  bindings that the command asks for: one appended, the named one replaced or removed, or the defaults. Then the
  revision is one higher and the new file is on disk.\<close>

theorem shortcut_update_atomic:
  assumes "json_ok to_json of_json" "store_run to_json of_json st" "handle_shortcut_command io to_json st command = (r, st')"
  shows "(case r of
      Inl e \<Rightarrow> st' = st
    | Inr _ \<Rightarrow> expected_revision command = sf_revision (sm_file (st_manager st)) \<and>
        st_disk st = Some (sm_persisted (st_manager st)) \<and>
        se_bindings (st_engine st') = spec_command command (se_bindings (st_engine st)) \<and>
        unat (sf_revision (sm_file (st_manager st'))) = unat (sf_revision (sm_file (st_manager st))) + 1 \<and>
        st_disk st' = Some (sm_persisted (st_manager st')))"
  using handle_command [OF assms(1) store_run_consistent [OF assms(2,1)] assms(3)] by (auto simp: engine_of_def split: sum.splits)

text \<open>The new engine knows nothing of the keys that are held: the release of a key that a shortcut took then reaches the
  client, which never saw its press.\<close>

lemma update_forgets_held_keys:
  assumes "json_ok to_json of_json" "store_run to_json of_json st" "handle_shortcut_command io to_json st command = (Inr (), st')"
    and "ordinary_key k"
  shows "captured_keys (st_engine st') k = None \<and> snd (observe (st_engine st') k False) = Forward"
proof -
  have "st_engine st' = engine_of (spec_command command (se_bindings (st_engine st)))"
    using handle_command [OF assms(1) store_run_consistent [OF assms(2,1)] assms(3)] by simp
  moreover have "logo_bit k = None" "modifier_bit k = None"
    using assms(4) ordinary_key_bits by blast+
  ultimately show ?thesis
    by (simp add: observe_def observe_release_def engine_of_def)
qed

section \<open>Validation\<close>

lemma compiles_iff:
  "(\<exists>cs. compile_bindings {} bs = Inr cs) \<longleftrightarrow> list_all (\<lambda>b. validate_target (sb_target b) = Inr () \<and> (\<exists>t. parse_shortcut (sb_shortcut b) = Inr t)) bs \<and>
     distinct (map (\<lambda>b. trigger_of (sb_shortcut b)) bs)"
proof
  assume "\<exists>cs. compile_bindings {} bs = Inr cs"
  then obtain cs where cs: "compile_bindings {} bs = Inr cs"
    by blast
  then have "distinct (map cs_trigger cs)" "list_all (\<lambda>b. validate_target (sb_target b) = Inr ()) bs"
      and pairs: "list_all2 (\<lambda>b c. parses_to (cs_trigger c) b \<and> cs_target c = sb_target b) bs cs"
    by (auto simp: compile_bindings_Inr)
  moreover have "list_all (\<lambda>b. \<exists>t. parse_shortcut (sb_shortcut b) = Inr t) bs"
    using pairs by (induction bs cs rule: list_all2_induct) (auto simp: parses_to_def)
  ultimately show "list_all (\<lambda>b. validate_target (sb_target b) = Inr () \<and> (\<exists>t. parse_shortcut (sb_shortcut b) = Inr t)) bs \<and>
      distinct (map (\<lambda>b. trigger_of (sb_shortcut b)) bs)"
    using compile_bindings_map [OF cs] by (auto simp: compiled_of_def comp_def list_all_iff)
next
  assume ok: "list_all (\<lambda>b. validate_target (sb_target b) = Inr () \<and> (\<exists>t. parse_shortcut (sb_shortcut b) = Inr t)) bs \<and>
      distinct (map (\<lambda>b. trigger_of (sb_shortcut b)) bs)"
  then have "list_all2 (\<lambda>b c. parses_to (cs_trigger c) b \<and> cs_target c = sb_target b) bs (map compiled_of bs)"
    by (induction bs) (auto simp: parses_to_def compiled_of_def parse_trigger_of)
  then have "compile_bindings {} bs = Inr (map compiled_of bs)"
    using ok by (auto simp: compile_bindings_Inr comp_def compiled_of_def list_all_iff)
  then show "\<exists>cs. compile_bindings {} bs = Inr cs"
    by blast
qed

text \<open>The file that an update of the shortcuts writes, and whether it can be written: JSON has a text for it, and the text
  with the final newline stays within the limit.\<close>

definition saved_file :: "shortcut_manager \<Rightarrow> shortcut_binding list \<Rightarrow> shortcut_file" where
  "saved_file m bs = \<lparr>sf_version = SHORTCUT_SCHEMA_VERSION, sf_revision = sf_revision (sm_file m) + 1, sf_shortcuts = bs\<rparr>"

definition file_fits :: "(shortcut_file \<Rightarrow> string + string) \<Rightarrow> shortcut_file \<Rightarrow> bool" where
  "file_fits to_json file \<longleftrightarrow> (case to_json file of Inl e \<Rightarrow> False | Inr text \<Rightarrow> length text < MAX_SHORTCUT_FILE_BYTES)"

lemma render_fits: "(\<exists>bytes. render_shortcut_file to_json file = Inr bytes) \<longleftrightarrow> file_fits to_json file"
  by (cases "to_json file") (auto simp: render_shortcut_file_def file_fits_def json_def)

lemma canonical_unchanged:
  "list_all2 (\<lambda>b c. parses_to (cs_trigger c) b \<and> cs_target c = sb_target b) bs cs \<Longrightarrow>
     list_all (\<lambda>b. \<exists>t. parse_shortcut (sb_shortcut b) = Inr t \<and> sb_shortcut b = tr_canonical t) bs \<Longrightarrow>
     map2 canonical_with bs cs = bs"
  by (induction bs cs rule: list_all2_induct) (auto simp: canonical_with_def parses_to_def)

lemma prepare_succeeds:
  assumes "\<forall>step. io step = Inr ()"
    and canonical: "list_all (\<lambda>b. \<exists>t. parse_shortcut (sb_shortcut b) = Inr t \<and> sb_shortcut b = tr_canonical t) (sf_shortcuts f)"
  shows "(\<exists>p. prepare io to_json m f = Inr p) \<longleftrightarrow> sf_revision (sm_file m) \<noteq> - 1 \<and> length (sf_shortcuts f) \<le> MAX_SHORTCUTS \<and>
    (\<exists>cs. compile_bindings {} (sf_shortcuts f) = Inr cs) \<and> file_fits to_json (saved_file m (sf_shortcuts f))"
proof (cases "prepare_document m f")
  case (Inl e)
  then show ?thesis
    by (auto simp: prepare_def document_def prepare_document_def normalize_and_compile_shortcuts_def compile_shortcuts_def
        result_simps eq_neg_iff_add_eq_0 split: if_splits)
next
  case (Inr r)
  obtain normal cs where r: "r = (normal, cs)"
    by (cases r)
  have pre: "sf_revision (sm_file m) \<noteq> - 1" and normal: "normalize_and_compile_shortcuts
      (f\<lparr>sf_version := SHORTCUT_SCHEMA_VERSION, sf_revision := sf_revision (sm_file m) + 1\<rparr>) = Inr (normal, cs)"
    using Inr by (auto simp: prepare_document_def r split: if_splits)
  have compiled: "compile_bindings {} (sf_shortcuts f) = Inr cs" "length (sf_shortcuts f) \<le> MAX_SHORTCUTS"
    using normal by (auto simp: normalize_Inr compile_shortcuts_Inr file_ok_def)
  then have "normal = saved_file m (sf_shortcuts f)"
    using normal canonical_unchanged [OF _ canonical, of cs] by (simp add: normalize_Inr compile_bindings_Inr saved_file_def)
  moreover have "engine_from_file normal = Inr (engine_of cs)"
    using normalize_idempotent(2) [OF normal] by (simp add: engine_from_file_def)
  ultimately have "(\<exists>p. prepare io to_json m f = Inr p) \<longleftrightarrow> file_fits to_json (saved_file m (sf_shortcuts f))"
    using assms(1) by (simp add: prepare_def Inr r document_def result_simps flip: render_fits)
  then show ?thesis
    using pre compiled by blast
qed

lemma handle_succeeds:
  assumes "stored of_json (st_manager st)" "\<forall>n step. io n step = Inr ()" "st_disk st = Some (sm_persisted (st_manager st))"
  shows "fst (handle_shortcut_command io to_json st command) = Inr () \<longleftrightarrow>
    (\<exists>p. prepare_command (io 0) to_json (st_manager st) command = Inr p)"
  using assms
  by (cases "prepare_command (io 0) to_json (st_manager st) command")
    (auto simp: handle_shortcut_command_def apply_shortcut_update_def commit_def read_shortcut_bytes_def stored_def)

lemma same_canonical: "parse_shortcut s = Inr t \<Longrightarrow> parse_shortcut s' = Inr t' \<Longrightarrow> tr_canonical t = tr_canonical t' \<longleftrightarrow> t = t'"
  by (metis Inr_inject parse_canonical parse_shortcut_valid)

lemma distinct_update_iff:
  assumes "distinct xs" "i < length xs"
  shows "distinct (xs[i := x]) \<longleftrightarrow> (\<forall>j<length xs. j \<noteq> i \<longrightarrow> xs ! j \<noteq> x)"
proof
  assume updated: "distinct (xs[i := x])"
  show "\<forall>j<length xs. j \<noteq> i \<longrightarrow> xs ! j \<noteq> x"
    using nth_eq_iff_index_eq [OF updated] assms(2) by (metis length_list_update nth_list_update_eq nth_list_update_neq)
next
  assume "\<forall>j<length xs. j \<noteq> i \<longrightarrow> xs ! j \<noteq> x"
  then show "distinct (xs[i := x])"
    using assms(1) by (intro distinct_list_update) (auto simp: in_set_conv_nth)
qed

lemma validate_Valid:
  assumes "normalize_and_compile_shortcuts (sm_file m) = Inr (sm_file m, cs)"
  shows "validate_shortcut m b existing_shortcut = Valid canonical \<longleftrightarrow> validate_target (sb_target b) = Inr () \<and>
    (\<exists>t. parse_shortcut (sb_shortcut b) = Inr t \<and> canonical = tr_canonical t \<and> (\<forall>c\<in>set (sf_shortcuts (sm_file m)). trigger_of (sb_shortcut c) = t \<longrightarrow>
      (\<exists>s. existing_shortcut = Some s \<and> parse_shortcut s = Inr t)))"
proof (cases "validate_target (sb_target b)"; cases "parse_shortcut (sb_shortcut b)")
  fix u t
  assume target: "validate_target (sb_target b) = Inr u" and t: "parse_shortcut (sb_shortcut b) = Inr t"
  have parsed: "parse_shortcut (sb_shortcut c) = Inr (trigger_of (sb_shortcut c))" if "c \<in> set (sf_shortcuts (sm_file m))" for c
    using normal_bindings(1) [OF assms] that by (auto simp: list_all_iff parse_trigger_of)
  define existing where "existing = Option.bind existing_shortcut
    (\<lambda>s. case parse_shortcut s of Inl e \<Rightarrow> None | Inr t \<Rightarrow> Some (tr_canonical t))"
  have existing: "existing = Some (tr_canonical t) \<longleftrightarrow> (\<exists>s. existing_shortcut = Some s \<and> parse_shortcut s = Inr t)"
    using same_canonical [OF _ t] by (cases existing_shortcut) (auto simp: existing_def split: sum.splits)
  let ?conflict = "\<lambda>c. case parse_shortcut (sb_shortcut c) of Inl e \<Rightarrow> False
    | Inr configured \<Rightarrow> configured = t \<and> existing \<noteq> Some (tr_canonical configured)"
  have "find ?conflict (sf_shortcuts (sm_file m)) = None \<longleftrightarrow> (\<forall>c\<in>set (sf_shortcuts (sm_file m)). trigger_of (sb_shortcut c) = t \<longrightarrow>
      existing = Some (tr_canonical t))"
    using parsed by (auto simp: find_None_iff)
  then show ?thesis
    using target t existing
    by (auto simp: validate_shortcut_def existing_def [symmetric] Let_def split: option.splits)
qed (auto simp: validate_shortcut_def)

lemma normal_compiles:
  assumes "normalize_and_compile_shortcuts file = Inr (file, cs)"
  shows "list_all (\<lambda>b. validate_target (sb_target b) = Inr () \<and> (\<exists>t. parse_shortcut (sb_shortcut b) = Inr t)) (sf_shortcuts file)"
    "distinct (map (\<lambda>b. trigger_of (sb_shortcut b)) (sf_shortcuts file))" "length (sf_shortcuts file) \<le> MAX_SHORTCUTS"
  using assms compiles_iff [of "sf_shortcuts file"] by (auto simp: normalize_Inr compile_shortcuts_Inr file_ok_def)

lemma add_succeeds:
  assumes normal: "normalize_and_compile_shortcuts (sm_file m) = Inr (sm_file m, cs)" and io: "\<forall>step. io step = Inr ()"
  shows "(\<exists>p. prepare_add io to_json m (sf_revision (sm_file m)) b = Inr p) \<longleftrightarrow>
    (\<exists>c. validate_shortcut m b None = Valid c \<and> length (sf_shortcuts (sm_file m)) < MAX_SHORTCUTS \<and> sf_revision (sm_file m) \<noteq> - 1 \<and>
       file_fits to_json (saved_file m (sf_shortcuts (sm_file m) @ [\<lparr>sb_shortcut = c, sb_target = sb_target b\<rparr>])))"
proof (cases "canonical_binding b")
  case (Inl e)
  then have "\<not> (\<exists>c. validate_shortcut m b None = Valid c)"
    by (auto simp: canonical_binding_def validate_shortcut_def result_simps)
  then show ?thesis
    using Inl by (simp add: prepare_add_def check_revision_def document_def)
next
  case (Inr c)
  let ?bs = "sf_shortcuts (sm_file m)"
  obtain t where c: "validate_target (sb_target b) = Inr ()" "parse_shortcut (sb_shortcut b) = Inr t"
      "c = \<lparr>sb_shortcut = tr_canonical t, sb_target = sb_target b\<rparr>"
    using Inr by (auto simp: canonical_binding_Inr)
  note bs = normal_compiles [OF normal]
  have canonical: "parse_shortcut (tr_canonical t) = Inr t"
    by (rule parse_canonical [OF parse_shortcut_valid [OF c(2)]])
  have "(\<exists>cs. compile_bindings {} (?bs @ [c]) = Inr cs) \<longleftrightarrow> t \<notin> (\<lambda>b. trigger_of (sb_shortcut b)) ` set ?bs"
    using bs(1,2) c canonical trigger_of_canonical [OF c(2)] by (auto simp: compiles_iff)
  moreover have "list_all (\<lambda>b. \<exists>t. parse_shortcut (sb_shortcut b) = Inr t \<and> sb_shortcut b = tr_canonical t) (?bs @ [c])"
    using normal_bindings(1) [OF normal] canonical c(3) by simp
  moreover have "validate_shortcut m b None = Valid c' \<longleftrightarrow> c' = tr_canonical t \<and> t \<notin> (\<lambda>b. trigger_of (sb_shortcut b)) ` set ?bs" for c'
    using validate_Valid [OF normal, of b None] c(1,2) by auto
  ultimately show ?thesis
    using prepare_succeeds [OF io, of "(sm_file m)\<lparr>sf_shortcuts := ?bs @ [c]\<rparr>" to_json m]
    by (simp add: prepare_add_def check_revision_def document_def Inr c(3) Suc_le_eq conj_ac)
qed

lemma update_succeeds:
  assumes normal: "normalize_and_compile_shortcuts (sm_file m) = Inr (sm_file m, cs)" and io: "\<forall>step. io step = Inr ()"
    and existing: "parse_shortcut existing = Inr t0" "t0 \<in> (\<lambda>b. trigger_of (sb_shortcut b)) ` set (sf_shortcuts (sm_file m))"
  shows "(\<exists>p. prepare_update io to_json m (sf_revision (sm_file m)) existing b = Inr p) \<longleftrightarrow>
    (\<exists>c. validate_shortcut m b (Some existing) = Valid c \<and> sf_revision (sm_file m) \<noteq> - 1 \<and>
       file_fits to_json (saved_file m (map (\<lambda>d. if trigger_of (sb_shortcut d) = t0
         then \<lparr>sb_shortcut = c, sb_target = sb_target b\<rparr> else d) (sf_shortcuts (sm_file m)))))"
proof (cases "canonical_binding b")
  case (Inl e)
  then have "\<not> (\<exists>c. validate_shortcut m b (Some existing) = Valid c)"
    by (auto simp: canonical_binding_def validate_shortcut_def result_simps)
  then show ?thesis
    using Inl existing(1) by (simp add: prepare_update_def check_revision_def document_def)
next
  case (Inr c)
  let ?bs = "sf_shortcuts (sm_file m)"
  obtain t where c: "validate_target (sb_target b) = Inr ()" "parse_shortcut (sb_shortcut b) = Inr t"
      "c = \<lparr>sb_shortcut = tr_canonical t, sb_target = sb_target b\<rparr>"
    using Inr by (auto simp: canonical_binding_Inr)
  note bs = normal_compiles [OF normal]
  have canonical: "parse_shortcut (tr_canonical t) = Inr t"
    by (rule parse_canonical [OF parse_shortcut_valid [OF c(2)]])
  have "position (\<lambda>c. sb_shortcut c = tr_canonical t0) ?bs \<noteq> None"
  proof -
    obtain d where d: "d \<in> set ?bs" "trigger_of (sb_shortcut d) = t0"
      using existing(2) by auto
    then have "sb_shortcut d = tr_canonical t0"
      using normal_bindings(1) [OF normal] by (auto simp: list_all_iff parse_trigger_of)
    then show ?thesis
      using d(1) by (auto simp: position_None)
  qed
  then obtain i where i: "position (\<lambda>c. sb_shortcut c = tr_canonical t0) ?bs = Some i"
    by blast
  have named: "i < length ?bs" "\<And>j. j < length ?bs \<Longrightarrow> trigger_of (sb_shortcut (?bs ! j)) = t0 \<longleftrightarrow> j = i"
    using named_binding [OF normal existing(1) i] parse_trigger_of [OF existing(1)] by (auto simp: compiled_of_def)
  have replaced: "?bs[i := d] = map (\<lambda>x. if trigger_of (sb_shortcut x) = t0 then d else x) ?bs" for d
    using named by (intro nth_equalityI) (simp_all add: nth_list_update)
  have "list_all (\<lambda>b. validate_target (sb_target b) = Inr () \<and> (\<exists>t. parse_shortcut (sb_shortcut b) = Inr t)) (?bs[i := c])"
    using bs(1) c named(1) canonical by (auto simp: list_all_length nth_list_update)
  then have "(\<exists>cs. compile_bindings {} (?bs[i := c]) = Inr cs) \<longleftrightarrow> (\<forall>j<length ?bs. j \<noteq> i \<longrightarrow> trigger_of (sb_shortcut (?bs ! j)) \<noteq> t)"
    using distinct_update_iff [OF bs(2), of i t] named(1) trigger_of_canonical [OF c(2)] by (simp add: compiles_iff map_update c(3))
  moreover have "(\<forall>c\<in>set ?bs. trigger_of (sb_shortcut c) = t \<longrightarrow> t = t0) \<longleftrightarrow> (\<forall>j<length ?bs. j \<noteq> i \<longrightarrow> trigger_of (sb_shortcut (?bs ! j)) \<noteq> t)"
    using named unfolding all_set_conv_all_nth by blast
  moreover have "list_all (\<lambda>b. \<exists>t. parse_shortcut (sb_shortcut b) = Inr t \<and> sb_shortcut b = tr_canonical t) (?bs[i := c])"
    using normal_bindings(1) [OF normal] canonical c(3) named(1) by (auto simp: list_all_length nth_list_update)
  moreover have "validate_shortcut m b (Some existing) = Valid c' \<longleftrightarrow>
      c' = tr_canonical t \<and> (\<forall>c\<in>set ?bs. trigger_of (sb_shortcut c) = t \<longrightarrow> t = t0)" for c'
    using validate_Valid [OF normal, of b "Some existing"] c(1,2) existing(1) by auto
  ultimately show ?thesis
    using prepare_succeeds [OF io, of "(sm_file m)\<lparr>sf_shortcuts := ?bs[i := c]\<rparr>" to_json m] bs(3)
    by (simp add: prepare_update_def check_revision_def document_def Inr existing(1) i c(3) replaced conj_ac)
qed

text \<open>C22: What the settings answer when a shortcut is tried out decides whether it can be saved, as long as the disk
  does what it is asked and still holds the file last written: adding it succeeds exactly when it is valid, there is
  room for one more, the revision can still grow and the new file has a JSON text within the size limit; putting it in
  the place of an existing shortcut succeeds exactly when it is valid for that place, the revision can grow and the
  file with that one binding replaced fits. Both write the canonical spelling that the validation answered.\<close>

theorem validated_shortcut_accepted:
  assumes "json_ok to_json of_json" "store_run to_json of_json st"
    and "\<forall>n step. io n step = Inr ()" "st_disk st = Some (sm_persisted (st_manager st))"
    and "m = st_manager st" "revision = sf_revision (sm_file m)"
  shows "(fst (handle_shortcut_command io to_json st (AddShortcut revision b)) = Inr () \<longleftrightarrow>
      (\<exists>c. validate_shortcut m b None = Valid c \<and> length (sf_shortcuts (sm_file m)) < MAX_SHORTCUTS \<and> revision \<noteq> - 1 \<and>
         file_fits to_json (saved_file m (sf_shortcuts (sm_file m) @ [\<lparr>sb_shortcut = c, sb_target = sb_target b\<rparr>])))) \<and>
    (\<forall>existing t. parse_shortcut existing = Inr t \<and> t \<in> cs_trigger ` set (se_bindings (st_engine st)) \<longrightarrow>
      (fst (handle_shortcut_command io to_json st (UpdateShortcut revision existing b)) = Inr () \<longleftrightarrow>
        (\<exists>c. validate_shortcut m b (Some existing) = Valid c \<and> revision \<noteq> - 1 \<and>
           file_fits to_json (saved_file m (map (\<lambda>d. if trigger_of (sb_shortcut d) = t
             then \<lparr>sb_shortcut = c, sb_target = sb_target b\<rparr> else d) (sf_shortcuts (sm_file m)))))))"
proof -
  let ?bs = "sf_shortcuts (sm_file m)"
  have stored: "stored of_json (st_manager st)"
    using store_run_consistent [OF assms(2,1)] by (simp add: consistent_def)
  have normal: "normalize_and_compile_shortcuts (sm_file m) = Inr (sm_file m, the_bindings (sm_file m))"
      and bindings: "se_bindings (st_engine st) = the_bindings (sm_file m)"
    using store_run_consistent [OF assms(2,1)] assms(5) by (auto simp: consistent_def stored_def)
  have triggers: "cs_trigger ` set (se_bindings (st_engine st)) = (\<lambda>b. trigger_of (sb_shortcut b)) ` set ?bs"
    using normal the_bindings_map by (auto simp: bindings normalize_Inr compiled_of_def image_iff)
  note handled = handle_succeeds [OF stored assms(3,4), of to_json]
  have io: "\<forall>step. io 0 step = Inr ()"
    using assms(3) by blast
  show ?thesis
    using add_succeeds [OF normal io, of to_json b] update_succeeds [OF normal io, of _ _ to_json b]
    unfolding handled prepare_command_def assms(5) [symmetric] triggers assms(6) by simp
qed

section \<open>Sample store\<close>

definition sample_stored :: shortcut_file where
  "sample_stored = \<lparr>sf_version = 6, sf_revision = 1, sf_shortcuts = [\<lparr>sb_shortcut = ''Super'', sb_target = DenialAction OpenDashboard\<rparr>]\<rparr>"

definition sample_binding :: shortcut_binding where
  "sample_binding = \<lparr>sb_shortcut = ''alt+ctrl+t'', sb_target = SpawnSh ''kitty''\<rparr>"

definition sample_added :: shortcut_file where
  "sample_added = \<lparr>sf_version = 6, sf_revision = 2, sf_shortcuts = [\<lparr>sb_shortcut = ''Super'', sb_target = DenialAction OpenDashboard\<rparr>,
     \<lparr>sb_shortcut = ''Ctrl+Alt+T'', sb_target = SpawnSh ''kitty''\<rparr>]\<rparr>"

text \<open>A JSON that knows two files.\<close>

definition sample_to_json :: "shortcut_file \<Rightarrow> string + string" where
  "sample_to_json f = (if f = sample_stored then Inr ''1'' else if f = sample_added then Inr ''2'' else Inl ''unknown'')"

definition sample_of_json :: "string \<Rightarrow> string + shortcut_file" where
  "sample_of_json text = (if text = ''1'' @ [newline] then Inr sample_stored else if text = ''2'' @ [newline] then Inr sample_added
     else Inl ''unknown'')"

definition sample_io :: file_io where "sample_io = (\<lambda>n step. Inr ())"

definition sample_manager :: shortcut_manager where
  "sample_manager = \<lparr>sm_file = sample_stored, sm_persisted = ''1'' @ [newline]\<rparr>"

definition sample_store :: shortcut_state where
  "sample_store = \<lparr>st_manager = sample_manager, st_engine = engine_of (the_bindings sample_stored), st_disk = Some (''1'' @ [newline])\<rparr>"

lemma sample_json_ok: "json_ok sample_to_json sample_of_json"
  by (auto simp: json_ok_def sample_to_json_def sample_of_json_def split: if_splits)

lemma sample_is_stored: "stored sample_of_json sample_manager"
proof -
  have "normalize_and_compile_shortcuts sample_stored = Inr (sample_stored, the_bindings sample_stored)"
    by code_simp
  moreover have "parse_shortcut_bytes sample_of_json (''1'' @ [newline]) = Inr (sample_stored, ''1'' @ [newline], None)"
    by code_simp
  ultimately show ?thesis
    by (simp add: stored_def sample_manager_def MAX_SHORTCUT_FILE_BYTES_def)
qed

lemma sample_store_run: "store_run sample_to_json sample_of_json sample_store"
proof -
  have "load_path sample_io sample_to_json sample_of_json (Some (sm_persisted sample_manager)) = (Inr sample_manager, Some (sm_persisted sample_manager))"
    by (rule reload [OF sample_is_stored]) (simp add: sample_io_def)
  moreover have "manager_engine sample_manager = Some (engine_of (the_bindings (sm_file sample_manager)))"
    by (rule stored_engine [OF sample_is_stored])
  ultimately show ?thesis
    using store_loaded by (fastforce simp: sample_store_def sample_manager_def)
qed

lemma shortcut_store_consistent_witness: "compile_shortcuts sample_stored = Inr (the_bindings sample_stored)"
  using shortcut_store_consistent [OF sample_json_ok sample_store_run] by (simp add: sample_store_def sample_manager_def engine_of_def)

lemma shortcut_update_atomic_witness:
  "unat (sf_revision (sm_file (st_manager (snd (handle_shortcut_command sample_io sample_to_json sample_store (AddShortcut 1 sample_binding)))))) = 2"
proof -
  let ?result = "handle_shortcut_command sample_io sample_to_json sample_store (AddShortcut 1 sample_binding)"
  have success: "?result = (Inr (), snd ?result)"
  proof -
    have canonical: "canonical_binding sample_binding = Inr \<lparr>sb_shortcut = ''Ctrl+Alt+T'', sb_target = SpawnSh ''kitty''\<rparr>"
      by code_simp
    have normal: "normalize_and_compile_shortcuts sample_added = Inr (sample_added, the_bindings sample_added)"
      by code_simp
    have "prepare_document sample_manager (sample_stored\<lparr>sf_shortcuts := sf_shortcuts sample_stored @
        [\<lparr>sb_shortcut = ''Ctrl+Alt+T'', sb_target = SpawnSh ''kitty''\<rparr>]\<rparr>) = Inr (sample_added, the_bindings sample_added)"
      using normal by (simp add: prepare_document_def sample_manager_def sample_stored_def sample_added_def SHORTCUT_SCHEMA_VERSION_def)
    moreover have "engine_from_file sample_added = Inr (engine_of (the_bindings sample_added))"
      using normalize_idempotent(2) [OF normal] by (simp add: engine_from_file_def)
    moreover have "sample_added \<noteq> sample_stored"
      by (simp add: sample_added_def sample_stored_def)
    ultimately have "\<exists>p. prepare_command (sample_io 0) sample_to_json sample_manager (AddShortcut 1 sample_binding) = Inr p"
      using canonical
      by (simp add: prepare_command_def prepare_add_def check_revision_def prepare_def document_def render_shortcut_file_def json_def
          sample_to_json_def sample_io_def MAX_SHORTCUT_FILE_BYTES_def sample_manager_def sample_stored_def)
    then obtain p where "prepare_command (sample_io 0) sample_to_json sample_manager (AddShortcut 1 sample_binding) = Inr p"
      by blast
    then have "fst ?result = Inr ()"
      by (simp add: handle_shortcut_command_def apply_shortcut_update_def sample_store_def commit_def read_shortcut_bytes_def
          sample_io_def sample_manager_def MAX_SHORTCUT_FILE_BYTES_def)
    then show ?thesis
      by (simp add: prod_eq_iff)
  qed
  show ?thesis
    using shortcut_update_atomic [OF sample_json_ok sample_store_run success]
    by (simp add: sample_store_def sample_manager_def sample_stored_def)
qed

lemma validated_shortcut_accepted_witness:
  "fst (handle_shortcut_command sample_io sample_to_json sample_store (AddShortcut 1 sample_binding)) = Inr () \<and>
   fst (handle_shortcut_command sample_io sample_to_json sample_store
     (AddShortcut 1 \<lparr>sb_shortcut = ''WIN'', sb_target = SpawnSh ''kitty''\<rparr>)) \<noteq> Inr ()"
proof -
  have io: "\<forall>n step. sample_io n step = Inr ()"
    by (simp add: sample_io_def)
  have m: "st_disk sample_store = Some (sm_persisted (st_manager sample_store))" "sample_manager = st_manager sample_store"
      "1 = sf_revision (sm_file sample_manager)"
    by (simp_all add: sample_store_def sample_manager_def sample_stored_def)
  have valid: "validate_shortcut sample_manager sample_binding None = Valid ''Ctrl+Alt+T''"
      "validate_shortcut sample_manager \<lparr>sb_shortcut = ''WIN'', sb_target = SpawnSh ''kitty''\<rparr> None =
        Conflict ''Super'' \<lparr>sb_shortcut = ''Super'', sb_target = DenialAction OpenDashboard\<rparr>"
    by code_simp+
  have room: "length (sf_shortcuts (sm_file sample_manager)) < MAX_SHORTCUTS"
    by (simp add: sample_manager_def sample_stored_def MAX_SHORTCUTS_def)
  have "saved_file sample_manager (sf_shortcuts (sm_file sample_manager) @
      [\<lparr>sb_shortcut = ''Ctrl+Alt+T'', sb_target = sb_target sample_binding\<rparr>]) = sample_added"
    by (simp add: saved_file_def sample_manager_def sample_stored_def sample_added_def sample_binding_def SHORTCUT_SCHEMA_VERSION_def)
  moreover have "file_fits sample_to_json sample_added"
    by (simp add: file_fits_def sample_to_json_def sample_added_def sample_stored_def MAX_SHORTCUT_FILE_BYTES_def)
  ultimately show ?thesis
    using validated_shortcut_accepted [OF sample_json_ok sample_store_run io m, THEN conjunct1, of sample_binding]
      validated_shortcut_accepted [OF sample_json_ok sample_store_run io m, THEN conjunct1, of "\<lparr>sb_shortcut = ''WIN'', sb_target = SpawnSh ''kitty''\<rparr>"]
      valid room by simp
qed

end
