(* ===== verification/Window_Leases.thy ===== *)
theory Window_Leases
  imports Prelude "HOL-Library.Multiset"
begin

text \<open>
  The textures of closing windows (\<open>WindowCloseTextureLeases\<close> in \<open>flutter_runtime.rs\<close> and its users in
  \<open>flutter_runtime/scene_bridge.rs\<close> and \<open>flutter_runtime/platform_dispatch.rs\<close>): a window that leaves the scene
  keeps its textures on lease until Flutter acknowledges the closing animation or the lease expires, and a
  texture is unregistered only when nothing uses it. The order in which a hash map yields its keys is the parameter
  \<open>iter\<close>.
\<close>

definition MAX_RETAINED_WINDOW_CLOSE_LEASES :: nat where "MAX_RETAINED_WINDOW_CLOSE_LEASES = 4096"
definition WINDOW_CLOSE_LEASE_TIMEOUT :: duration where "WINDOW_CLOSE_LEASE_TIMEOUT = 5 * 1000000000"

type_synonym window_id = u64
type_synonym texture_id = int

record window_close_texture_lease =
  lease_textures :: "texture_id list"
  expires_at :: instant

record retired_window_close_leases =
  lease_count :: nat
  retired_textures :: "texture_id list"

definition retired_default :: retired_window_close_leases where
  "retired_default = \<lparr>lease_count = 0, retired_textures = []\<rparr>"

record window_close_texture_leases =
  published_windows :: "window_id \<rightharpoonup> texture_id list"
  closing_windows :: "window_id \<rightharpoonup> window_close_texture_lease"
  retained_texture_references :: "texture_id \<rightharpoonup> nat"

definition leases_default :: window_close_texture_leases where
  "leases_default = \<lparr>published_windows = Map.empty, closing_windows = Map.empty, retained_texture_references = Map.empty\<rparr>"

definition retain_reference :: "(texture_id \<rightharpoonup> nat) \<Rightarrow> texture_id \<Rightarrow> (texture_id \<rightharpoonup> nat)" where
  "retain_reference refs t = refs(t \<mapsto> usize_saturating_add (case refs t of None \<Rightarrow> 0 | Some n \<Rightarrow> n) 1)"

definition drop_reference :: "(texture_id \<rightharpoonup> nat) \<Rightarrow> texture_id \<Rightarrow> (texture_id \<rightharpoonup> nat)" where
  "drop_reference refs t =
     (case refs t of None \<Rightarrow> refs | Some n \<Rightarrow> if n - 1 = 0 then refs(t := None) else refs(t \<mapsto> n - 1))"

text \<open>\<open>remove\<close>: whether the window had a lease, whose textures are then appended to the list.\<close>

definition remove_lease ::
  "window_close_texture_leases \<Rightarrow> window_id \<Rightarrow> texture_id list \<Rightarrow> window_close_texture_leases \<times> texture_id list \<times> bool" where
  "remove_lease L w ids =
     (case closing_windows L w of
        None \<Rightarrow> (L, ids, False)
      | Some lease \<Rightarrow>
          (L\<lparr>closing_windows := (closing_windows L)(w := None),
             retained_texture_references := foldl drop_reference (retained_texture_references L) (lease_textures lease)\<rparr>,
           ids @ lease_textures lease, True))"

text \<open>Removes the lease of a window, and counts it when it had one.\<close>

definition retire_lease ::
  "window_close_texture_leases \<times> retired_window_close_leases \<Rightarrow> window_id \<Rightarrow>
     window_close_texture_leases \<times> retired_window_close_leases" where
  "retire_lease = (\<lambda>(L, r) w.
     case remove_lease L w (retired_textures r) of (L', ids, removed) \<Rightarrow>
       (L', r\<lparr>retired_textures := ids, lease_count := (if removed then usize_saturating_add (lease_count r) 1 else lease_count r)\<rparr>))"

text \<open>\<open>min_by_expiry\<close>: the first of the least.\<close>

fun min_by_expiry :: "('a \<Rightarrow> 'k::linorder) \<Rightarrow> 'a list \<Rightarrow> 'a option" where
  "min_by_expiry f [] = None"
| "min_by_expiry f (x # xs) = (case min_by_expiry f xs of None \<Rightarrow> Some x | Some y \<Rightarrow> Some (if f x \<le> f y then x else y))"

definition oldest_lease :: "(window_id set \<Rightarrow> window_id list) \<Rightarrow> window_close_texture_leases \<Rightarrow> window_id option" where
  "oldest_lease iter L =
     min_by_expiry (\<lambda>w. case closing_windows L w of None \<Rightarrow> 0 | Some lease \<Rightarrow> expires_at lease) (iter (dom (closing_windows L)))"

text \<open>The loop that makes room for one more lease; the first argument bounds its turns.\<close>

fun evict_leases ::
  "(window_id set \<Rightarrow> window_id list) \<Rightarrow> nat \<Rightarrow> window_close_texture_leases \<times> retired_window_close_leases \<Rightarrow>
     window_close_texture_leases \<times> retired_window_close_leases" where
  "evict_leases iter 0 s = s"
| "evict_leases iter (Suc n) s =
     (if card (dom (closing_windows (fst s))) < MAX_RETAINED_WINDOW_CLOSE_LEASES then s
      else case oldest_lease iter (fst s) of
        None \<Rightarrow> s
      | Some w \<Rightarrow> evict_leases iter n
          (case remove_lease (fst s) w (retired_textures (snd s)) of (L, ids, removed) \<Rightarrow>
             (L, (snd s)\<lparr>retired_textures := ids, lease_count := usize_saturating_add (lease_count (snd s)) 1\<rparr>)))"

definition close_window ::
  "(window_id set \<Rightarrow> window_id list) \<Rightarrow> instant \<Rightarrow> window_close_texture_leases \<times> retired_window_close_leases \<Rightarrow>
     window_id \<times> texture_id list \<Rightarrow> window_close_texture_leases \<times> retired_window_close_leases" where
  "close_window iter now s = (\<lambda>(w, textures).
     if textures = [] then s
     else
       let s1 = (if closing_windows (fst s) w \<noteq> None then retire_lease s w else s);
           (L, r) = evict_leases iter (card (dom (closing_windows (fst s1)))) s1
       in (L\<lparr>retained_texture_references := foldl retain_reference (retained_texture_references L) textures,
             closing_windows := (closing_windows L)(w \<mapsto>
               \<lparr>lease_textures = textures, expires_at = now + int WINDOW_CLOSE_LEASE_TIMEOUT\<rparr>)\<rparr>, r))"

definition publish_windows ::
  "(window_id set \<Rightarrow> window_id list) \<Rightarrow> window_close_texture_leases \<Rightarrow> (window_id \<rightharpoonup> texture_id list) \<Rightarrow> instant \<Rightarrow>
     window_close_texture_leases \<times> retired_window_close_leases" where
  "publish_windows iter L next_windows now =
     (let previous = published_windows L;
          removed = map (\<lambda>w. (w, the (previous w))) (filter (\<lambda>w. next_windows w = None) (iter (dom previous)))
      in foldl (close_window iter now) (L\<lparr>published_windows := next_windows\<rparr>, retired_default) removed)"

definition complete_close :: "window_close_texture_leases \<Rightarrow> window_id \<Rightarrow> window_close_texture_leases \<times> retired_window_close_leases" where
  "complete_close L w =
     (case remove_lease L w [] of (L', ids, removed) \<Rightarrow> (L', \<lparr>lease_count = (if removed then 1 else 0), retired_textures = ids\<rparr>))"

definition expire_leases ::
  "(window_id set \<Rightarrow> window_id list) \<Rightarrow> window_close_texture_leases \<Rightarrow> instant \<Rightarrow>
     window_close_texture_leases \<times> retired_window_close_leases" where
  "expire_leases iter L now =
     foldl retire_lease (L, retired_default)
       (filter (\<lambda>w. case closing_windows L w of None \<Rightarrow> False | Some lease \<Rightarrow> expires_at lease \<le> now)
          (iter (dom (closing_windows L))))"

definition retains_texture :: "window_close_texture_leases \<Rightarrow> texture_id \<Rightarrow> bool" where
  "retains_texture L t \<longleftrightarrow> retained_texture_references L t \<noteq> None"

section \<open>The books of the leases\<close>

definition lease_refs :: "texture_id multiset \<Rightarrow> (texture_id \<rightharpoonup> nat)" where
  "lease_refs M = (\<lambda>t. if count M t = 0 then None else Some (count M t))"

definition lease_mset :: "window_close_texture_leases \<Rightarrow> texture_id multiset" where
  "lease_mset L = (\<Sum>w\<in>dom (closing_windows L). mset (lease_textures (the (closing_windows L w))))"

definition leases_ok :: "window_close_texture_leases \<Rightarrow> bool" where
  "leases_ok L \<longleftrightarrow> finite (dom (closing_windows L)) \<and> finite (dom (published_windows L)) \<and>
     card (dom (closing_windows L)) \<le> MAX_RETAINED_WINDOW_CLOSE_LEASES \<and>
     retained_texture_references L = lease_refs (lease_mset L)"

text \<open>What a hash map yields: every key once, in any order.\<close>

definition iter_ok :: "('a set \<Rightarrow> 'a list) \<Rightarrow> bool" where
  "iter_ok iter \<longleftrightarrow> (\<forall>A. finite A \<longrightarrow> set (iter A) = A \<and> distinct (iter A))"

lemma drop_references: "foldl drop_reference (lease_refs (mset xs + M)) xs = lease_refs M"
proof (induction xs)
  case (Cons x xs)
  have "drop_reference (lease_refs (mset (x # xs) + M)) x = lease_refs (mset xs + M)"
    by (rule ext) (simp add: drop_reference_def lease_refs_def not_in_iff)
  then show ?case
    using Cons.IH by simp
qed simp

lemma retain_references:
  "size M + length xs \<le> usize_max \<Longrightarrow> foldl retain_reference (lease_refs M) xs = lease_refs (mset xs + M)"
proof (induction xs arbitrary: M)
  case (Cons x xs)
  have "count M x < usize_max"
    using Cons.prems count_le_size [of M x] by simp
  then have "retain_reference (lease_refs M) x = lease_refs (add_mset x M)"
    by (intro ext) (simp add: retain_reference_def lease_refs_def not_in_iff usize_saturating_add_def)
  then show ?case
    using Cons.IH [of "add_mset x M"] Cons.prems by simp
qed simp

lemma lease_mset_split:
  assumes "finite (dom (closing_windows L))" "closing_windows L w = Some lease"
  shows "lease_mset L = mset (lease_textures lease) + lease_mset (L\<lparr>closing_windows := (closing_windows L)(w := None)\<rparr>)"
proof -
  have "lease_mset L = mset (lease_textures (the (closing_windows L w))) +
      (\<Sum>v\<in>dom (closing_windows L) - {w}. mset (lease_textures (the (closing_windows L v))))"
    unfolding lease_mset_def using assms by (intro sum.remove) auto
  also have "(\<Sum>v\<in>dom (closing_windows L) - {w}. mset (lease_textures (the (closing_windows L v)))) =
      lease_mset (L\<lparr>closing_windows := (closing_windows L)(w := None)\<rparr>)"
    unfolding lease_mset_def by (intro sum.cong) auto
  finally show ?thesis
    using assms by simp
qed

lemma lease_mset_insert:
  assumes "finite (dom (closing_windows L))" "closing_windows L w = None"
  shows "lease_mset (L\<lparr>retained_texture_references := refs, closing_windows := (closing_windows L)(w \<mapsto> lease)\<rparr>) =
    mset (lease_textures lease) + lease_mset L"
proof -
  have "(closing_windows L)(w := None) = closing_windows L"
    using assms(2) by auto
  then show ?thesis
    using lease_mset_split [of "L\<lparr>retained_texture_references := refs, closing_windows := (closing_windows L)(w \<mapsto> lease)\<rparr>" w lease] assms(1)
    by (simp add: lease_mset_def)
qed

lemma in_lease_mset:
  "finite (dom (closing_windows L)) \<Longrightarrow>
     t \<in># lease_mset L \<longleftrightarrow> (\<exists>w lease. closing_windows L w = Some lease \<and> t \<in> set (lease_textures lease))"
  unfolding lease_mset_def by (simp add: set_mset_sum) (force simp: dom_def)

text \<open>A step of a fold over the leases keeps the books: what was leased or reported still is.\<close>

definition books :: "window_close_texture_leases \<times> retired_window_close_leases \<Rightarrow> texture_id multiset" where
  "books s = lease_mset (fst s) + mset (retired_textures (snd s))"

lemma remove_lease_ok:
  assumes "leases_ok L" "closing_windows L w = Some lease" "remove_lease L w ids = (L', ids', removed)"
  shows "leases_ok L'" "lease_mset L' + mset ids' = lease_mset L + mset ids" "removed"
    "closing_windows L' = (closing_windows L)(w := None)" "published_windows L' = published_windows L"
    "size (lease_mset L') \<le> size (lease_mset L)"
proof -
  let ?C = "(closing_windows L)(w := None)"
  have fin: "finite (dom (closing_windows L))"
    using assms(1) by (simp add: leases_ok_def)
  have L': "L' = L\<lparr>closing_windows := ?C, retained_texture_references := lease_refs (lease_mset (L\<lparr>closing_windows := ?C\<rparr>))\<rparr>"
    using assms drop_references lease_mset_split [OF fin assms(2)] by (simp add: remove_lease_def leases_ok_def)
  have "card (dom (closing_windows L) - {w}) \<le> card (dom (closing_windows L))"
    using fin by (intro card_mono) auto
  then show "leases_ok L'"
    using assms(1) fin by (auto simp: L' leases_ok_def lease_mset_def)
  show "lease_mset L' + mset ids' = lease_mset L + mset ids"
    using assms(2,3) lease_mset_split [OF fin assms(2)] by (auto simp: remove_lease_def L' lease_mset_def)
  show "size (lease_mset L') \<le> size (lease_mset L)"
    using lease_mset_split [OF fin assms(2)] by (simp add: L' lease_mset_def)
  show "removed" "closing_windows L' = ?C" "published_windows L' = published_windows L"
    using assms(2,3) by (simp_all add: remove_lease_def L')
qed

lemma remove_lease_None: "closing_windows L w = None \<Longrightarrow> remove_lease L w ids = (L, ids, False)"
  by (simp add: remove_lease_def)

lemma retire_lease_ok:
  assumes "leases_ok (fst s)"
  shows "leases_ok (fst (retire_lease s w))" "books (retire_lease s w) = books s"
    "closing_windows (fst (retire_lease s w)) = (closing_windows (fst s))(w := None)"
    "published_windows (fst (retire_lease s w)) = published_windows (fst s)"
    "size (lease_mset (fst (retire_lease s w))) \<le> size (lease_mset (fst s))"
proof -
  obtain L r where s: "s = (L, r)"
    by fastforce
  obtain L' ids removed where step: "remove_lease L w (retired_textures r) = (L', ids, removed)"
    by (metis prod_cases3)
  have "leases_ok L' \<and> lease_mset L' + mset ids = lease_mset L + mset (retired_textures r) \<and>
      closing_windows L' = (closing_windows L)(w := None) \<and> published_windows L' = published_windows L \<and>
      size (lease_mset L') \<le> size (lease_mset L)"
  proof (cases "closing_windows L w")
    case None
    then show ?thesis
      using step assms by (auto simp: s remove_lease_None)
  next
    case (Some lease)
    then show ?thesis
      using remove_lease_ok [OF _ Some step] assms s by simp
  qed
  then show "leases_ok (fst (retire_lease s w))" "books (retire_lease s w) = books s"
      "closing_windows (fst (retire_lease s w)) = (closing_windows (fst s))(w := None)"
      "published_windows (fst (retire_lease s w)) = published_windows (fst s)"
      "size (lease_mset (fst (retire_lease s w))) \<le> size (lease_mset (fst s))"
    using step by (simp_all add: retire_lease_def books_def s)
qed

lemma min_by_expiry_in: "min_by_expiry f xs = Some x \<Longrightarrow> x \<in> set xs"
  by (induction xs arbitrary: x) (auto split: option.splits if_splits)

lemma min_by_expiry_None [simp]: "min_by_expiry f xs = None \<longleftrightarrow> xs = []"
  by (cases xs) (auto split: option.splits)

text \<open>The loop makes room within as many turns as there are leases.\<close>

lemma evict_leases_ok:
  assumes "iter_ok iter"
  shows "leases_ok (fst s) \<Longrightarrow> card (dom (closing_windows (fst s))) \<le> n \<Longrightarrow>
     leases_ok (fst (evict_leases iter n s)) \<and> books (evict_leases iter n s) = books s \<and>
     dom (closing_windows (fst (evict_leases iter n s))) \<subseteq> dom (closing_windows (fst s)) \<and>
     published_windows (fst (evict_leases iter n s)) = published_windows (fst s) \<and>
     size (lease_mset (fst (evict_leases iter n s))) \<le> size (lease_mset (fst s)) \<and>
     card (dom (closing_windows (fst (evict_leases iter n s)))) < MAX_RETAINED_WINDOW_CLOSE_LEASES"
proof (induction n arbitrary: s)
  case 0
  then show ?case
    by (simp add: leases_ok_def MAX_RETAINED_WINDOW_CLOSE_LEASES_def)
next
  case (Suc n)
  show ?case
  proof (cases "card (dom (closing_windows (fst s))) < MAX_RETAINED_WINDOW_CLOSE_LEASES")
    case True
    then show ?thesis
      using Suc.prems by simp
  next
    case False
    have fin: "finite (dom (closing_windows (fst s)))"
      using Suc.prems(1) by (simp add: leases_ok_def)
    then have keys: "set (iter (dom (closing_windows (fst s)))) = dom (closing_windows (fst s))"
      using assms by (simp add: iter_ok_def)
    then have "iter (dom (closing_windows (fst s))) \<noteq> []"
      using False by (auto simp: MAX_RETAINED_WINDOW_CLOSE_LEASES_def)
    then obtain w where w: "oldest_lease iter (fst s) = Some w"
      by (cases "oldest_lease iter (fst s)") (auto simp: oldest_lease_def)
    have "w \<in> set (iter (dom (closing_windows (fst s))))"
      by (rule min_by_expiry_in [OF w [unfolded oldest_lease_def]])
    then obtain lease where lease: "closing_windows (fst s) w = Some lease"
      unfolding keys by blast
    obtain L ids removed where step: "remove_lease (fst s) w (retired_textures (snd s)) = (L, ids, removed)"
      by (metis prod_cases3)
    note ok = remove_lease_ok [OF Suc.prems(1) lease step]
    let ?s = "(L, (snd s)\<lparr>retired_textures := ids, lease_count := usize_saturating_add (lease_count (snd s)) 1\<rparr>)"
    have "card (dom (closing_windows L)) \<le> n"
      using Suc.prems(2) lease by (auto simp: ok(4) card_Diff_singleton_if)
    define s' where "s' = evict_leases iter n ?s"
    have IH: "leases_ok (fst s')" "books s' = books ?s" "dom (closing_windows (fst s')) \<subseteq> dom (closing_windows L)"
        "published_windows (fst s') = published_windows L" "size (lease_mset (fst s')) \<le> size (lease_mset L)"
        "card (dom (closing_windows (fst s'))) < MAX_RETAINED_WINDOW_CLOSE_LEASES"
      using Suc.IH [of ?s, folded s'_def] ok(1) \<open>card (dom (closing_windows L)) \<le> n\<close> by simp_all
    have turn: "evict_leases iter (Suc n) s = s'"
      using False w step by (simp add: s'_def)
    have "dom (closing_windows L) \<subseteq> dom (closing_windows (fst s))" "books ?s = books s"
      using ok(2) by (auto simp: ok(4) books_def)
    then show ?thesis
      unfolding turn using IH ok(5,6) by auto
  qed
qed

lemma close_window_ok:
  assumes iter: "iter_ok iter" and ok: "leases_ok (fst s)" and room: "size (lease_mset (fst s)) + length textures \<le> usize_max"
  shows "leases_ok (fst (close_window iter now s (w, textures)))"
    "books (close_window iter now s (w, textures)) = books s + mset textures"
    "published_windows (fst (close_window iter now s (w, textures))) = published_windows (fst s)"
    "size (lease_mset (fst (close_window iter now s (w, textures)))) \<le> size (lease_mset (fst s)) + length textures"
proof -
  define s1 where "s1 = (if closing_windows (fst s) w \<noteq> None then retire_lease s w else s)"
  have s1: "leases_ok (fst s1)" "books s1 = books s" "closing_windows (fst s1) w = None"
      "published_windows (fst s1) = published_windows (fst s)" "size (lease_mset (fst s1)) \<le> size (lease_mset (fst s))"
    using retire_lease_ok [OF ok, of w] ok by (simp_all add: s1_def)
  define s2 where "s2 = evict_leases iter (card (dom (closing_windows (fst s1)))) s1"
  note s2 = evict_leases_ok [OF iter s1(1) order_refl, folded s2_def]
  obtain L r where L: "s2 = (L, r)"
    by fastforce
  have fin: "finite (dom (closing_windows L))" and free: "closing_windows L w = None"
    using s2 s1(3) by (auto simp: L leases_ok_def)
  let ?L = "L\<lparr>retained_texture_references := foldl retain_reference (retained_texture_references L) textures,
      closing_windows := (closing_windows L)(w \<mapsto> \<lparr>lease_textures = textures, expires_at = now + int WINDOW_CLOSE_LEASE_TIMEOUT\<rparr>)\<rparr>"
  have mset: "lease_mset ?L = mset textures + lease_mset L"
    using lease_mset_insert [OF fin free] by simp
  have "foldl retain_reference (retained_texture_references L) textures = lease_refs (mset textures + lease_mset L)"
    using s2 s1(5) room by (simp add: L leases_ok_def retain_references)
  then have "leases_ok ?L"
    using s2 fin free by (auto simp: L leases_ok_def lease_mset_insert [OF fin free] card_insert_if)
  moreover have "close_window iter now s (w, textures) = (if textures = [] then s else (?L, r))"
    unfolding close_window_def Let_def prod.case s1_def [symmetric] s2_def [symmetric] L ..
  ultimately show "leases_ok (fst (close_window iter now s (w, textures)))"
    "books (close_window iter now s (w, textures)) = books s + mset textures"
    "published_windows (fst (close_window iter now s (w, textures))) = published_windows (fst s)"
    "size (lease_mset (fst (close_window iter now s (w, textures)))) \<le> size (lease_mset (fst s)) + length textures"
    using ok s2 s1 mset by (auto simp: L books_def)
qed

lemma close_windows_ok:
  assumes "iter_ok iter"
  shows "leases_ok (fst s) \<Longrightarrow> size (lease_mset (fst s)) + sum_list (map (length \<circ> snd) ws) \<le> usize_max \<Longrightarrow>
     leases_ok (fst (foldl (close_window iter now) s ws)) \<and>
     books (foldl (close_window iter now) s ws) = books s + sum_list (map (mset \<circ> snd) ws) \<and>
     published_windows (fst (foldl (close_window iter now) s ws)) = published_windows (fst s)"
proof (induction ws arbitrary: s)
  case (Cons w ws)
  have "size (lease_mset (fst s)) + length (snd w) \<le> usize_max"
    using Cons.prems(2) by simp
  note step = close_window_ok [OF assms Cons.prems(1) this, of now "fst w", simplified]
  then show ?case
    using Cons.IH [of "close_window iter now s w"] Cons.prems(2) by (simp add: ac_simps)
qed simp

lemma retire_leases_ok:
  "leases_ok (fst s) \<Longrightarrow>
     leases_ok (fst (foldl retire_lease s ws)) \<and> books (foldl retire_lease s ws) = books s \<and>
     published_windows (fst (foldl retire_lease s ws)) = published_windows (fst s) \<and>
     closing_windows (fst (foldl retire_lease s ws)) = closing_windows (fst s) |` (- set ws)"
proof (induction ws arbitrary: s)
  case (Cons w ws)
  then show ?case
    using retire_lease_ok [OF Cons.prems, of w] Cons.IH [of "retire_lease s w"]
    by (auto simp: restrict_map_def fun_eq_iff)
qed (simp add: restrict_map_def)

lemma complete_close_ok:
  assumes "leases_ok L"
  shows "leases_ok (fst (complete_close L w))" "books (complete_close L w) = lease_mset L"
    "published_windows (fst (complete_close L w)) = published_windows L"
    "closing_windows (fst (complete_close L w)) = (closing_windows L)(w := None)"
proof -
  have same: "fst (complete_close L w) = fst (retire_lease (L, retired_default) w)"
      "books (complete_close L w) = books (retire_lease (L, retired_default) w)"
    by (simp_all add: complete_close_def retire_lease_def retired_default_def books_def split: prod.split)
  have "books (L, retired_default) = lease_mset L"
    by (simp add: books_def retired_default_def)
  then show "leases_ok (fst (complete_close L w))" "books (complete_close L w) = lease_mset L"
      "published_windows (fst (complete_close L w)) = published_windows L"
      "closing_windows (fst (complete_close L w)) = (closing_windows L)(w := None)"
    unfolding same using retire_lease_ok [of "(L, retired_default)" w] assms by simp_all
qed

lemma expire_leases_ok:
  assumes "iter_ok iter" "leases_ok L"
  shows "leases_ok (fst (expire_leases iter L now))" "books (expire_leases iter L now) = lease_mset L"
    "closing_windows (fst (expire_leases iter L now)) =
       (\<lambda>w. case closing_windows L w of None \<Rightarrow> None | Some lease \<Rightarrow> if expires_at lease \<le> now then None else Some lease)"
proof -
  have keys: "set (iter (dom (closing_windows L))) = dom (closing_windows L)"
    using assms by (simp add: iter_ok_def leases_ok_def)
  note step = retire_leases_ok [of "(L, retired_default)"]
  show "leases_ok (fst (expire_leases iter L now))" "books (expire_leases iter L now) = lease_mset L"
    unfolding expire_leases_def using step assms by (simp_all add: books_def retired_default_def)
  show "closing_windows (fst (expire_leases iter L now)) =
       (\<lambda>w. case closing_windows L w of None \<Rightarrow> None | Some lease \<Rightarrow> if expires_at lease \<le> now then None else Some lease)"
    unfolding expire_leases_def using step assms keys
    by (auto simp: restrict_map_def fun_eq_iff split: option.splits)
qed

definition published_total :: "window_close_texture_leases \<Rightarrow> nat" where
  "published_total L = (\<Sum>w\<in>dom (published_windows L). length (the (published_windows L w)))"

text \<open>The textures of the windows that leave the scene.\<close>

definition closing_mset :: "window_close_texture_leases \<Rightarrow> (window_id \<rightharpoonup> texture_id list) \<Rightarrow> texture_id multiset" where
  "closing_mset L next_windows = (\<Sum>w\<in>dom (published_windows L) - dom next_windows. mset (the (published_windows L w)))"

lemma publish_windows_ok:
  assumes iter: "iter_ok iter" and ok: "leases_ok L" and next_ok: "finite (dom next_windows)"
    and room: "size (lease_mset L) + published_total L \<le> usize_max"
  shows "leases_ok (fst (publish_windows iter L next_windows now))"
    "books (publish_windows iter L next_windows now) = lease_mset L + closing_mset L next_windows"
    "published_windows (fst (publish_windows iter L next_windows now)) = next_windows"
proof -
  let ?A = "dom (published_windows L)"
  define ws where "ws = filter (\<lambda>w. next_windows w = None) (iter ?A)"
  define s where "s = (L\<lparr>published_windows := next_windows\<rparr>, retired_default)"
  have fin: "finite ?A"
    using ok by (simp add: leases_ok_def)
  have ws: "distinct ws" "set ws = ?A - dom next_windows"
    using iter fin by (auto simp: iter_ok_def ws_def)
  have s: "leases_ok (fst s)" "lease_mset (fst s) = lease_mset L" "books s = lease_mset L"
    using ok next_ok by (simp_all add: s_def leases_ok_def lease_mset_def books_def retired_default_def)
  have "sum_list (map length (map (\<lambda>w. the (published_windows L w)) ws)) = (\<Sum>w\<in>set ws. length (the (published_windows L w)))"
    using ws(1) by (simp add: sum_list_distinct_conv_sum_set)
  also have "\<dots> \<le> published_total L"
    unfolding published_total_def ws(2) using fin by (intro sum_mono2) auto
  finally have "size (lease_mset (fst s)) + sum_list (map (length \<circ> snd) (map (\<lambda>w. (w, the (published_windows L w))) ws)) \<le> usize_max"
    using room by (simp add: s(2) comp_def)
  note step = close_windows_ok [OF iter s(1) this, of now]
  have run: "publish_windows iter L next_windows now = foldl (close_window iter now) s (map (\<lambda>w. (w, the (published_windows L w))) ws)"
    by (simp add: publish_windows_def ws_def s_def Let_def)
  show "leases_ok (fst (publish_windows iter L next_windows now))"
      "published_windows (fst (publish_windows iter L next_windows now)) = next_windows"
    using step by (simp_all add: run s_def)
  have "sum_list (map (\<lambda>w. mset (the (published_windows L w))) ws) = closing_mset L next_windows"
    unfolding closing_mset_def using ws by (simp add: sum_list_distinct_conv_sum_set)
  then show "books (publish_windows iter L next_windows now) = lease_mset L + closing_mset L next_windows"
    using step by (simp add: run s(3) comp_def)
qed

section \<open>Every history of the leases\<close>

text \<open>The textures of all windows fit in the address space.\<close>

inductive leases_run :: "(window_id set \<Rightarrow> window_id list) \<Rightarrow> window_close_texture_leases \<Rightarrow> bool" for iter where
  leases_start: "leases_run iter leases_default"
| leases_publish: "leases_run iter L \<Longrightarrow> finite (dom next_windows) \<Longrightarrow>
    size (lease_mset L) + published_total L \<le> usize_max \<Longrightarrow> leases_run iter (fst (publish_windows iter L next_windows now))"
| leases_complete: "leases_run iter L \<Longrightarrow> leases_run iter (fst (complete_close L w))"
| leases_expire: "leases_run iter L \<Longrightarrow> leases_run iter (fst (expire_leases iter L now))"

lemma leases_run_ok: "leases_run iter L \<Longrightarrow> iter_ok iter \<Longrightarrow> leases_ok L"
proof (induction rule: leases_run.induct)
  case leases_start
  then show ?case
    by (simp add: leases_ok_def leases_default_def lease_mset_def lease_refs_def)
qed (simp_all add: publish_windows_ok complete_close_ok expire_leases_ok)

text \<open>C6: Whatever order the hash maps yield, in every history a texture is kept exactly while the lease of a closing
  window lists it, at most 4096 leases exist, and publishing, completing and expiring hand back every texture as
  often as a lease on it ends: none is lost and none is handed back twice.\<close>

theorem closing_textures_leased_exactly:
  assumes "iter_ok iter" "leases_run iter L"
  shows "card (dom (closing_windows L)) \<le> MAX_RETAINED_WINDOW_CLOSE_LEASES \<and>
    (\<forall>t. retains_texture L t \<longleftrightarrow> (\<exists>w lease. closing_windows L w = Some lease \<and> t \<in> set (lease_textures lease))) \<and>
    (\<forall>w. lease_mset (fst (complete_close L w)) + mset (retired_textures (snd (complete_close L w))) = lease_mset L \<and>
       closing_windows (fst (complete_close L w)) = (closing_windows L)(w := None)) \<and>
    (\<forall>now. lease_mset (fst (expire_leases iter L now)) + mset (retired_textures (snd (expire_leases iter L now))) = lease_mset L \<and>
       (\<forall>w lease. closing_windows (fst (expire_leases iter L now)) w = Some lease \<longleftrightarrow>
          closing_windows L w = Some lease \<and> now < expires_at lease)) \<and>
    (\<forall>next_windows now. finite (dom next_windows) \<and> size (lease_mset L) + published_total L \<le> usize_max \<longrightarrow>
       lease_mset (fst (publish_windows iter L next_windows now)) +
         mset (retired_textures (snd (publish_windows iter L next_windows now))) =
       lease_mset L + closing_mset L next_windows)"
proof -
  have ok: "leases_ok L"
    by (rule leases_run_ok [OF assms(2,1)])
  have "retains_texture L t \<longleftrightarrow> t \<in># lease_mset L" for t
    using ok by (simp add: retains_texture_def leases_ok_def lease_refs_def not_in_iff)
  then have kept: "retains_texture L t \<longleftrightarrow> (\<exists>w lease. closing_windows L w = Some lease \<and> t \<in> set (lease_textures lease))" for t
    using ok in_lease_mset [of L t] by (simp add: leases_ok_def)
  show ?thesis
    using ok kept complete_close_ok [OF ok] expire_leases_ok [OF assms(1) ok] publish_windows_ok [OF assms(1) ok]
    by (auto simp: leases_ok_def books_def split: option.splits if_splits)
qed

lemma iter_ok_set_iter: "iter_ok (set_iter :: 'a::linorder set \<Rightarrow> 'a list)"
  by (simp add: iter_ok_def set_iter_def)

definition sample_leases :: window_close_texture_leases where
  "sample_leases = fst (publish_windows set_iter leases_default [1 \<mapsto> [7, 7], 2 \<mapsto> [8]] 0)"

lemma closing_textures_leased_exactly_witness:
  "\<not> retains_texture sample_leases 7 \<and>
   lease_mset (fst (publish_windows set_iter sample_leases [2 \<mapsto> [8]] 5)) +
     mset (retired_textures (snd (publish_windows set_iter sample_leases [2 \<mapsto> [8]] 5))) = {#7, 7#}"
proof -
  have sample: "sample_leases = leases_default\<lparr>published_windows := [1 \<mapsto> [7, 7], 2 \<mapsto> [8]]\<rparr>"
    by (simp add: sample_leases_def publish_windows_def leases_default_def set_iter_def)
  have run: "leases_run set_iter sample_leases"
    unfolding sample_leases_def
    by (rule leases_publish [OF leases_start]) (simp_all add: lease_mset_def leases_default_def published_total_def)
  have "closing_mset sample_leases [2 \<mapsto> [8]] = {#7, 7#}"
  proof -
    have "dom (published_windows sample_leases) - dom [2 \<mapsto> [8]] = {1 :: window_id}"
      by (auto simp: sample)
    then show ?thesis
      by (simp add: closing_mset_def sample)
  qed
  moreover have "size (lease_mset sample_leases) + published_total sample_leases \<le> usize_max" "lease_mset sample_leases = {#}"
    by (simp_all add: sample leases_default_def lease_mset_def published_total_def)
  ultimately show ?thesis
    using closing_textures_leased_exactly [OF iter_ok_set_iter run] by (simp add: sample leases_default_def)
qed

end
