(* ===== verification/Texture_Scene.thy ===== *)
theory Texture_Scene
  imports Window_Leases F64 "HOL-Library.Sublist"
begin

text \<open>
  The client textures of the Flutter scene: the slot that holds the generations of one texture
  (\<open>flutter_runtime/renderer/texture.rs\<close>, \<open>renderer/handler.rs\<close>), which outputs show a texture
  (\<open>output_runtime.rs\<close>, \<open>renderer/output_projection.rs\<close>), and when a texture is registered with the engine and
  unregistered again: window scenes (\<open>scene_bridge.rs\<close>), cursors and their acknowledged epochs
  (\<open>cursor_bridge.rs\<close>), screenshots (\<open>service_bridge.rs\<close>) and the leases of closing windows
  (\<open>platform_dispatch.rs\<close>). A source is a type parameter \<open>'s\<close> with the two tests the code makes on it,
  \<open>same_generation\<close> and \<open>generation\<close>; the engine's calls and the encoding of the update are parameters that may fail;
  \<open>order\<close> is the order in which a hash set of textures is listed.
\<close>

section \<open>The slot of a texture\<close>

record 's external_texture_slot =
  current :: "'s option"
  queued :: "'s option"
  lookahead :: "'s option"
  current_sampled :: bool
  expects_sample :: bool

definition slot_default :: "'s external_texture_slot" where
  "slot_default = \<lparr>current = None, queued = None, lookahead = None, current_sampled = False, expects_sample = False\<rparr>"

definition is_some_and :: "('a \<Rightarrow> bool) \<Rightarrow> 'a option \<Rightarrow> bool" where
  "is_some_and P x = (case x of None \<Rightarrow> False | Some y \<Rightarrow> P y)"

definition slot_queue ::
  "('s \<Rightarrow> 's \<Rightarrow> bool) \<Rightarrow> 's external_texture_slot \<Rightarrow> 's \<Rightarrow> bool \<Rightarrow> 's external_texture_slot \<times> bool" where
  "slot_queue same_generation slot source expects =
     (let slot = slot\<lparr>expects_sample := expects\<rparr>;
          matches = is_some_and (\<lambda>candidate. same_generation candidate source)
      in if matches (queued slot) \<or> matches (lookahead slot) \<or> matches (current slot) then (slot, False)
         else if queued slot = None then (slot\<lparr>queued := Some source\<rparr>, True)
         else (slot\<lparr>lookahead := Some source\<rparr>, True))"

definition slot_advance :: "'s external_texture_slot \<Rightarrow> 's external_texture_slot \<times> bool" where
  "slot_advance slot =
     (if queued slot = None \<or> (current slot \<noteq> None \<and> \<not> current_sampled slot \<and> expects_sample slot) then (slot, False)
      else (slot\<lparr>current := queued slot, queued := lookahead slot, lookahead := None, current_sampled := False\<rparr>, True))"

definition has_queued :: "'s external_texture_slot \<Rightarrow> bool" where
  "has_queued slot \<longleftrightarrow> queued slot \<noteq> None"

record 's external_texture_frame =
  frame_texture :: texture_id
  frame_source :: 's
  frame_expects_sample :: bool

text \<open>Both components of the results below: the sources and the textures that changed, in the order they were pushed.\<close>

definition set_source ::
  "('s \<Rightarrow> 's \<Rightarrow> bool) \<Rightarrow> (texture_id \<rightharpoonup> 's external_texture_slot) \<times> texture_id list \<Rightarrow> 's external_texture_frame \<Rightarrow>
     (texture_id \<rightharpoonup> 's external_texture_slot) \<times> texture_id list" where
  "set_source same_generation = (\<lambda>(sources, changed_ids) fr.
     let old = (case sources (frame_texture fr) of None \<Rightarrow> slot_default | Some slot \<Rightarrow> slot);
         (slot, changed_now) = slot_queue same_generation old (frame_source fr) (frame_expects_sample fr)
     in (sources(frame_texture fr \<mapsto> slot), if changed_now then changed_ids @ [frame_texture fr] else changed_ids))"

definition set_external_texture_sources ::
  "('s \<Rightarrow> 's \<Rightarrow> bool) \<Rightarrow> (texture_id \<rightharpoonup> 's external_texture_slot) \<Rightarrow> 's external_texture_frame list \<Rightarrow>
     (texture_id \<rightharpoonup> 's external_texture_slot) \<times> texture_id list" where
  "set_external_texture_sources same_generation sources frames = foldl (set_source same_generation) (sources, []) frames"

definition advance_source ::
  "(texture_id \<rightharpoonup> 's external_texture_slot) \<times> texture_id list \<Rightarrow> texture_id \<Rightarrow>
     (texture_id \<rightharpoonup> 's external_texture_slot) \<times> texture_id list" where
  "advance_source = (\<lambda>(sources, deferred) t.
     case sources t of
       None \<Rightarrow> (sources, deferred)
     | Some slot \<Rightarrow>
         let slot' = fst (slot_advance slot)
         in (sources(t \<mapsto> slot'), if has_queued slot' then deferred @ [t] else deferred))"

definition advance_external_texture_sources ::
  "(texture_id \<rightharpoonup> 's external_texture_slot) \<Rightarrow> texture_id list \<Rightarrow> (texture_id \<rightharpoonup> 's external_texture_slot) \<times> texture_id list" where
  "advance_external_texture_sources sources ids = foldl advance_source (sources, []) ids"

definition advance_each ::
  "(texture_id \<rightharpoonup> 's external_texture_slot) \<times> texture_id list \<Rightarrow> texture_id \<Rightarrow>
     (texture_id \<rightharpoonup> 's external_texture_slot) \<times> texture_id list" where
  "advance_each = (\<lambda>(sources, changed_ids) t.
     case sources t of
       None \<Rightarrow> (sources, changed_ids)
     | Some slot \<Rightarrow>
         let (slot', advanced) = slot_advance slot
         in (sources(t \<mapsto> slot'), if advanced then changed_ids @ [t] else changed_ids))"

definition advance_all_external_texture_sources ::
  "(texture_id set \<Rightarrow> texture_id list) \<Rightarrow> (texture_id \<rightharpoonup> 's external_texture_slot) \<Rightarrow> texture_id list \<Rightarrow>
     (texture_id \<rightharpoonup> 's external_texture_slot) \<times> texture_id list" where
  "advance_all_external_texture_sources order sources changed_ids = foldl advance_each (sources, changed_ids) (order (dom sources))"

definition mark_external_texture_sampled ::
  "('s \<Rightarrow> u64) \<Rightarrow> (texture_id \<rightharpoonup> 's external_texture_slot) \<Rightarrow> texture_id \<Rightarrow> u64 \<Rightarrow> (texture_id \<rightharpoonup> 's external_texture_slot)" where
  "mark_external_texture_sampled generation sources t g =
     (case sources t of
        None \<Rightarrow> sources
      | Some slot \<Rightarrow>
          if is_some_and (\<lambda>source. generation source = g) (current slot)
          then sources(t \<mapsto> slot\<lparr>current_sampled := True\<rparr>) else sources)"

section \<open>Windows and outputs\<close>


record runtime_render_output =
  ro_output_id :: output_id
  ro_logical_x :: f64
  ro_logical_y :: f64
  ro_logical_width :: f64
  ro_logical_height :: f64







section \<open>The textures of the runtime\<close>

record 's texture_scene =
  sources :: "texture_id \<rightharpoonup> 's external_texture_slot"
  registered :: "texture_id set"
  scene_ids :: "texture_id set"
  cursor_ids :: "texture_id set"
  cursor_output :: "output_id option"
  cursor_epoch :: u64
  retired_cursors :: "u64 \<rightharpoonup> texture_id set"
  screenshot_id :: "texture_id option"
  leases :: window_close_texture_leases
  pending_frame_ids :: "texture_id list"
  membership :: "texture_id \<rightharpoonup> output_id list"
  render_outputs :: "runtime_render_output list"
  output_updates :: "output_id \<rightharpoonup> texture_id set"

definition add_update :: "texture_id \<Rightarrow> (output_id \<rightharpoonup> texture_id set) \<Rightarrow> output_id \<Rightarrow> (output_id \<rightharpoonup> texture_id set)" where
  "add_update t updates out = updates(out \<mapsto> insert t (case updates out of None \<Rightarrow> {} | Some ts \<Rightarrow> ts))"

definition stage_changed_textures :: "'s texture_scene \<Rightarrow> texture_id list \<Rightarrow> 's texture_scene" where
  "stage_changed_textures st changed_ids =
     st\<lparr>output_updates := foldl (\<lambda>updates t.
         case membership st t of
           Some outputs \<Rightarrow> foldl (add_update t) updates outputs
         | None \<Rightarrow> foldl (add_update t) updates (map ro_output_id (render_outputs st))) (output_updates st) changed_ids\<rparr>"

definition install_cursor_texture_membership :: "'s texture_scene \<Rightarrow> texture_id set \<Rightarrow> 's texture_scene" where
  "install_cursor_texture_membership st ids =
     (let kept = (\<lambda>t. if t \<in> cursor_ids st then None else membership st t) in
      case cursor_output st of
        None \<Rightarrow> st\<lparr>membership := kept\<rparr>
      | Some out \<Rightarrow> st\<lparr>membership := (\<lambda>t. if t \<in> ids then Some [out] else kept t)\<rparr>)"

definition queue_sources :: "('s \<Rightarrow> 's \<Rightarrow> bool) \<Rightarrow> 's texture_scene \<Rightarrow> 's external_texture_frame list \<Rightarrow> 's texture_scene" where
  "queue_sources same_generation st frames =
     (case set_external_texture_sources same_generation (sources st) frames of (new, changed_ids) \<Rightarrow>
        stage_changed_textures (st\<lparr>sources := new\<rparr>) changed_ids)"





















section \<open>What a texture is needed for\<close>





text \<open>The parts of the state that say what is in use.\<close>

definition same_uses :: "'s texture_scene \<Rightarrow> 's texture_scene \<Rightarrow> bool" where
  "same_uses st st' \<longleftrightarrow> scene_ids st' = scene_ids st \<and> cursor_ids st' = cursor_ids st \<and> retired_cursors st' = retired_cursors st \<and>
     screenshot_id st' = screenshot_id st \<and> leases st' = leases st"



lemma set_sources_dom:
  "dom (fst (foldl (set_source g) s frames)) = dom (fst s) \<union> frame_texture ` set frames"
  by (induction frames arbitrary: s) (auto simp: set_source_def split: prod.splits)


lemma queue_sources_dom [simp]:
  "dom (sources (queue_sources g st frames)) = dom (sources st) \<union> frame_texture ` set frames"
proof -
  have "sources (queue_sources g st frames) = fst (foldl (set_source g) (sources st, []) frames)"
    by (simp add: queue_sources_def stage_changed_textures_def set_external_texture_sources_def split: prod.splits)
  then show ?thesis
    by (simp only: set_sources_dom fst_conv)
qed

lemma install_membership_simps [simp]:
  "registered (install_cursor_texture_membership st ids) = registered st" "same_uses st (install_cursor_texture_membership st ids)"
  "sources (install_cursor_texture_membership st ids) = sources st" "cursor_epoch (install_cursor_texture_membership st ids) = cursor_epoch st"
  by (auto simp: install_cursor_texture_membership_def same_uses_def Let_def split: option.splits)










section \<open>Each operation keeps what is in use\<close>






















section \<open>Every history of the textures\<close>










section \<open>What a slot shows\<close>

text \<open>A slot with the sources it accepted and those it made current, oldest first, whether the current one has been sampled
  since, and whether the last update expected a sample.\<close>

inductive slot_run :: "('s \<Rightarrow> 's \<Rightarrow> bool) \<Rightarrow> 's external_texture_slot \<Rightarrow> 's list \<Rightarrow> 's list \<Rightarrow> bool \<Rightarrow> bool \<Rightarrow> bool" for same_generation where
  slot_new: "slot_run same_generation slot_default [] [] False False"
| slot_queued: "slot_run same_generation slot accepted shown sampled expected \<Longrightarrow>
    slot_queue same_generation slot source expects = (slot', new) \<Longrightarrow>
    slot_run same_generation slot' (if new then accepted @ [source] else accepted) shown sampled expects"
| slot_advanced: "slot_run same_generation slot accepted shown sampled expected \<Longrightarrow> slot_advance slot = (slot', advanced) \<Longrightarrow>
    slot_run same_generation slot' accepted (if advanced then shown @ [the (current slot')] else shown) (sampled \<and> \<not> advanced) expected"
| slot_sampled: "slot_run same_generation slot accepted shown sampled expected \<Longrightarrow> current slot \<noteq> None \<Longrightarrow>
    slot_run same_generation (slot\<lparr>current_sampled := True\<rparr>) accepted shown True expected"

definition slot_pending :: "'s external_texture_slot \<Rightarrow> 's list" where
  "slot_pending slot = (case queued slot of None \<Rightarrow> [] | Some q \<Rightarrow> q # (case lookahead slot of None \<Rightarrow> [] | Some l \<Rightarrow> [l]))"

definition texture_slot_inv :: "'s external_texture_slot \<Rightarrow> 's list \<Rightarrow> 's list \<Rightarrow> bool" where
  "texture_slot_inv slot accepted shown \<longleftrightarrow> (queued slot = None \<longrightarrow> lookahead slot = None) \<and>
     current slot = (if shown = [] then None else Some (last shown)) \<and>
     subseq (shown @ slot_pending slot) accepted \<and>
     (accepted \<noteq> [] \<longrightarrow> shown @ slot_pending slot \<noteq> [] \<and> last (shown @ slot_pending slot) = last accepted)"

lemma slot_pending_simps [simp]:
  "slot_pending (slot\<lparr>expects_sample := e\<rparr>) = slot_pending slot"
  "slot_pending (slot\<lparr>current_sampled := e\<rparr>) = slot_pending slot"
  by (simp_all add: slot_pending_def split: option.split)

lemma slot_run_flags: "slot_run same_generation slot accepted shown sampled expected \<Longrightarrow>
  current_sampled slot = sampled \<and> expects_sample slot = expected"
  by (induction rule: slot_run.induct)
    (auto simp: slot_default_def slot_queue_def slot_advance_def Let_def split: if_splits)

lemma slot_run_inv: "slot_run same_generation slot accepted shown sampled expected \<Longrightarrow> texture_slot_inv slot accepted shown"
proof (induction rule: slot_run.induct)
  case slot_new
  then show ?case
    by (simp add: texture_slot_inv_def slot_default_def slot_pending_def)
next
  case (slot_queued slot accepted shown sampled expected source expects slot' new)
  note inv = slot_queued.IH [unfolded texture_slot_inv_def]
  consider "slot' = slot\<lparr>expects_sample := expects\<rparr>" "\<not> new"
    | "queued slot = None" "slot' = slot\<lparr>expects_sample := expects, queued := Some source\<rparr>" "new"
    | q where "queued slot = Some q" "slot' = slot\<lparr>expects_sample := expects, lookahead := Some source\<rparr>" "new"
    using slot_queued.hyps(2) by (auto simp: slot_queue_def Let_def split: if_splits)
  then show ?case
  proof cases
    case 1
    then show ?thesis
      using inv by (simp add: texture_slot_inv_def)
  next
    case 2
    then show ?thesis
      using inv by (simp add: texture_slot_inv_def slot_pending_def)
  next
    case (3 q)
    have "subseq (shown @ [q]) (shown @ slot_pending slot)"
      using 3(1) by (simp add: slot_pending_def subseq_append' split: option.splits)
    then have "subseq ((shown @ [q]) @ [source]) (accepted @ [source])"
      using inv by (simp only: subseq_append) (blast intro: subseq_order.trans)
    then have "subseq (shown @ [q, source]) (accepted @ [source])"
      by (simp only: append_assoc append_Cons append_Nil)
    then show ?thesis
      using inv 3 by (simp add: texture_slot_inv_def slot_pending_def)
  qed
next
  case (slot_advanced slot accepted shown sampled expected slot' advanced)
  then show ?case
    by (auto simp: texture_slot_inv_def slot_advance_def slot_pending_def split: if_splits option.splits)
qed (simp add: texture_slot_inv_def)

text \<open>C17: The sources that a texture slot shows are those it accepted, in their order and only superseded ones left out; it
  accepts a source exactly when it is of another generation than those it holds; the newest accepted source is always
  current or waiting, and the one that is next stays next, whatever arrives. A tick shows the next source exactly when
  there is one and the current one has been sampled since it was shown, or no sample is expected; so when the current
  one was sampled, two ticks with a sample in between show the newest.\<close>

theorem texture_slot_shows_newest:
  assumes "slot_run same_generation slot accepted shown sampled expected"
  shows "subseq shown accepted \<and> current slot = (if shown = [] then None else Some (last shown)) \<and>
    (accepted \<noteq> [] \<longrightarrow> Some (last accepted) \<in> {current slot, queued slot, lookahead slot}) \<and>
    (\<forall>source expects. snd (slot_queue same_generation slot source expects) \<longleftrightarrow>
       (\<forall>held. Some held \<in> {current slot, queued slot, lookahead slot} \<longrightarrow> \<not> same_generation held source)) \<and>
    (\<forall>source expects. queued slot \<noteq> None \<longrightarrow> queued (fst (slot_queue same_generation slot source expects)) = queued slot) \<and>
    (snd (slot_advance slot) \<longleftrightarrow> queued slot \<noteq> None \<and> (shown = [] \<or> sampled \<or> \<not> expected)) \<and>
    current (fst (slot_advance slot)) = (if snd (slot_advance slot) then queued slot else current slot) \<and>
    (accepted \<noteq> [] \<and> (shown = [] \<or> sampled \<or> \<not> expected) \<longrightarrow>
       current (fst (slot_advance ((fst (slot_advance slot))\<lparr>current_sampled := True\<rparr>))) = Some (last accepted))"
proof -
  have inv: "texture_slot_inv slot accepted shown"
    by (rule slot_run_inv [OF assms])
  then have "subseq shown accepted"
    using subseq_order.trans [OF subseq_rev_drop_many [OF subseq_order.order_refl]] by (auto simp: texture_slot_inv_def)
  moreover have "snd (slot_queue same_generation slot source expects) \<longleftrightarrow>
      (\<forall>held. Some held \<in> {current slot, queued slot, lookahead slot} \<longrightarrow> \<not> same_generation held source)"
    "queued slot \<noteq> None \<Longrightarrow> queued (fst (slot_queue same_generation slot source expects)) = queued slot" for source expects
    by (auto simp: slot_queue_def Let_def is_some_and_def split: option.splits)
  moreover have "current (fst (slot_advance slot)) = (if snd (slot_advance slot) then queued slot else current slot)"
    by (simp add: slot_advance_def)
  moreover have "snd (slot_advance slot) \<longleftrightarrow> queued slot \<noteq> None \<and> (shown = [] \<or> sampled \<or> \<not> expected)"
    using inv slot_run_flags [OF assms] by (auto simp: slot_advance_def texture_slot_inv_def)
  moreover have "accepted \<noteq> [] \<and> (shown = [] \<or> sampled \<or> \<not> expected) \<longrightarrow>
      current (fst (slot_advance ((fst (slot_advance slot))\<lparr>current_sampled := True\<rparr>))) = Some (last accepted)"
    using inv slot_run_flags [OF assms]
    by (auto simp: texture_slot_inv_def slot_pending_def slot_advance_def split: option.splits if_splits)
  moreover have "accepted \<noteq> [] \<longrightarrow> Some (last accepted) \<in> {current slot, queued slot, lookahead slot}"
    using inv by (auto simp: texture_slot_inv_def slot_pending_def split: option.splits if_splits)
  ultimately show ?thesis
    using inv by (simp add: texture_slot_inv_def)
qed

lemma texture_slot_shows_newest_witness:
  "current (fst (slot_advance ((fst (slot_advance (fst (slot_queue (=) slot_default (5 :: nat) False))))\<lparr>current_sampled := True\<rparr>))) = Some 5"
proof -
  have "slot_run (=) (fst (slot_queue (=) slot_default (5 :: nat) False)) [5] [] False False"
    using slot_queued [OF slot_new, of "(=)" "5 :: nat" False] by (simp add: slot_queue_def slot_default_def is_some_and_def)
  from texture_slot_shows_newest [OF this] show ?thesis
    by (simp add: slot_queue_def slot_default_def is_some_and_def)
qed

end
