(* ===== verification/Touch_Gestures.thy ===== *)
theory Touch_Gestures
  imports Shortcut_Syntax F64
begin

text \<open>
  The touch-screen gestures on windows (\<open>compositor/src/bin/deniald/wayland_frontend/touch_gestures.rs\<close>): one finger on
  a corner moves a window, two fingers pinch it or swipe it away from its strip, three swipe up, four crush it. A slot
  is the number of a finger on the device, a point a pair of \<open>f64\<close>. \<open>hyp\<close> is \<open>f64::hypot\<close>, whose precision is not
  specified. An index or an \<open>expect\<close> that fails is \<open>None\<close>. Arrays of fixed size are lists.
\<close>

section \<open>Types\<close>

type_synonym touch_point = "f64 \<times> f64"

record window_geometry =
  wg_x :: f64
  wg_y :: f64
  wg_width :: f64
  wg_height :: f64

datatype window_placement_phase = PlacementBegin | PlacementUpdate | PlacementEnd
datatype window_placement_change = PlacementMove | PlacementResize | PlacementLayoutPreview

definition MOVE_SLOP :: f64 where "MOVE_SLOP = Finite 4"
definition MINIMIZE_SWIPE_DISTANCE :: f64 where "MINIMIZE_SWIPE_DISTANCE = Finite 96"
definition PINCH_SLOP :: f64 where "PINCH_SLOP = Finite 16"
definition PINCH_TRANSLATION_DOMINANCE :: f64 where "PINCH_TRANSLATION_DOMINANCE = Finite (3 / 2)"
definition TOUCH_SWIPE_DISTANCE :: f64 where "TOUCH_SWIPE_DISTANCE = Finite 100"
definition SWIPE_DIRECTION_DOMINANCE :: f64 where "SWIPE_DIRECTION_DOMINANCE = Finite (3 / 2)"
definition FOUR_FINGER_INWARD_SLOP :: f64 where "FOUR_FINGER_INWARD_SLOP = Finite 8"
definition FOUR_FINGER_CRUSH_DISTANCE :: f64 where "FOUR_FINGER_CRUSH_DISTANCE = Finite 32"
definition MIN_LOCAL_WINDOW_DIMENSION :: f64 where "MIN_LOCAL_WINDOW_DIMENSION = Finite 64"
definition MAX_WINDOW_DIMENSION :: f64 where "MAX_WINDOW_DIMENSION = Finite 16384"

record touch_window_target =
  tt_window :: u64
  tt_geometry :: window_geometry
  in_gesture_strip :: bool
  in_move_corner :: bool
  tt_locked :: bool

datatype touch_window_action =
    Placement u64 window_placement_phase window_placement_change window_geometry
  | MinimizeWindow u64 | CloseWindow u64 | TouchShortcut shortcut_gesture

record touch_gesture_update =
  tu_consume :: bool
  tu_captured :: "int list"
  tu_actions :: "touch_window_action list"

record contact =
  ct_position :: touch_point
  ct_target :: "touch_window_target option"
  ct_captured :: bool

datatype touch_gesture =
    TouchMove (move_slot: int) u64 touch_point window_geometry window_geometry bool bool
  | PinchCandidate "int list" u64 "touch_point list" window_geometry "bool list"
  | Pinch "int list" u64 "touch_point list" window_geometry window_geometry
  | MinimizeSwipe "int list" u64 touch_point
  | ThreeFinger "int list" u64 touch_point
  | FourFinger "int list" u64 touch_point "f64 list" "bool list"
  | BlockedGesture u64

record touch_state =
  contacts :: "int \<rightharpoonup> contact"
  gesture :: "touch_gesture option"

definition no_update :: touch_gesture_update where
  "no_update = \<lparr>tu_consume = False, tu_captured = [], tu_actions = []\<rparr>"

definition touch_state_default :: touch_state where
  "touch_state_default = \<lparr>contacts = Map.empty, gesture = None\<rparr>"

section \<open>Geometry\<close>

definition point_sub :: "touch_point \<Rightarrow> touch_point \<Rightarrow> touch_point" where
  "point_sub a b = (f64_sub (fst a) (fst b), f64_sub (snd a) (snd b))"

definition center_of_two :: "touch_point list \<Rightarrow> touch_point" where
  "center_of_two ps = (f64_mul (f64_add (fst (ps ! 0)) (fst (ps ! 1))) (Finite (1 / 2)),
     f64_mul (f64_add (snd (ps ! 0)) (snd (ps ! 1))) (Finite (1 / 2)))"

definition point_distance :: "(f64 \<Rightarrow> f64 \<Rightarrow> f64) \<Rightarrow> touch_point \<Rightarrow> touch_point \<Rightarrow> f64" where
  "point_distance hyp first second = hyp (f64_sub (fst second) (fst first)) (f64_sub (snd second) (snd first))"

definition finite_dimension :: "f64 \<Rightarrow> f64 \<Rightarrow> f64" where
  "finite_dimension value minimum =
     (if f64_is_finite value then f64_clamp (f64_round value) minimum MAX_WINDOW_DIMENSION else minimum)"

definition intentional_pinch :: "(f64 \<Rightarrow> f64 \<Rightarrow> f64) \<Rightarrow> touch_point list \<Rightarrow> touch_point list \<Rightarrow> bool" where
  "intentional_pinch hyp initial current =
     (let first_motion = point_sub (current ! 0) (initial ! 0);
          second_motion = point_sub (current ! 1) (initial ! 1);
          opposing_motion = f64_le (f64_add (f64_mul (fst first_motion) (fst second_motion))
            (f64_mul (snd first_motion) (snd second_motion))) (Finite 0);
          initial_distance = point_distance hyp (initial ! 0) (initial ! 1);
          current_distance = point_distance hyp (current ! 0) (current ! 1);
          separation_change = f64_abs (f64_sub current_distance initial_distance);
          translation = point_sub (center_of_two current) (center_of_two initial)
      in opposing_motion \<and> f64_le PINCH_SLOP separation_change \<and>
         f64_le (f64_mul (hyp (fst translation) (snd translation)) PINCH_TRANSLATION_DOMINANCE) separation_change)"

definition directional_pinch_geometry :: "window_geometry \<Rightarrow> touch_point list \<Rightarrow> touch_point list \<Rightarrow> window_geometry" where
  "directional_pinch_geometry geometry initial current =
     (let center_delta = point_sub (center_of_two current) (center_of_two initial);
          initial_separation = point_sub (initial ! 1) (initial ! 0);
          current_separation = point_sub (current ! 1) (current ! 0);
          width = finite_dimension (f64_sub (f64_add (wg_width geometry) (f64_abs (fst current_separation)))
            (f64_abs (fst initial_separation))) MIN_LOCAL_WINDOW_DIMENSION;
          height = finite_dimension (f64_sub (f64_add (wg_height geometry) (f64_abs (snd current_separation)))
            (f64_abs (snd initial_separation))) MIN_LOCAL_WINDOW_DIMENSION;
          center_x = f64_add (f64_add (wg_x geometry) (f64_mul (wg_width geometry) (Finite (1 / 2)))) (fst center_delta);
          center_y = f64_add (f64_add (wg_y geometry) (f64_mul (wg_height geometry) (Finite (1 / 2)))) (snd center_delta)
      in \<lparr>wg_x = f64_sub center_x (f64_mul width (Finite (1 / 2))), wg_y = f64_sub center_y (f64_mul height (Finite (1 / 2))),
          wg_width = width, wg_height = height\<rparr>)"

fun inward_crush_loop :: "f64 \<Rightarrow> (f64 \<times> f64) list \<Rightarrow> bool" where
  "inward_crush_loop travel [] = f64_le FOUR_FINGER_CRUSH_DISTANCE (f64_div travel (Finite 4))"
| "inward_crush_loop travel ((initial_distance, current_distance) # rest) =
     (let inward_travel = f64_sub initial_distance current_distance
      in if f64_lt inward_travel FOUR_FINGER_INWARD_SLOP then False
         else inward_crush_loop (f64_add travel inward_travel) rest)"

definition inward_crush :: "f64 list \<Rightarrow> f64 list \<Rightarrow> bool" where
  "inward_crush initial current = inward_crush_loop (Finite 0) (zip initial current)"

section \<open>Contacts\<close>

fun gesture_window :: "touch_gesture \<Rightarrow> u64" where
  "gesture_window (TouchMove s w p i l started locked) = w"
| "gesture_window (PinchCandidate ss w ps i moved) = w"
| "gesture_window (Pinch ss w ps i l) = w"
| "gesture_window (MinimizeSwipe ss w p) = w"
| "gesture_window (ThreeFinger ss w p) = w"
| "gesture_window (FourFinger ss w c ds moved) = w"
| "gesture_window (BlockedGesture w) = w"

fun gesture_includes :: "touch_gesture \<Rightarrow> int \<Rightarrow> bool" where
  "gesture_includes (TouchMove s w p i l started locked) slot \<longleftrightarrow> s = slot"
| "gesture_includes (PinchCandidate ss w ps i moved) slot \<longleftrightarrow> slot \<in> set ss"
| "gesture_includes (Pinch ss w ps i l) slot \<longleftrightarrow> slot \<in> set ss"
| "gesture_includes (MinimizeSwipe ss w p) slot \<longleftrightarrow> slot \<in> set ss"
| "gesture_includes (ThreeFinger ss w p) slot \<longleftrightarrow> slot \<in> set ss"
| "gesture_includes (FourFinger ss w c ds moved) slot \<longleftrightarrow> slot \<in> set ss"
| "gesture_includes (BlockedGesture w) slot \<longleftrightarrow> True"

fun finish_action :: "touch_gesture \<Rightarrow> touch_window_action option" where
  "finish_action (TouchMove s w p i l True locked) = Some (Placement w PlacementEnd PlacementMove l)"
| "finish_action (Pinch ss w ps i l) = Some (Placement w PlacementEnd PlacementResize l)"
| "finish_action g = None"

definition option_list :: "'a option \<Rightarrow> 'a list" where
  "option_list x = (case x of None \<Rightarrow> [] | Some a \<Rightarrow> [a])"

definition contact_on :: "contact \<Rightarrow> u64 \<Rightarrow> bool" where
  "contact_on c w \<longleftrightarrow> (case ct_target c of None \<Rightarrow> False | Some t \<Rightarrow> tt_window t = w)"

definition window_slots :: "touch_state \<Rightarrow> u64 \<Rightarrow> int list" where
  "window_slots st w = filter (\<lambda>s. case contacts st s of None \<Rightarrow> False | Some c \<Rightarrow> contact_on c w) (set_iter (dom (contacts st)))"

text \<open>The slots that were not captured before.\<close>

fun capture_slots :: "(int \<rightharpoonup> contact) \<Rightarrow> int list \<Rightarrow> (int \<rightharpoonup> contact) \<times> int list" where
  "capture_slots cs [] = (cs, [])"
| "capture_slots cs (slot # slots) =
     (case cs slot of
        None \<Rightarrow> capture_slots cs slots
      | Some c \<Rightarrow>
          let (cs', captured) = capture_slots (cs(slot \<mapsto> c\<lparr>ct_captured := True\<rparr>)) slots
          in (cs', if ct_captured c then captured else slot # captured))"

definition contacts_in_gesture_strip :: "touch_state \<Rightarrow> int list \<Rightarrow> bool" where
  "contacts_in_gesture_strip st slots = list_all (\<lambda>slot. case Option.bind (contacts st slot) ct_target of
     None \<Rightarrow> False | Some t \<Rightarrow> in_gesture_strip t) slots"

fun contact_positions :: "(int \<rightharpoonup> contact) \<Rightarrow> int list \<Rightarrow> touch_point list option" where
  "contact_positions cs [] = Some []"
| "contact_positions cs (slot # slots) =
     Option.bind (cs slot) (\<lambda>c. map_option (\<lambda>ps. ct_position c # ps) (contact_positions cs slots))"

definition contact_center :: "(int \<rightharpoonup> contact) \<Rightarrow> int list \<Rightarrow> touch_point option" where
  "contact_center cs slots = map_option center_of_two (contact_positions cs slots)"

definition three_contact_center :: "(int \<rightharpoonup> contact) \<Rightarrow> int list \<Rightarrow> touch_point option" where
  "three_contact_center cs slots = map_option (\<lambda>ps.
     (f64_div (f64_add (f64_add (fst (ps ! 0)) (fst (ps ! 1))) (fst (ps ! 2))) (Finite 3),
      f64_div (f64_add (f64_add (snd (ps ! 0)) (snd (ps ! 1))) (snd (ps ! 2))) (Finite 3))) (contact_positions cs slots)"

definition contact_distances :: "(f64 \<Rightarrow> f64 \<Rightarrow> f64) \<Rightarrow> (int \<rightharpoonup> contact) \<Rightarrow> int list \<Rightarrow> touch_point \<Rightarrow> f64 list option" where
  "contact_distances hyp cs slots center = map_option (map (\<lambda>p. point_distance hyp p center)) (contact_positions cs slots)"

definition has_captured_window_contact :: "touch_state \<Rightarrow> u64 \<Rightarrow> bool" where
  "has_captured_window_contact st w \<longleftrightarrow> (\<exists>c\<in>ran (contacts st). ct_captured c \<and> contact_on c w)"

section \<open>Beginning a gesture\<close>

text \<open>The update that takes the slots over.\<close>

definition captured_update :: "touch_state \<Rightarrow> int list \<Rightarrow> touch_window_action list \<Rightarrow> touch_state \<times> touch_gesture_update" where
  "captured_update st slots acts =
     (let (cs, captured) = capture_slots (contacts st) slots
      in (st\<lparr>contacts := cs\<rparr>, \<lparr>tu_consume = True, tu_captured = captured, tu_actions = acts\<rparr>))"

definition begin_four_finger ::
  "(f64 \<Rightarrow> f64 \<Rightarrow> f64) \<Rightarrow> touch_state \<Rightarrow> int list \<Rightarrow> touch_window_target \<Rightarrow> (touch_state \<times> touch_gesture_update) option" where
  "begin_four_finger hyp st ordered target =
     (let slots = take 4 ordered;
          center = (f64_add (wg_x (tt_geometry target)) (f64_mul (wg_width (tt_geometry target)) (Finite (1 / 2))),
            f64_add (wg_y (tt_geometry target)) (f64_mul (wg_height (tt_geometry target)) (Finite (1 / 2))))
      in if length slots \<noteq> 4 then None
         else Option.bind (contact_distances hyp (contacts st) slots center) (\<lambda>initial_distances.
           let acts = option_list (Option.bind (gesture st) finish_action)
           in Some (captured_update (st\<lparr>gesture :=
             Some (FourFinger slots (tt_window target) center initial_distances (replicate 4 False))\<rparr>) slots acts)))"

definition begin_three_finger :: "touch_state \<Rightarrow> int list \<Rightarrow> u64 \<Rightarrow> (touch_state \<times> touch_gesture_update) option" where
  "begin_three_finger st ordered w =
     (let slots = take 3 ordered
      in if length slots \<noteq> 3 then None
         else Option.bind (three_contact_center (contacts st) slots) (\<lambda>origin.
           let acts = option_list (Option.bind (gesture st) finish_action)
           in Some (captured_update (st\<lparr>gesture := Some (ThreeFinger slots w origin)\<rparr>) slots acts)))"

definition begin_minimize_swipe :: "touch_state \<Rightarrow> int list \<Rightarrow> u64 \<Rightarrow> (touch_state \<times> touch_gesture_update) option" where
  "begin_minimize_swipe st slots w =
     Option.bind (contact_center (contacts st) slots) (\<lambda>origin.
       Some (captured_update (st\<lparr>gesture := Some (MinimizeSwipe slots w origin)\<rparr>) slots []))"

text \<open>Without the positions nothing begins.\<close>

definition begin_pinch_candidate :: "touch_state \<Rightarrow> int list \<Rightarrow> window_geometry \<Rightarrow> touch_state option" where
  "begin_pinch_candidate st slots initial_geometry =
     (case contact_positions (contacts st) slots of
        None \<Rightarrow> Some st
      | Some initial_positions \<Rightarrow>
          Option.bind (Option.bind (contacts st (slots ! 0)) ct_target) (\<lambda>t.
            Some (st\<lparr>gesture := Some (PinchCandidate slots (tt_window t) initial_positions initial_geometry [False, False])\<rparr>)))"

definition promote_move_to_two_fingers ::
  "touch_state \<Rightarrow> touch_gesture \<Rightarrow> int list \<Rightarrow> touch_window_target \<Rightarrow> (touch_state \<times> touch_gesture_update) option" where
  "promote_move_to_two_fingers st move ordered target =
     (let slots = take 2 ordered;
          both_in_gesture_strip = contacts_in_gesture_strip st slots
      in if length slots \<noteq> 2 then None
         else if \<not> both_in_gesture_strip \<and> tt_locked target then Some (st, no_update)
         else
           let acts = option_list (finish_action move)
           in if both_in_gesture_strip
              then Option.bind (contact_center (contacts st) slots) (\<lambda>origin.
                Some (captured_update (st\<lparr>gesture := Some (MinimizeSwipe slots (tt_window target) origin)\<rparr>) slots acts))
              else (case move of
                  TouchMove s w p i last_geometry started locked \<Rightarrow>
                    map_option (\<lambda>st'. (st', no_update\<lparr>tu_actions := acts\<rparr>)) (begin_pinch_candidate st slots last_geometry)
                | _ \<Rightarrow> None))"

section \<open>Events of a finger\<close>

definition captured_at :: "touch_state \<Rightarrow> int \<Rightarrow> bool" where
  "captured_at st slot \<longleftrightarrow> (case contacts st slot of None \<Rightarrow> False | Some c \<Rightarrow> ct_captured c)"

definition is_touch_move :: "touch_gesture \<Rightarrow> bool" where
  "is_touch_move g \<longleftrightarrow> (case g of TouchMove s w p i l started locked \<Rightarrow> True | _ \<Rightarrow> False)"

definition is_three_finger :: "touch_gesture option \<Rightarrow> bool" where
  "is_three_finger g \<longleftrightarrow> (case g of Some (ThreeFinger ss w p) \<Rightarrow> True | _ \<Rightarrow> False)"

definition is_four_finger :: "touch_gesture option \<Rightarrow> bool" where
  "is_four_finger g \<longleftrightarrow> (case g of Some (FourFinger ss w c ds moved) \<Rightarrow> True | _ \<Rightarrow> False)"

definition touch_down ::
  "(f64 \<Rightarrow> f64 \<Rightarrow> f64) \<Rightarrow> touch_state \<Rightarrow> int \<Rightarrow> touch_point \<Rightarrow> touch_window_target option \<Rightarrow>
     (touch_state \<times> touch_gesture_update) option" where
  "touch_down hyp st0 slot position0 target0 =
     (let st = st0\<lparr>contacts := (contacts st0)(slot \<mapsto> \<lparr>ct_position = position0, ct_target = target0, ct_captured = False\<rparr>)\<rparr>
      in case target0 of
           None \<Rightarrow> Some (st, no_update)
         | Some target \<Rightarrow>
             let w = tt_window target;
                 same_window = window_slots st w;
                 own = (case gesture st of None \<Rightarrow> True | Some g \<Rightarrow> gesture_window g = w)
             in if gesture st = Some (BlockedGesture w) then Some (captured_update st [slot] [])
                else if 4 \<le> length same_window \<and> own
                then (if is_four_finger (gesture st) then Some (captured_update st [slot] [])
                  else begin_four_finger hyp st same_window target)
                else if 3 \<le> length same_window \<and> own
                then (if is_three_finger (gesture st) then Some (captured_update st [slot] [])
                  else begin_three_finger st same_window w)
                else
                  (case gesture st of
                     Some g \<Rightarrow>
                       if gesture_window g = w
                       then (if is_touch_move g \<and> length same_window = 2 then promote_move_to_two_fingers st g same_window target
                         else Some (st, no_update\<lparr>tu_consume := captured_at st slot\<rparr>))
                       else Some (st, no_update)
                   | None \<Rightarrow>
                       let uncaptured = filter (\<lambda>s. contacts st s \<noteq> None \<and> \<not> captured_at st s) same_window
                       in if length uncaptured = 2
                          then (if contacts_in_gesture_strip st uncaptured then begin_minimize_swipe st uncaptured w
                            else if tt_locked target then Some (st, no_update)
                            else map_option (\<lambda>st'. (st', no_update)) (begin_pinch_candidate st uncaptured (tt_geometry target)))
                          else if in_move_corner target
                          then Some (captured_update (st\<lparr>gesture :=
                            Some (TouchMove slot w position0 (tt_geometry target) (tt_geometry target) False (tt_locked target))\<rparr>) [slot] [])
                          else Some (st, no_update)))"

text \<open>What a captured finger does to the gesture: the gesture afterwards, and the actions.\<close>

definition move_gesture ::
  "(f64 \<Rightarrow> f64 \<Rightarrow> f64) \<Rightarrow> (int \<rightharpoonup> contact) \<Rightarrow> touch_gesture \<Rightarrow> int \<Rightarrow> touch_point \<Rightarrow> touch_gesture \<times> touch_window_action list" where
  "move_gesture hyp cs g slot pos =
     (case g of
        TouchMove s w origin initial l started locked \<Rightarrow>
          if s = slot \<and> \<not> locked
          then
            let delta = point_sub pos origin;
                last' = initial\<lparr>wg_x := f64_add (wg_x initial) (fst delta), wg_y := f64_add (wg_y initial) (snd delta)\<rparr>
            in if started \<or> f64_le (f64_mul MOVE_SLOP MOVE_SLOP)
                 (f64_add (f64_mul (fst delta) (fst delta)) (f64_mul (snd delta) (snd delta)))
               then (TouchMove s w origin initial last' True locked,
                 (if started then [] else [Placement w PlacementBegin PlacementMove initial]) @
                   [Placement w PlacementUpdate PlacementMove last'])
               else (g, [])
          else (g, [])
      | Pinch ss w initial_positions initial l \<Rightarrow>
          if slot \<in> set ss
          then (case contact_positions cs ss of
                  None \<Rightarrow> (g, [])
                | Some current \<Rightarrow>
                    let last' = directional_pinch_geometry initial initial_positions current
                    in (Pinch ss w initial_positions initial last', [Placement w PlacementUpdate PlacementResize last']))
          else (g, [])
      | MinimizeSwipe ss w origin \<Rightarrow>
          if slot \<in> set ss
          then (case contact_center cs ss of
                  None \<Rightarrow> (g, [])
                | Some center \<Rightarrow>
                    let delta = point_sub center origin
                    in if f64_le MINIMIZE_SWIPE_DISTANCE (snd delta) \<and> f64_le (f64_abs (fst delta)) (snd delta)
                       then (BlockedGesture w, [MinimizeWindow w]) else (g, []))
          else (g, [])
      | ThreeFinger ss w origin \<Rightarrow>
          if slot \<in> set ss
          then (case three_contact_center cs ss of
                  None \<Rightarrow> (g, [])
                | Some center \<Rightarrow>
                    let delta = point_sub center origin;
                        upward = f64_neg (snd delta)
                    in if f64_le TOUCH_SWIPE_DISTANCE upward \<and> f64_le (f64_mul (f64_abs (fst delta)) SWIPE_DIRECTION_DOMINANCE) upward
                       then (BlockedGesture w, [TouchShortcut ThreeFingerSwipeUp]) else (g, []))
          else (g, [])
      | FourFinger ss w center initial_distances moved \<Rightarrow>
          (case position (\<lambda>s. s = slot) ss of
             None \<Rightarrow> (g, [])
           | Some i \<Rightarrow>
               let moved' = moved[i := True]
               in if list_all id moved' \<and> (case contact_distances hyp cs ss center of
                    None \<Rightarrow> False | Some current \<Rightarrow> inward_crush initial_distances current)
                  then (BlockedGesture w, [CloseWindow w])
                  else (FourFinger ss w center initial_distances moved', []))
      | _ \<Rightarrow> (g, []))"

definition touch_motion ::
  "(f64 \<Rightarrow> f64 \<Rightarrow> f64) \<Rightarrow> touch_state \<Rightarrow> int \<Rightarrow> touch_point \<Rightarrow> touch_state \<times> touch_gesture_update" where
  "touch_motion hyp st0 slot pos =
     (case contacts st0 slot of
        None \<Rightarrow> (st0, no_update)
      | Some c \<Rightarrow>
          let st = st0\<lparr>contacts := (contacts st0)(slot \<mapsto> c\<lparr>ct_position := pos\<rparr>)\<rparr>;
              captured = ct_captured c;
              pinching = (case gesture st of Some (PinchCandidate ss w ps i moved) \<Rightarrow> position (\<lambda>s. s = slot) ss | _ \<Rightarrow> None)
          in (case (gesture st, pinching) of
                (Some (PinchCandidate ss w initial_positions initial moved), Some i) \<Rightarrow>
                  let moved' = moved[i := True];
                      current = contact_positions (contacts st) ss
                  in (case current of
                        Some current_positions \<Rightarrow>
                          if list_all id moved' \<and> intentional_pinch hyp initial_positions current_positions
                          then
                            let geometry' = directional_pinch_geometry initial initial_positions current_positions
                            in captured_update (st\<lparr>gesture := Some (Pinch ss w initial_positions initial geometry')\<rparr>) ss
                              [Placement w PlacementBegin PlacementResize initial, Placement w PlacementUpdate PlacementResize geometry']
                          else (st\<lparr>gesture := Some (PinchCandidate ss w initial_positions initial moved')\<rparr>, no_update\<lparr>tu_consume := captured\<rparr>)
                      | None \<Rightarrow>
                          (st\<lparr>gesture := Some (PinchCandidate ss w initial_positions initial moved')\<rparr>, no_update\<lparr>tu_consume := captured\<rparr>))
              | _ \<Rightarrow>
                  if \<not> captured then (st, no_update)
                  else
                    (case gesture st of
                       None \<Rightarrow> (st, no_update\<lparr>tu_consume := True\<rparr>)
                     | Some g \<Rightarrow>
                         let (g', acts) = move_gesture hyp (contacts st) g slot pos
                         in (st\<lparr>gesture := Some g'\<rparr>, \<lparr>tu_consume = True, tu_captured = [], tu_actions = acts\<rparr>))))"

definition keeps_blocked :: "touch_gesture \<Rightarrow> bool" where
  "keeps_blocked g \<longleftrightarrow> (case g of TouchMove s w p i l started locked \<Rightarrow> False | PinchCandidate ss w ps i moved \<Rightarrow> False | _ \<Rightarrow> True)"

definition finish_contact :: "touch_state \<Rightarrow> int \<Rightarrow> touch_state \<times> touch_gesture_update" where
  "finish_contact st0 slot =
     (case contacts st0 slot of
        None \<Rightarrow> (st0, no_update)
      | Some c \<Rightarrow>
          let st = st0\<lparr>contacts := (contacts st0)(slot := None)\<rparr>;
              update = no_update\<lparr>tu_consume := ct_captured c\<rparr>
          in (case gesture st of
                None \<Rightarrow> (st, update)
              | Some g \<Rightarrow>
                  if \<not> gesture_includes g slot then (st, update)
                  else (case g of
                      PinchCandidate ss w ps i moved \<Rightarrow> (st\<lparr>gesture := None\<rparr>, update)
                    | _ \<Rightarrow>
                        (st\<lparr>gesture := if has_captured_window_contact st (gesture_window g) \<and> keeps_blocked g
                           then Some (BlockedGesture (gesture_window g)) else None\<rparr>,
                         update\<lparr>tu_actions := option_list (finish_action g)\<rparr>))))"

definition cancel_all :: "touch_state \<Rightarrow> touch_state \<times> touch_window_action list" where
  "cancel_all st = (\<lparr>contacts = Map.empty, gesture = None\<rparr>, option_list (Option.bind (gesture st) finish_action))"

section \<open>The placements of a window\<close>

type_synonym open_placement = "(u64 \<times> window_placement_change \<times> window_geometry) option"

definition proper_dimension :: "f64 \<Rightarrow> bool" where
  "proper_dimension v \<longleftrightarrow> (\<exists>n :: int. v = Finite (of_int n) \<and> 64 \<le> n \<and> n \<le> 16384)"

text \<open>A move keeps the size, a resize gives a proper size.\<close>

definition placement_follows :: "window_placement_change \<Rightarrow> window_geometry \<Rightarrow> window_geometry \<Rightarrow> bool" where
  "placement_follows change before g = (case change of
     PlacementMove \<Rightarrow> wg_width g = wg_width before \<and> wg_height g = wg_height before
   | PlacementResize \<Rightarrow> proper_dimension (wg_width g) \<and> proper_dimension (wg_height g)
   | PlacementLayoutPreview \<Rightarrow> False)"

text \<open>Reads the actions: a placement begins when none is open, is updated and ended for its own window, change and last
  geometry, and nothing else happens while it is open. \<open>None\<close> for a violation.\<close>

fun read_action :: "open_placement \<Rightarrow> touch_window_action \<Rightarrow> open_placement option" where
  "read_action None (Placement w PlacementBegin change g) = (if change = PlacementLayoutPreview then None else Some (Some (w, change, g)))"
| "read_action (Some (w', change', g')) (Placement w PlacementUpdate change g) =
     (if w = w' \<and> change = change' \<and> placement_follows change g' g then Some (Some (w, change, g)) else None)"
| "read_action (Some (w', change', g')) (Placement w PlacementEnd change g) =
     (if w = w' \<and> change = change' \<and> g = g' then Some None else None)"
| "read_action None (MinimizeWindow w) = Some None"
| "read_action None (CloseWindow w) = Some None"
| "read_action None (TouchShortcut g) = Some None"
| "read_action p a = None"

fun read_actions :: "open_placement \<Rightarrow> touch_window_action list \<Rightarrow> open_placement option" where
  "read_actions p [] = Some p"
| "read_actions p (a # as) = Option.bind (read_action p a) (\<lambda>p'. read_actions p' as)"

lemma read_actions_append: "read_actions p (as @ bs) = Option.bind (read_actions p as) (\<lambda>p'. read_actions p' bs)"
  by (induction as arbitrary: p) (auto split: Option.bind_splits)

fun placement_of :: "touch_gesture option \<Rightarrow> open_placement" where
  "placement_of (Some (TouchMove s w p i l True locked)) = Some (w, PlacementMove, l)"
| "placement_of (Some (Pinch ss w ps i l)) = Some (w, PlacementResize, l)"
| "placement_of g = None"

lemma read_finish: "read_actions (placement_of g) (option_list (Option.bind g finish_action)) = Some None"
  by (cases g rule: placement_of.cases) (simp_all add: option_list_def)

section \<open>What holds of the gestures\<close>

definition gesture_ok :: "(int \<rightharpoonup> contact) \<Rightarrow> touch_gesture \<Rightarrow> bool" where
  "gesture_ok cs g \<longleftrightarrow> (case g of
     TouchMove s w p i l started locked \<Rightarrow> s \<in> dom cs \<and> wg_width l = wg_width i \<and> wg_height l = wg_height i
   | PinchCandidate ss w ps i moved \<Rightarrow> ss \<noteq> [] \<and> set ss \<subseteq> dom cs
   | Pinch ss w ps i l \<Rightarrow> ss \<noteq> [] \<and> set ss \<subseteq> dom cs
   | MinimizeSwipe ss w p \<Rightarrow> ss \<noteq> [] \<and> set ss \<subseteq> dom cs
   | ThreeFinger ss w p \<Rightarrow> ss \<noteq> [] \<and> set ss \<subseteq> dom cs
   | FourFinger ss w c ds moved \<Rightarrow> ss \<noteq> [] \<and> set ss \<subseteq> dom cs
   | BlockedGesture w \<Rightarrow> dom cs \<noteq> {})"

definition touch_ok :: "touch_state \<Rightarrow> bool" where
  "touch_ok st \<longleftrightarrow> finite (dom (contacts st)) \<and> (case gesture st of None \<Rightarrow> True | Some g \<Rightarrow> gesture_ok (contacts st) g)"

lemma gesture_ok_dom: "gesture_ok cs g \<Longrightarrow> dom cs \<subseteq> dom cs' \<Longrightarrow> gesture_ok cs' g"
  by (cases g; simp add: gesture_ok_def; blast)

lemma capture_slots_fst:
  "fst (capture_slots cs slots) slot = map_option (\<lambda>c. c\<lparr>ct_captured := ct_captured c \<or> slot \<in> set slots\<rparr>) (cs slot)"
proof (induction slots arbitrary: cs)
  case Nil
  show ?case
    by (cases "cs slot") simp_all
next
  case (Cons s slots)
  show ?case
  proof (cases "cs s")
    case None
    then show ?thesis
      using Cons.IH [of cs] by (cases "slot = s") (auto simp: option.map_comp)
  next
    case (Some c)
    define cs1 where "cs1 = cs(s \<mapsto> c\<lparr>ct_captured := True\<rparr>)"
    have "fst (capture_slots cs (s # slots)) = fst (capture_slots cs1 slots)"
      by (simp add: Some cs1_def case_prod_beta Let_def)
    moreover have "cs1 slot = (if slot = s then Some (c\<lparr>ct_captured := True\<rparr>) else cs slot)"
      by (simp add: cs1_def)
    ultimately show ?thesis
      using Cons.IH [of cs1] Some by (cases "slot = s"; cases "cs slot") simp_all
  qed
qed

lemma capture_slots_dom [simp]: "dom (fst (capture_slots cs slots)) = dom cs"
  by (auto simp: capture_slots_fst)

lemma contact_positions_Some: "set slots \<subseteq> dom cs \<Longrightarrow> \<exists>ps. contact_positions cs slots = Some ps"
  by (induction slots) auto

lemma captured_update_simps [simp]:
  "contacts (fst (captured_update st slots acts)) = fst (capture_slots (contacts st) slots)"
  "gesture (fst (captured_update st slots acts)) = gesture st"
  "tu_consume (snd (captured_update st slots acts))"
  "tu_captured (snd (captured_update st slots acts)) = snd (capture_slots (contacts st) slots)"
  "tu_actions (snd (captured_update st slots acts)) = acts"
  by (simp_all add: captured_update_def split: prod.splits)

lemma window_slots_props:
  assumes "finite (dom (contacts st))"
  shows "distinct (window_slots st w)" "set (window_slots st w) \<subseteq> dom (contacts st)"
    "s \<in> set (window_slots st w) \<longleftrightarrow> (\<exists>c. contacts st s = Some c \<and> contact_on c w)"
  using assms by (auto simp: window_slots_def split: option.splits)

text \<open>Actions that close the placement of a gesture, and what every event does to it.\<close>

definition follows :: "touch_gesture option \<Rightarrow> touch_window_action list \<Rightarrow> touch_gesture option \<Rightarrow> bool" where
  "follows g acts g' \<longleftrightarrow> read_actions (placement_of g) acts = Some (placement_of g')"

lemma follows_none [simp]: "follows g [] g"
  by (simp add: follows_def)

lemma follows_finish: "placement_of g' = None \<Longrightarrow> follows g (option_list (Option.bind g finish_action)) g'"
  by (simp add: follows_def read_finish)

lemma proper_finite_dimension: "proper_dimension (finite_dimension v MIN_LOCAL_WINDOW_DIMENSION)"
proof (cases v)
  case (Finite x)
  have "clamp (of_int (rat_round x)) 64 16384 = (of_int (clamp (rat_round x) 64 16384) :: rat)"
    by (simp add: clamp_def)
  then show ?thesis
    using clamp_bounds [of 64 16384 "rat_round x"]
    by (auto simp: Finite finite_dimension_def MIN_LOCAL_WINDOW_DIMENSION_def MAX_WINDOW_DIMENSION_def proper_dimension_def)
qed (auto simp: finite_dimension_def MIN_LOCAL_WINDOW_DIMENSION_def proper_dimension_def intro: exI [of _ 64])

lemma pinch_follows: "placement_follows PlacementResize before (directional_pinch_geometry g ps qs)"
  by (simp add: placement_follows_def directional_pinch_geometry_def Let_def proper_finite_dimension)

definition good_update :: "touch_state \<Rightarrow> touch_state \<times> touch_gesture_update \<Rightarrow> bool" where
  "good_update st r \<longleftrightarrow> touch_ok (fst r) \<and> follows (gesture st) (tu_actions (snd r)) (gesture (fst r))"

lemma good_captured_update:
  assumes "touch_ok st'" "follows (gesture st) acts (gesture st')"
  shows "good_update st (captured_update st' slots acts)"
  using assms gesture_ok_dom [of "contacts st'" _ "fst (capture_slots (contacts st') slots)"]
  by (auto simp: good_update_def touch_ok_def split: option.splits)

lemma take_ne: "length (take n xs) = Suc k \<Longrightarrow> take n xs \<noteq> []"
  by auto

lemma begin_four_good:
  assumes "finite (dom (contacts st))" "set ordered \<subseteq> dom (contacts st)" "4 \<le> length ordered"
  shows "\<exists>r. begin_four_finger hyp st ordered target = Some r \<and> good_update st r"
proof -
  have slots: "set (take 4 ordered) \<subseteq> dom (contacts st)" "length (take 4 ordered) = 4" "take 4 ordered \<noteq> []"
    using assms(2,3) set_take_subset [of 4 ordered] by auto
  obtain ps where "contact_positions (contacts st) (take 4 ordered) = Some ps"
    using contact_positions_Some [OF slots(1)] by blast
  then show ?thesis
    using assms(1) slots
    by (auto simp: begin_four_finger_def Let_def contact_distances_def touch_ok_def gesture_ok_def
        intro!: good_captured_update follows_finish)
qed

lemma begin_three_good:
  assumes "finite (dom (contacts st))" "set ordered \<subseteq> dom (contacts st)" "3 \<le> length ordered"
  shows "\<exists>r. begin_three_finger st ordered w = Some r \<and> good_update st r"
proof -
  have slots: "set (take 3 ordered) \<subseteq> dom (contacts st)" "length (take 3 ordered) = 3" "take 3 ordered \<noteq> []"
    using assms(2,3) set_take_subset [of 3 ordered] by auto
  obtain ps where "contact_positions (contacts st) (take 3 ordered) = Some ps"
    using contact_positions_Some [OF slots(1)] by blast
  then show ?thesis
    using assms(1) slots
    by (auto simp: begin_three_finger_def Let_def three_contact_center_def touch_ok_def gesture_ok_def
        intro!: good_captured_update follows_finish)
qed

lemma begin_minimize_good:
  assumes "finite (dom (contacts st))" "set slots \<subseteq> dom (contacts st)" "slots \<noteq> []" "gesture st = None"
  shows "\<exists>r. begin_minimize_swipe st slots w = Some r \<and> good_update st r"
proof -
  obtain ps where "contact_positions (contacts st) slots = Some ps"
    using contact_positions_Some [OF assms(2)] by blast
  then show ?thesis
    using assms
    by (auto simp: begin_minimize_swipe_def contact_center_def touch_ok_def gesture_ok_def follows_def intro!: good_captured_update)
qed

lemma begin_pinch_good:
  assumes "finite (dom (contacts st))" "set slots \<subseteq> dom (contacts st)" "slots \<noteq> []" "Option.bind (contacts st (slots ! 0)) ct_target \<noteq> None"
  shows "\<exists>st'. begin_pinch_candidate st slots g = Some st' \<and> touch_ok st' \<and> placement_of (gesture st') = None"
proof -
  obtain ps where "contact_positions (contacts st) slots = Some ps"
    using contact_positions_Some [OF assms(2)] by blast
  moreover obtain c t where "contacts st (slots ! 0) = Some c" "ct_target c = Some t"
    using assms(4) by (cases "contacts st (slots ! 0)") auto
  ultimately show ?thesis
    using assms(1-3) by (auto simp: begin_pinch_candidate_def touch_ok_def gesture_ok_def)
qed

lemma window_slot_target:
  assumes "finite (dom (contacts st))" "s \<in> set (window_slots st w)"
  shows "Option.bind (contacts st s) ct_target \<noteq> None"
  using assms window_slots_props(3) [OF assms(1)] by (auto simp: contact_on_def split: option.splits)

lemma promote_good:
  assumes "touch_ok st" "gesture st = Some g" "is_touch_move g" "length (window_slots st w) = 2"
  shows "\<exists>r. promote_move_to_two_fingers st g (window_slots st w) target = Some r \<and> good_update st r"
proof -
  let ?slots = "window_slots st w"
  have fin: "finite (dom (contacts st))"
    using assms(1) by (simp add: touch_ok_def)
  have slots: "set ?slots \<subseteq> dom (contacts st)" "?slots \<noteq> []" "take 2 ?slots = ?slots"
    using window_slots_props(2) [OF fin] assms(4) by auto
  then have first: "Option.bind (contacts st (?slots ! 0)) ct_target \<noteq> None"
    using window_slot_target [OF fin, of "?slots ! 0" w] assms(4) by simp
  obtain s w' p i l started locked where g: "g = TouchMove s w' p i l started locked"
    using assms(3) by (auto simp: is_touch_move_def split: touch_gesture.splits)
  consider (strip) "contacts_in_gesture_strip st ?slots" | (locked) "\<not> contacts_in_gesture_strip st ?slots" "tt_locked target"
    | (pinch) "\<not> contacts_in_gesture_strip st ?slots" "\<not> tt_locked target"
    by blast
  then show ?thesis
  proof cases
    case strip
    obtain ps where "contact_positions (contacts st) ?slots = Some ps"
      using contact_positions_Some [OF slots(1)] by blast
    moreover have "follows (gesture st) (option_list (finish_action g)) (Some (MinimizeSwipe ?slots (tt_window target) (center_of_two ps)))"
      using follows_finish [of "Some (MinimizeSwipe ?slots (tt_window target) (center_of_two ps))" "gesture st"] assms(2) by simp
    ultimately show ?thesis
      using strip slots fin assms(4)
      by (auto simp: promote_move_to_two_fingers_def Let_def contact_center_def touch_ok_def gesture_ok_def
          simp del: split_paired_Ex split_paired_All intro!: good_captured_update)
  next
    case locked
    then show ?thesis
      using assms(1,4) slots(3) by (simp add: promote_move_to_two_fingers_def good_update_def no_update_def)
  next
    case pinch
    obtain st' where st': "begin_pinch_candidate st ?slots l = Some st'" "touch_ok st'" "placement_of (gesture st') = None"
      using begin_pinch_good [OF fin slots(1,2) first] by blast
    then have "follows (gesture st) (option_list (finish_action g)) (gesture st')"
      using follows_finish [OF st'(3), of "gesture st"] assms(2) by simp
    then show ?thesis
      using pinch st' g slots(3) assms(4) by (simp add: promote_move_to_two_fingers_def good_update_def)
  qed
qed

lemma good_no_update: "touch_ok st' \<Longrightarrow> gesture st' = gesture st \<Longrightarrow> good_update st (st', no_update\<lparr>tu_consume := c\<rparr>)"
  by (simp add: good_update_def no_update_def)

lemma no_update_consume: "no_update = no_update\<lparr>tu_consume := False\<rparr>"
  by (simp add: no_update_def)

lemma good_update_cong: "gesture st = gesture st' \<Longrightarrow> good_update st r = good_update st' r"
  by (simp add: good_update_def)

lemma touch_ok_contact: "touch_ok st \<Longrightarrow> touch_ok (st\<lparr>contacts := (contacts st)(slot \<mapsto> c)\<rparr>)"
proof -
  assume ok: "touch_ok st"
  have "dom (contacts st) \<subseteq> dom ((contacts st)(slot \<mapsto> c))"
    by auto
  then show "touch_ok (st\<lparr>contacts := (contacts st)(slot \<mapsto> c)\<rparr>)"
    using ok gesture_ok_dom by (auto simp: touch_ok_def split: option.splits)
qed

lemma touch_down_good:
  assumes "touch_ok st0"
  shows "\<exists>r. touch_down hyp st0 slot pos target0 = Some r \<and> good_update st0 r"
proof (cases target0)
  case None
  have "touch_ok (st0\<lparr>contacts := (contacts st0)(slot \<mapsto> \<lparr>ct_position = pos, ct_target = target0, ct_captured = False\<rparr>)\<rparr>)"
    by (rule touch_ok_contact [OF assms])
  then show ?thesis
    using good_no_update [of _ st0 False] no_update_consume by (simp add: touch_down_def None)
next
  case (Some target)
  define st where "st = st0\<lparr>contacts := (contacts st0)(slot \<mapsto> \<lparr>ct_position = pos, ct_target = target0, ct_captured = False\<rparr>)\<rparr>"
  let ?w = "tt_window target"
  let ?same = "window_slots st ?w"
  have same: "gesture st = gesture st0"
    by (simp add: st_def)
  have ok: "touch_ok st"
    unfolding st_def by (rule touch_ok_contact [OF assms])
  then have fin: "finite (dom (contacts st))"
    by (simp add: touch_ok_def)
  have slots: "set ?same \<subseteq> dom (contacts st)"
    by (rule window_slots_props(2) [OF fin])
  have captured: "good_update st (captured_update st [slot] [])"
    by (rule good_captured_update [OF ok]) simp
  have none: "good_update st (st, no_update\<lparr>tu_consume := c\<rparr>)" for c
    by (rule good_no_update [OF ok]) simp
  define uncaptured where "uncaptured = filter (\<lambda>s. contacts st s \<noteq> None \<and> \<not> captured_at st s) ?same"
  have pair: "\<exists>r. begin_minimize_swipe st uncaptured ?w = Some r \<and> good_update st r"
      "\<exists>st'. begin_pinch_candidate st uncaptured (tt_geometry target) = Some st' \<and> good_update st (st', no_update)"
    if "gesture st = None" "length uncaptured = 2"
  proof -
    have "set uncaptured \<subseteq> dom (contacts st)" "uncaptured \<noteq> []" "uncaptured ! 0 \<in> set ?same"
      using slots that(2) nth_mem [of 0 uncaptured] by (auto simp: uncaptured_def)
    then show "\<exists>r. begin_minimize_swipe st uncaptured ?w = Some r \<and> good_update st r"
        "\<exists>st'. begin_pinch_candidate st uncaptured (tt_geometry target) = Some st' \<and> good_update st (st', no_update)"
      using begin_minimize_good [OF fin _ _ that(1), of uncaptured ?w]
        begin_pinch_good [OF fin _ _ window_slot_target [OF fin, of "uncaptured ! 0" ?w], of "tt_geometry target"] that(1)
      by (fastforce simp: good_update_def follows_def no_update_def simp del: split_paired_Ex)+
  qed
  have corner: "good_update st (captured_update (st\<lparr>gesture :=
      Some (TouchMove slot ?w pos (tt_geometry target) (tt_geometry target) False (tt_locked target))\<rparr>) [slot] [])" if "gesture st = None"
    using fin that by (intro good_captured_update) (auto simp: touch_ok_def gesture_ok_def follows_def st_def)
  define own where "own \<longleftrightarrow> (case gesture st of None \<Rightarrow> True | Some g \<Rightarrow> gesture_window g = ?w)"
  have down: "touch_down hyp st0 slot pos target0 =
      (if gesture st = Some (BlockedGesture ?w) then Some (captured_update st [slot] [])
       else if 4 \<le> length ?same \<and> own
       then (if is_four_finger (gesture st) then Some (captured_update st [slot] []) else begin_four_finger hyp st ?same target)
       else if 3 \<le> length ?same \<and> own
       then (if is_three_finger (gesture st) then Some (captured_update st [slot] []) else begin_three_finger st ?same ?w)
       else (case gesture st of
           Some g \<Rightarrow>
             if gesture_window g = ?w
             then (if is_touch_move g \<and> length ?same = 2 then promote_move_to_two_fingers st g ?same target
               else Some (st, no_update\<lparr>tu_consume := captured_at st slot\<rparr>))
             else Some (st, no_update)
         | None \<Rightarrow>
             if length uncaptured = 2
             then (if contacts_in_gesture_strip st uncaptured then begin_minimize_swipe st uncaptured ?w
               else if tt_locked target then Some (st, no_update)
               else map_option (\<lambda>st'. (st', no_update)) (begin_pinch_candidate st uncaptured (tt_geometry target)))
             else if in_move_corner target
             then Some (captured_update (st\<lparr>gesture :=
               Some (TouchMove slot ?w pos (tt_geometry target) (tt_geometry target) False (tt_locked target))\<rparr>) [slot] [])
             else Some (st, no_update)))"
    unfolding touch_down_def Let_def st_def uncaptured_def own_def Some option.case
    by (rule refl)
  have "\<exists>r. touch_down hyp st0 slot pos target0 = Some r \<and> good_update st r"
  proof (cases "gesture st = Some (BlockedGesture ?w) \<or> 3 \<le> length ?same \<and> own")
    case True
    then show ?thesis
      using captured begin_four_good [OF fin slots, of hyp target] begin_three_good [OF fin slots, of ?w]
      unfolding down by (auto simp del: split_paired_Ex split: if_split)
  next
    case False
    then have unblocked: "gesture st \<noteq> Some (BlockedGesture ?w)" "\<not> (4 \<le> length ?same \<and> own)" "\<not> (3 \<le> length ?same \<and> own)"
      by auto
    show ?thesis
    proof (cases "gesture st")
      case None
      then show ?thesis
        unfolding down if_not_P [OF unblocked(1)] if_not_P [OF unblocked(2)] if_not_P [OF unblocked(3)]
        using pair [OF None] corner [OF None] none [of False, folded no_update_consume]
        by (simp del: split_paired_Ex) (auto simp del: split_paired_Ex)
    next
      case (Some g)
      then show ?thesis
        unfolding down if_not_P [OF unblocked(1)] if_not_P [OF unblocked(2)] if_not_P [OF unblocked(3)]
        using promote_good [OF ok Some, of ?w target] none [of False, folded no_update_consume] none [of "captured_at st slot"]
        by (simp del: split_paired_Ex)
    qed
  qed
  then show ?thesis
    using good_update_cong [OF same] by simp
qed

lemma move_gesture_good:
  assumes "gesture_ok cs g" "move_gesture hyp cs g slot pos = (g', acts)"
  shows "gesture_ok cs g' \<and> follows (Some g) acts (Some g')"
  using assms
  by (cases g) (auto simp: move_gesture_def gesture_ok_def follows_def Let_def placement_follows_def
      pinch_follows [unfolded placement_follows_def, simplified] split: if_splits option.splits)

text \<open>A motion outside a pinch that has not begun.\<close>

lemma touch_motion_other:
  assumes "contacts st0 slot = Some c" "st = st0\<lparr>contacts := (contacts st0)(slot \<mapsto> c\<lparr>ct_position := pos\<rparr>)\<rparr>"
    and "\<nexists>ss w ps i moved k. gesture st = Some (PinchCandidate ss w ps i moved) \<and> position (\<lambda>s. s = slot) ss = Some k"
  shows "touch_motion hyp st0 slot pos =
    (if \<not> ct_captured c then (st, no_update)
     else case gesture st of
       None \<Rightarrow> (st, no_update\<lparr>tu_consume := True\<rparr>)
     | Some g \<Rightarrow> (case move_gesture hyp (contacts st) g slot pos of
         (g', acts) \<Rightarrow> (st\<lparr>gesture := Some g'\<rparr>, \<lparr>tu_consume = True, tu_captured = [], tu_actions = acts\<rparr>)))"
  using assms(1,3)
  by (auto simp: touch_motion_def assms(2) [symmetric] Let_def split: option.splits touch_gesture.splits)

lemma touch_motion_good:
  assumes "touch_ok st0"
  shows "good_update st0 (touch_motion hyp st0 slot pos)"
proof (cases "contacts st0 slot")
  case None
  then show ?thesis
    using assms by (simp add: touch_motion_def good_update_def no_update_def)
next
  case (Some c)
  define st where "st = st0\<lparr>contacts := (contacts st0)(slot \<mapsto> c\<lparr>ct_position := pos\<rparr>)\<rparr>"
  have same: "gesture st = gesture st0"
    by (simp add: st_def)
  have ok: "touch_ok st"
    unfolding st_def by (rule touch_ok_contact [OF assms])
  have fin: "finite (dom (contacts st))"
    using ok by (simp add: touch_ok_def)
  have none: "good_update st (st, no_update\<lparr>tu_consume := b\<rparr>)" for b
    by (rule good_no_update [OF ok]) simp
  show ?thesis
  proof (cases "\<exists>ss w ps i moved k. gesture st = Some (PinchCandidate ss w ps i moved) \<and> position (\<lambda>s. s = slot) ss = Some k")
    case True
    then obtain ss w ps i moved k where g: "gesture st = Some (PinchCandidate ss w ps i moved)" "position (\<lambda>s. s = slot) ss = Some k"
      by blast
    have "ss \<noteq> []" "set ss \<subseteq> dom (contacts st)"
      using ok g(1) by (auto simp: touch_ok_def gesture_ok_def)
    then have "good_update st (st\<lparr>gesture := Some (PinchCandidate ss w ps i moved')\<rparr>, no_update\<lparr>tu_consume := b\<rparr>)"
        "good_update st (captured_update (st\<lparr>gesture := Some (Pinch ss w ps i (directional_pinch_geometry i ps qs))\<rparr>) ss
          [Placement w PlacementBegin PlacementResize i, Placement w PlacementUpdate PlacementResize (directional_pinch_geometry i ps qs)])"
      for moved' b qs
      using fin g(1)
      by (auto simp: good_update_def touch_ok_def gesture_ok_def follows_def no_update_def pinch_follows intro!: good_captured_update)
    then show ?thesis
      using g Some good_update_cong [OF same]
      by (auto simp: touch_motion_def st_def [symmetric] Let_def split: option.splits)
  next
    case False
    have moved: "good_update st (case move_gesture hyp (contacts st) g slot pos of
        (g', acts) \<Rightarrow> (st\<lparr>gesture := Some g'\<rparr>, \<lparr>tu_consume = True, tu_captured = [], tu_actions = acts\<rparr>))" if "gesture st = Some g" for g
      using move_gesture_good [of "contacts st" g] ok that by (auto simp: good_update_def touch_ok_def split: prod.splits)
    have "touch_motion hyp st0 slot pos =
        (if \<not> ct_captured c then (st, no_update)
         else case gesture st of
           None \<Rightarrow> (st, no_update\<lparr>tu_consume := True\<rparr>)
         | Some g \<Rightarrow> (case move_gesture hyp (contacts st) g slot pos of
             (g', acts) \<Rightarrow> (st\<lparr>gesture := Some g'\<rparr>, \<lparr>tu_consume = True, tu_captured = [], tu_actions = acts\<rparr>)))"
      by (rule touch_motion_other [OF Some st_def]) (use False in blast)
    then show ?thesis
      using none [of True] none [of False, folded no_update_consume] moved good_update_cong [OF same] by (auto split: option.splits)
  qed
qed

lemma captured_contact_dom: "has_captured_window_contact st w \<Longrightarrow> dom (contacts st) \<noteq> {}"
  by (auto simp: has_captured_window_contact_def ran_def)

lemma finish_contact_good:
  assumes "touch_ok st0"
  shows "good_update st0 (finish_contact st0 slot)"
proof (cases "contacts st0 slot")
  case None
  then show ?thesis
    using assms by (simp add: finish_contact_def good_update_def no_update_def)
next
  case (Some c)
  define st where "st = st0\<lparr>contacts := (contacts st0)(slot := None)\<rparr>"
  have fin: "finite (dom (contacts st))"
    using assms by (simp add: touch_ok_def st_def)
  show ?thesis
  proof (cases "gesture st0")
    case None
    then show ?thesis
      using Some fin by (simp add: finish_contact_def st_def good_update_def touch_ok_def no_update_def)
  next
    case (Some g)
    have g: "gesture_ok (contacts st0) g"
      using assms Some by (simp add: touch_ok_def)
    show ?thesis
    proof (cases "gesture_includes g slot")
      case False
      then have "gesture_ok (contacts st) g"
        using g by (cases g) (auto simp: gesture_ok_def st_def)
      then show ?thesis
        using \<open>contacts st0 slot = Some c\<close> Some False fin
        by (simp add: finish_contact_def st_def [symmetric]) (simp add: st_def good_update_def touch_ok_def no_update_def)
    next
      case True
      define G where "G = (if has_captured_window_contact st (gesture_window g) \<and> keeps_blocked g
        then Some (BlockedGesture (gesture_window g)) else None)"
      have "finish_contact st0 slot =
          (st\<lparr>gesture := G\<rparr>, no_update\<lparr>tu_consume := ct_captured c, tu_actions := option_list (finish_action g)\<rparr>)"
        using \<open>contacts st0 slot = Some c\<close> Some True
        by (cases g) (simp_all add: finish_contact_def G_def keeps_blocked_def option_list_def no_update_def st_def)
      moreover have "touch_ok (st\<lparr>gesture := G\<rparr>)"
        using fin captured_contact_dom by (auto simp: G_def touch_ok_def gesture_ok_def)
      moreover have "follows (Some g) (option_list (finish_action g)) G"
        using follows_finish [of G "Some g"] by (simp add: G_def)
      ultimately show ?thesis
        using Some by (simp add: good_update_def)
    qed
  qed
qed

section \<open>Every sequence of touches\<close>

text \<open>Any fingers, also ones that go down twice, and resets of the device.\<close>

inductive touch_run :: "(f64 \<Rightarrow> f64 \<Rightarrow> f64) \<Rightarrow> touch_state \<Rightarrow> touch_window_action list \<Rightarrow> bool" for hyp where
  touch_idle: "touch_run hyp touch_state_default []"
| finger_down: "touch_run hyp st acts \<Longrightarrow> touch_down hyp st slot pos target = Some (st', u) \<Longrightarrow> touch_run hyp st' (acts @ tu_actions u)"
| finger_moved: "touch_run hyp st acts \<Longrightarrow> touch_motion hyp st slot pos = (st', u) \<Longrightarrow> touch_run hyp st' (acts @ tu_actions u)"
| finger_up: "touch_run hyp st acts \<Longrightarrow> finish_contact st slot = (st', u) \<Longrightarrow> touch_run hyp st' (acts @ tu_actions u)"
| touches_reset: "touch_run hyp st acts \<Longrightarrow> cancel_all st = (st', ended) \<Longrightarrow> touch_run hyp st' (acts @ ended)"

lemma touch_run_good: "touch_run hyp st acts \<Longrightarrow> touch_ok st \<and> read_actions None acts = Some (placement_of (gesture st))"
proof (induction rule: touch_run.induct)
  case touch_idle
  show ?case
    by (simp add: touch_state_default_def touch_ok_def)
next
  case (finger_down st acts slot pos target st' u)
  then show ?case
    using touch_down_good [of st hyp slot pos target] by (auto simp: good_update_def follows_def read_actions_append)
next
  case (finger_moved st acts slot pos st' u)
  then show ?case
    using touch_motion_good [of st hyp slot pos] by (auto simp: good_update_def follows_def read_actions_append)
next
  case (finger_up st acts slot st' u)
  then show ?case
    using finish_contact_good [of st slot] by (auto simp: good_update_def follows_def read_actions_append)
next
  case (touches_reset st acts st' ended)
  then show ?case
    by (auto simp: cancel_all_def touch_ok_def read_actions_append read_finish)
qed

lemma touch_ok_lifted: "touch_ok st \<Longrightarrow> contacts st = Map.empty \<Longrightarrow> gesture st = None"
proof (cases "gesture st")
  case (Some g)
  assume "touch_ok st" "contacts st = Map.empty"
  then show ?thesis
    using Some by (cases g) (auto simp: touch_ok_def gesture_ok_def)
qed

text \<open>C28: Whatever fingers go down, move, lift and are cancelled, the recognizer never panics, and what it tells about a window
  is in order: a move or resize begins once, is updated and ended for the same window with its last geometry, is open
  exactly while its gesture is under way, and nothing else happens meanwhile; a move keeps the size and a resize gives
  whole sizes between 64 and 16384. When all fingers are lifted nothing is under way.\<close>

theorem touch_placements_in_order:
  assumes "touch_run hyp st acts"
  shows "read_actions None acts = Some (placement_of (gesture st)) \<and> (contacts st = Map.empty \<longrightarrow> gesture st = None) \<and>
    (\<forall>slot pos target. touch_down hyp st slot pos target \<noteq> None)"
  using touch_run_good [OF assms] touch_ok_lifted touch_down_good by fastforce

definition fires :: "touch_window_action \<Rightarrow> bool" where
  "fires a \<longleftrightarrow> (case a of Placement w phase change g \<Rightarrow> False | _ \<Rightarrow> True)"

lemma move_gesture_fires:
  assumes "move_gesture hyp cs g slot pos = (g', acts)" "a \<in> set acts" "fires a"
  shows "acts = [a] \<and> g' = BlockedGesture (gesture_window g)"
  using assms by (cases g) (auto simp: move_gesture_def fires_def Let_def split: if_splits option.splits)

lemma option_list_fires: "a \<in> set (option_list (Option.bind g finish_action)) \<Longrightarrow> \<not> fires a"
proof (cases g)
  case (Some g')
  assume "a \<in> set (option_list (Option.bind g finish_action))"
  then show ?thesis
    using Some by (cases g' rule: finish_action.cases) (auto simp: option_list_def fires_def)
qed (simp add: option_list_def)

lemma touch_motion_cases:
  assumes "touch_motion hyp st slot pos = (st', u)"
  shows "(\<forall>a\<in>set (tu_actions u). \<not> fires a) \<or>
    (\<exists>g cs. gesture st = Some g \<and> gesture st' \<noteq> None \<and> move_gesture hyp cs g slot pos = (the (gesture st'), tu_actions u))"
  using assms
  by (auto simp: touch_motion_def Let_def no_update_def captured_update_def fires_def simp del: split_paired_All split_paired_Ex
      split: option.splits prod.splits if_splits touch_gesture.splits)

lemma touch_motion_fires:
  assumes "touch_motion hyp st slot pos = (st', u)" "a \<in> set (tu_actions u)" "fires a"
  shows "tu_actions u = [a] \<and> (\<exists>g. gesture st = Some g \<and> gesture st' = Some (BlockedGesture (gesture_window g)))"
  using touch_motion_cases [OF assms(1)] assms(2,3) move_gesture_fires [OF _ assms(2,3)] by (metis option.collapse)

lemma touch_motion_blocked:
  "gesture st = Some (BlockedGesture w) \<Longrightarrow> touch_motion hyp st slot pos = (st', u) \<Longrightarrow>
     tu_actions u = [] \<and> gesture st' = Some (BlockedGesture w)"
  by (auto simp: touch_motion_def no_update_def move_gesture_def Let_def split: option.splits if_splits)

lemma touch_down_blocked:
  "gesture st = Some (BlockedGesture w) \<Longrightarrow> touch_down hyp st slot pos target = Some (st', u) \<Longrightarrow>
     tu_actions u = [] \<and> gesture st' = Some (BlockedGesture w)"
  by (auto simp: touch_down_def no_update_def captured_update_def Let_def is_touch_move_def split: option.splits if_splits prod.splits)

lemma finish_contact_blocked:
  "gesture st = Some (BlockedGesture w) \<Longrightarrow> finish_contact st slot = (st', u) \<Longrightarrow>
     tu_actions u = [] \<and> gesture st' = (if contacts st slot = None \<or> has_captured_window_contact st' w then Some (BlockedGesture w) else None)"
  by (auto simp: finish_contact_def no_update_def option_list_def keeps_blocked_def has_captured_window_contact_def
      split: option.splits if_splits)

text \<open>C29: A finger that moves minimizes or closes a window or triggers its shortcut at most once: then the gesture is over,
  and until no finger that it took is left on the window, the recognizer does nothing more, whatever the fingers do.\<close>

theorem touch_gesture_fires_once:
  assumes "touch_motion hyp st slot pos = (st', u)" "a \<in> set (tu_actions u)" "fires a"
  shows "tu_actions u = [a] \<and> (\<exists>w. gesture st' = Some (BlockedGesture w)) \<and>
    (\<forall>st w. gesture st = Some (BlockedGesture w) \<longrightarrow>
      (\<forall>slot pos. case touch_motion hyp st slot pos of (st', u) \<Rightarrow> tu_actions u = [] \<and> gesture st' = Some (BlockedGesture w)) \<and>
      (\<forall>slot pos target. case touch_down hyp st slot pos target of
         None \<Rightarrow> True | Some (st', u) \<Rightarrow> tu_actions u = [] \<and> gesture st' = Some (BlockedGesture w)) \<and>
      (\<forall>slot. case finish_contact st slot of (st', u) \<Rightarrow> tu_actions u = [] \<and>
         (gesture st' = Some (BlockedGesture w) \<or> gesture st' = None \<and> \<not> has_captured_window_contact st' w)))"
proof -
  have "(\<forall>slot pos. case touch_motion hyp st slot pos of (st', u) \<Rightarrow> tu_actions u = [] \<and> gesture st' = Some (BlockedGesture w)) \<and>
      (\<forall>slot pos target. case touch_down hyp st slot pos target of
         None \<Rightarrow> True | Some (st', u) \<Rightarrow> tu_actions u = [] \<and> gesture st' = Some (BlockedGesture w)) \<and>
      (\<forall>slot. case finish_contact st slot of (st', u) \<Rightarrow> tu_actions u = [] \<and>
         (gesture st' = Some (BlockedGesture w) \<or> gesture st' = None \<and> \<not> has_captured_window_contact st' w))"
    if "gesture st = Some (BlockedGesture w)" for st w
    using touch_motion_blocked [OF that] touch_down_blocked [OF that] finish_contact_blocked [OF that]
    by (auto simp del: split_paired_All split: option.splits prod.splits)
  then show ?thesis
    using touch_motion_fires [OF assms] by blast
qed

definition corner_target :: touch_window_target where
  "corner_target = \<lparr>tt_window = 7, tt_geometry = \<lparr>wg_x = Finite 0, wg_y = Finite 0, wg_width = Finite 300, wg_height = Finite 200\<rparr>,
     in_gesture_strip = False, in_move_corner = True, tt_locked = False\<rparr>"

definition flat_hypot :: "f64 \<Rightarrow> f64 \<Rightarrow> f64" where
  "flat_hypot x y = f64_abs x"

lemma corner_down: "touch_down flat_hypot touch_state_default 1 (Finite 0, Finite 0) (Some corner_target) =
  Some (\<lparr>contacts = [1 \<mapsto> \<lparr>ct_position = (Finite 0, Finite 0), ct_target = Some corner_target, ct_captured = True\<rparr>],
      gesture = Some (TouchMove 1 7 (Finite 0, Finite 0) (tt_geometry corner_target) (tt_geometry corner_target) False False)\<rparr>,
    \<lparr>tu_consume = True, tu_captured = [1], tu_actions = []\<rparr>)"
  by (simp add: touch_down_def touch_state_default_def window_slots_def set_iter_def contact_on_def corner_target_def Let_def
      captured_at_def captured_update_def)

theorem touch_placements_in_order_witness:
  "read_actions None [Placement 7 PlacementBegin PlacementMove (tt_geometry corner_target),
     Placement 7 PlacementUpdate PlacementMove ((tt_geometry corner_target)\<lparr>wg_x := Finite 5, wg_y := Finite 0\<rparr>)] =
   Some (Some (7, PlacementMove, (tt_geometry corner_target)\<lparr>wg_x := Finite 5, wg_y := Finite 0\<rparr>))"
proof -
  let ?g = "tt_geometry corner_target"
  let ?g' = "?g\<lparr>wg_x := Finite 5, wg_y := Finite 0\<rparr>"
  let ?acts = "[Placement 7 PlacementBegin PlacementMove ?g, Placement 7 PlacementUpdate PlacementMove ?g']"
  let ?c = "\<lparr>ct_position = (Finite 5, Finite 0), ct_target = Some corner_target, ct_captured = True\<rparr>"
  let ?st = "\<lparr>contacts = [1 \<mapsto> ?c], gesture = Some (TouchMove 1 7 (Finite 0, Finite 0) ?g ?g' True False)\<rparr>"
  have "touch_run flat_hypot ?st ?acts"
    using finger_moved [OF finger_down [OF touch_idle corner_down], of 1 "(Finite 5, Finite 0)" ?st
        "\<lparr>tu_consume = True, tu_captured = [], tu_actions = ?acts\<rparr>"]
    by (simp add: touch_motion_def move_gesture_def point_sub_def MOVE_SLOP_def corner_target_def Let_def)
  from touch_placements_in_order [OF this] show ?thesis
    by simp
qed

theorem touch_gesture_fires_once_witness:
  "\<exists>st'. gesture st' = Some (BlockedGesture 7) \<and> (\<forall>pos. tu_actions (snd (touch_motion flat_hypot st' 1 pos)) = [])"
proof -
  let ?c = "\<lambda>y. \<lparr>ct_position = (Finite 0, Finite y), ct_target = Some corner_target, ct_captured = True\<rparr>"
  let ?st = "\<lparr>contacts = [1 \<mapsto> ?c 0, 2 \<mapsto> ?c 100], gesture = Some (MinimizeSwipe [1, 2] 7 (Finite 0, Finite 0))\<rparr>"
  let ?st' = "\<lparr>contacts = [1 \<mapsto> ?c 100, 2 \<mapsto> ?c 100], gesture = Some (BlockedGesture 7)\<rparr>"
  let ?u = "\<lparr>tu_consume = True, tu_captured = [], tu_actions = [MinimizeWindow 7]\<rparr>"
  have "touch_motion flat_hypot ?st 1 (Finite 0, Finite 100) = (?st', ?u)"
    by (simp add: touch_motion_def move_gesture_def contact_center_def center_of_two_def point_sub_def MINIMIZE_SWIPE_DISTANCE_def
        Let_def fun_upd_twist)
  from touch_gesture_fires_once [OF this, of "MinimizeWindow 7", THEN conjunct2, THEN conjunct2, rule_format, of ?st' 7]
  have "\<forall>pos. case touch_motion flat_hypot ?st' 1 pos of (st', u) \<Rightarrow> tu_actions u = [] \<and> gesture st' = Some (BlockedGesture 7)"
    by (simp add: fires_def del: split_paired_All)
  then show ?thesis
    by (intro exI [of _ ?st']) (auto simp: case_prod_beta)
qed

end
