(* ===== verification/Touchpad_Gestures.thy ===== *)
theory Touchpad_Gestures
  imports Shortcut_Engine F64
begin

text \<open>
  The touchpad gestures (\<open>compositor/src/bin/deniald/touchpad_gestures.rs\<close>): the recognizer that turns the swipe
  updates of each touchpad into triggers, repeats and ends, and the routing of its events through the shortcut engine
  (\<open>process_touchpad_gesture_event\<close> and \<open>reset_input_devices\<close> of \<open>wayland_frontend/input.rs\<close>). A device is named by
  its system name; the time at which an event is handled is a parameter.
\<close>

section \<open>The recognizer\<close>

datatype swipe_direction = SwipeUp | SwipeDown | SwipeLeft | SwipeRight

record swipe_binding =
  sw_bound_fingers :: u32
  sw_direction :: swipe_direction
  sw_minimum_distance :: f64
  sw_gesture :: shortcut_gesture

definition DIRECTION_DOMINANCE :: f64 where "DIRECTION_DOMINANCE = Finite (3 / 2)"
definition THREE_FINGER_SWIPE_DISTANCE :: f64 where "THREE_FINGER_SWIPE_DISTANCE = Finite 100"
definition FOUR_FINGER_SWIPE_DISTANCE :: f64 where "FOUR_FINGER_SWIPE_DISTANCE = Finite 100"

definition SWIPE_BINDINGS :: "swipe_binding list" where
  "SWIPE_BINDINGS =
     [\<lparr>sw_bound_fingers = 3, sw_direction = SwipeUp, sw_minimum_distance = THREE_FINGER_SWIPE_DISTANCE, sw_gesture = ThreeFingerSwipeUp\<rparr>,
      \<lparr>sw_bound_fingers = 3, sw_direction = SwipeLeft, sw_minimum_distance = THREE_FINGER_SWIPE_DISTANCE, sw_gesture = ThreeFingerSwipeLeft\<rparr>,
      \<lparr>sw_bound_fingers = 3, sw_direction = SwipeRight, sw_minimum_distance = THREE_FINGER_SWIPE_DISTANCE, sw_gesture = ThreeFingerSwipeRight\<rparr>,
      \<lparr>sw_bound_fingers = 4, sw_direction = SwipeLeft, sw_minimum_distance = FOUR_FINGER_SWIPE_DISTANCE, sw_gesture = FourFingerSwipeLeft\<rparr>,
      \<lparr>sw_bound_fingers = 4, sw_direction = SwipeRight, sw_minimum_distance = FOUR_FINGER_SWIPE_DISTANCE, sw_gesture = FourFingerSwipeRight\<rparr>]"

datatype touchpad_gesture_event = Trigger shortcut_gesture | Repeat shortcut_gesture | EndOf shortcut_gesture

record active_swipe =
  sw_fingers :: u32
  delta_x :: f64
  delta_y :: f64
  triggered :: "shortcut_gesture option"

definition swipe_new :: "u32 \<Rightarrow> active_swipe" where
  "swipe_new n = \<lparr>sw_fingers = n, delta_x = Finite 0, delta_y = Finite 0, triggered = None\<rparr>"

definition direction_and_distance :: "active_swipe \<Rightarrow> (swipe_direction \<times> f64) option" where
  "direction_and_distance s =
     (let absolute_x = f64_abs (delta_x s);
          absolute_y = f64_abs (delta_y s);
          (direction, primary, cross_axis) =
            (if f64_lt absolute_y absolute_x
             then (if f64_lt (delta_x s) (Finite 0) then SwipeLeft else SwipeRight, absolute_x, absolute_y)
             else (if f64_lt (delta_y s) (Finite 0) then SwipeUp else SwipeDown, absolute_y, absolute_x))
      in if f64_le (f64_mul cross_axis DIRECTION_DOMINANCE) primary then Some (direction, primary) else None)"

definition recognized_gesture :: "active_swipe \<Rightarrow> shortcut_gesture option" where
  "recognized_gesture s =
     Option.bind (direction_and_distance s) (\<lambda>(direction, distance).
       map_option sw_gesture (find (\<lambda>b. sw_bound_fingers b = sw_fingers s \<and> sw_direction b = direction \<and>
         f64_le (sw_minimum_distance b) distance) SWIPE_BINDINGS))"

text \<open>\<open>Inl\<close> when a sum is no longer finite.\<close>

definition swipe_update :: "active_swipe \<Rightarrow> f64 \<Rightarrow> f64 \<Rightarrow> unit + active_swipe \<times> touchpad_gesture_event option" where
  "swipe_update s dx dy =
     (let next_x = f64_add (delta_x s) dx;
          next_y = f64_add (delta_y s) dy
      in if \<not> f64_is_finite next_x \<or> \<not> f64_is_finite next_y then Inl ()
         else
           let s1 = s\<lparr>delta_x := next_x, delta_y := next_y\<rparr>
           in (case recognized_gesture s1 of
                 None \<Rightarrow> Inr (s1, None)
               | Some gesture \<Rightarrow>
                   if triggered s1 = None
                   then Inr (s1\<lparr>triggered := Some gesture, delta_x := Finite 0, delta_y := Finite 0\<rparr>, Some (Trigger gesture))
                   else if gesture = ThreeFingerSwipeLeft \<or> gesture = ThreeFingerSwipeRight
                   then Inr (s1\<lparr>delta_x := Finite 0, delta_y := Finite 0\<rparr>, Some (Repeat gesture))
                   else Inr (s1, None)))"

definition end_event :: "active_swipe \<Rightarrow> touchpad_gesture_event option" where
  "end_event s = map_option EndOf (triggered s)"

type_synonym recognizer = "string \<rightharpoonup> active_swipe"

definition begin_swipe :: "recognizer \<Rightarrow> string \<Rightarrow> u32 \<Rightarrow> recognizer" where
  "begin_swipe swipes device n = swipes(device \<mapsto> swipe_new n)"

definition update_swipe :: "recognizer \<Rightarrow> string \<Rightarrow> f64 \<Rightarrow> f64 \<Rightarrow> recognizer \<times> touchpad_gesture_event option" where
  "update_swipe swipes device dx dy =
     (case swipes device of
        None \<Rightarrow> (swipes, None)
      | Some s \<Rightarrow>
          (case swipe_update s dx dy of
             Inr (s', ev) \<Rightarrow> (swipes(device \<mapsto> s'), ev)
           | Inl _ \<Rightarrow> (swipes(device := None), end_event s)))"

definition end_swipe :: "recognizer \<Rightarrow> string \<Rightarrow> recognizer \<times> touchpad_gesture_event option" where
  "end_swipe swipes device = (swipes(device := None), Option.bind (swipes device) end_event)"

definition recognizer_reset :: "recognizer \<Rightarrow> recognizer" where
  "recognizer_reset swipes = Map.empty"

section \<open>Routing\<close>

datatype swipe_input = SwipeBegin string u32 | SwipeUpdate string f64 f64 | SwipeEnd string | NoSwipe

record gesture_state =
  touchpads :: recognizer
  engine :: shortcut_engine

text \<open>What the recognizer makes of an input event.\<close>

definition recognize :: "recognizer \<Rightarrow> swipe_input \<Rightarrow> recognizer \<times> touchpad_gesture_event option" where
  "recognize swipes input = (case input of
     SwipeBegin device n \<Rightarrow> (begin_swipe swipes device n, None)
   | SwipeUpdate device dx dy \<Rightarrow> update_swipe swipes device dx dy
   | SwipeEnd device \<Rightarrow> end_swipe swipes device
   | NoSwipe \<Rightarrow> (swipes, None))"

definition gesture_disposition ::
  "shortcut_engine \<Rightarrow> touchpad_gesture_event \<Rightarrow> instant \<Rightarrow> shortcut_engine \<times> shortcut_disposition" where
  "gesture_disposition e ev now = (case ev of
     Trigger gesture \<Rightarrow> observe_gesture_at e gesture now
   | Repeat gesture \<Rightarrow> (e, observe_gesture_repeat_at e gesture now)
   | EndOf gesture \<Rightarrow> end_gesture e gesture)"

text \<open>The state, the calls that are made, and whether the event was a swipe and was handled.\<close>

definition process_touchpad_gesture_event ::
  "bool \<Rightarrow> bool \<Rightarrow> (shortcut_disposition \<Rightarrow> bool) \<Rightarrow> gesture_state \<Rightarrow> swipe_input \<Rightarrow> instant \<Rightarrow>
     gesture_state \<times> shortcut_effect list \<times> bool option" where
  "process_touchpad_gesture_event flutter_active locked accepts st input now =
     (if \<not> flutter_active \<or> locked
      then (if input \<noteq> NoSwipe
            then (st\<lparr>touchpads := recognizer_reset (touchpads st), engine := cancel_gestures (engine st)\<rparr>, [], Some False)
            else (st, [], None))
      else if input = NoSwipe then (st, [], None)
      else
        (case recognize (touchpads st) input of
           (swipes, None) \<Rightarrow> (st\<lparr>touchpads := swipes\<rparr>, [], Some False)
         | (swipes, Some ev) \<Rightarrow>
             let (e, d) = gesture_disposition (engine st) ev now;
                 (effects, handled) = execute_shortcut_disposition accepts d
             in (st\<lparr>touchpads := swipes, engine := e\<rparr>, effects, Some handled)))"

definition reset_input_devices :: "gesture_state \<Rightarrow> bool \<Rightarrow> bool \<Rightarrow> gesture_state" where
  "reset_input_devices st keyboard pointer =
     (let st1 = (if keyboard then st\<lparr>engine := engine_reset (engine st)\<rparr> else st)
      in if pointer then st1\<lparr>touchpads := recognizer_reset (touchpads st1), engine := cancel_gestures (engine st1)\<rparr> else st1)"

section \<open>One swipe\<close>

text \<open>The fingers and the direction of a gesture.\<close>

fun gesture_way :: "shortcut_gesture \<Rightarrow> u32 \<times> swipe_direction" where
  "gesture_way ThreeFingerSwipeUp = (3, SwipeUp)"
| "gesture_way ThreeFingerSwipeLeft = (3, SwipeLeft)"
| "gesture_way ThreeFingerSwipeRight = (3, SwipeRight)"
| "gesture_way FourFingerSwipeLeft = (4, SwipeLeft)"
| "gesture_way FourFingerSwipeRight = (4, SwipeRight)"

lemma recognized_gesture_iff:
  "recognized_gesture s = Some g \<longleftrightarrow>
     (\<exists>d. direction_and_distance s = Some (snd (gesture_way g), d) \<and> f64_le (Finite 100) d) \<and> sw_fingers s = fst (gesture_way g)"
proof (cases "direction_and_distance s")
  case (Some r)
  obtain direction d where r: "r = (direction, d)"
    by (cases r)
  then show ?thesis
    using Some by (cases g; cases direction)
      (auto simp: recognized_gesture_def SWIPE_BINDINGS_def THREE_FINGER_SWIPE_DISTANCE_def FOUR_FINGER_SWIPE_DISTANCE_def)
qed (simp add: recognized_gesture_def)

text \<open>The way the fingers went: at least 100 in the direction, and one and a half times as far as across it.\<close>

definition moved :: "swipe_direction \<Rightarrow> rat \<Rightarrow> rat \<Rightarrow> bool" where
  "moved direction x y = (case direction of
     SwipeLeft \<Rightarrow> x \<le> - 100 \<and> \<bar>y\<bar> < \<bar>x\<bar> \<and> f64_le (rnd (\<bar>y\<bar> * (3 / 2))) (Finite \<bar>x\<bar>)
   | SwipeRight \<Rightarrow> 100 \<le> x \<and> \<bar>y\<bar> < \<bar>x\<bar> \<and> f64_le (rnd (\<bar>y\<bar> * (3 / 2))) (Finite \<bar>x\<bar>)
   | SwipeUp \<Rightarrow> y \<le> - 100 \<and> \<bar>x\<bar> \<le> \<bar>y\<bar> \<and> f64_le (rnd (\<bar>x\<bar> * (3 / 2))) (Finite \<bar>y\<bar>)
   | SwipeDown \<Rightarrow> 100 \<le> y \<and> \<bar>x\<bar> \<le> \<bar>y\<bar> \<and> f64_le (rnd (\<bar>x\<bar> * (3 / 2))) (Finite \<bar>y\<bar>))"

lemma direction_choice:
  "(\<exists>d. (if A then (if P then Some (if neg_x then SwipeLeft else SwipeRight, a) else None)
        else (if Q then Some (if neg_y then SwipeUp else SwipeDown, b) else None)) = Some (dir, d) \<and> f64_le c d) =
     (case dir of
        SwipeLeft \<Rightarrow> A \<and> P \<and> neg_x \<and> f64_le c a
      | SwipeRight \<Rightarrow> A \<and> P \<and> \<not> neg_x \<and> f64_le c a
      | SwipeUp \<Rightarrow> \<not> A \<and> Q \<and> neg_y \<and> f64_le c b
      | SwipeDown \<Rightarrow> \<not> A \<and> Q \<and> \<not> neg_y \<and> f64_le c b)"
  by (cases dir) auto

lemma recognized_moved:
  assumes "delta_x s = Finite x" "delta_y s = Finite y"
  shows "recognized_gesture s = Some g \<longleftrightarrow> moved (snd (gesture_way g)) x y \<and> sw_fingers s = fst (gesture_way g)"
proof -
  have direction: "direction_and_distance s =
      (if \<bar>y\<bar> < \<bar>x\<bar>
       then (if f64_le (rnd (\<bar>y\<bar> * (3 / 2))) (Finite \<bar>x\<bar>) then Some (if x < 0 then SwipeLeft else SwipeRight, Finite \<bar>x\<bar>) else None)
       else (if f64_le (rnd (\<bar>x\<bar> * (3 / 2))) (Finite \<bar>y\<bar>) then Some (if y < 0 then SwipeUp else SwipeDown, Finite \<bar>y\<bar>) else None))"
    by (simp add: direction_and_distance_def Let_def assms DIRECTION_DOMINANCE_def)
  have sign: "x < 0 \<and> 100 \<le> \<bar>x\<bar> \<longleftrightarrow> x \<le> - 100" "\<not> x < 0 \<and> 100 \<le> \<bar>x\<bar> \<longleftrightarrow> 100 \<le> x"
      "y < 0 \<and> 100 \<le> \<bar>y\<bar> \<longleftrightarrow> y \<le> - 100" "\<not> y < 0 \<and> 100 \<le> \<bar>y\<bar> \<longleftrightarrow> 100 \<le> y"
    by linarith+
  have "(\<exists>d. direction_and_distance s = Some (dir, d) \<and> f64_le (Finite 100) d) \<longleftrightarrow> moved dir x y" for dir
  proof -
    have le: "f64_le (Finite 100) (Finite q) \<longleftrightarrow> 100 \<le> q" for q
      by simp
    show ?thesis
      unfolding direction direction_choice le moved_def sign [symmetric] not_less [symmetric, of "\<bar>y\<bar>"]
      by (cases dir) (auto simp only: swipe_direction.case)
  qed
  then show ?thesis
    unfolding recognized_gesture_iff by simp
qed

lemma f64_finite_cases: "f64_is_finite a \<longleftrightarrow> (\<exists>x. a = Finite x)"
  by (cases a) auto

definition horizontal :: "shortcut_gesture set" where
  "horizontal = {ThreeFingerSwipeLeft, ThreeFingerSwipeRight}"

text \<open>A swipe with the events it reported and the movements since the last report, oldest first.\<close>

inductive swipe_run :: "u32 \<Rightarrow> active_swipe \<Rightarrow> touchpad_gesture_event list \<Rightarrow> (f64 \<times> f64) list \<Rightarrow> bool" for n where
  swipe_started: "swipe_run n (swipe_new n) [] []"
| swipe_updated: "swipe_run n s evs since \<Longrightarrow> swipe_update s dx dy = Inr (s', ev) \<Longrightarrow>
    swipe_run n s' (evs @ (case ev of None \<Rightarrow> [] | Some ev \<Rightarrow> [ev])) (if ev = None then since @ [(dx, dy)] else [])"

text \<open>The sum of movements, in the order in which they arrive.\<close>

definition movement_x :: "(f64 \<times> f64) list \<Rightarrow> f64" where
  "movement_x moves = foldl f64_add (Finite 0) (map fst moves)"

definition movement_y :: "(f64 \<times> f64) list \<Rightarrow> f64" where
  "movement_y moves = foldl f64_add (Finite 0) (map snd moves)"

lemma movement_simps [simp]:
  "movement_x [] = Finite 0" "movement_x (moves @ [(dx, dy)]) = f64_add (movement_x moves) dx"
  "movement_y [] = Finite 0" "movement_y (moves @ [(dx, dy)]) = f64_add (movement_y moves) dy"
  by (simp_all add: movement_x_def movement_y_def)

definition swipe_ok :: "u32 \<Rightarrow> active_swipe \<Rightarrow> touchpad_gesture_event list \<Rightarrow> bool" where
  "swipe_ok n s evs \<longleftrightarrow> sw_fingers s = n \<and> f64_is_finite (delta_x s) \<and> f64_is_finite (delta_y s) \<and>
     (case triggered s of
        None \<Rightarrow> evs = []
      | Some g \<Rightarrow> fst (gesture_way g) = n \<and>
          (\<exists>rs. evs = Trigger g # map Repeat rs \<and> set rs \<subseteq> horizontal \<and> (rs \<noteq> [] \<longrightarrow> n = 3)))"

lemma swipe_update_cases:
  assumes "swipe_update s dx dy = Inr (s', ev)"
  obtains x y where "f64_add (delta_x s) dx = Finite x" "f64_add (delta_y s) dy = Finite y" "sw_fingers s' = sw_fingers s"
    "ev = None" "triggered s' = triggered s" "delta_x s' = Finite x" "delta_y s' = Finite y"
  | x y g where "f64_add (delta_x s) dx = Finite x" "f64_add (delta_y s) dy = Finite y" "sw_fingers s' = sw_fingers s"
    "moved (snd (gesture_way g)) x y" "fst (gesture_way g) = sw_fingers s" "delta_x s' = Finite 0" "delta_y s' = Finite 0"
    "triggered s = None" "triggered s' = Some g" "ev = Some (Trigger g)"
  | x y g where "f64_add (delta_x s) dx = Finite x" "f64_add (delta_y s) dy = Finite y" "sw_fingers s' = sw_fingers s"
    "moved (snd (gesture_way g)) x y" "fst (gesture_way g) = sw_fingers s" "delta_x s' = Finite 0" "delta_y s' = Finite 0"
    "triggered s \<noteq> None" "triggered s' = triggered s" "ev = Some (Repeat g)" "g \<in> horizontal"
proof -
  obtain x y where xy: "f64_add (delta_x s) dx = Finite x" "f64_add (delta_y s) dy = Finite y"
    using assms by (auto simp: swipe_update_def Let_def f64_finite_cases split: if_splits)
  define s1 where "s1 = s\<lparr>delta_x := Finite x, delta_y := Finite y\<rparr>"
  have step: "(case recognized_gesture s1 of
        None \<Rightarrow> Inr (s1, None)
      | Some gesture \<Rightarrow>
          if triggered s1 = None
          then Inr (s1\<lparr>triggered := Some gesture, delta_x := Finite 0, delta_y := Finite 0\<rparr>, Some (Trigger gesture))
          else if gesture = ThreeFingerSwipeLeft \<or> gesture = ThreeFingerSwipeRight
          then Inr (s1\<lparr>delta_x := Finite 0, delta_y := Finite 0\<rparr>, Some (Repeat gesture))
          else Inr (s1, None)) = (Inr (s', ev) :: unit + _)"
    using assms unfolding swipe_update_def Let_def xy s1_def by simp
  have moved: "recognized_gesture s1 = Some g \<longleftrightarrow> moved (snd (gesture_way g)) x y \<and> sw_fingers s = fst (gesture_way g)" for g
    using recognized_moved [of s1 x y g] by (simp add: s1_def)
  show thesis
  proof (cases "recognized_gesture s1")
    case None
    then show thesis
      using step that(1) [OF xy] by (auto simp: s1_def)
  next
    case (Some g)
    then have way: "moved (snd (gesture_way g)) x y" "fst (gesture_way g) = sw_fingers s"
      using moved [of g] by auto
    show thesis
      using step Some that(1) [OF xy] that(2) [OF xy _ way] that(3) [OF xy _ way]
      by (auto simp: s1_def horizontal_def split: if_splits)
  qed
qed

lemma swipe_run_ok: "swipe_run n s evs since \<Longrightarrow> swipe_ok n s evs"
proof (induction rule: swipe_run.induct)
  case swipe_started
  show ?case
    by (simp add: swipe_ok_def swipe_new_def)
next
  case (swipe_updated s evs since dx dy s' ev)
  from swipe_updated.hyps(2) show ?case
  proof (cases rule: swipe_update_cases)
    case (3 x y g)
    then obtain h where h1: "triggered s = Some h"
      by blast
    then obtain rs where h: "triggered s = Some h" "evs = Trigger h # map Repeat rs" "set rs \<subseteq> horizontal" "fst (gesture_way h) = n"
      using swipe_updated.IH by (auto simp: swipe_ok_def)
    have "n = 3"
      using 3 swipe_updated.IH by (auto simp: swipe_ok_def horizontal_def)
    then show ?thesis
      using 3 h swipe_updated.IH by (auto simp: swipe_ok_def intro!: exI [of _ "rs @ [g]"])
  qed (use swipe_updated.IH in \<open>auto simp: swipe_ok_def split: option.splits\<close>)
qed

lemma swipe_run_movement: "swipe_run n s evs since \<Longrightarrow> delta_x s = movement_x since \<and> delta_y s = movement_y since"
proof (induction rule: swipe_run.induct)
  case swipe_started
  show ?case
    by (simp add: swipe_new_def)
next
  case (swipe_updated s evs since dx dy s' ev)
  from swipe_updated.hyps(2) show ?case
    by (cases rule: swipe_update_cases) (use swipe_updated.IH in auto)
qed

lemma gesture_way_inject: "moved (snd (gesture_way g)) x y \<Longrightarrow> moved (snd (gesture_way h)) x y \<Longrightarrow>
    fst (gesture_way g) = fst (gesture_way h) \<Longrightarrow> g = h"
  by (cases g; cases h) (auto simp: moved_def)

lemma swipe_update_exact:
  assumes "sw_fingers s = n"
  shows "case swipe_update s dx dy of
      Inl _ \<Rightarrow> \<not> f64_is_finite (f64_add (delta_x s) dx) \<or> \<not> f64_is_finite (f64_add (delta_y s) dy)
    | Inr (s', ev) \<Rightarrow> (\<exists>x y. f64_add (delta_x s) dx = Finite x \<and> f64_add (delta_y s) dy = Finite y \<and>
        (\<forall>g. ev = Some (Trigger g) \<longleftrightarrow> triggered s = None \<and> moved (snd (gesture_way g)) x y \<and> fst (gesture_way g) = n) \<and>
        (\<forall>g. ev = Some (Repeat g) \<longleftrightarrow>
           triggered s \<noteq> None \<and> g \<in> horizontal \<and> moved (snd (gesture_way g)) x y \<and> fst (gesture_way g) = n) \<and>
        (\<forall>g. ev \<noteq> Some (EndOf g)))"
proof (cases "f64_is_finite (f64_add (delta_x s) dx) \<and> f64_is_finite (f64_add (delta_y s) dy)")
  case True
  then obtain x y where xy: "f64_add (delta_x s) dx = Finite x" "f64_add (delta_y s) dy = Finite y"
    by (auto simp: f64_finite_cases)
  define s1 where "s1 = s\<lparr>delta_x := Finite x, delta_y := Finite y\<rparr>"
  have way: "recognized_gesture s1 = Some g \<longleftrightarrow> moved (snd (gesture_way g)) x y \<and> fst (gesture_way g) = n" for g
    using recognized_moved [of s1 x y g] assms by (auto simp: s1_def)
  have update: "swipe_update s dx dy = (case recognized_gesture s1 of
        None \<Rightarrow> Inr (s1, None)
      | Some gesture \<Rightarrow>
          if triggered s = None
          then Inr (s1\<lparr>triggered := Some gesture, delta_x := Finite 0, delta_y := Finite 0\<rparr>, Some (Trigger gesture))
          else if gesture \<in> horizontal
          then Inr (s1\<lparr>delta_x := Finite 0, delta_y := Finite 0\<rparr>, Some (Repeat gesture))
          else Inr (s1, None))"
    unfolding swipe_update_def Let_def xy s1_def horizontal_def by (auto split: option.split)
  show ?thesis
  proof (cases "recognized_gesture s1")
    case None
    then show ?thesis
      using way xy by (simp add: update)
  next
    case (Some g)
    then have "moved (snd (gesture_way h)) x y \<and> fst (gesture_way h) = n \<longleftrightarrow> h = g" for h
      using way [of h] by auto
    then show ?thesis
      using xy Some by (auto simp: update)
  qed
qed (auto simp: swipe_update_def Let_def)

text \<open>C27: A swipe triggers at most one gesture, before every repetition; only horizontal three-finger movements repeat; and
  the end of the swipe, also when it is cut off because a sum is no longer finite, names the gesture that it
  triggered. The first report of a swipe is the trigger of a gesture of its fingers, exactly when the movement went at
  least 100 in the direction of the gesture and one and a half times as far as across; from then on a repetition is
  reported exactly when the movement since the last report did so for a horizontal three-finger gesture.\<close>

theorem swipe_events_in_order:
  assumes "swipe_run n s evs since"
  shows "(case triggered s of
      None \<Rightarrow> evs = []
    | Some g \<Rightarrow> fst (gesture_way g) = n \<and> (\<exists>rs. evs = Trigger g # map Repeat rs \<and> set rs \<subseteq> horizontal \<and> (rs \<noteq> [] \<longrightarrow> n = 3))) \<and>
    snd (end_swipe (swipes(device \<mapsto> s)) device) = map_option EndOf (triggered s) \<and>
    (case swipe_update s dx dy of
      Inl _ \<Rightarrow> (\<not> f64_is_finite (movement_x (since @ [(dx, dy)])) \<or> \<not> f64_is_finite (movement_y (since @ [(dx, dy)]))) \<and>
        update_swipe (swipes(device \<mapsto> s)) device dx dy = (swipes(device := None), map_option EndOf (triggered s))
    | Inr (s', ev) \<Rightarrow> update_swipe (swipes(device \<mapsto> s)) device dx dy = (swipes(device \<mapsto> s'), ev) \<and>
        (\<exists>x y. movement_x (since @ [(dx, dy)]) = Finite x \<and> movement_y (since @ [(dx, dy)]) = Finite y \<and>
        (\<forall>g. ev = Some (Trigger g) \<longleftrightarrow> triggered s = None \<and> moved (snd (gesture_way g)) x y \<and> fst (gesture_way g) = n) \<and>
        (\<forall>g. ev = Some (Repeat g) \<longleftrightarrow>
           triggered s \<noteq> None \<and> g \<in> horizontal \<and> moved (snd (gesture_way g)) x y \<and> fst (gesture_way g) = n) \<and>
        (\<forall>g. ev \<noteq> Some (EndOf g))))"
proof -
  have ok: "swipe_ok n s evs"
    by (rule swipe_run_ok [OF assms])
  then have fingers: "sw_fingers s = n"
    by (simp add: swipe_ok_def)
  note movement = swipe_run_movement [OF assms]
  show ?thesis
    using ok movement swipe_update_exact [OF fingers, of dx dy]
    by (auto simp: swipe_ok_def end_swipe_def end_event_def update_swipe_def split: sum.splits prod.splits)
qed

definition sample_swipe :: active_swipe where
  "sample_swipe = \<lparr>sw_fingers = 3, delta_x = Finite 0, delta_y = Finite 0, triggered = Some ThreeFingerSwipeLeft\<rparr>"

lemma sample_swipe_update: "swipe_update (swipe_new 3) (Finite (- 120)) (Finite 10) = Inr (sample_swipe, Some (Trigger ThreeFingerSwipeLeft))"
  by (simp add: swipe_update_def swipe_new_def recognized_gesture_def direction_and_distance_def DIRECTION_DOMINANCE_def
      SWIPE_BINDINGS_def THREE_FINGER_SWIPE_DISTANCE_def FOUR_FINGER_SWIPE_DISTANCE_def sample_swipe_def)

lemma swipe_events_in_order_witness: "triggered sample_swipe = Some ThreeFingerSwipeLeft"
proof -
  have run: "swipe_run 3 sample_swipe [Trigger ThreeFingerSwipeLeft] []"
    using swipe_updated [OF swipe_started sample_swipe_update] by simp
  show ?thesis
    using swipe_events_in_order [OF run, THEN conjunct1] by (auto split: option.splits)
qed

section \<open>Gestures and the window switcher\<close>

text \<open>Touchpads, keyboard and pointer together. A touchpad begins a swipe only after its last one has ended.\<close>

inductive gesture_run :: "compiled_shortcut list \<Rightarrow> gesture_state \<Rightarrow> bool" for bs where
  gestures_idle: "gesture_run bs \<lparr>touchpads = Map.empty, engine = engine_of bs\<rparr>"
| swipe_routed: "gesture_run bs st \<Longrightarrow> \<forall>device n. input = SwipeBegin device n \<longrightarrow> touchpads st device = None \<Longrightarrow>
    process_touchpad_gesture_event active locked accepts st input now = (st', effects, handled) \<Longrightarrow> gesture_run bs st'"
| key_routed: "gesture_run bs st \<Longrightarrow> gesture_run bs (st\<lparr>engine := fst (intercept_native_escape locked accepts (engine st) xkb pressed)\<rparr>)"
| pointer_routed: "gesture_run bs st \<Longrightarrow> gesture_run bs (st\<lparr>engine := note_pointer_button (engine st) pressed\<rparr>)"
| devices_reset: "gesture_run bs st \<Longrightarrow> gesture_run bs (reset_input_devices st keyboard pointer)"

definition session_has_swipe :: "gesture_state \<Rightarrow> bool" where
  "session_has_swipe st \<longleftrightarrow> (\<forall>g t. switcher_release (engine st) = Some (ReleaseGesture g t) \<longrightarrow>
     (\<exists>device s. touchpads st device = Some s \<and> triggered s = Some g))"

lemma swipe_routed': "gesture_run bs st \<Longrightarrow> \<forall>device n. input = SwipeBegin device n \<longrightarrow> touchpads st device = None \<Longrightarrow>
    gesture_run bs (fst (process_touchpad_gesture_event active locked accepts st input now))"
  by (cases "process_touchpad_gesture_event active locked accepts st input now") (auto intro: swipe_routed)

lemma observe_gesture_session:
  "switcher_release (fst (observe e k pressed)) = Some (ReleaseGesture g t) \<Longrightarrow> switcher_release e = Some (ReleaseGesture g t)"
  by (auto simp: observe_def observe_logo_def observe_modifier_def observe_press_def observe_release_def switcher_owner_def Let_def
      split: option.splits prod.splits if_splits)

lemma intercept_gesture_session:
  "switcher_release (fst (intercept_native_escape locked accepts e xkb pressed)) = Some (ReleaseGesture g t) \<Longrightarrow>
     switcher_release e = Some (ReleaseGesture g t)"
  using observe_gesture_session [of e "xkb - 8" pressed g t]
  by (auto simp: intercept_native_escape_eq Let_def pass_through_key_def split: if_splits prod.splits)

lemma cancel_gestures_session: "switcher_release (cancel_gestures e) \<noteq> Some (ReleaseGesture g t)"
  by (auto simp: cancel_gestures_def split: option.splits window_switcher_release.splits)

text \<open>What a swipe event leaves of the swipes, and what the engine makes of the recognizer's event.\<close>

lemma recognize_swipes:
  assumes "recognize swipes input = (swipes', ev)" "\<forall>device n. input = SwipeBegin device n \<longrightarrow> swipes device = None"
    and "swipes device = Some s" "triggered s = Some g" "ev \<noteq> Some (EndOf g)"
  shows "\<exists>s. swipes' device = Some s \<and> triggered s = Some g"
proof (cases "\<exists>dx dy. input = SwipeUpdate device dx dy")
  case True
  then obtain dx dy where input: "input = SwipeUpdate device dx dy"
    by blast
  show ?thesis
  proof (cases "swipe_update s dx dy")
    case (Inl u)
    then show ?thesis
      using assms by (simp add: input recognize_def update_swipe_def end_event_def)
  next
    case (Inr r)
    obtain s' ev' where r: "r = (s', ev')"
      by (cases r)
    then have "swipe_update s dx dy = Inr (s', ev')"
      using Inr by simp
    then have "triggered s' = Some g"
      using assms(4) by (cases rule: swipe_update_cases) auto
    then show ?thesis
      using assms(1,3) Inr r by (auto simp: input recognize_def update_swipe_def)
  qed
next
  case False
  then show ?thesis
    using assms
    by (auto simp: recognize_def begin_swipe_def update_swipe_def end_swipe_def end_event_def
        split: swipe_input.splits option.splits sum.splits prod.splits)
qed

lemma recognize_trigger:
  assumes "recognize swipes input = (swipes', Some (Trigger g))"
  shows "\<exists>device s. swipes' device = Some s \<and> triggered s = Some g"
proof (cases input)
  case (SwipeUpdate d dx dy)
  then show ?thesis
    using assms by (cases "swipes d"; cases "swipe_update (the (swipes d)) dx dy")
      (auto simp: recognize_def update_swipe_def end_event_def elim!: swipe_update_cases)
qed (use assms in \<open>auto simp: recognize_def begin_swipe_def end_swipe_def end_event_def bind_eq_Some_conv\<close>)

lemma gesture_disposition_session:
  assumes "gesture_disposition e ev now = (e', d)" "switcher_release e' = Some (ReleaseGesture g t)"
  shows "switcher_release e = Some (ReleaseGesture g t) \<and> ev \<noteq> EndOf g \<or> ev = Trigger g"
  using assms
  by (auto simp: gesture_disposition_def observe_gesture_at_def end_gesture_def
      split: touchpad_gesture_event.splits option.splits window_switcher_release.splits if_splits)

lemma gesture_run_session: "gesture_run bs st \<Longrightarrow> session_has_swipe st"
proof (induction rule: gesture_run.induct)
  case gestures_idle
  show ?case
    by (simp add: session_has_swipe_def engine_of_def)
next
  case (swipe_routed st input active locked accepts now st' effects handled)
  show ?case
    unfolding session_has_swipe_def
  proof (intro allI impI)
    fix g t
    assume session: "switcher_release (engine st') = Some (ReleaseGesture g t)"
    show "\<exists>device s. touchpads st' device = Some s \<and> triggered s = Some g"
    proof (cases "active \<and> \<not> locked \<and> input \<noteq> NoSwipe")
      case True
      obtain swipes ev where ev: "recognize (touchpads st) input = (swipes, ev)"
        by (cases "recognize (touchpads st) input")
      have st': "touchpads st' = swipes" "engine st' = (case ev of None \<Rightarrow> engine st | Some ev \<Rightarrow> fst (gesture_disposition (engine st) ev now))"
        using swipe_routed.hyps(3) True
        by (auto simp: process_touchpad_gesture_event_def ev Let_def split: option.splits prod.splits)
      have "switcher_release (engine st) = Some (ReleaseGesture g t) \<and> ev \<noteq> Some (EndOf g) \<or> ev = Some (Trigger g)"
        using session st'(2) gesture_disposition_session [of "engine st" _ now _ _ g t]
        by (cases ev) (auto simp: prod_eq_iff)
      then show ?thesis
      proof
        assume kept: "switcher_release (engine st) = Some (ReleaseGesture g t) \<and> ev \<noteq> Some (EndOf g)"
        then obtain device s where "touchpads st device = Some s" "triggered s = Some g"
          using swipe_routed.IH by (auto simp: session_has_swipe_def)
        then show ?thesis
          using recognize_swipes [OF ev swipe_routed.hyps(2)] kept st'(1) by blast
      next
        assume "ev = Some (Trigger g)"
        then show ?thesis
          using recognize_trigger ev st'(1) by blast
      qed
    next
      case False
      then show ?thesis
        using swipe_routed.hyps(3) swipe_routed.IH session cancel_gestures_session
        by (auto simp: process_touchpad_gesture_event_def session_has_swipe_def split: if_splits)
    qed
  qed
next
  case (key_routed st locked accepts xkb pressed)
  show ?case
    unfolding session_has_swipe_def
  proof (intro allI impI)
    fix g t
    assume "switcher_release (engine (st\<lparr>engine := fst (intercept_native_escape locked accepts (engine st) xkb pressed)\<rparr>)) =
      Some (ReleaseGesture g t)"
    then have "switcher_release (engine st) = Some (ReleaseGesture g t)"
      using intercept_gesture_session [of locked accepts "engine st" xkb pressed g t] by simp
    then show "\<exists>device s. touchpads (st\<lparr>engine := fst (intercept_native_escape locked accepts (engine st) xkb pressed)\<rparr>) device = Some s \<and>
        triggered s = Some g"
      using key_routed.IH by (simp add: session_has_swipe_def)
  qed
next
  case (pointer_routed st pressed)
  then show ?case
    by (auto simp: session_has_swipe_def note_pointer_button_def)
next
  case (devices_reset st keyboard pointer)
  then show ?case
    using cancel_gestures_session
    by (auto simp: session_has_swipe_def reset_input_devices_def engine_reset_def Let_def)
qed

text \<open>C24: However swipes on several touchpads, keys, pointer buttons, locks and device resets interleave, a session of the
  window switcher that a touchpad gesture opened has a swipe under way that triggered this gesture, so none is left
  when no swipe is under way. While the shell runs unlocked, the end of such a swipe, also one that is cut off
  because its movement is no longer finite, closes the session and tells the shell so. While the session is locked or
  the shell does not run, any swipe event closes the session and forgets all swipes, and the shell is told nothing.\<close>

theorem gesture_session_ends:
  assumes "gesture_run bs st" "switcher_release (engine st) = Some (ReleaseGesture g t)"
  shows "(\<exists>device s. touchpads st device = Some s \<and> triggered s = Some g) \<and>
    (\<forall>device s. touchpads st device = Some s \<and> triggered s = Some g \<longrightarrow>
      (case process_touchpad_gesture_event True False accepts st (SwipeEnd device) now of
         (st', effects, handled) \<Rightarrow> switcher_release (engine st') = None \<and> touchpads st' device = None \<and>
           effects = [QueueShellAction ShellWindowSwitcherEnd False] \<and> handled = Some True) \<and>
      (\<forall>dx dy. swipe_update s dx dy = Inl () \<longrightarrow>
        (case process_touchpad_gesture_event True False accepts st (SwipeUpdate device dx dy) now of
           (st', effects, handled) \<Rightarrow> switcher_release (engine st') = None \<and> touchpads st' device = None \<and>
             effects = [QueueShellAction ShellWindowSwitcherEnd False] \<and> handled = Some True))) \<and>
    (\<forall>active locked input. (\<not> active \<or> locked) \<and> input \<noteq> NoSwipe \<longrightarrow>
      process_touchpad_gesture_event active locked accepts st input now =
        (\<lparr>touchpads = Map.empty, engine = (engine st)\<lparr>switcher_release := None\<rparr>\<rparr>, [], Some False))"
proof (intro conjI allI impI)
  show "\<exists>device s. touchpads st device = Some s \<and> triggered s = Some g"
    using gesture_run_session [OF assms(1)] assms(2) by (auto simp: session_has_swipe_def)
  show "process_touchpad_gesture_event active locked accepts st input now =
      (\<lparr>touchpads = Map.empty, engine = (engine st)\<lparr>switcher_release := None\<rparr>\<rparr>, [], Some False)"
    if "(\<not> active \<or> locked) \<and> input \<noteq> NoSwipe" for active locked input
    using that assms(2) by (simp add: process_touchpad_gesture_event_def recognizer_reset_def cancel_gestures_def)
  fix device s
  assume s: "touchpads st device = Some s \<and> triggered s = Some g"
  then show "case process_touchpad_gesture_event True False accepts st (SwipeEnd device) now of
      (st', effects, handled) \<Rightarrow> switcher_release (engine st') = None \<and> touchpads st' device = None \<and>
        effects = [QueueShellAction ShellWindowSwitcherEnd False] \<and> handled = Some True"
    using assms(2)
    by (simp add: process_touchpad_gesture_event_def recognize_def end_swipe_def end_event_def gesture_disposition_def
        end_gesture_def execute_shortcut_disposition_def disposition_handled_def)
  fix dx dy
  assume "swipe_update s dx dy = Inl ()"
  then show "case process_touchpad_gesture_event True False accepts st (SwipeUpdate device dx dy) now of
      (st', effects, handled) \<Rightarrow> switcher_release (engine st') = None \<and> touchpads st' device = None \<and>
        effects = [QueueShellAction ShellWindowSwitcherEnd False] \<and> handled = Some True"
    using assms(2) s
    by (simp add: process_touchpad_gesture_event_def recognize_def update_swipe_def end_event_def gesture_disposition_def
        end_gesture_def execute_shortcut_disposition_def disposition_handled_def)
qed

definition sample_gesture_bindings :: "compiled_shortcut list" where
  "sample_gesture_bindings = [action_of (''ThreeFingerSwipeLeft'', WindowSwitcher)]"

definition sample_begun :: gesture_state where
  "sample_begun = fst (process_touchpad_gesture_event True False (\<lambda>_. True)
     \<lparr>touchpads = Map.empty, engine = engine_of sample_gesture_bindings\<rparr> (SwipeBegin ''pad'' 3) 0)"

definition sample_swiped :: gesture_state where
  "sample_swiped = fst (process_touchpad_gesture_event True False (\<lambda>_. True) sample_begun
     (SwipeUpdate ''pad'' (Finite (- 120)) (Finite 10)) 0)"

lemma gesture_session_ends_witness:
  "snd (snd (process_touchpad_gesture_event True False (\<lambda>_. True) sample_swiped (SwipeEnd ''pad'') 5)) = Some True"
proof -
  have "gesture_run sample_gesture_bindings sample_begun"
    unfolding sample_begun_def by (rule swipe_routed' [OF gestures_idle]) simp
  then have run: "gesture_run sample_gesture_bindings sample_swiped"
    unfolding sample_swiped_def by (rule swipe_routed') simp
  have trigger: "tr_modifiers (trigger_of ''ThreeFingerSwipeLeft'') = 0" "tr_key (trigger_of ''ThreeFingerSwipeLeft'') = Gesture ThreeFingerSwipeLeft"
    by code_simp+
  have begun: "sample_begun = \<lparr>touchpads = [''pad'' \<mapsto> swipe_new 3], engine = engine_of sample_gesture_bindings\<rparr>"
    by (simp add: sample_begun_def process_touchpad_gesture_event_def recognize_def begin_swipe_def)
  have sample: "switcher_release (engine sample_swiped) = Some (ReleaseGesture ThreeFingerSwipeLeft 190000000)"
      "touchpads sample_swiped ''pad'' = Some sample_swipe"
    by (simp_all add: sample_swiped_def begun process_touchpad_gesture_event_def recognize_def update_swipe_def sample_swipe_update
        gesture_disposition_def observe_gesture_at_def gesture_target_def engine_of_def sample_gesture_bindings_def action_of_def
        trigger execute_shortcut_disposition_def WINDOW_SWITCHER_GESTURE_HOLD_DELAY_def)
  have "touchpads sample_swiped ''pad'' = Some sample_swipe \<and> triggered sample_swipe = Some ThreeFingerSwipeLeft"
    using sample(2) by (simp add: sample_swipe_def)
  then have "case process_touchpad_gesture_event True False (\<lambda>_. True) sample_swiped (SwipeEnd ''pad'') 5 of
      (st', effects, handled) \<Rightarrow> switcher_release (engine st') = None \<and> touchpads st' ''pad'' = None \<and>
        effects = [QueueShellAction ShellWindowSwitcherEnd False] \<and> handled = Some True"
    by (rule gesture_session_ends [OF run sample(1), THEN conjunct2, THEN conjunct1, rule_format, THEN conjunct1])
  then show ?thesis
    by (cases "process_touchpad_gesture_event True False (\<lambda>_. True) sample_swiped (SwipeEnd ''pad'') 5") simp
qed

end
